(* ===== verification/Prelude.thy ===== *)
theory Prelude
  imports Complex_Main "HOL-Library.Word" "HOL-Library.Char_ord" "HOL-Library.List_Lexorder"
begin

text \<open>
  What every component shares: the machine integer types of the Rust sources, the pieces of
  Rust's standard library the sources use (saturating arithmetic, \<open>Iterator::position\<close>,
  \<open>Vec::sort_by\<close>, \<open>to_ascii_lowercase\<close>, decimal formatting), the FNV-1a hash that several crates
  repeat, and the generic lemmas on lists and words the component proofs rest on.

  Conventions. Unsigned integers of width \<open>w\<close> are \<open>w word\<close>, so \<open>+\<close> and \<open>*\<close> wrap, as in the release
  profile (\<open>overflow-checks = false\<close> in \<open>src/Cargo.toml\<close>). \<open>i64\<close> is an \<open>int\<close> whose wrapping and saturating
  operations are written out. \<open>usize\<close> values are lengths and indices and are \<open>nat\<close>. A Rust
  \<open>Result<T, E>\<close> is the sum \<open>'e + 't\<close> with \<open>Inl\<close> the error. A \<open>String\<close> is the list of its UTF-8 bytes.
\<close>

unbundle bit_operations_syntax

named_theorems rust_simps \<open>unfolding rules for the standard-library operations\<close>

type_synonym u8 = "8 word"
type_synonym u16 = "16 word"
type_synonym u32 = "32 word"
type_synonym u64 = "64 word"
type_synonym i64 = int
type_synonym usize = nat
type_synonym ('a, 'e) result = "'e + 'a"

subsection \<open>Integers\<close>

definition sat_add :: "'a::len word \<Rightarrow> 'a word \<Rightarrow> 'a word" where
  "sat_add a b = (if unat a + unat b < 2 ^ LENGTH('a) then a + b else - 1)"

definition wrap_i64 :: "int \<Rightarrow> i64" where
  "wrap_i64 n = (n + 2 ^ 63) mod 2 ^ 64 - 2 ^ 63"

definition in_i64 :: "int \<Rightarrow> bool" where
  "in_i64 n \<longleftrightarrow> - (2 ^ 63) \<le> n \<and> n < 2 ^ 63"

definition i64_MIN :: i64 where
  "i64_MIN = - (2 ^ 63)"

definition i64_MAX :: i64 where
  "i64_MAX = 2 ^ 63 - 1"

definition i64_sub :: "i64 \<Rightarrow> i64 \<Rightarrow> i64" where
  "i64_sub a b = wrap_i64 (a - b)"

definition i64_saturating_sub :: "i64 \<Rightarrow> i64 \<Rightarrow> i64" where
  "i64_saturating_sub a b = max i64_MIN (min i64_MAX (a - b))"

text \<open>The cast \<open>x as i64\<close> of an unsigned value reinterprets the two's complement bits.\<close>

definition as_i64 :: "nat \<Rightarrow> i64" where
  "as_i64 n = wrap_i64 (int n)"

lemma unat_sat_add: "unat (sat_add a b) = min (unat a + unat b) (2 ^ LENGTH('a) - 1)"
  for a b :: "'a::len word"
proof (cases "unat a + unat b < 2 ^ LENGTH('a)")
  case True
  then show ?thesis by (simp add: sat_add_def unat_word_ariths)
next
  case False
  then show ?thesis by (simp add: sat_add_def unsigned_minus_1_eq_mask mask_eq_exp_minus_1)
qed

lemma sat_add_ge: "a \<le> sat_add a b" for a b :: "'a::len word"
proof -
  have "unat a < 2 ^ LENGTH('a)" by (rule unsigned_less)
  then show ?thesis by (simp add: word_le_nat_alt unat_sat_add Suc_leI le_diff_conv2)
qed

lemma sat_add_one_pos: "0 < sat_add a 1" for a :: "'a::len word"
proof -
  have "(1::nat) < 2 ^ LENGTH('a)" by (rule one_less_power) simp_all
  then show ?thesis by (simp add: word_less_nat_alt unat_sat_add)
qed

lemma wrap_i64_id [simp]: "in_i64 n \<Longrightarrow> wrap_i64 n = n"
  by (simp add: wrap_i64_def in_i64_def)

lemma in_i64_wrap [simp]: "in_i64 (wrap_i64 n)"
  by (simp add: wrap_i64_def in_i64_def)

lemma i64_sub_id: "in_i64 (a - b) \<Longrightarrow> i64_sub a b = a - b"
  by (simp add: i64_sub_def)

subsection \<open>Slices and vectors\<close>

text \<open>\<open>Iterator::position\<close>: the index of the first element that satisfies the predicate.\<close>

fun position :: "('a \<Rightarrow> bool) \<Rightarrow> 'a list \<Rightarrow> usize option" where
  "position P [] = None"
| "position P (x # xs) = (if P x then Some 0 else map_option Suc (position P xs))"

lemma position_None [simp]: "position P xs = None \<longleftrightarrow> (\<forall>x \<in> set xs. \<not> P x)"
  by (induction xs) auto

lemma position_SomeD:
  "position P xs = Some i \<Longrightarrow> i < length xs \<and> P (xs ! i) \<and> (\<forall>j < i. \<not> P (xs ! j))"
proof (induction xs arbitrary: i)
  case Nil
  then show ?case by simp
next
  case (Cons x xs)
  then show ?case
    by (auto split: if_splits simp: less_Suc_eq_0_disj)
qed

lemma find_SomeD: "List.find P xs = Some x \<Longrightarrow> x \<in> set xs \<and> P x"
  by (induction xs) (auto split: if_splits)

lemma find_None_filter: "List.find P xs = None \<longleftrightarrow> filter P xs = []"
  by (induction xs) auto

text \<open>
  \<open>slice::sort_by\<close> is a stable sort; \<open>le a b\<close> says that the comparator does not answer \<open>Greater\<close>. For a
  total preorder the stable sorted list is unique, so insertion sort gives what the library gives.
\<close>

fun insert_by :: "('a \<Rightarrow> 'a \<Rightarrow> bool) \<Rightarrow> 'a \<Rightarrow> 'a list \<Rightarrow> 'a list" where
  "insert_by le x [] = [x]"
| "insert_by le x (y # ys) = (if le x y then x # y # ys else y # insert_by le x ys)"

definition sort_by :: "('a \<Rightarrow> 'a \<Rightarrow> bool) \<Rightarrow> 'a list \<Rightarrow> 'a list" where
  "sort_by le xs = foldr (insert_by le) xs []"

lemma sort_by_simps [simp]:
  "sort_by le [] = []"
  "sort_by le (x # xs) = insert_by le x (sort_by le xs)"
  by (simp_all add: sort_by_def)

lemma set_insert_by [simp]: "set (insert_by le x xs) = insert x (set xs)"
  by (induction xs) auto

lemma set_sort_by [simp]: "set (sort_by le xs) = set xs"
  by (induction xs) auto

lemma length_insert_by [simp]: "length (insert_by le x xs) = Suc (length xs)"
  by (induction xs) auto

lemma length_sort_by [simp]: "length (sort_by le xs) = length xs"
  by (induction xs) auto

lemma sort_by_eq_Nil [simp]: "sort_by le xs = [] \<longleftrightarrow> xs = []"
  by (metis length_0_conv length_sort_by)

text \<open>For a total preorder the result is sorted and its head is a least element.\<close>

definition total_preorder_on :: "'a set \<Rightarrow> ('a \<Rightarrow> 'a \<Rightarrow> bool) \<Rightarrow> bool" where
  "total_preorder_on A le \<longleftrightarrow>
     (\<forall>x \<in> A. \<forall>y \<in> A. le x y \<or> le y x) \<and>
     (\<forall>x \<in> A. \<forall>y \<in> A. \<forall>z \<in> A. le x y \<longrightarrow> le y z \<longrightarrow> le x z)"

lemma sorted_insert_by:
  assumes "total_preorder_on A le" and "insert x (set ys) \<subseteq> A" and "sorted_wrt le ys"
  shows "sorted_wrt le (insert_by le x ys)"
  using assms(2,3)
proof (induction ys)
  case Nil
  then show ?case by simp
next
  case (Cons y ys)
  show ?case
  proof (cases "le x y")
    case True
    moreover have "le x z" if "z \<in> set ys" for z
      using that True Cons.prems assms(1) unfolding total_preorder_on_def
      by (metis insert_subset list.simps(15) sorted_wrt.simps(2) subset_iff)
    ultimately show ?thesis using Cons.prems by simp
  next
    case False
    then have "le y x"
      using Cons.prems(1) assms(1) unfolding total_preorder_on_def by auto
    then show ?thesis using False Cons by auto
  qed
qed

lemma sorted_sort_by:
  "total_preorder_on A le \<Longrightarrow> set xs \<subseteq> A \<Longrightarrow> sorted_wrt le (sort_by le xs)"
  by (induction xs) (auto intro!: sorted_insert_by)

lemma hd_sort_by_least:
  assumes "total_preorder_on (set xs) le" and "sort_by le xs = y # ys" and "x \<in> set xs"
  shows "le y x"
proof -
  have "sorted_wrt le (y # ys)"
    using sorted_sort_by [OF assms(1)] assms(2) by (metis order_refl)
  moreover have "x \<in> set (y # ys)"
    using assms(2,3) set_sort_by by metis
  moreover have "le y y"
    using assms set_sort_by [of le xs] unfolding total_preorder_on_def by auto
  ultimately show ?thesis by auto
qed

subsection \<open>Strings\<close>

definition to_ascii_lowercase_char :: "char \<Rightarrow> char" where
  "to_ascii_lowercase_char c =
     (let n = of_char c :: nat in if 65 \<le> n \<and> n \<le> 90 then char_of (n + 32) else c)"

definition to_ascii_lowercase :: "string \<Rightarrow> string" where
  "to_ascii_lowercase s = map to_ascii_lowercase_char s"

fun show_nat :: "nat \<Rightarrow> string" where
  "show_nat n =
     (if n < 10 then [char_of (48 + n)] else show_nat (n div 10) @ [char_of (48 + n mod 10)])"

declare show_nat.simps [simp del]

definition show_u :: "'a::len word \<Rightarrow> string" where
  "show_u w = show_nat (unat w)"

lemma to_ascii_lowercase_char_idem:
  "to_ascii_lowercase_char (to_ascii_lowercase_char c) = to_ascii_lowercase_char c"
proof -
  have "of_char c < (256::nat)" by simp
  then show ?thesis
    by (auto simp: to_ascii_lowercase_char_def Let_def of_char_of)
qed

lemma to_ascii_lowercase_idem [simp]:
  "to_ascii_lowercase (to_ascii_lowercase s) = to_ascii_lowercase s"
  by (simp add: to_ascii_lowercase_def to_ascii_lowercase_char_idem)

subsection \<open>FNV-1a\<close>

text \<open>The loop \<open>hash ^= byte; hash = hash.wrapping_mul(prime)\<close> shared by five functions of the sources.\<close>

definition fnv1a :: "'a::len word \<Rightarrow> 'a word \<Rightarrow> u8 list \<Rightarrow> 'a word" where
  "fnv1a prime h bytes = foldl (\<lambda>hash b. (hash XOR ucast b) * prime) h bytes"

definition bytes_of :: "string \<Rightarrow> u8 list" where
  "bytes_of s = map of_char s"

definition to_le_bytes_u32 :: "u32 \<Rightarrow> u8 list" where
  "to_le_bytes_u32 w =
     [ucast w, ucast (drop_bit 8 w), ucast (drop_bit 16 w), ucast (drop_bit 24 w)]"

end
