(* ===== verification/Types.thy ===== *)
theory Types
  imports Prelude
begin

text \<open>
  The vocabulary of \<open>src/crates/balansir-common/src/types.rs\<close>: health statuses and tiers, driver
  identities, actions, the wire requests and results exchanged with the executor, and the desired
  and actual states the control plane reconciles. Enumerations keep the source's constructors, with
  a prefix where two enumerations share a name; struct fields carry a prefix of their struct.

  \<open>std::net::IpAddr\<close> is the 32-bit or 128-bit address. \<open>postcard\<close>, the serialisation crate, is not part of
  the repository: functions that call it take the encoder as their argument \<open>enc\<close>.
\<close>

subsection \<open>Health\<close>

datatype HealthStatus =
    HS_Healthy
  | HS_Degraded u32
  | HS_Unhealthy u32
  | HS_Unknown

datatype HealthTier = HT_Healthy | HT_Degraded | HT_Failing | HT_Disabled

fun tier_as_u8 :: "HealthTier \<Rightarrow> u8" where
  "tier_as_u8 HT_Healthy = 0"
| "tier_as_u8 HT_Degraded = 1"
| "tier_as_u8 HT_Failing = 2"
| "tier_as_u8 HT_Disabled = 3"

definition tier_from_u8 :: "u8 \<Rightarrow> HealthTier option" where
  "tier_from_u8 value =
     (if value = 0 then Some HT_Healthy
      else if value = 1 then Some HT_Degraded
      else if value = 2 then Some HT_Failing
      else if value = 3 then Some HT_Disabled
      else None)"

fun tier_name :: "HealthTier \<Rightarrow> string" where
  "tier_name HT_Healthy = ''healthy''"
| "tier_name HT_Degraded = ''degraded''"
| "tier_name HT_Failing = ''failing''"
| "tier_name HT_Disabled = ''disabled''"

fun from_health_status :: "HealthStatus \<Rightarrow> HealthTier" where
  "from_health_status HS_Healthy = HT_Healthy"
| "from_health_status (HS_Degraded _) = HT_Degraded"
| "from_health_status (HS_Unhealthy _) = HT_Failing"
| "from_health_status HS_Unknown = HT_Disabled"

text \<open>The derived \<open>Ord\<close> of \<open>HealthTier\<close> compares the discriminants.\<close>

instantiation HealthTier :: linorder
begin

definition less_eq_HealthTier :: "HealthTier \<Rightarrow> HealthTier \<Rightarrow> bool" where
  "less_eq_HealthTier a b \<longleftrightarrow> tier_as_u8 a \<le> tier_as_u8 b"

definition less_HealthTier :: "HealthTier \<Rightarrow> HealthTier \<Rightarrow> bool" where
  "less_HealthTier a b \<longleftrightarrow> tier_as_u8 a < tier_as_u8 b"

instance
proof
  fix x y z :: HealthTier
  show "x < y \<longleftrightarrow> x \<le> y \<and> \<not> y \<le> x"
    by (auto simp: less_eq_HealthTier_def less_HealthTier_def)
  show "x \<le> x" by (simp add: less_eq_HealthTier_def)
  show "x \<le> y \<Longrightarrow> y \<le> z \<Longrightarrow> x \<le> z" by (simp add: less_eq_HealthTier_def)
  show "x \<le> y \<Longrightarrow> y \<le> x \<Longrightarrow> x = y"
    by (cases x; cases y) (simp_all add: less_eq_HealthTier_def word_le_nat_alt)
  show "x \<le> y \<or> y \<le> x" by (auto simp: less_eq_HealthTier_def)
qed

end

subsection \<open>Drivers\<close>

datatype DriverAction = DA_Start | DA_Stop | DA_Restart | DA_Status

datatype DriverId =
    WireGuard
  | AmneziaWG
  | Xray
  | Hysteria
  | B4
  | DnsForwarder
  | Custom u32

fun driver_as_u32 :: "DriverId \<Rightarrow> u32" where
  "driver_as_u32 WireGuard = 1"
| "driver_as_u32 AmneziaWG = 2"
| "driver_as_u32 Xray = 3"
| "driver_as_u32 Hysteria = 4"
| "driver_as_u32 B4 = 5"
| "driver_as_u32 DnsForwarder = 6"
| "driver_as_u32 (Custom i) = i"

definition driver_from_u32 :: "u32 \<Rightarrow> DriverId" where
  "driver_from_u32 i =
     (if i = 1 then WireGuard
      else if i = 2 then AmneziaWG
      else if i = 3 then Xray
      else if i = 4 then Hysteria
      else if i = 5 then B4
      else if i = 6 then DnsForwarder
      else Custom i)"

definition hash_name :: "string \<Rightarrow> u32" where
  "hash_name name = fnv1a 0x01000193 0x811c9dc5 (bytes_of name)"

definition driver_from_name :: "string \<Rightarrow> DriverId" where
  "driver_from_name name =
     (let n = to_ascii_lowercase name in
      if n = ''wireguard'' \<or> n = ''wg'' then WireGuard
      else if n = ''amneziawg'' \<or> n = ''awg'' then AmneziaWG
      else if n = ''xray'' \<or> n = ''xray-core'' then Xray
      else if n = ''hysteria'' \<or> n = ''hysteria2'' then Hysteria
      else if n = ''b4'' then B4
      else if n = ''dnsforwarder'' \<or> n = ''dns'' then DnsForwarder
      else Custom (hash_name name))"

fun canonical_name :: "DriverId \<Rightarrow> string" where
  "canonical_name WireGuard = ''wireguard''"
| "canonical_name AmneziaWG = ''amneziawg''"
| "canonical_name Xray = ''xray''"
| "canonical_name Hysteria = ''hysteria''"
| "canonical_name B4 = ''b4''"
| "canonical_name DnsForwarder = ''dnsforwarder''"
| "canonical_name (Custom _) = ''custom''"

text \<open>\<open>Display\<close> of a driver; the derived \<open>Debug\<close>, which plan printing uses, writes the same text.\<close>

fun show_driver :: "DriverId \<Rightarrow> string" where
  "show_driver WireGuard = ''WireGuard''"
| "show_driver AmneziaWG = ''AmneziaWG''"
| "show_driver Xray = ''Xray''"
| "show_driver Hysteria = ''Hysteria''"
| "show_driver B4 = ''B4''"
| "show_driver DnsForwarder = ''DnsForwarder''"
| "show_driver (Custom i) = ''Custom('' @ show_u i @ '')''"

subsection \<open>The health view consulted by policy\<close>

type_synonym HealthView = "DriverId \<rightharpoonup> HealthStatus"

definition health_view_new :: HealthView where
  "health_view_new = Map.empty"

definition health_view_set :: "HealthView \<Rightarrow> DriverId \<Rightarrow> HealthStatus \<Rightarrow> HealthView" where
  "health_view_set v driver health = v(driver \<mapsto> health)"

definition health_view_extend :: "HealthView \<Rightarrow> (DriverId \<times> HealthStatus) list \<Rightarrow> HealthView" where
  "health_view_extend v iter = foldl (\<lambda>m (d, h). m(d \<mapsto> h)) v iter"

definition health_view_status :: "HealthView \<Rightarrow> DriverId \<Rightarrow> HealthStatus" where
  "health_view_status v driver = (case v driver of Some h \<Rightarrow> h | None \<Rightarrow> HS_Unknown)"

definition is_routable :: "HealthView \<Rightarrow> DriverId \<Rightarrow> bool" where
  "is_routable v driver =
     (case health_view_status v driver of
        HS_Healthy \<Rightarrow> True
      | HS_Unknown \<Rightarrow> True
      | _ \<Rightarrow> False)"

subsection \<open>Actions\<close>

datatype IpAddr = V4 u32 | V6 "128 word"

datatype Action =
    Route u32
  | Mark u32
  | Forward DriverId
  | Block
  | Reject
  | Allow
  | Shape u32
  | Log
  | Queue u16

datatype ActionType =
    AT_Route | AT_Mark | AT_Forward | AT_Block | AT_Reject | AT_Allow | AT_Shape | AT_Log | AT_Queue

fun action_type :: "Action \<Rightarrow> ActionType" where
  "action_type (Route _) = AT_Route"
| "action_type (Mark _) = AT_Mark"
| "action_type (Forward _) = AT_Forward"
| "action_type Block = AT_Block"
| "action_type Reject = AT_Reject"
| "action_type Allow = AT_Allow"
| "action_type (Shape _) = AT_Shape"
| "action_type Log = AT_Log"
| "action_type (Queue _) = AT_Queue"

record MatcherStep =
  ms_rule_id :: u32
  ms_matched :: bool
  ms_reason :: u16

record DecisionTrace =
  dt_policy_id :: u32
  dt_steps :: "MatcherStep list"
  dt_action :: Action
  dt_execution_time_us :: u64
  dt_correlation_id :: u64

record ActionRequest =
  rq_action :: Action
  rq_src_ip :: IpAddr
  rq_dst_ip :: IpAddr
  rq_src_port :: u16
  rq_dst_port :: u16
  rq_protocol :: u8
  rq_interface :: u32
  rq_trace :: DecisionTrace

datatype ActionError =
    PermissionDenied
  | ResourceExhausted
  | InvalidArgument
  | KernelError u32
  | DriverNotAvailable DriverId
  | Timeout
  | AE_Unknown

datatype ActionResult =
    Applied u64 "u32 option"
  | AlreadyApplied
  | AR_Failed ActionError "string option"
  | Retry u32 string
  | Unsupported ActionType

subsection \<open>Desired and actual state\<close>

definition FAIL_CLOSED_RULE_ID :: u32 where
  "FAIL_CLOSED_RULE_ID = - 1"

record FlowCriteria =
  fc_src_ip :: "IpAddr option"
  fc_dst_ip :: "IpAddr option"
  fc_src_port :: "u16 option"
  fc_dst_port :: "u16 option"
  fc_protocol :: "u8 option"
  fc_dst_domain :: "string option"

record DesiredRule =
  dr_id :: u32
  dr_action :: Action
  dr_priority :: u32
  dr_flow :: "FlowCriteria option"

record DesiredDriver =
  dd_id :: DriverId
  dd_action :: DriverAction

record DesiredState =
  ds_rules :: "DesiredRule list"
  ds_drivers :: "DesiredDriver list"

definition default_DesiredState :: DesiredState where
  "default_DesiredState = \<lparr>ds_rules = [], ds_drivers = []\<rparr>"

record ActualRule =
  ar_id :: u32
  ar_action :: Action
  ar_rule_id :: "u32 option"
  ar_flow :: "FlowCriteria option"

record ActualState =
  as_active_rules :: "ActualRule list"

definition default_ActualState :: ActualState where
  "default_ActualState = \<lparr>as_active_rules = []\<rparr>"

record PathMtu =
  pm_path :: string
  pm_mtu :: u16

definition config_fingerprint :: "(DesiredState \<Rightarrow> u8 list option) \<Rightarrow> DesiredState \<Rightarrow> u64" where
  "config_fingerprint enc state =
     fnv1a 0x100000001b3 0xcbf29ce484222325 (case enc state of Some bytes \<Rightarrow> bytes | None \<Rightarrow> [])"

subsection \<open>Lemmas\<close>

lemma tier_from_u8_inverse [simp]: "tier_from_u8 (tier_as_u8 t) = Some t"
  by (cases t) (simp_all add: tier_from_u8_def)

lemma tier_from_u8_SomeD: "tier_from_u8 v = Some t \<Longrightarrow> tier_as_u8 t = v"
  by (auto simp: tier_from_u8_def split: if_splits)

lemma driver_as_from_u32 [simp]: "driver_as_u32 (driver_from_u32 i) = i"
  by (simp add: driver_from_u32_def)

lemma driver_from_as_u32:
  "driver_from_u32 (driver_as_u32 d) = d \<longleftrightarrow> (\<forall>i. d = Custom i \<longrightarrow> i \<notin> {1, 2, 3, 4, 5, 6})"
  by (cases d) (auto simp: driver_from_u32_def)

lemma to_ascii_lowercase_canonical:
  "to_ascii_lowercase (canonical_name d) = canonical_name d"
  by (cases d) (simp_all add: to_ascii_lowercase_def to_ascii_lowercase_char_def)

lemma health_view_status_set:
  "health_view_status (health_view_set v d h) d' = (if d' = d then h else health_view_status v d')"
  by (simp add: health_view_status_def health_view_set_def)

lemma health_view_extend_append:
  "health_view_extend v (xs @ [(d, h)]) = health_view_set (health_view_extend v xs) d h"
  by (simp add: health_view_extend_def health_view_set_def)

lemma is_routable_iff:
  "is_routable v d \<longleftrightarrow> from_health_status (health_view_status v d) \<in> {HT_Healthy, HT_Disabled}"
  by (cases "health_view_status v d") (simp_all add: is_routable_def)

text \<open>
  Driver identities survive the numeric wire form: converting a number to a driver and back is
  the identity, every built-in driver is recovered, and so is each custom driver whose number does
  not lie in the range 1 to 6 reserved for the built-in ones.
\<close>

theorem driver_id_roundtrip:
  "driver_as_u32 (driver_from_u32 i) = i \<and>
   (driver_from_u32 (driver_as_u32 d) = d \<longleftrightarrow> \<not> (\<exists>j. d = Custom j \<and> j \<in> {1, 2, 3, 4, 5, 6}))"
  by (auto simp: driver_from_as_u32)

text \<open>
  Configuration names are read case-insensitively: any spelling of a built-in driver's canonical
  name resolves to that driver, and a name that resolves to a custom driver carries the FNV-1a hash
  of the name exactly as written.
\<close>

theorem driver_from_name_spec:
  "(\<not> (\<exists>i. d = Custom i) \<and> to_ascii_lowercase name = canonical_name d \<longrightarrow>
      driver_from_name name = d) \<and>
   (driver_from_name name = Custom h \<longrightarrow> h = hash_name name)"
proof (intro conjI impI)
  assume "\<not> (\<exists>i. d = Custom i) \<and> to_ascii_lowercase name = canonical_name d"
  then show "driver_from_name name = d"
    by (cases d) (simp_all add: driver_from_name_def)
next
  assume "driver_from_name name = Custom h"
  then show "h = hash_name name"
    by (auto simp: driver_from_name_def Let_def split: if_splits)
qed

theorem driver_from_name_spec_witness:
  "driver_from_name ''WireGuard'' = WireGuard"
proof -
  have "to_ascii_lowercase ''WireGuard'' = canonical_name WireGuard" by code_simp
  then show ?thesis using driver_from_name_spec [of WireGuard "''WireGuard''" 0] by blast
qed

end
