(* ===== verification/Plan.thy ===== *)
theory Plan
  imports Types
begin

text \<open>
  Reconciliation plans: \<open>plan.rs\<close>, \<open>diff.rs\<close> and \<open>snapshot.rs\<close> of \<open>balansir-common\<close>, and the \<open>BasicPlanner\<close> of
  \<open>balansir-control\<close>. The abstract view of a state is the policy map from rule identifiers to the action
  and the flow criteria enforced for them; the refinement lemmas say that the plan computed by
  \<open>StateDiff::build\<close> carries the actual policy map to the desired one and that it is empty exactly when
  there is nothing to do. The locale \<open>planner\<close> is the contract the coordinator relies on.
\<close>

named_theorems plan_simps \<open>evaluation rules for plans\<close>

subsection \<open>Operations and plans\<close>

datatype ReconciliationOperation =
    CreateDriver DriverId
  | RemoveDriver DriverId
  | RestartDriver DriverId
  | UpdatePolicy DesiredRule
  | RemovePolicy u32
  | NoOp

fun show_operation :: "ReconciliationOperation \<Rightarrow> string" where
  "show_operation (CreateDriver i) = ''+ Create driver '' @ show_driver i"
| "show_operation (RemoveDriver i) = ''- Remove driver '' @ show_driver i"
| "show_operation (RestartDriver i) = ''~ Restart driver '' @ show_driver i"
| "show_operation (UpdatePolicy rule) = ''~ Update policy '' @ show_u (dr_id rule)"
| "show_operation (RemovePolicy i) = ''- Remove policy '' @ show_u i"
| "show_operation NoOp = ''NoOp''"

record PlanMetadata =
  md_plan_id :: "128 word"
  md_generation :: u64
  md_created_at :: int

text \<open>\<open>Uuid::new_v4()\<close> and \<open>Utc::now()\<close> are inputs of the environment.\<close>

definition PlanMetadata_new :: "128 word \<Rightarrow> int \<Rightarrow> u64 \<Rightarrow> PlanMetadata" where
  "PlanMetadata_new uuid now generation =
     \<lparr>md_plan_id = uuid, md_generation = generation, md_created_at = now\<rparr>"

record ReconciliationPlan =
  rp_generation_before :: u64
  rp_generation_after :: u64
  rp_operations :: "ReconciliationOperation list"

definition plan_new :: "u64 \<Rightarrow> ReconciliationOperation list \<Rightarrow> ReconciliationPlan" where
  "plan_new gen_before operations =
     \<lparr>rp_generation_before = gen_before,
      rp_generation_after =
        (if list_ex (\<lambda>op. op \<noteq> NoOp) operations then gen_before + 1 else gen_before),
      rp_operations = operations\<rparr>"

definition plan_is_empty :: "ReconciliationPlan \<Rightarrow> bool" where
  "plan_is_empty plan \<longleftrightarrow>
     rp_operations plan = [] \<or> list_all (\<lambda>op. op = NoOp) (rp_operations plan)"

fun is_created :: "ReconciliationOperation \<Rightarrow> bool" where
  "is_created (CreateDriver _) = True"
| "is_created _ = False"

fun is_restarted :: "ReconciliationOperation \<Rightarrow> bool" where
  "is_restarted (RestartDriver _) = True"
| "is_restarted _ = False"

fun is_updated :: "ReconciliationOperation \<Rightarrow> bool" where
  "is_updated (UpdatePolicy _) = True"
| "is_updated _ = False"

fun is_removed :: "ReconciliationOperation \<Rightarrow> bool" where
  "is_removed (RemovePolicy _) = True"
| "is_removed (RemoveDriver _) = True"
| "is_removed _ = False"

definition newline :: string where
  "newline = [CHR 0x0A]"

definition show_plan :: "ReconciliationPlan \<Rightarrow> string" where
  "show_plan plan =
     (let header = ''Configuration generation: '' @ show_u (rp_generation_before plan) @ '' -> ''
                     @ show_u (rp_generation_after plan) @ newline
      in if plan_is_empty plan
         then header @ newline @ ''No operations needed.'' @ newline
         else
           (let ops = rp_operations plan;
                lines = concat (map (\<lambda>op. ''  '' @ show_operation op @ newline)
                                  (filter (\<lambda>op. op \<noteq> NoOp) ops));
                created = length (filter is_created ops);
                restarted = length (filter is_restarted ops);
                updated = length (filter is_updated ops);
                removed = length (filter is_removed ops)
            in header @ newline @ ''Operations:'' @ newline @ lines
                 @ newline @ ''Summary:'' @ newline
                 @ ''  Drivers created: '' @ show_nat created @ newline
                 @ ''  Drivers restarted: '' @ show_nat restarted @ newline
                 @ ''  Policies updated: '' @ show_nat updated @ newline
                 @ ''  Items removed: '' @ show_nat removed @ newline))"

subsection \<open>The state difference\<close>

definition diff_rule :: "ActualState \<Rightarrow> DesiredRule \<Rightarrow> ReconciliationOperation list" where
  "diff_rule actual rule =
     (case List.find (\<lambda>r. ar_id r = dr_id rule) (as_active_rules actual) of
        Some ar \<Rightarrow>
          if ar_action ar = dr_action rule \<and> ar_flow ar = dr_flow rule then []
          else [UpdatePolicy rule]
      | None \<Rightarrow> [UpdatePolicy rule])"

definition diff_extra :: "DesiredState \<Rightarrow> ActualRule \<Rightarrow> ReconciliationOperation list" where
  "diff_extra desired actual_rule =
     (if \<not> list_ex (\<lambda>r. dr_id r = ar_id actual_rule) (ds_rules desired)
      then [RemovePolicy (ar_id actual_rule)] else [])"

definition build :: "DesiredState \<Rightarrow> ActualState \<Rightarrow> u64 \<Rightarrow> ReconciliationPlan" where
  "build desired actual current_generation =
     (let operations = concat (map (diff_rule actual) (ds_rules desired))
                       @ concat (map (diff_extra desired) (as_active_rules actual));
          operations = (if operations = [] then [NoOp] else operations)
      in plan_new current_generation operations)"

definition build_plan :: "DesiredState \<Rightarrow> ActualState \<Rightarrow> u64 \<Rightarrow> ReconciliationPlan" where
  "build_plan desired actual generation = build desired actual generation"

record Snapshot =
  sn_desired :: DesiredState
  sn_actual :: ActualState
  sn_metadata :: PlanMetadata

definition Snapshot_new :: "DesiredState \<Rightarrow> ActualState \<Rightarrow> PlanMetadata \<Rightarrow> Snapshot" where
  "Snapshot_new desired actual metadata =
     \<lparr>sn_desired = desired, sn_actual = actual, sn_metadata = metadata\<rparr>"

subsection \<open>The abstract policy map\<close>

type_synonym policy_map = "u32 \<rightharpoonup> Action \<times> FlowCriteria option"

definition desired_entry :: "DesiredRule \<Rightarrow> u32 \<times> Action \<times> FlowCriteria option" where
  "desired_entry r = (dr_id r, dr_action r, dr_flow r)"

definition actual_entry :: "ActualRule \<Rightarrow> u32 \<times> Action \<times> FlowCriteria option" where
  "actual_entry r = (ar_id r, ar_action r, ar_flow r)"

definition desired_map :: "DesiredState \<Rightarrow> policy_map" where
  "desired_map d = map_of (map desired_entry (ds_rules d))"

definition actual_map :: "ActualState \<Rightarrow> policy_map" where
  "actual_map a = map_of (map actual_entry (as_active_rules a))"

text \<open>What an operation means for the policy map.\<close>

fun policy_step :: "policy_map \<Rightarrow> ReconciliationOperation \<Rightarrow> policy_map" where
  "policy_step m (UpdatePolicy r) = m(dr_id r \<mapsto> (dr_action r, dr_flow r))"
| "policy_step m (RemovePolicy i) = m(i := None)"
| "policy_step m _ = m"

definition policy_steps :: "policy_map \<Rightarrow> ReconciliationOperation list \<Rightarrow> policy_map" where
  "policy_steps m ops = foldl policy_step m ops"

lemma policy_steps_simps [simp]:
  "policy_steps m [] = m"
  "policy_steps m (op # ops) = policy_steps (policy_step m op) ops"
  "policy_steps m (xs @ ys) = policy_steps (policy_steps m xs) ys"
  by (simp_all add: policy_steps_def)

lemma find_actual_entry:
  "map_option (\<lambda>r. (ar_action r, ar_flow r)) (List.find (\<lambda>r. ar_id r = i) rs)
     = map_of (map actual_entry rs) i"
  by (induction rs) (auto simp: actual_entry_def)

lemma diff_rule_eq:
  "diff_rule a r =
     (if actual_map a (dr_id r) = Some (dr_action r, dr_flow r) then [] else [UpdatePolicy r])"
  using find_actual_entry [of "dr_id r" "as_active_rules a"]
  by (auto simp: diff_rule_def actual_map_def split: option.splits)

lemma dom_actual_map: "dom (actual_map a) = ar_id ` set (as_active_rules a)"
  by (auto simp: actual_map_def dom_map_of_conv_image_fst actual_entry_def image_image)

lemma dom_desired_map: "dom (desired_map d) = dr_id ` set (ds_rules d)"
  by (auto simp: desired_map_def dom_map_of_conv_image_fst desired_entry_def image_image)

lemma diff_extra_eq:
  "diff_extra d r = (if ar_id r \<in> dom (desired_map d) then [] else [RemovePolicy (ar_id r)])"
  by (auto simp: diff_extra_def dom_desired_map list_ex_iff image_iff dest: sym)

subsection \<open>Shape of the plan\<close>

lemma list_all_NoOp_iff: "\<not> list_all (\<lambda>op. op = NoOp) ops \<longleftrightarrow> list_ex (\<lambda>op. op \<noteq> NoOp) ops"
  by (induction ops) auto

lemma plan_new_simps [simp]:
  "rp_generation_before (plan_new g ops) = g"
  "rp_operations (plan_new g ops) = ops"
  by (simp_all add: plan_new_def)

lemma plan_new_generation:
  "rp_generation_after (plan_new g ops) = (if plan_is_empty (plan_new g ops) then g else g + 1)"
  by (cases "ops = []") (auto simp: plan_new_def plan_is_empty_def list_all_iff list_ex_iff)

definition diff_ops :: "DesiredState \<Rightarrow> ActualState \<Rightarrow> ReconciliationOperation list" where
  "diff_ops d a =
     concat (map (diff_rule a) (ds_rules d)) @ concat (map (diff_extra d) (as_active_rules a))"

lemma set_diff_ops:
  "set (diff_ops d a) =
     UpdatePolicy ` {r \<in> set (ds_rules d). actual_map a (dr_id r) \<noteq> Some (dr_action r, dr_flow r)}
     \<union> RemovePolicy ` (dom (actual_map a) - dom (desired_map d))"
  by (auto simp: diff_ops_def diff_rule_eq diff_extra_eq dom_actual_map)

lemma NoOp_notin_diff_ops [simp]: "NoOp \<notin> set (diff_ops d a)"
  by (auto simp: set_diff_ops)

lemma build_operations:
  "rp_operations (build d a g) = (if diff_ops d a = [] then [NoOp] else diff_ops d a)"
  by (simp add: build_def diff_ops_def Let_def)

lemma build_generation_before [simp]: "rp_generation_before (build d a g) = g"
  by (simp add: build_def Let_def)

lemma build_is_empty: "plan_is_empty (build d a g) \<longleftrightarrow> diff_ops d a = []"
proof (cases "diff_ops d a")
  case Nil
  then show ?thesis by (simp add: plan_is_empty_def build_operations)
next
  case (Cons op ops)
  with NoOp_notin_diff_ops [of d a] show ?thesis
    by (auto simp: plan_is_empty_def build_operations)
qed

lemma build_generation_after:
  "rp_generation_after (build d a g) = (if plan_is_empty (build d a g) then g else g + 1)"
  unfolding build_def Let_def by (rule plan_new_generation)

lemma diff_ops_empty_iff:
  "diff_ops d a = [] \<longleftrightarrow>
     (\<forall>r \<in> set (ds_rules d). actual_map a (dr_id r) = Some (dr_action r, dr_flow r)) \<and>
     dom (actual_map a) \<subseteq> dom (desired_map d)"
proof -
  have "diff_ops d a = [] \<longleftrightarrow> set (diff_ops d a) = {}" by simp
  then show ?thesis unfolding set_diff_ops by auto
qed

lemma desired_map_Some:
  assumes "distinct (map dr_id (ds_rules d))" and "r \<in> set (ds_rules d)"
  shows "desired_map d (dr_id r) = Some (dr_action r, dr_flow r)"
proof -
  have "distinct (map fst (map desired_entry (ds_rules d)))"
    using assms(1) by (simp add: desired_entry_def comp_def)
  moreover have "(dr_id r, dr_action r, dr_flow r) \<in> set (map desired_entry (ds_rules d))"
    using assms(2) by (force simp: desired_entry_def)
  ultimately show ?thesis unfolding desired_map_def by (rule map_of_is_SomeI)
qed

lemma desired_map_SomeD:
  "desired_map d i = Some e \<Longrightarrow> \<exists>r \<in> set (ds_rules d). dr_id r = i \<and> (dr_action r, dr_flow r) = e"
  unfolding desired_map_def by (drule map_of_SomeD) (auto simp: desired_entry_def)

lemma diff_ops_empty_iff_eq:
  assumes "distinct (map dr_id (ds_rules d))"
  shows "diff_ops d a = [] \<longleftrightarrow> actual_map a = desired_map d"
proof
  assume empty: "diff_ops d a = []"
  show "actual_map a = desired_map d"
  proof
    fix i
    show "actual_map a i = desired_map d i"
    proof (cases "desired_map d i")
      case None
      then have "i \<notin> dom (actual_map a)"
        using empty unfolding diff_ops_empty_iff by blast
      with None show ?thesis by auto
    next
      case (Some e)
      then obtain r where "r \<in> set (ds_rules d)" "dr_id r = i" "(dr_action r, dr_flow r) = e"
        using desired_map_SomeD by blast
      with empty Some show ?thesis unfolding diff_ops_empty_iff by auto
    qed
  qed
next
  assume "actual_map a = desired_map d"
  then show "diff_ops d a = []"
    using assms by (auto simp: diff_ops_empty_iff desired_map_Some)
qed

subsection \<open>Executing the plan on the policy map\<close>

lemma policy_steps_updates:
  assumes "distinct (map dr_id rs)"
  shows "policy_steps m (concat (map (diff_rule a) rs)) i =
    (case map_of (map desired_entry rs) i of
       None \<Rightarrow> m i
     | Some e \<Rightarrow> if actual_map a i = Some e then m i else Some e)"
  using assms
proof (induction rs arbitrary: m)
  case Nil
  then show ?case by simp
next
  case (Cons r rs)
  have fresh: "map_of (map desired_entry rs) (dr_id r) = None"
    using Cons.prems by (auto simp: map_of_eq_None_iff desired_entry_def image_image)
  have IH: "policy_steps m (concat (map (diff_rule a) rs)) i =
    (case map_of (map desired_entry rs) i of
       None \<Rightarrow> m i
     | Some e \<Rightarrow> if actual_map a i = Some e then m i else Some e)" for m
    using Cons by simp
  show ?case
    using fresh by (cases "dr_id r = i")
      (auto simp: IH diff_rule_eq [of a r] desired_entry_def [of r] split: option.splits)
qed

lemma policy_steps_removals:
  "policy_steps m (concat (map (diff_extra d) rs)) i =
     (if i \<in> ar_id ` set rs - dom (desired_map d) then None else m i)"
proof (induction rs arbitrary: m)
  case Nil
  then show ?case by simp
next
  case (Cons r rs)
  show ?case
    by (cases "ar_id r \<in> dom (desired_map d)"; cases "ar_id r = i")
      (simp_all add: Cons.IH diff_extra_eq [of d r])
qed

lemma policy_steps_diff_ops:
  assumes "distinct (map dr_id (ds_rules d))"
  shows "policy_steps (actual_map a) (diff_ops d a) = desired_map d"
proof
  fix i
  let ?m = "policy_steps (actual_map a) (concat (map (diff_rule a) (ds_rules d)))"
  have upd: "?m i = (case desired_map d i of
       None \<Rightarrow> actual_map a i
     | Some e \<Rightarrow> if actual_map a i = Some e then actual_map a i else Some e)"
    using policy_steps_updates [OF assms] by (simp add: desired_map_def)
  have "policy_steps (actual_map a) (diff_ops d a) i =
      (if i \<in> dom (actual_map a) - dom (desired_map d) then None else ?m i)"
    by (simp add: diff_ops_def policy_steps_removals dom_actual_map)
  then show "policy_steps (actual_map a) (diff_ops d a) i = desired_map d i"
    by (auto simp: upd split: option.splits)
qed

subsection \<open>The planner contract\<close>

text \<open>
  What the coordinator needs of a planner: the plan starts at the generation it was asked for, it
  advances the generation exactly when it is not empty, it is empty exactly when the actual policy
  map is the desired one, and executing it carries the one to the other. The rule identifiers of
  the desired state must be distinct.
\<close>

locale planner =
  fixes plan_for :: "DesiredState \<Rightarrow> ActualState \<Rightarrow> u64 \<Rightarrow> ReconciliationPlan"
  assumes generation_before: "rp_generation_before (plan_for d a g) = g"
    and generation_after:
      "rp_generation_after (plan_for d a g) = (if plan_is_empty (plan_for d a g) then g else g + 1)"
    and empty_iff: "distinct (map dr_id (ds_rules d)) \<Longrightarrow>
      plan_is_empty (plan_for d a g) \<longleftrightarrow> actual_map a = desired_map d"
    and converges: "distinct (map dr_id (ds_rules d)) \<Longrightarrow>
      policy_steps (actual_map a) (rp_operations (plan_for d a g)) = desired_map d"
begin

lemma replan_is_empty:
  assumes "distinct (map dr_id (ds_rules d))"
    and "actual_map a' = policy_steps (actual_map a) (rp_operations (plan_for d a g))"
  shows "plan_is_empty (plan_for d a' g')"
  using assms by (simp add: empty_iff converges)

lemma generation_stable_iff:
  assumes "distinct (map dr_id (ds_rules d))"
  shows "rp_generation_after (plan_for d a g) = g \<longleftrightarrow> actual_map a = desired_map d"
  using assms by (simp add: generation_after empty_iff)

end

interpretation basic_planner: planner build_plan
proof
  fix d a g
  show "rp_generation_before (build_plan d a g) = g"
    by (simp add: build_plan_def)
  show "rp_generation_after (build_plan d a g) =
      (if plan_is_empty (build_plan d a g) then g else g + 1)"
    by (simp add: build_plan_def build_generation_after)
  assume dist: "distinct (map dr_id (ds_rules d))"
  show "plan_is_empty (build_plan d a g) \<longleftrightarrow> actual_map a = desired_map d"
    using dist by (simp add: build_plan_def build_is_empty diff_ops_empty_iff_eq)
  show "policy_steps (actual_map a) (rp_operations (build_plan d a g)) = desired_map d"
    using dist policy_steps_diff_ops [of d a] diff_ops_empty_iff_eq [of d a]
    by (auto simp: build_plan_def build_operations)
qed

subsection \<open>Properties of the planner\<close>

text \<open>
  C4. The planner converges: for a desired state whose rule identifiers are distinct, executing the
  operations of the plan turns the actual policy map into exactly the desired one, whatever rules
  are active before.
\<close>

theorem plan_converges:
  assumes "distinct (map dr_id (ds_rules desired))"
  shows "policy_steps (actual_map actual) (rp_operations (build desired actual g))
           = desired_map desired"
  using basic_planner.converges [OF assms] by (simp add: build_plan_def)

theorem plan_converges_witness:
  "policy_steps (actual_map \<lparr>as_active_rules =
       [\<lparr>ar_id = 1, ar_action = Block, ar_rule_id = None, ar_flow = None\<rparr>,
        \<lparr>ar_id = 3, ar_action = Log, ar_rule_id = None, ar_flow = None\<rparr>]\<rparr>)
     [UpdatePolicy \<lparr>dr_id = 1, dr_action = Allow, dr_priority = 0, dr_flow = None\<rparr>, RemovePolicy 3]
   = desired_map \<lparr>ds_rules = [\<lparr>dr_id = 1, dr_action = Allow, dr_priority = 0, dr_flow = None\<rparr>],
                  ds_drivers = []\<rparr>"
  using plan_converges
    [of "\<lparr>ds_rules = [\<lparr>dr_id = 1, dr_action = Allow, dr_priority = 0, dr_flow = None\<rparr>],
          ds_drivers = []\<rparr>"
        "\<lparr>as_active_rules =
           [\<lparr>ar_id = 1, ar_action = Block, ar_rule_id = None, ar_flow = None\<rparr>,
            \<lparr>ar_id = 3, ar_action = Log, ar_rule_id = None, ar_flow = None\<rparr>]\<rparr>" 7]
  by (simp add: build_def diff_rule_def diff_extra_def plan_new_def)

text \<open>
  The planner is exact: the plan is empty, and so leaves the generation as it was, precisely
  when every desired rule is active with its action and flow criteria and no other rule is active;
  otherwise the generation advances by one.
\<close>

theorem plan_empty_iff_converged:
  "(plan_is_empty (build desired actual g) \<longleftrightarrow>
      (\<forall>r \<in> set (ds_rules desired). actual_map actual (dr_id r) = Some (dr_action r, dr_flow r)) \<and>
      ar_id ` set (as_active_rules actual) \<subseteq> dr_id ` set (ds_rules desired)) \<and>
   rp_generation_after (build desired actual g) =
     (if plan_is_empty (build desired actual g) then g else g + 1)"
  by (simp add: build_is_empty diff_ops_empty_iff dom_actual_map dom_desired_map
      build_generation_after)

theorem plan_empty_iff_converged_witness:
  "plan_is_empty (build \<lparr>ds_rules = [\<lparr>dr_id = 1, dr_action = Allow, dr_priority = 0, dr_flow = None\<rparr>],
                         ds_drivers = []\<rparr>
     \<lparr>as_active_rules = [\<lparr>ar_id = 1, ar_action = Allow, ar_rule_id = None, ar_flow = None\<rparr>]\<rparr> 7)"
  by (subst plan_empty_iff_converged [THEN conjunct1]) (simp add: actual_map_def actual_entry_def)

text \<open>
  Two desired rules that share an identifier and differ in action or flow criteria keep the
  plan from ever being empty, in every actual state: such a configuration is re-applied, and the
  generation advanced, in each cycle.
\<close>

theorem conflicting_ids_never_converge:
  assumes "r1 \<in> set (ds_rules desired)" and "r2 \<in> set (ds_rules desired)"
    and "dr_id r1 = dr_id r2" and "(dr_action r1, dr_flow r1) \<noteq> (dr_action r2, dr_flow r2)"
  shows "\<not> plan_is_empty (build desired actual g) \<and>
         rp_generation_after (build desired actual g) = g + 1"
proof -
  have "diff_ops desired actual \<noteq> []"
    using assms unfolding diff_ops_empty_iff by (metis option.inject)
  then show ?thesis by (simp add: build_generation_after build_is_empty)
qed

theorem conflicting_ids_never_converge_witness:
  "\<not> plan_is_empty (build \<lparr>ds_rules =
        [\<lparr>dr_id = 1, dr_action = Allow, dr_priority = 0, dr_flow = None\<rparr>,
         \<lparr>dr_id = 1, dr_action = Block, dr_priority = 0, dr_flow = None\<rparr>], ds_drivers = []\<rparr>
     \<lparr>as_active_rules = [\<lparr>ar_id = 1, ar_action = Block, ar_rule_id = None, ar_flow = None\<rparr>]\<rparr> 7)"
  using conflicting_ids_never_converge
    [of "\<lparr>dr_id = 1, dr_action = Allow, dr_priority = 0, dr_flow = None\<rparr>" _
        "\<lparr>dr_id = 1, dr_action = Block, dr_priority = 0, dr_flow = None\<rparr>"]
  by simp

definition same_but_priority :: "DesiredRule \<Rightarrow> DesiredRule \<Rightarrow> bool" where
  "same_but_priority r r' \<longleftrightarrow> (\<exists>p. r' = r\<lparr>dr_priority := p\<rparr>)"

lemma same_but_priority_entries:
  "list_all2 same_but_priority rs rs' \<Longrightarrow> map desired_entry rs' = map desired_entry rs"
  by (induction rule: list_all2_induct) (auto simp: same_but_priority_def desired_entry_def)

lemma diff_ops_empty_cong:
  assumes "map desired_entry (ds_rules d') = map desired_entry (ds_rules d)"
  shows "diff_ops d' a = [] \<longleftrightarrow> diff_ops d a = []"
proof -
  have entries: "(\<forall>r \<in> set (ds_rules d). actual_map a (dr_id r) = Some (dr_action r, dr_flow r)) \<longleftrightarrow>
      (\<forall>e \<in> set (map desired_entry (ds_rules d)). actual_map a (fst e) = Some (snd e))" for d
    by (simp add: desired_entry_def)
  show ?thesis
    by (simp only: diff_ops_empty_iff desired_map_def entries assms)
qed

text \<open>
  The difference ignores what the actual state does not record: a configuration that changes
  only rule priorities or desired drivers gets an empty plan exactly when the old one did, so once
  converged such a change is never applied.
\<close>

theorem priority_changes_are_not_planned:
  assumes "list_all2 same_but_priority (ds_rules desired) (ds_rules desired')"
  shows "plan_is_empty (build desired' actual g) \<longleftrightarrow> plan_is_empty (build desired actual g)"
  using diff_ops_empty_cong [OF same_but_priority_entries [OF assms]]
  by (simp add: build_is_empty)

theorem priority_changes_are_not_planned_witness:
  "plan_is_empty (build \<lparr>ds_rules = [\<lparr>dr_id = 1, dr_action = Block, dr_priority = 90, dr_flow = None\<rparr>],
                         ds_drivers = [\<lparr>dd_id = Xray, dd_action = DA_Start\<rparr>]\<rparr>
     \<lparr>as_active_rules = [\<lparr>ar_id = 1, ar_action = Block, ar_rule_id = None, ar_flow = None\<rparr>]\<rparr> 7)"
proof -
  let ?d = "\<lparr>ds_rules = [\<lparr>dr_id = 1, dr_action = Block, dr_priority = 0, dr_flow = None\<rparr>],
             ds_drivers = []\<rparr>"
  let ?d' = "\<lparr>ds_rules = [\<lparr>dr_id = 1, dr_action = Block, dr_priority = 90, dr_flow = None\<rparr>],
              ds_drivers = [\<lparr>dd_id = Xray, dd_action = DA_Start\<rparr>]\<rparr>"
  let ?a = "\<lparr>as_active_rules = [\<lparr>ar_id = 1, ar_action = Block, ar_rule_id = None, ar_flow = None\<rparr>]\<rparr>"
  have "list_all2 same_but_priority (ds_rules ?d) (ds_rules ?d')"
    by (simp add: same_but_priority_def)
  moreover have "plan_is_empty (build ?d ?a 7)"
    by (simp add: build_def diff_rule_def diff_extra_def plan_new_def plan_is_empty_def)
  ultimately show ?thesis using priority_changes_are_not_planned [of ?d ?d' ?a 7] by blast
qed

end
