(* ===== verification/Control.thy ===== *)
theory Control
  imports Plan
begin

text \<open>
  The vocabulary of the control plane in \<open>src/crates/balansir-control\<close>: errors, lifecycle events, the
  transition table of the reconcile state machine, the execution report, the in-memory snapshot
  store and the mock executor. The coordinator itself is in theory \<open>Coordinator\<close>.
\<close>

subsection \<open>Errors and events\<close>

datatype ControlError =
    DesiredProviderError string
  | StateProviderError string
  | PlannerError string
  | ExecutorError string
  | SnapshotStoreError string
  | ReconcileInProgress
  | RollbackError string
  | SerializationError string
  | InvalidState string string

fun show_control_error :: "ControlError \<Rightarrow> string" where
  "show_control_error (DesiredProviderError s) = ''desired state provider failed: '' @ s"
| "show_control_error (StateProviderError s) = ''state provider failed: '' @ s"
| "show_control_error (PlannerError s) = ''planner failed: '' @ s"
| "show_control_error (ExecutorError s) = ''executor failed: '' @ s"
| "show_control_error (SnapshotStoreError s) = ''snapshot store failed: '' @ s"
| "show_control_error ReconcileInProgress = ''reconciliation already in progress''"
| "show_control_error (RollbackError s) = ''rollback failed: '' @ s"
| "show_control_error (SerializationError s) = ''serialization failed: '' @ s"
| "show_control_error (InvalidState s t) = ''control plane is in '' @ s @ '' state, cannot '' @ t"

type_synonym 'a ControlResult = "('a, ControlError) result"

datatype ReconcileReason =
    Startup
  | ConfigReload
  | DriverFailure
  | HealthChanged
  | Manual
  | Scheduled
  | ApiRequest
  | Plugin string

fun reason_label :: "ReconcileReason \<Rightarrow> string" where
  "reason_label (Plugin name) = ''plugin:'' @ name"
| "reason_label Startup = ''startup''"
| "reason_label ConfigReload = ''configreload''"
| "reason_label DriverFailure = ''driverfailure''"
| "reason_label HealthChanged = ''healthchanged''"
| "reason_label Manual = ''manual''"
| "reason_label Scheduled = ''scheduled''"
| "reason_label ApiRequest = ''apirequest''"

datatype ControlEvent =
    ReconciliationRequested ReconcileReason
  | StateEntered string
  | DesiredReadStarted
  | DesiredReadFinished u64
  | ActualReadStarted
  | ActualReadFinished usize
  | PlanningStarted
  | PlanningFinished u64 usize bool
  | ExecutionStarted
  | StepCompleted usize
  | StepFailed usize string
  | CommitCompleted
  | Reconciled "128 word"
  | RollbackStarted
  | RollbackCompleted
  | EvFailed string
  | DriverHealthTierChanged DriverId HealthTier

fun event_name :: "ControlEvent \<Rightarrow> string" where
  "event_name (ReconciliationRequested _) = ''reconciliation_requested''"
| "event_name (StateEntered _) = ''state_entered''"
| "event_name DesiredReadStarted = ''desired_read_started''"
| "event_name (DesiredReadFinished _) = ''desired_read_finished''"
| "event_name ActualReadStarted = ''actual_read_started''"
| "event_name (ActualReadFinished _) = ''actual_read_finished''"
| "event_name PlanningStarted = ''planning_started''"
| "event_name (PlanningFinished _ _ _) = ''planning_finished''"
| "event_name ExecutionStarted = ''execution_started''"
| "event_name (StepCompleted _) = ''step_completed''"
| "event_name (StepFailed _ _) = ''step_failed''"
| "event_name CommitCompleted = ''commit_completed''"
| "event_name (Reconciled _) = ''reconciled''"
| "event_name RollbackStarted = ''rollback_started''"
| "event_name RollbackCompleted = ''rollback_completed''"
| "event_name (EvFailed _) = ''failed''"
| "event_name (DriverHealthTierChanged _ _) = ''driver_health_tier_changed''"

subsection \<open>State machine vocabulary and reports\<close>

datatype ReconcileState =
    RS_Idle | RS_ReadDesired | RS_ReadActual | RS_BuildPlan | RS_ExecutePlan
  | RS_CommitSnapshot | RS_Done | RS_Rollback | RS_Failed

fun reconcile_state_label :: "ReconcileState \<Rightarrow> string" where
  "reconcile_state_label RS_Idle = ''idle''"
| "reconcile_state_label RS_ReadDesired = ''read_desired''"
| "reconcile_state_label RS_ReadActual = ''read_actual''"
| "reconcile_state_label RS_BuildPlan = ''build_plan''"
| "reconcile_state_label RS_ExecutePlan = ''execute_plan''"
| "reconcile_state_label RS_CommitSnapshot = ''commit_snapshot''"
| "reconcile_state_label RS_Done = ''done''"
| "reconcile_state_label RS_Rollback = ''rollback''"
| "reconcile_state_label RS_Failed = ''failed''"

datatype ReconcileTransition =
    IdleToReadDesired | ReadDesiredToReadActual | ReadActualToBuildPlan | BuildPlanToExecutePlan
  | ExecutePlanToExecutePlan | ExecutePlanToCommitSnapshot | CommitSnapshotToDone
  | ExecutePlanToRollback | RollbackToFailed

record ReconcileProgress =
  pr_state :: ReconcileState
  pr_step_index :: usize

definition default_ReconcileProgress :: ReconcileProgress where
  "default_ReconcileProgress = \<lparr>pr_state = RS_Idle, pr_step_index = 0\<rparr>"

record ExecutionReport =
  er_execution_id :: "128 word"
  er_succeeded :: usize
  er_failed :: usize
  er_total :: usize
  er_operations :: "ReconciliationOperation list"
  er_success :: bool

definition ExecutionReport_new ::
    "128 word \<Rightarrow> ReconciliationOperation list \<Rightarrow> usize \<Rightarrow> usize \<Rightarrow> ExecutionReport" where
  "ExecutionReport_new execution_id operations succeeded failed =
     \<lparr>er_execution_id = execution_id, er_succeeded = succeeded, er_failed = failed,
      er_total = length operations, er_operations = operations, er_success = (failed = 0)\<rparr>"

datatype CoordinatorState =
    CS_Idle | CS_ReadDesired | CS_ReadActual | CS_BuildPlan | CS_ExecutePlan
  | CS_CommitSnapshot | CS_Done | CS_Rollback | CS_Failed

fun to_reconcile_state :: "CoordinatorState \<Rightarrow> ReconcileState" where
  "to_reconcile_state CS_Idle = RS_Idle"
| "to_reconcile_state CS_ReadDesired = RS_ReadDesired"
| "to_reconcile_state CS_ReadActual = RS_ReadActual"
| "to_reconcile_state CS_BuildPlan = RS_BuildPlan"
| "to_reconcile_state CS_ExecutePlan = RS_ExecutePlan"
| "to_reconcile_state CS_CommitSnapshot = RS_CommitSnapshot"
| "to_reconcile_state CS_Done = RS_Done"
| "to_reconcile_state CS_Rollback = RS_Rollback"
| "to_reconcile_state CS_Failed = RS_Failed"

definition transition ::
    "CoordinatorState \<Rightarrow> ControlEvent \<Rightarrow> (CoordinatorState \<times> ReconcileTransition) option" where
  "transition self event =
     (case (self, event) of
        (CS_Idle, ReconciliationRequested _) \<Rightarrow> Some (CS_ReadDesired, IdleToReadDesired)
      | (CS_ReadDesired, DesiredReadFinished _) \<Rightarrow> Some (CS_ReadActual, ReadDesiredToReadActual)
      | (CS_ReadActual, ActualReadFinished _) \<Rightarrow> Some (CS_BuildPlan, ReadActualToBuildPlan)
      | (CS_BuildPlan, PlanningFinished _ _ _) \<Rightarrow> Some (CS_ExecutePlan, BuildPlanToExecutePlan)
      | (CS_ExecutePlan, ExecutionStarted) \<Rightarrow> Some (CS_ExecutePlan, ExecutePlanToExecutePlan)
      | (CS_ExecutePlan, StepCompleted _) \<Rightarrow> Some (CS_ExecutePlan, ExecutePlanToExecutePlan)
      | (CS_ExecutePlan, StepFailed _ _) \<Rightarrow> Some (CS_Rollback, ExecutePlanToRollback)
      | (CS_ExecutePlan, CommitCompleted) \<Rightarrow> Some (CS_CommitSnapshot, ExecutePlanToCommitSnapshot)
      | (CS_CommitSnapshot, Reconciled _) \<Rightarrow> Some (CS_Done, CommitSnapshotToDone)
      | (CS_Rollback, RollbackCompleted) \<Rightarrow> Some (CS_Failed, RollbackToFailed)
      | _ \<Rightarrow> None)"

subsection \<open>In-memory providers, the snapshot store and the mock executor\<close>

definition memory_desired :: "DesiredState \<Rightarrow> DesiredState ControlResult" where
  "memory_desired state = Inr state"

definition memory_actual :: "ActualState \<Rightarrow> ActualState ControlResult" where
  "memory_actual state = Inr state"

definition missing_desired :: "DesiredState ControlResult" where
  "missing_desired = Inl (DesiredProviderError ''no configured source'')"

definition noop_emit :: "ControlEvent \<Rightarrow> 'w \<Rightarrow> unit ControlResult \<times> 'w" where
  "noop_emit event w = (Inr (), w)"

definition noop_rollback :: "Snapshot \<Rightarrow> 'w \<Rightarrow> unit ControlResult \<times> 'w" where
  "noop_rollback snapshot w = (Inr (), w)"

text \<open>The fan-out sink emits to the attached sinks in order and stops at the first error.\<close>

fun dynamic_emit ::
    "(ControlEvent \<Rightarrow> 'w \<Rightarrow> unit ControlResult \<times> 'w) list \<Rightarrow> ControlEvent \<Rightarrow> 'w
       \<Rightarrow> unit ControlResult \<times> 'w" where
  "dynamic_emit [] event w = (Inr (), w)"
| "dynamic_emit (sink # sinks) event w =
     (case sink event w of
        (Inl e, w) \<Rightarrow> (Inl e, w)
      | (Inr _, w) \<Rightarrow> dynamic_emit sinks event w)"

type_synonym MemorySnapshotStore = "u64 \<rightharpoonup> Snapshot"

definition snapshot_store_load ::
    "MemorySnapshotStore \<Rightarrow> u64 \<Rightarrow> Snapshot option ControlResult" where
  "snapshot_store_load snapshots generation = Inr (snapshots generation)"

definition snapshot_store_save ::
    "MemorySnapshotStore \<Rightarrow> Snapshot \<Rightarrow> unit ControlResult \<times> MemorySnapshotStore" where
  "snapshot_store_save snapshots snapshot =
     (Inr (), snapshots(md_generation (sn_metadata snapshot) \<mapsto> snapshot))"

record MockExecutor =
  me_executed_steps :: u64
  me_fail_after :: "usize option"

fun mock_steps ::
    "ReconciliationOperation list \<Rightarrow> MockExecutor \<Rightarrow> usize \<Rightarrow> usize \<Rightarrow> usize \<times> usize \<times> MockExecutor" where
  "mock_steps [] m succeeded failed = (succeeded, failed, m)"
| "mock_steps (op # ops) m succeeded failed =
     (if op = NoOp then mock_steps ops m succeeded failed
      else
        (let m = m\<lparr>me_executed_steps := me_executed_steps m + 1\<rparr>
         in case me_fail_after m of
              Some n \<Rightarrow>
                if n \<le> unat (me_executed_steps m) then mock_steps ops m succeeded (failed + 1)
                else mock_steps ops m (succeeded + 1) failed
            | None \<Rightarrow> mock_steps ops m (succeeded + 1) failed))"

definition mock_execute ::
    "128 word \<Rightarrow> ReconciliationPlan \<Rightarrow> MockExecutor \<Rightarrow> ExecutionReport ControlResult \<times> MockExecutor" where
  "mock_execute uuid plan m =
     (case mock_steps (rp_operations plan) m 0 0 of
        (succeeded, failed, m) \<Rightarrow>
          (let report = ExecutionReport_new uuid (rp_operations plan) succeeded failed
           in if er_success report then (Inr report, m)
              else (Inl (ExecutorError ''MockExecutor: injected failure''), m)))"

subsection \<open>Contracts of the store and of plan executors\<close>

text \<open>A snapshot store returns the snapshot saved last for a generation and keeps the others.\<close>

locale snapshot_store =
  fixes load :: "'s \<Rightarrow> u64 \<Rightarrow> Snapshot option ControlResult"
    and save :: "'s \<Rightarrow> Snapshot \<Rightarrow> unit ControlResult \<times> 's"
  assumes load_save: "save s x = (Inr (), s') \<Longrightarrow>
    load s' g = (if g = md_generation (sn_metadata x) then Inr (Some x) else load s g)"
begin

text \<open>Saving a sequence of snapshots, as the coordinator does over several cycles.\<close>

primrec saves :: "'s \<Rightarrow> Snapshot list \<Rightarrow> 's option" where
  "saves s [] = Some s"
| "saves s (x # xs) = (case save s x of (Inr _, s') \<Rightarrow> saves s' xs | (Inl _, _) \<Rightarrow> None)"

lemma load_saves:
  assumes "saves s xs = Some s'"
  shows "load s' g =
    (case filter (\<lambda>x. md_generation (sn_metadata x) = g) xs of
       [] \<Rightarrow> load s g
     | y # ys \<Rightarrow> Inr (Some (last (y # ys))))"
  using assms
proof (induction xs arbitrary: s)
  case Nil
  then show ?case by simp
next
  case (Cons x xs)
  then obtain s1 where s1: "save s x = (Inr (), s1)" and "saves s1 xs = Some s'"
    by (auto split: prod.splits sum.splits)
  then have "load s' g =
    (case filter (\<lambda>x. md_generation (sn_metadata x) = g) xs of
       [] \<Rightarrow> load s1 g
     | y # ys \<Rightarrow> Inr (Some (last (y # ys))))"
    by (intro Cons.IH)
  then show ?case using load_save [OF s1] by (auto split: list.splits)
qed

end

interpretation memory_store: snapshot_store snapshot_store_load snapshot_store_save
  by unfold_locales (auto simp: snapshot_store_load_def snapshot_store_save_def)

text \<open>
  A plan executor that answers with a report counts every operation of the plan at most once, and
  claims success exactly when no step failed.
\<close>

locale plan_executor =
  fixes exec :: "ReconciliationPlan \<Rightarrow> 'w \<Rightarrow> ExecutionReport ControlResult \<times> 'w"
  assumes report: "exec plan w = (Inr rep, w') \<Longrightarrow>
    er_operations rep = rp_operations plan \<and> er_total rep = length (rp_operations plan) \<and>
    er_success rep = (er_failed rep = 0) \<and>
    er_succeeded rep + er_failed rep \<le> length (rp_operations plan)"
begin

lemma success_bounds:
  "exec plan w = (Inr rep, w') \<Longrightarrow> er_success rep \<Longrightarrow>
     er_failed rep = 0 \<and> er_succeeded rep \<le> er_total rep"
  using report by fastforce

end

lemma mock_steps_count:
  "mock_steps ops m s f = (s', f', m') \<Longrightarrow>
     s' + f' = s + f + length (filter (\<lambda>op. op \<noteq> NoOp) ops) \<and> f \<le> f' \<and>
     me_fail_after m' = me_fail_after m"
proof (induction ops arbitrary: m s f)
  case Nil
  then show ?case by simp
next
  case (Cons op ops)
  then show ?case
    by (fastforce simp: Let_def split: if_splits option.splits)
qed

lemma mock_steps_no_failure:
  "me_fail_after m = None \<Longrightarrow> fst (snd (mock_steps ops m s f)) = f"
  by (induction ops arbitrary: m s) (simp_all add: Let_def)

interpretation mock: plan_executor "mock_execute uuid"
proof
  fix plan w rep w'
  assume "mock_execute uuid plan w = (Inr rep, w')"
  then obtain s f where steps: "mock_steps (rp_operations plan) w 0 0 = (s, f, w')"
    and rep: "rep = ExecutionReport_new uuid (rp_operations plan) s f"
    by (auto simp: mock_execute_def Let_def split: prod.splits if_splits)
  then show "er_operations rep = rp_operations plan \<and> er_total rep = length (rp_operations plan) \<and>
    er_success rep = (er_failed rep = 0) \<and>
    er_succeeded rep + er_failed rep \<le> length (rp_operations plan)"
    using mock_steps_count [OF steps] by (simp add: ExecutionReport_new_def)
qed

end
