(* ===== verification/Coordinator.thy ===== *)
theory Coordinator
  imports Control
begin

text \<open>
  The \<open>Coordinator\<close> of \<open>src/crates/balansir-control/src/coordinator.rs\<close>, which drives one reconciliation
  cycle. The trait objects it is wired with (\<open>Config\<close>) are functions that thread a world state \<open>'w\<close>; since
  they are arbitrary, a theorem about \<open>reconcile\<close> covers whatever other tasks do to the shared state at
  the points where the code awaits.
\<close>

subsection \<open>State, wiring and operations\<close>

record 'w Config =
  cf_desired_provider :: "'w \<Rightarrow> DesiredState ControlResult \<times> 'w"
  cf_actual_provider :: "'w \<Rightarrow> ActualState ControlResult \<times> 'w"
  cf_planner :: "DesiredState \<Rightarrow> ActualState \<Rightarrow> u64 \<Rightarrow> ReconciliationPlan"
  cf_executor :: "ReconciliationPlan \<Rightarrow> 'w \<Rightarrow> ExecutionReport ControlResult \<times> 'w"
  cf_snapshot_save :: "Snapshot \<Rightarrow> 'w \<Rightarrow> unit ControlResult \<times> 'w"
  cf_event_sink :: "ControlEvent \<Rightarrow> 'w \<Rightarrow> unit ControlResult \<times> 'w"
  cf_rollback :: "Snapshot \<Rightarrow> 'w \<Rightarrow> unit ControlResult \<times> 'w"
  env_new_v4 :: "'w \<Rightarrow> 128 word \<times> 'w"
  env_utc_now :: "'w \<Rightarrow> int \<times> 'w"

record Coordinator =
  co_state :: CoordinatorState
  co_progress :: ReconcileProgress
  co_generation :: u64
  co_busy :: bool

definition Coordinator_new :: Coordinator where
  "Coordinator_new =
     \<lparr>co_state = CS_Idle, co_progress = default_ReconcileProgress, co_generation = 1,
      co_busy = False\<rparr>"

definition enter :: "CoordinatorState \<Rightarrow> Coordinator \<Rightarrow> Coordinator" where
  "enter state c =
     c\<lparr>co_progress := \<lparr>pr_state = to_reconcile_state state, pr_step_index = 0\<rparr>, co_state := state\<rparr>"

definition advance :: "ControlEvent \<Rightarrow> Coordinator \<Rightarrow> Coordinator" where
  "advance event c =
     (case transition (co_state c) event of
        Some (next, _) \<Rightarrow> enter next c
      | None \<Rightarrow> c)"

definition emit :: "'w Config \<Rightarrow> ControlEvent \<Rightarrow> 'w \<Rightarrow> 'w" where
  "emit cf event w = snd (cf_event_sink cf event w)"

type_synonym ('a, 'w) run = "'a ControlResult \<times> Coordinator \<times> 'w"

definition fail :: "'w Config \<Rightarrow> ControlError \<Rightarrow> Coordinator \<Rightarrow> 'w \<Rightarrow> (unit, 'w) run" where
  "fail cf err c w =
     (let w = emit cf (EvFailed (show_control_error err)) w
      in (Inl err, enter CS_Failed c, w))"

definition run :: "'w Config \<Rightarrow> ReconciliationPlan \<Rightarrow> Coordinator \<Rightarrow> 'w \<Rightarrow> (ExecutionReport, 'w) run" where
  "run cf plan c w =
     (let w = emit cf ExecutionStarted w;
          c = advance ExecutionStarted c;
          (r, w) = cf_executor cf plan w
      in (r, c, w))"

definition rollback_and_fail ::
    "'w Config \<Rightarrow> Snapshot \<Rightarrow> ControlError \<Rightarrow> Coordinator \<Rightarrow> 'w \<Rightarrow> (unit, 'w) run" where
  "rollback_and_fail cf snapshot err c w =
     (let c = advance (StepFailed 0 (show_control_error err)) c;
          w = emit cf RollbackStarted w;
          (r, w) = cf_rollback cf snapshot w
      in case r of
           Inl rb_err \<Rightarrow>
             fail cf rb_err c (emit cf (StepFailed 0 (show_control_error rb_err)) w)
         | Inr _ \<Rightarrow>
             (let w = emit cf RollbackCompleted w;
                  c = advance RollbackCompleted c
              in fail cf err c w))"

text \<open>
  \<open>reconcile\<close> is split at the comment lines of the source that separate its stages: commit, execution
  with the pre-execution snapshot, planning, and the two reads.
\<close>

definition reconcile_commit ::
    "'w Config \<Rightarrow> ReconciliationPlan \<Rightarrow> ExecutionReport \<Rightarrow> Coordinator \<Rightarrow> 'w \<Rightarrow> (unit, 'w) run" where
  "reconcile_commit cf plan report c w =
     (let w = emit cf CommitCompleted w;
          c = advance CommitCompleted c;
          c = c\<lparr>co_generation := rp_generation_after plan\<rparr>;
          w = emit cf (Reconciled (er_execution_id report)) w;
          c = advance (Reconciled (er_execution_id report)) c;
          c = enter CS_Done c
      in (Inr (), c, w))"

definition execution_failed_message :: "ExecutionReport \<Rightarrow> string" where
  "execution_failed_message report =
     ''execution failed: '' @ show_nat (er_failed report) @ ''/'' @ show_nat (er_total report)
       @ '' steps failed''"

definition reconcile_report ::
    "'w Config \<Rightarrow> ReconciliationPlan \<Rightarrow> Snapshot \<Rightarrow> ExecutionReport ControlResult \<Rightarrow> Coordinator \<Rightarrow> 'w
       \<Rightarrow> (unit, 'w) run" where
  "reconcile_report cf plan snapshot executed c w =
     (case executed of
        Inl e \<Rightarrow> rollback_and_fail cf snapshot e c w
      | Inr report \<Rightarrow>
          if \<not> er_success report
          then rollback_and_fail cf snapshot
                 (ExecutorError (execution_failed_message report)) c w
          else reconcile_commit cf plan report c w)"

definition reconcile_execute ::
    "'w Config \<Rightarrow> DesiredState \<Rightarrow> ActualState \<Rightarrow> ReconciliationPlan \<Rightarrow> Coordinator \<Rightarrow> 'w
       \<Rightarrow> (unit, 'w) run" where
  "reconcile_execute cf desired actual plan c w =
     (let (uuid, w) = env_new_v4 cf w;
          (now, w) = env_utc_now cf w;
          snapshot = Snapshot_new desired actual
                       (PlanMetadata_new uuid now (rp_generation_before plan));
          (saved, w) = cf_snapshot_save cf snapshot w
      in case saved of
           Inl e \<Rightarrow> fail cf e c w
         | Inr _ \<Rightarrow>
             (let (executed, c, w) = run cf plan c w
              in reconcile_report cf plan snapshot executed c w))"

definition reconcile_noop :: "'w Config \<Rightarrow> Coordinator \<Rightarrow> 'w \<Rightarrow> (unit, 'w) run" where
  "reconcile_noop cf c w =
     (let w = emit cf CommitCompleted w;
          c = advance CommitCompleted c;
          (plan_id, w) = env_new_v4 cf w;
          w = emit cf (Reconciled plan_id) w;
          c = advance (Reconciled plan_id) c;
          c = enter CS_Done c
      in (Inr (), c, w))"

definition reconcile_plan ::
    "'w Config \<Rightarrow> DesiredState \<Rightarrow> ActualState \<Rightarrow> Coordinator \<Rightarrow> 'w \<Rightarrow> (unit, 'w) run" where
  "reconcile_plan cf desired actual c w =
     (let w = emit cf PlanningStarted w;
          plan = cf_planner cf desired actual (co_generation c);
          empty = plan_is_empty plan;
          finished = PlanningFinished (rp_generation_after plan) (length (rp_operations plan)) empty;
          w = emit cf finished w;
          c = advance finished c
      in if empty then reconcile_noop cf c w else reconcile_execute cf desired actual plan c w)"

definition reconcile_locked ::
    "'w Config \<Rightarrow> ReconcileReason \<Rightarrow> Coordinator \<Rightarrow> 'w \<Rightarrow> (unit, 'w) run" where
  "reconcile_locked cf reason c w =
     (let w = emit cf (ReconciliationRequested reason) w;
          c = advance (ReconciliationRequested reason) c;
          w = emit cf DesiredReadStarted w;
          (desired, w) = cf_desired_provider cf w
      in case desired of
           Inl e \<Rightarrow> fail cf e c w
         | Inr desired \<Rightarrow>
             (let revision = of_nat (length (ds_rules desired));
                  w = emit cf (DesiredReadFinished revision) w;
                  c = advance (DesiredReadFinished revision) c;
                  w = emit cf ActualReadStarted w;
                  (actual, w) = cf_actual_provider cf w
              in case actual of
                   Inl e \<Rightarrow> fail cf e c w
                 | Inr actual \<Rightarrow>
                     (let rule_count = length (as_active_rules actual);
                          w = emit cf (ActualReadFinished rule_count) w;
                          c = advance (ActualReadFinished rule_count) c
                      in reconcile_plan cf desired actual c w)))"

definition reconcile :: "'w Config \<Rightarrow> ReconcileReason \<Rightarrow> Coordinator \<Rightarrow> 'w \<Rightarrow> (unit, 'w) run" where
  "reconcile cf reason c w =
     (if co_busy c then (Inl ReconcileInProgress, c, w)
      else case reconcile_locked cf reason (c\<lparr>co_busy := True\<rparr>) w of
             (r, c, w) \<Rightarrow> (r, c\<lparr>co_busy := False\<rparr>, w))"

subsection \<open>The state machine\<close>

named_theorems coord_simps \<open>effect of the coordinator's small operations\<close>

lemma enter_simps [coord_simps]:
  "co_state (enter s c) = s"
  "co_generation (enter s c) = co_generation c"
  "co_busy (enter s c) = co_busy c"
  "co_progress (enter s c) = \<lparr>pr_state = to_reconcile_state s, pr_step_index = 0\<rparr>"
  by (simp_all add: enter_def)

lemma advance_frame [coord_simps]:
  "co_generation (advance e c) = co_generation c"
  "co_busy (advance e c) = co_busy c"
  by (simp_all add: advance_def enter_simps split: option.splits)

text \<open>The progress the coordinator publishes always mirrors its state.\<close>

definition coord_inv :: "Coordinator \<Rightarrow> bool" where
  "coord_inv c \<longleftrightarrow>
     co_progress c = \<lparr>pr_state = to_reconcile_state (co_state c), pr_step_index = 0\<rparr>"

lemma coord_inv_new: "coord_inv Coordinator_new"
  by (simp add: coord_inv_def Coordinator_new_def default_ReconcileProgress_def)

lemma coord_inv_enter [coord_simps]: "coord_inv (enter s c)"
  by (simp add: coord_inv_def enter_simps)

lemma coord_inv_advance: "coord_inv c \<Longrightarrow> coord_inv (advance e c)"
  by (auto simp: advance_def coord_inv_enter split: option.splits)

text \<open>The steps of the state machine as a relation.\<close>

inductive fsm_step :: "CoordinatorState \<Rightarrow> ControlEvent \<Rightarrow> CoordinatorState \<Rightarrow> bool" where
  fsm_request: "fsm_step CS_Idle (ReconciliationRequested r) CS_ReadDesired"
| fsm_desired: "fsm_step CS_ReadDesired (DesiredReadFinished n) CS_ReadActual"
| fsm_actual: "fsm_step CS_ReadActual (ActualReadFinished k) CS_BuildPlan"
| fsm_planned: "fsm_step CS_BuildPlan (PlanningFinished g k b) CS_ExecutePlan"
| fsm_started: "fsm_step CS_ExecutePlan ExecutionStarted CS_ExecutePlan"
| fsm_stepped: "fsm_step CS_ExecutePlan (StepCompleted k) CS_ExecutePlan"
| fsm_failed: "fsm_step CS_ExecutePlan (StepFailed k msg) CS_Rollback"
| fsm_committed: "fsm_step CS_ExecutePlan CommitCompleted CS_CommitSnapshot"
| fsm_reconciled: "fsm_step CS_CommitSnapshot (Reconciled u) CS_Done"
| fsm_rolled_back: "fsm_step CS_Rollback RollbackCompleted CS_Failed"

inductive_simps fsm_step_from_done [simp]: "fsm_step CS_Done e s"
inductive_simps fsm_step_from_failed [simp]: "fsm_step CS_Failed e s"

lemma transition_iff: "(\<exists>t. transition s e = Some (s', t)) \<longleftrightarrow> fsm_step s e s'"
  by (cases s; cases e) (auto simp: transition_def fsm_step.simps)

lemma transition_None_iff: "transition s e = None \<longleftrightarrow> (\<forall>s'. \<not> fsm_step s e s')"
  unfolding transition_iff [symmetric] by (cases "transition s e") auto

lemma advance_terminal:
  assumes "co_state c \<in> {CS_Done, CS_Failed}"
  shows "advance e c = c"
proof -
  have "transition (co_state c) e = None"
    unfolding transition_None_iff using assms by auto
  then show ?thesis by (simp add: advance_def)
qed

definition advances :: "ControlEvent list \<Rightarrow> Coordinator \<Rightarrow> Coordinator" where
  "advances es c = fold advance es c"

lemma advances_terminal: "co_state c \<in> {CS_Done, CS_Failed} \<Longrightarrow> advances es c = c"
  unfolding advances_def by (induction es) (simp_all add: advance_terminal)

subsection \<open>Outcome of a cycle\<close>

text \<open>
  A run either fails, in state \<open>Failed\<close> with the generation \<open>g\<close> it started from, or is done with a
  generation \<open>g'\<close>; \<open>b\<close> is the state of the lock.
\<close>

definition failed_run :: "u64 \<Rightarrow> bool \<Rightarrow> (unit, 'w) run \<Rightarrow> bool" where
  "failed_run g b rcw =
     (case rcw of (r, c, w) \<Rightarrow>
        (\<exists>e. r = Inl e) \<and> co_state c = CS_Failed \<and> co_generation c = g \<and> co_busy c = b \<and> coord_inv c)"

definition done_run :: "u64 \<Rightarrow> bool \<Rightarrow> (unit, 'w) run \<Rightarrow> bool" where
  "done_run g' b rcw =
     (case rcw of (r, c, w) \<Rightarrow>
        r = Inr () \<and> co_state c = CS_Done \<and> co_generation c = g' \<and> co_busy c = b \<and> coord_inv c)"

lemma fail_outcome: "failed_run (co_generation c) (co_busy c) (fail cf e c w)"
  by (simp add: fail_def failed_run_def coord_simps Let_def)

lemma rollback_and_fail_outcome:
  "failed_run (co_generation c) (co_busy c) (rollback_and_fail cf snap e c w)"
  by (auto simp: rollback_and_fail_def fail_def failed_run_def coord_simps Let_def
      split: prod.splits sum.splits)

lemma reconcile_commit_outcome:
  "done_run (rp_generation_after plan) (co_busy c) (reconcile_commit cf plan rep c w)"
  by (simp add: reconcile_commit_def done_run_def coord_simps Let_def)

lemma reconcile_noop_outcome: "done_run (co_generation c) (co_busy c) (reconcile_noop cf c w)"
  by (simp add: reconcile_noop_def done_run_def coord_simps Let_def split: prod.splits)

lemma run_frame:
  "run cf plan c w = (r, c', w') \<Longrightarrow> co_generation c' = co_generation c \<and> co_busy c' = co_busy c"
  by (auto simp: run_def Let_def coord_simps split: prod.splits)

lemma reconcile_execute_outcome:
  "failed_run (co_generation c) (co_busy c) (reconcile_execute cf d a plan c w) \<or>
   done_run (rp_generation_after plan) (co_busy c) (reconcile_execute cf d a plan c w)"
proof -
  obtain uuid w1 where w1: "env_new_v4 cf w = (uuid, w1)" by fastforce
  obtain now w2 where w2: "env_utc_now cf w1 = (now, w2)" by fastforce
  define snap where "snap = Snapshot_new d a (PlanMetadata_new uuid now (rp_generation_before plan))"
  obtain saved w3 where w3: "cf_snapshot_save cf snap w2 = (saved, w3)" by fastforce
  obtain r c4 w4 where r: "run cf plan c w3 = (r, c4, w4)" by (metis prod_cases3)
  then have c4: "co_generation c4 = co_generation c" "co_busy c4 = co_busy c"
    by (auto dest: run_frame)
  show ?thesis
    using fail_outcome [of c cf] rollback_and_fail_outcome [of c4 cf snap]
      reconcile_commit_outcome [of plan c4 cf]
    by (cases saved; cases r)
      (auto simp: reconcile_execute_def reconcile_report_def w1 w2 w3 r c4 Let_def simp flip: snap_def)
qed

definition planned_generation ::
    "'w Config \<Rightarrow> u64 \<Rightarrow> DesiredState \<Rightarrow> ActualState \<Rightarrow> u64" where
  "planned_generation cf g d a =
     (let plan = cf_planner cf d a g in if plan_is_empty plan then g else rp_generation_after plan)"

lemma reconcile_plan_outcome:
  "failed_run (co_generation c) (co_busy c) (reconcile_plan cf d a c w) \<or>
   done_run (planned_generation cf (co_generation c) d a) (co_busy c) (reconcile_plan cf d a c w)"
proof -
  define plan where "plan = cf_planner cf d a (co_generation c)"
  define fin where
    "fin = PlanningFinished (rp_generation_after plan) (length (rp_operations plan)) (plan_is_empty plan)"
  define w1 where "w1 = emit cf fin (emit cf PlanningStarted w)"
  have eq: "reconcile_plan cf d a c w =
      (if plan_is_empty plan then reconcile_noop cf (advance fin c) w1
       else reconcile_execute cf d a plan (advance fin c) w1)"
    by (simp add: reconcile_plan_def Let_def fin_def w1_def plan_def)
  show ?thesis
    using reconcile_noop_outcome [of "advance fin c" cf w1]
      reconcile_execute_outcome [of "advance fin c" cf d a plan w1]
    by (simp add: eq coord_simps planned_generation_def flip: plan_def)
qed

lemma reconcile_locked_outcome:
  "failed_run (co_generation c) (co_busy c) (reconcile_locked cf reason c w) \<or>
   (\<exists>d a. done_run (planned_generation cf (co_generation c) d a) (co_busy c)
            (reconcile_locked cf reason c w))"
proof -
  define c1 where "c1 = advance (ReconciliationRequested reason) c"
  obtain dr w1 where dr: "cf_desired_provider cf
      (emit cf DesiredReadStarted (emit cf (ReconciliationRequested reason) w)) = (dr, w1)"
    by fastforce
  show ?thesis
  proof (cases dr)
    case (Inl e)
    then show ?thesis
      using fail_outcome [of c1 cf e w1]
      by (simp add: reconcile_locked_def dr Let_def c1_def coord_simps)
  next
    case (Inr d)
    define rev :: u64 where "rev = of_nat (length (ds_rules d))"
    define c2 where "c2 = advance (DesiredReadFinished rev) c1"
    obtain ar w2 where ar: "cf_actual_provider cf
        (emit cf ActualReadStarted (emit cf (DesiredReadFinished rev) w1)) = (ar, w2)"
      by fastforce
    have c2: "co_generation c2 = co_generation c" "co_busy c2 = co_busy c"
      by (simp_all add: c2_def c1_def coord_simps)
    show ?thesis
    proof (cases ar)
      case (Inl e)
      with Inr show ?thesis
        using fail_outcome [of c2 cf e w2] ar
        by (simp add: reconcile_locked_def dr Let_def c2 flip: c1_def rev_def c2_def)
    next
      case (Inr a)
      with \<open>dr = Inr d\<close> show ?thesis
        using reconcile_plan_outcome
          [of "advance (ActualReadFinished (length (as_active_rules a))) c2" cf d a] ar
        by (auto simp: reconcile_locked_def dr Let_def c2 coord_simps simp flip: c1_def rev_def c2_def)
    qed
  qed
qed

lemma reconcile_outcome_cases:
  assumes "\<not> co_busy c"
  shows "failed_run (co_generation c) False (reconcile cf reason c w) \<or>
    (\<exists>d a. done_run (planned_generation cf (co_generation c) d a) False (reconcile cf reason c w))"
proof -
  obtain r c' w' where r: "reconcile_locked cf reason (c\<lparr>co_busy := True\<rparr>) w = (r, c', w')"
    by (metis prod_cases3)
  have inv: "coord_inv (c'\<lparr>co_busy := b\<rparr>) = coord_inv c'" for b
    by (simp add: coord_inv_def)
  show ?thesis
    using reconcile_locked_outcome [of "c\<lparr>co_busy := True\<rparr>" cf reason w] assms
    by (auto simp: reconcile_def r failed_run_def done_run_def inv)
qed

subsection \<open>The calls a cycle makes\<close>

text \<open>
  \<open>traced\<close> wraps a wiring so that every call to a provider, the store, the executor and the rollback is
  logged with its answer. \<open>reconcile_calls P g cs r g'\<close> lists the call sequences a cycle that starts at
  generation \<open>g\<close> may produce, with its result \<open>r\<close> and the generation \<open>g'\<close> it leaves.
\<close>

datatype call =
    CallDesired "DesiredState ControlResult"
  | CallActual "ActualState ControlResult"
  | CallSave Snapshot "unit ControlResult"
  | CallExecute ReconciliationPlan "ExecutionReport ControlResult"
  | CallRollback Snapshot "unit ControlResult"

definition logged :: "('w \<Rightarrow> 'a \<times> 'w) \<Rightarrow> ('a \<Rightarrow> call) \<Rightarrow> 'w \<times> call list \<Rightarrow> 'a \<times> 'w \<times> call list" where
  "logged f k wl = (case wl of (w, l) \<Rightarrow> case f w of (r, w') \<Rightarrow> (r, w', l @ [k r]))"

definition unlogged :: "('w \<Rightarrow> 'a \<times> 'w) \<Rightarrow> 'w \<times> call list \<Rightarrow> 'a \<times> 'w \<times> call list" where
  "unlogged f wl = (case wl of (w, l) \<Rightarrow> case f w of (r, w') \<Rightarrow> (r, w', l))"

definition traced :: "'w Config \<Rightarrow> ('w \<times> call list) Config" where
  "traced cf =
     \<lparr>cf_desired_provider = logged (cf_desired_provider cf) CallDesired,
      cf_actual_provider = logged (cf_actual_provider cf) CallActual,
      cf_planner = cf_planner cf,
      cf_executor = (\<lambda>plan. logged (cf_executor cf plan) (CallExecute plan)),
      cf_snapshot_save = (\<lambda>s. logged (cf_snapshot_save cf s) (CallSave s)),
      cf_event_sink = (\<lambda>e. unlogged (cf_event_sink cf e)),
      cf_rollback = (\<lambda>s. logged (cf_rollback cf s) (CallRollback s)),
      env_new_v4 = unlogged (env_new_v4 cf),
      env_utc_now = unlogged (env_utc_now cf)\<rparr>"

definition snapshot_of :: "Snapshot \<Rightarrow> DesiredState \<Rightarrow> ActualState \<Rightarrow> u64 \<Rightarrow> bool" where
  "snapshot_of s d a g \<longleftrightarrow> sn_desired s = d \<and> sn_actual s = a \<and> md_generation (sn_metadata s) = g"

fun execution_error :: "ExecutionReport ControlResult \<Rightarrow> ControlError option" where
  "execution_error (Inl e) = Some e"
| "execution_error (Inr rep) =
     (if er_success rep then None else Some (ExecutorError (execution_failed_message rep)))"

inductive execute_calls ::
    "Snapshot \<Rightarrow> ReconciliationPlan \<Rightarrow> call list \<Rightarrow> unit ControlResult \<Rightarrow> bool" where
  not_saved: "execute_calls s plan [CallSave s (Inl e)] (Inl e)"
| committed: "execution_error x = None \<Longrightarrow>
    execute_calls s plan [CallSave s (Inr ()), CallExecute plan x] (Inr ())"
| rolled_back: "execution_error x = Some e \<Longrightarrow>
    execute_calls s plan [CallSave s (Inr ()), CallExecute plan x, CallRollback s (Inr ())] (Inl e)"
| rollback_failed: "execution_error x = Some e \<Longrightarrow>
    execute_calls s plan [CallSave s (Inr ()), CallExecute plan x, CallRollback s (Inl e')] (Inl e')"

inductive reconcile_calls ::
    "(DesiredState \<Rightarrow> ActualState \<Rightarrow> u64 \<Rightarrow> ReconciliationPlan) \<Rightarrow> u64 \<Rightarrow> call list
       \<Rightarrow> unit ControlResult \<Rightarrow> u64 \<Rightarrow> bool"
  for P g where
  no_desired: "reconcile_calls P g [CallDesired (Inl e)] (Inl e) g"
| no_actual: "reconcile_calls P g [CallDesired (Inr d), CallActual (Inl e)] (Inl e) g"
| no_changes: "plan_is_empty (P d a g) \<Longrightarrow>
    reconcile_calls P g [CallDesired (Inr d), CallActual (Inr a)] (Inr ()) g"
| changes: "\<not> plan_is_empty (P d a g) \<Longrightarrow>
    snapshot_of s d a (rp_generation_before (P d a g)) \<Longrightarrow> execute_calls s (P d a g) cs r \<Longrightarrow>
    reconcile_calls P g ([CallDesired (Inr d), CallActual (Inr a)] @ cs) r
      (case r of Inl _ \<Rightarrow> g | Inr _ \<Rightarrow> rp_generation_after (P d a g))"

lemma traced_simps [coord_simps]:
  "cf_desired_provider (traced cf) = logged (cf_desired_provider cf) CallDesired"
  "cf_actual_provider (traced cf) = logged (cf_actual_provider cf) CallActual"
  "cf_planner (traced cf) = cf_planner cf"
  "cf_executor (traced cf) plan = logged (cf_executor cf plan) (CallExecute plan)"
  "cf_snapshot_save (traced cf) s = logged (cf_snapshot_save cf s) (CallSave s)"
  "cf_rollback (traced cf) s = logged (cf_rollback cf s) (CallRollback s)"
  "env_new_v4 (traced cf) = unlogged (env_new_v4 cf)"
  "env_utc_now (traced cf) = unlogged (env_utc_now cf)"
  by (simp_all add: traced_def)

lemma emit_traced [coord_simps]: "emit (traced cf) e (w, l) = (emit cf e w, l)"
  by (simp add: emit_def traced_def unlogged_def split: prod.splits)

lemma fail_traced: "fail cf e c w = (r, c', w') \<Longrightarrow> fail (traced cf) e c (w, l) = (r, c', w', l)"
  by (auto simp: fail_def Let_def coord_simps)

lemma fail_result: "fail cf e c w = (r, c', w') \<Longrightarrow> r = Inl e"
  by (auto simp: fail_def Let_def)

lemma rollback_traced:
  assumes "rollback_and_fail cf s e c w = (r, c', w')"
  shows "\<exists>y. rollback_and_fail (traced cf) s e c (w, l) = (r, c', w', l @ [CallRollback s y]) \<and>
    r = (case y of Inl e' \<Rightarrow> Inl e' | Inr _ \<Rightarrow> Inl e)"
  using assms
  by (auto simp: rollback_and_fail_def fail_def Let_def coord_simps logged_def
      split: prod.splits sum.splits)

lemma reconcile_commit_traced:
  "reconcile_commit cf plan rep c w = (r, c', w') \<Longrightarrow>
     reconcile_commit (traced cf) plan rep c (w, l) = (r, c', w', l) \<and> r = Inr ()"
  by (auto simp: reconcile_commit_def Let_def coord_simps)

lemma reconcile_noop_traced:
  "reconcile_noop cf c w = (r, c', w') \<Longrightarrow>
     reconcile_noop (traced cf) c (w, l) = (r, c', w', l) \<and> r = Inr ()"
  by (auto simp: reconcile_noop_def Let_def coord_simps unlogged_def split: prod.splits)

lemma run_traced:
  "run cf plan c w = (r, c', w') \<Longrightarrow>
     run (traced cf) plan c (w, l) = (r, c', w', l @ [CallExecute plan r])"
  by (auto simp: run_def Let_def coord_simps logged_def split: prod.splits)

lemma reconcile_report_traced:
  assumes "reconcile_report cf plan s x c w = (r, c', w')"
  shows "\<exists>cs. reconcile_report (traced cf) plan s x c (w, l) = (r, c', w', l @ cs) \<and>
    execute_calls s plan ([CallSave s (Inr ()), CallExecute plan x] @ cs) r"
proof (cases "execution_error x")
  case None
  then obtain rep where rep: "x = Inr rep" "er_success rep"
    by (cases x) (auto split: if_splits)
  with assms have "reconcile_commit cf plan rep c w = (r, c', w')"
    by (simp add: reconcile_report_def)
  from reconcile_commit_traced [OF this, of l] rep None show ?thesis
    by (auto simp: reconcile_report_def intro!: exI [of _ "[]"] execute_calls.committed)
next
  case (Some e)
  then have eqT: "reconcile_report (traced cf) plan s x c (w, l) = rollback_and_fail (traced cf) s e c (w, l)"
    by (cases x) (auto simp: reconcile_report_def split: if_splits)
  have "rollback_and_fail cf s e c w = (r, c', w')"
    using assms Some by (cases x) (auto simp: reconcile_report_def split: if_splits)
  then obtain y where
    y: "rollback_and_fail (traced cf) s e c (w, l) = (r, c', w', l @ [CallRollback s y])"
    "r = (case y of Inl e' \<Rightarrow> Inl e' | Inr _ \<Rightarrow> Inl e)"
    by (blast dest: rollback_traced)
  then have "execute_calls s plan ([CallSave s (Inr ()), CallExecute plan x] @ [CallRollback s y]) r"
    using Some by (cases y) (auto intro: execute_calls.intros)
  with y(1) eqT show ?thesis by auto
qed

lemma reconcile_execute_traced:
  assumes "reconcile_execute cf d a plan c w = (r, c', w')"
  shows "\<exists>s cs. reconcile_execute (traced cf) d a plan c (w, l) = (r, c', w', l @ cs) \<and>
    snapshot_of s d a (rp_generation_before plan) \<and> execute_calls s plan cs r"
proof -
  obtain uuid w1 where w1: "env_new_v4 cf w = (uuid, w1)" by fastforce
  obtain now w2 where w2: "env_utc_now cf w1 = (now, w2)" by fastforce
  define s where "s = Snapshot_new d a (PlanMetadata_new uuid now (rp_generation_before plan))"
  have s: "snapshot_of s d a (rp_generation_before plan)"
    by (simp add: s_def snapshot_of_def Snapshot_new_def PlanMetadata_new_def)
  obtain saved w3 where w3: "cf_snapshot_save cf s w2 = (saved, w3)" by fastforce
  obtain x c4 w4 where x: "run cf plan c w3 = (x, c4, w4)" by (metis prod_cases3)
  have eq: "reconcile_execute cf d a plan c w =
      (case saved of Inl e \<Rightarrow> fail cf e c w3 | Inr _ \<Rightarrow> reconcile_report cf plan s x c4 w4)"
    by (simp add: reconcile_execute_def w1 w2 w3 x flip: s_def split: sum.splits)
  have eqT: "reconcile_execute (traced cf) d a plan c (w, l) =
      (case saved of
         Inl e \<Rightarrow> fail (traced cf) e c (w3, l @ [CallSave s saved])
       | Inr _ \<Rightarrow> reconcile_report (traced cf) plan s x c4
                    (w4, l @ [CallSave s saved, CallExecute plan x]))"
    by (simp add: reconcile_execute_def w1 w2 w3 coord_simps logged_def unlogged_def
        run_traced [OF x] flip: s_def split: sum.splits)
  show ?thesis
  proof (cases saved)
    case (Inl e)
    then have "fail cf e c w3 = (r, c', w')" using assms by (simp add: eq)
    then have "reconcile_execute (traced cf) d a plan c (w, l) = (r, c', w', l @ [CallSave s (Inl e)])"
      and "r = Inl e"
      using fail_traced [of cf e c w3 r c' w'] fail_result by (simp_all add: eqT Inl)
    then show ?thesis using s execute_calls.not_saved by blast
  next
    case (Inr u)
    then have "reconcile_report cf plan s x c4 w4 = (r, c', w')" using assms by (simp add: eq)
    from reconcile_report_traced [OF this, of "l @ [CallSave s saved, CallExecute plan x]"]
    obtain cs where
      "reconcile_execute (traced cf) d a plan c (w, l) =
        (r, c', w', l @ [CallSave s (Inr ()), CallExecute plan x] @ cs)"
      "execute_calls s plan ([CallSave s (Inr ()), CallExecute plan x] @ cs) r"
      by (auto simp: eqT Inr)
    with s show ?thesis by blast
  qed
qed

lemma reconcile_plan_traced:
  assumes "reconcile_plan cf d a c w = (r, c', w')"
  shows "\<exists>cs. reconcile_plan (traced cf) d a c (w, l) = (r, c', w', l @ cs) \<and>
    reconcile_calls (cf_planner cf) (co_generation c)
      ([CallDesired (Inr d), CallActual (Inr a)] @ cs) r (co_generation c')"
proof -
  define plan where "plan = cf_planner cf d a (co_generation c)"
  define c1 where "c1 = advance (PlanningFinished (rp_generation_after plan)
    (length (rp_operations plan)) (plan_is_empty plan)) c"
  define w1 where "w1 = emit cf (PlanningFinished (rp_generation_after plan)
    (length (rp_operations plan)) (plan_is_empty plan)) (emit cf PlanningStarted w)"
  have eq: "reconcile_plan cf d a c w =
      (if plan_is_empty plan then reconcile_noop cf c1 w1 else reconcile_execute cf d a plan c1 w1)"
    by (simp add: reconcile_plan_def Let_def plan_def c1_def w1_def)
  have eqT: "reconcile_plan (traced cf) d a c (w, l) =
      (if plan_is_empty plan then reconcile_noop (traced cf) c1 (w1, l)
       else reconcile_execute (traced cf) d a plan c1 (w1, l))"
    by (simp add: reconcile_plan_def Let_def plan_def c1_def w1_def coord_simps)
  have gen: "co_generation c' = (case r of
      Inl _ \<Rightarrow> co_generation c
    | Inr _ \<Rightarrow> if plan_is_empty plan then co_generation c else rp_generation_after plan)"
    using reconcile_plan_outcome [of c cf d a w] assms
    by (auto simp: failed_run_def done_run_def planned_generation_def plan_def Let_def)
  show ?thesis
  proof (cases "plan_is_empty plan")
    case True
    then have "reconcile_noop cf c1 w1 = (r, c', w')" using assms by (simp add: eq)
    from reconcile_noop_traced [OF this, of l] True gen show ?thesis
      using reconcile_calls.no_changes [of "cf_planner cf" d a "co_generation c"]
      by (auto simp: eqT plan_def intro!: exI [of _ "[]"])
  next
    case False
    then have "reconcile_execute cf d a plan c1 w1 = (r, c', w')" using assms by (simp add: eq)
    from reconcile_execute_traced [OF this, of l] obtain s cs where
      "reconcile_execute (traced cf) d a plan c1 (w1, l) = (r, c', w', l @ cs)"
      "snapshot_of s d a (rp_generation_before plan)" "execute_calls s plan cs r" by blast
    with False gen show ?thesis
      using reconcile_calls.changes [of "cf_planner cf" d a "co_generation c" s cs r, folded plan_def]
      by (auto simp: eqT)
  qed
qed

lemma reconcile_locked_traced:
  assumes "reconcile_locked cf reason c w = (r, c', w')"
  shows "\<exists>cs. reconcile_locked (traced cf) reason c (w, l) = (r, c', w', l @ cs) \<and>
    reconcile_calls (cf_planner cf) (co_generation c) cs r (co_generation c')"
proof -
  define c1 where "c1 = advance (ReconciliationRequested reason) c"
  obtain dr w1 where dr: "cf_desired_provider cf
      (emit cf DesiredReadStarted (emit cf (ReconciliationRequested reason) w)) = (dr, w1)"
    by fastforce
  let ?l1 = "l @ [CallDesired dr]"
  show ?thesis
  proof (cases dr)
    case (Inl e)
    then have f: "fail cf e c1 w1 = (r, c', w')"
      using assms by (simp add: reconcile_locked_def dr Let_def c1_def)
    then have "co_generation c' = co_generation c" and "r = Inl e"
      by (auto simp: fail_def Let_def coord_simps c1_def)
    with fail_traced [OF f, of ?l1] Inl show ?thesis
      by (auto simp: reconcile_locked_def dr Let_def coord_simps logged_def c1_def
          intro: reconcile_calls.no_desired)
  next
    case (Inr d)
    define c2 where "c2 = advance (DesiredReadFinished (of_nat (length (ds_rules d)))) c1"
    obtain ar w2 where ar: "cf_actual_provider cf (emit cf ActualReadStarted
        (emit cf (DesiredReadFinished (of_nat (length (ds_rules d)))) w1)) = (ar, w2)"
      by fastforce
    let ?l2 = "?l1 @ [CallActual ar]"
    define after where "after = (case ar of
        Inl e \<Rightarrow> fail cf e c2 w2
      | Inr a \<Rightarrow> reconcile_plan cf d a (advance (ActualReadFinished (length (as_active_rules a))) c2)
                  (emit cf (ActualReadFinished (length (as_active_rules a))) w2))"
    define afterT where "afterT = (case ar of
        Inl e \<Rightarrow> fail (traced cf) e c2 (w2, ?l2)
      | Inr a \<Rightarrow> reconcile_plan (traced cf) d a
                  (advance (ActualReadFinished (length (as_active_rules a))) c2)
                  (emit cf (ActualReadFinished (length (as_active_rules a))) w2, ?l2))"
    have eq: "after = (r, c', w')"
      using assms Inr
      by (cases ar) (simp_all add: reconcile_locked_def dr ar Let_def after_def c1_def c2_def)
    have eqT: "reconcile_locked (traced cf) reason c (w, l) = afterT"
      using Inr by (cases ar) (simp_all add: reconcile_locked_def dr ar Let_def afterT_def c1_def
          c2_def coord_simps logged_def)
    show ?thesis
    proof (cases ar)
      case (Inl e)
      then have f: "fail cf e c2 w2 = (r, c', w')" using eq by (simp add: after_def)
      then have "co_generation c' = co_generation c" and "r = Inl e"
        by (auto simp: fail_def Let_def coord_simps c1_def c2_def)
      with fail_traced [OF f, of ?l2] Inl Inr show ?thesis
        by (auto simp: eqT \<open>dr = Inr d\<close> afterT_def intro: reconcile_calls.no_actual)
    next
      case (Inr a)
      then have "reconcile_plan cf d a (advance (ActualReadFinished (length (as_active_rules a))) c2)
          (emit cf (ActualReadFinished (length (as_active_rules a))) w2) = (r, c', w')"
        using eq by (simp add: after_def)
      from reconcile_plan_traced [OF this, of ?l2] show ?thesis
        using Inr by (auto simp: eqT \<open>dr = Inr d\<close> afterT_def coord_simps c1_def c2_def)
    qed
  qed
qed

lemma reconcile_traced:
  assumes "\<not> co_busy c" and "reconcile cf reason c w = (r, c', w')"
  shows "\<exists>cs. reconcile (traced cf) reason c (w, l) = (r, c', w', l @ cs) \<and>
    reconcile_calls (cf_planner cf) (co_generation c) cs r (co_generation c')"
proof -
  obtain c1 where c1: "reconcile_locked cf reason (c\<lparr>co_busy := True\<rparr>) w = (r, c1, w')"
    and c': "c' = c1\<lparr>co_busy := False\<rparr>"
    using assms by (auto simp: reconcile_def split: prod.splits)
  from reconcile_locked_traced [OF c1, of l] assms(1) c' show ?thesis
    by (auto simp: reconcile_def)
qed

subsection \<open>A wiring from the in-memory parts\<close>

text \<open>
  The providers, store, sink and mock executor that the crate ships for simulation, wired together;
  identifiers and timestamps are the constant 0.
\<close>

record mock_world =
  mw_executor :: MockExecutor
  mw_store :: MemorySnapshotStore

definition mock_config :: "DesiredState \<Rightarrow> ActualState \<Rightarrow> mock_world Config" where
  "mock_config desired actual =
     \<lparr>cf_desired_provider = (\<lambda>w. (memory_desired desired, w)),
      cf_actual_provider = (\<lambda>w. (memory_actual actual, w)),
      cf_planner = build_plan,
      cf_executor = (\<lambda>plan w. case mock_execute 0 plan (mw_executor w) of
         (r, m) \<Rightarrow> (r, w\<lparr>mw_executor := m\<rparr>)),
      cf_snapshot_save = (\<lambda>snap w. case snapshot_store_save (mw_store w) snap of
         (r, st) \<Rightarrow> (r, w\<lparr>mw_store := st\<rparr>)),
      cf_event_sink = noop_emit,
      cf_rollback = noop_rollback,
      env_new_v4 = (\<lambda>w. (0, w)),
      env_utc_now = (\<lambda>w. (0, w))\<rparr>"

definition mock_world_init :: "usize option \<Rightarrow> mock_world" where
  "mock_world_init fail_after =
     \<lparr>mw_executor = \<lparr>me_executed_steps = 0, me_fail_after = fail_after\<rparr>, mw_store = Map.empty\<rparr>"

definition one_rule :: DesiredState where
  "one_rule = \<lparr>ds_rules = [\<lparr>dr_id = 1, dr_action = Block, dr_priority = 0, dr_flow = None\<rparr>],
               ds_drivers = []\<rparr>"

lemmas mock_eval = mock_config_def mock_world_init_def one_rule_def reconcile_def reconcile_locked_def
  reconcile_plan_def reconcile_execute_def reconcile_report_def reconcile_commit_def reconcile_noop_def
  rollback_and_fail_def fail_def run_def emit_def noop_emit_def noop_rollback_def memory_desired_def
  memory_actual_def mock_execute_def ExecutionReport_new_def snapshot_store_save_def
  build_plan_def build_def diff_rule_def diff_extra_def plan_new_def plan_is_empty_def
  advance_def enter_def transition_def Coordinator_new_def default_ActualState_def Let_def

subsection \<open>Properties of the coordinator\<close>

text \<open>
  C18. A reconciliation cycle, wired with any planner that meets its contract and any providers,
  executor, store, sink and rollback: a call while another cycle holds the lock is refused and
  changes nothing; every other call releases the lock, publishes a progress that agrees with the
  state, and either succeeds in state \<open>Done\<close> with the generation kept or advanced by one, or fails in
  state \<open>Failed\<close> with the generation untouched.
\<close>

theorem reconcile_outcome:
  assumes "planner (cf_planner cf)" and "reconcile cf reason c w = (r, c', w')"
  shows "if co_busy c then r = Inl ReconcileInProgress \<and> c' = c \<and> w' = w
    else \<not> co_busy c' \<and> coord_inv c' \<and>
      (case r of
         Inl e \<Rightarrow> co_state c' = CS_Failed \<and> co_generation c' = co_generation c
       | Inr _ \<Rightarrow> co_state c' = CS_Done \<and>
           co_generation c' \<in> {co_generation c, co_generation c + 1})"
proof (cases "co_busy c")
  case True
  with assms(2) show ?thesis by (simp add: reconcile_def)
next
  case False
  have "planned_generation cf g d a \<in> {g, g + 1}" for g d a
    using planner.generation_after [OF assms(1)] by (simp add: planned_generation_def Let_def)
  with reconcile_outcome_cases [OF False, of cf reason w] assms(2) False show ?thesis
    by (auto simp: failed_run_def done_run_def)
qed

theorem reconcile_outcome_witness:
  "\<exists>c' w'. reconcile (mock_config one_rule default_ActualState) Startup Coordinator_new
      (mock_world_init (Some 1)) = (Inl (ExecutorError ''MockExecutor: injected failure''), c', w') \<and>
    co_state c' = CS_Failed \<and> co_generation c' = 1"
proof -
  obtain c' w' where run: "reconcile (mock_config one_rule default_ActualState) Startup
      Coordinator_new (mock_world_init (Some 1)) =
        (Inl (ExecutorError ''MockExecutor: injected failure''), c', w')"
    by (simp add: mock_eval)
  have "planner (cf_planner (mock_config one_rule default_ActualState))"
    by (simp add: mock_config_def basic_planner.planner_axioms)
  from reconcile_outcome [OF this run] run show ?thesis
    by (auto simp: Coordinator_new_def)
qed

text \<open>
  C6. The protocol of a cycle: the desired state is read first and the actual state only after it; an
  empty plan ends the cycle; otherwise the snapshot of exactly the two states read, at the plan's
  generation, is saved before the executor is called with exactly the planned operations; the
  rollback is called if and only if that execution failed, with the very snapshot that was saved, and
  nothing is called after an error. The generation becomes the plan's generation exactly when the
  execution succeeded.
\<close>

theorem reconcile_protocol:
  assumes "\<not> co_busy c" and "reconcile cf reason c w = (r, c', w')"
  shows "\<exists>cs. reconcile (traced cf) reason c (w, []) = (r, c', w', cs) \<and>
    reconcile_calls (cf_planner cf) (co_generation c) cs r (co_generation c')"
  using reconcile_traced [OF assms, of "[]"] by simp

theorem reconcile_protocol_witness:
  "\<exists>c' w' cs. reconcile (traced (mock_config one_rule default_ActualState)) Startup Coordinator_new
      (mock_world_init None, []) = (Inr (), c', w', cs) \<and>
    reconcile_calls build_plan 1 cs (Inr ()) 2"
proof -
  obtain c' w' where run: "reconcile (mock_config one_rule default_ActualState) Startup
      Coordinator_new (mock_world_init None) = (Inr (), c', w')" and "co_generation c' = 2"
    by (simp add: mock_eval)
  with reconcile_protocol [OF _ run] show ?thesis
    by (auto simp: Coordinator_new_def mock_config_def)
qed

text \<open>
  The state machine has no way out of its terminal states: once a cycle has run, no sequence of
  events moves the coordinator, so in every later cycle the published progress stays at the result of
  the previous one until that cycle ends.
\<close>

theorem progress_frozen_after_first_cycle:
  assumes "\<not> co_busy c" and "reconcile cf reason c w = (r, c', w')"
  shows "co_state c' \<in> {CS_Done, CS_Failed} \<and> advances es c' = c'"
proof -
  have "co_state c' \<in> {CS_Done, CS_Failed}"
    using reconcile_outcome_cases [OF assms(1), of cf reason w] assms(2)
    by (auto simp: failed_run_def done_run_def)
  then show ?thesis by (simp add: advances_terminal)
qed

theorem progress_frozen_after_first_cycle_witness:
  "\<exists>c' w'. reconcile (mock_config one_rule default_ActualState) Startup Coordinator_new
      (mock_world_init None) = (Inr (), c', w') \<and>
    advances [ReconciliationRequested Scheduled, DesiredReadFinished 1] c' = c' \<and>
    co_state (advances [ReconciliationRequested Scheduled, DesiredReadFinished 1] Coordinator_new)
      = CS_ReadActual"
proof -
  obtain c' w' where run: "reconcile (mock_config one_rule default_ActualState) Startup
      Coordinator_new (mock_world_init None) = (Inr (), c', w')"
    by (simp add: mock_eval)
  have "co_state (advances [ReconciliationRequested Scheduled, DesiredReadFinished 1] Coordinator_new)
      = CS_ReadActual"
    by (simp add: advances_def advance_def transition_def enter_def Coordinator_new_def)
  with progress_frozen_after_first_cycle [OF _ run] run show ?thesis
    by (auto simp: Coordinator_new_def)
qed

end
