(* ===== verification/Policy.thy ===== *)
theory Policy
  imports Types
begin

text \<open>
  From authored policy to executor requests, on the daemon's side: the registry of resolved domains
  and the flow compiler of \<open>src/crates/balansir-daemon/src/reconciliation/dns_flow.rs\<close>, and the policy
  compiler of \<open>src/crates/balansir-daemon/src/policy/compiler.rs\<close>.

  \<open>std::time::Instant\<close> is a natural number of nanoseconds and every reading of the clock is an argument.
  The locale \<open>domain_registry\<close> is what the flow compiler relies on: a registry is a map from lower-case
  domains to addresses that can only lose entries with time, and its lazy expiry is not observable.
\<close>

named_theorems policy_simps \<open>unfolding rules for the compilers\<close>

subsection \<open>Display of addresses\<close>

text \<open>\<open>Display\<close> of \<open>Ipv4Addr\<close> and \<open>Ipv6Addr\<close> in the standard library.\<close>

fun join_with :: "string \<Rightarrow> string list \<Rightarrow> string" where
  "join_with sep [] = []"
| "join_with sep [s] = s"
| "join_with sep (s # ss) = s @ sep @ join_with sep ss"

definition v4_octets :: "u32 \<Rightarrow> u8 list" where
  "v4_octets a = [ucast (drop_bit 24 a), ucast (drop_bit 16 a), ucast (drop_bit 8 a), ucast a]"

definition show_v4 :: "u32 \<Rightarrow> string" where
  "show_v4 a = join_with ''.'' (map show_u (v4_octets a))"

definition hex_digit :: "nat \<Rightarrow> char" where
  "hex_digit n = char_of (if n < 10 then 48 + n else 87 + n)"

fun show_hex :: "nat \<Rightarrow> string" where
  "show_hex n = (if n < 16 then [hex_digit n] else show_hex (n div 16) @ [hex_digit (n mod 16)])"

declare show_hex.simps [simp del]

definition v6_segments :: "128 word \<Rightarrow> u16 list" where
  "v6_segments a = map (\<lambda>k. ucast (drop_bit (16 * k) a)) [7, 6, 5, 4, 3, 2, 1, 0]"

text \<open>The first longest run of zero segments, as its start and length.\<close>

fun zero_span :: "nat \<Rightarrow> nat \<times> nat \<Rightarrow> nat \<times> nat \<Rightarrow> u16 list \<Rightarrow> nat \<times> nat" where
  "zero_span i current longest [] = longest"
| "zero_span i current longest (s # ss) =
     (if s = 0 then
        (let current = (if snd current = 0 then i else fst current, snd current + 1)
         in zero_span (i + 1) current (if snd longest < snd current then current else longest) ss)
      else zero_span (i + 1) (0, 0) longest ss)"

definition show_segments :: "u16 list \<Rightarrow> string" where
  "show_segments ss = join_with '':'' (map (\<lambda>s. show_hex (unat s)) ss)"

definition show_v6 :: "128 word \<Rightarrow> string" where
  "show_v6 a =
     (let ss = v6_segments a
      in if take 6 ss = [0, 0, 0, 0, 0, 0xffff] then ''::ffff:'' @ show_v4 (ucast a)
         else case zero_span 0 (0, 0) (0, 0) ss of
                (start, len) \<Rightarrow>
                  if 1 < len
                  then show_segments (take start ss) @ ''::'' @ show_segments (drop (start + len) ss)
                  else show_segments ss)"

fun show_ip :: "IpAddr \<Rightarrow> string" where
  "show_ip (V4 a) = show_v4 a"
| "show_ip (V6 a) = show_v6 a"

subsection \<open>The domain registry\<close>

type_synonym Instant = nat
type_synonym Duration = nat
type_synonym RegistryEntry = "IpAddr list \<times> Instant option"
type_synonym DnsRegistry = "string \<rightharpoonup> RegistryEntry"

definition registry_new :: DnsRegistry where
  "registry_new = Map.empty"

definition registry_insert :: "DnsRegistry \<Rightarrow> string \<Rightarrow> IpAddr list \<Rightarrow> DnsRegistry" where
  "registry_insert reg domain ips = reg(to_ascii_lowercase domain \<mapsto> (ips, None))"

definition registry_insert_with_ttl ::
    "Instant \<Rightarrow> DnsRegistry \<Rightarrow> string \<Rightarrow> IpAddr list \<Rightarrow> Duration \<Rightarrow> DnsRegistry" where
  "registry_insert_with_ttl now reg domain ips ttl =
     reg(to_ascii_lowercase domain \<mapsto> (ips, Some (now + ttl)))"

definition registry_remove :: "DnsRegistry \<Rightarrow> string \<Rightarrow> DnsRegistry" where
  "registry_remove reg domain = reg(to_ascii_lowercase domain := None)"

definition registry_resolve ::
    "Instant \<Rightarrow> DnsRegistry \<Rightarrow> string \<Rightarrow> IpAddr list option \<times> DnsRegistry" where
  "registry_resolve now reg domain =
     (let key = to_ascii_lowercase domain
      in case reg key of
           Some (ips, Some expires) \<Rightarrow>
             if expires \<le> now then (None, reg(key := None)) else (Some ips, reg)
         | Some (ips, None) \<Rightarrow> (Some ips, reg)
         | None \<Rightarrow> (None, reg))"

subsection \<open>The flow compiler\<close>

definition derived_rule_id :: "u32 \<Rightarrow> IpAddr \<Rightarrow> u32" where
  "derived_rule_id base ip =
     fnv1a 0x01000193 0x811c9dc5 (to_le_bytes_u32 base @ bytes_of (show_ip ip))"

definition resolved_rule :: "DesiredRule \<Rightarrow> FlowCriteria \<Rightarrow> IpAddr \<Rightarrow> DesiredRule" where
  "resolved_rule rule flow ip =
     \<lparr>dr_id = derived_rule_id (dr_id rule) ip, dr_action = dr_action rule,
      dr_priority = dr_priority rule,
      dr_flow = Some (flow\<lparr>fc_dst_ip := Some ip, fc_dst_domain := None\<rparr>)\<rparr>"

definition compile_rule ::
    "Instant \<Rightarrow> DnsRegistry \<Rightarrow> DesiredRule \<Rightarrow> DesiredRule list \<times> DnsRegistry" where
  "compile_rule now reg rule =
     (case dr_flow rule of
        None \<Rightarrow> ([rule], reg)
      | Some flow \<Rightarrow>
          (case fc_dst_domain flow of
             None \<Rightarrow> ([rule], reg)
           | Some domain \<Rightarrow>
               (case registry_resolve now reg domain of
                  (None, reg) \<Rightarrow> ([], reg)
                | (Some ips, reg) \<Rightarrow> (map (resolved_rule rule flow) ips, reg))))"

text \<open>\<open>clock i\<close> is the instant at which the rule with index \<open>i\<close> is resolved.\<close>

fun compile_rules ::
    "(nat \<Rightarrow> Instant) \<Rightarrow> nat \<Rightarrow> DnsRegistry \<Rightarrow> DesiredRule list \<Rightarrow> DesiredRule list \<times> DnsRegistry" where
  "compile_rules clock i reg [] = ([], reg)"
| "compile_rules clock i reg (rule # rules) =
     (let (rs, reg) = compile_rule (clock i) reg rule;
          (rs', reg) = compile_rules clock (i + 1) reg rules
      in (rs @ rs', reg))"

definition flow_compile ::
    "(nat \<Rightarrow> Instant) \<Rightarrow> DnsRegistry \<Rightarrow> DesiredState \<Rightarrow> DesiredState \<times> DnsRegistry" where
  "flow_compile clock reg state =
     (case compile_rules clock 0 reg (ds_rules state) of
        (rules, reg) \<Rightarrow> (\<lparr>ds_rules = rules, ds_drivers = ds_drivers state\<rparr>, reg))"

subsection \<open>The policy compiler\<close>

definition UNSPECIFIED :: IpAddr where
  "UNSPECIFIED = V4 0"

definition flow_field :: "('a \<Rightarrow> 'b option) \<Rightarrow> 'a option \<Rightarrow> 'b \<Rightarrow> 'b" where
  "flow_field f flow d = (case Option.bind flow f of Some x \<Rightarrow> x | None \<Rightarrow> d)"

definition policy_compile :: "DesiredRule \<Rightarrow> ActionRequest" where
  "policy_compile rule =
     \<lparr>rq_action = dr_action rule,
      rq_src_ip = flow_field fc_src_ip (dr_flow rule) UNSPECIFIED,
      rq_dst_ip = flow_field fc_dst_ip (dr_flow rule) UNSPECIFIED,
      rq_src_port = flow_field fc_src_port (dr_flow rule) 0,
      rq_dst_port = flow_field fc_dst_port (dr_flow rule) 0,
      rq_protocol = flow_field fc_protocol (dr_flow rule) 0,
      rq_interface = 0,
      rq_trace = \<lparr>dt_policy_id = dr_id rule, dt_steps = [], dt_action = dr_action rule,
                  dt_execution_time_us = 0, dt_correlation_id = 0\<rparr>\<rparr>"

subsection \<open>What the compiler relies on\<close>

text \<open>
  The view of a registry at an instant: the addresses it answers for a lower-case domain. The laws
  say that resolving answers the view and never changes what later resolutions see.
\<close>

locale domain_registry =
  fixes view :: "Instant \<Rightarrow> 'r \<Rightarrow> string \<Rightarrow> IpAddr list option"
    and resolve :: "Instant \<Rightarrow> 'r \<Rightarrow> string \<Rightarrow> IpAddr list option \<times> 'r"
  assumes resolve_view: "fst (resolve now reg domain) = view now reg (to_ascii_lowercase domain)"
    and resolve_frame: "now \<le> now' \<Longrightarrow> view now' (snd (resolve now reg domain)) = view now' reg"
begin

text \<open>A sequence of resolutions at increasing instants answers the views of the first registry.\<close>

primrec resolve_all :: "'r \<Rightarrow> (Instant \<times> string) list \<Rightarrow> IpAddr list option list \<times> 'r" where
  "resolve_all reg [] = ([], reg)"
| "resolve_all reg (q # qs) =
     (case resolve (fst q) reg (snd q) of (r, reg) \<Rightarrow>
        (case resolve_all reg qs of (rs, reg) \<Rightarrow> (r # rs, reg)))"

lemma resolve_all_view:
  "sorted (map fst qs) \<Longrightarrow> (\<forall>q \<in> set qs. t \<le> fst q) \<Longrightarrow>
     (\<And>t'. t \<le> t' \<Longrightarrow> view t' reg' = view t' reg) \<Longrightarrow>
     fst (resolve_all reg' qs) = map (\<lambda>(t, d). view t reg (to_ascii_lowercase d)) qs"
proof (induction qs arbitrary: reg' t)
  case Nil
  then show ?case by simp
next
  case (Cons q qs)
  obtain u d where q: "q = (u, d)" by fastforce
  obtain r reg2 where r: "resolve u reg' d = (r, reg2)" by fastforce
  have "view t' reg2 = view t' reg" if "u \<le> t'" for t'
    using resolve_frame [of u t' reg' d] Cons.prems(2,3) that r q by fastforce
  with Cons.IH [of u reg2] Cons.prems(1) have
    "fst (resolve_all reg2 qs) = map (\<lambda>(t, d). view t reg (to_ascii_lowercase d)) qs"
    by (simp add: q)
  moreover have "r = view u reg (to_ascii_lowercase d)"
    using resolve_view [of u reg' d] Cons.prems(2,3) r q by auto
  ultimately show ?case by (auto simp: q r split: prod.splits)
qed

end

definition registry_view :: "Instant \<Rightarrow> DnsRegistry \<Rightarrow> string \<Rightarrow> IpAddr list option" where
  "registry_view now reg key =
     (case reg key of
        Some (ips, Some expires) \<Rightarrow> if expires \<le> now then None else Some ips
      | Some (ips, None) \<Rightarrow> Some ips
      | None \<Rightarrow> None)"

lemma registry_resolve_fst:
  "fst (registry_resolve now reg domain) = registry_view now reg (to_ascii_lowercase domain)"
  by (simp add: registry_resolve_def registry_view_def Let_def split: option.splits prod.splits)

lemma registry_resolve_snd:
  assumes "now \<le> now'"
  shows "registry_view now' (snd (registry_resolve now reg domain)) = registry_view now' reg"
proof
  fix key
  show "registry_view now' (snd (registry_resolve now reg domain)) key = registry_view now' reg key"
    using assms
    by (auto simp: registry_resolve_def registry_view_def Let_def split: option.splits prod.splits)
qed

interpretation dns: domain_registry registry_view registry_resolve
  by unfold_locales (simp_all add: registry_resolve_fst registry_resolve_snd)

lemma registry_view_insert [policy_simps]:
  "registry_view now (registry_insert reg d ips) k =
     (if k = to_ascii_lowercase d then Some ips else registry_view now reg k)"
  by (simp add: registry_view_def registry_insert_def)

lemma registry_view_insert_with_ttl [policy_simps]:
  "registry_view now' (registry_insert_with_ttl now reg d ips ttl) k =
     (if k = to_ascii_lowercase d then if now + ttl \<le> now' then None else Some ips
      else registry_view now' reg k)"
  by (simp add: registry_view_def registry_insert_with_ttl_def)

lemma registry_view_remove [policy_simps]:
  "registry_view now (registry_remove reg d) k =
     (if k = to_ascii_lowercase d then None else registry_view now reg k)"
  by (simp add: registry_view_def registry_remove_def)

subsection \<open>Compilation as a function of the view\<close>

text \<open>The reference: what a rule compiles to when its domain resolves to \<open>look domain\<close>.\<close>

definition rule_domain :: "DesiredRule \<Rightarrow> string option" where
  "rule_domain rule = Option.bind (dr_flow rule) fc_dst_domain"

definition expand_rule :: "(string \<Rightarrow> IpAddr list option) \<Rightarrow> DesiredRule \<Rightarrow> DesiredRule list" where
  "expand_rule look rule =
     (case rule_domain rule of
        None \<Rightarrow> [rule]
      | Some domain \<Rightarrow>
          (case look (to_ascii_lowercase domain) of
             None \<Rightarrow> []
           | Some ips \<Rightarrow> map (resolved_rule rule (the (dr_flow rule))) ips))"

lemma compile_rule_expand:
  "fst (compile_rule now reg rule) = expand_rule (registry_view now reg) rule"
  using registry_resolve_fst [of now reg]
  by (auto simp: compile_rule_def expand_rule_def rule_domain_def split: option.splits prod.splits)
    (metis fst_conv option.distinct(1) option.inject)+

lemma compile_rule_frame:
  assumes "now \<le> now'"
  shows "registry_view now' (snd (compile_rule now reg rule)) = registry_view now' reg"
  using registry_resolve_snd [OF assms, of reg]
  by (auto simp: compile_rule_def split: option.splits prod.splits) (metis snd_conv)+

lemma compile_rules_expand:
  assumes "mono clock"
    and "\<And>t. clock i \<le> t \<Longrightarrow> registry_view t reg' = registry_view t reg"
  shows "fst (compile_rules clock i reg' rules) =
    concat (map (\<lambda>(j, rule). expand_rule (registry_view (clock (i + j)) reg) rule)
              (enumerate 0 rules))"
  using assms(2)
proof (induction rules arbitrary: i reg')
  case Nil
  then show ?case by simp
next
  case (Cons rule rules)
  obtain rs reg2 where r: "compile_rule (clock i) reg' rule = (rs, reg2)" by fastforce
  have later: "clock i \<le> clock (Suc i)" using assms(1) by (simp add: monoD)
  have view2: "registry_view t reg2 = registry_view t reg" if "clock (Suc i) \<le> t" for t
    using compile_rule_frame [of "clock i" t reg' rule] Cons.prems [of t] that later r by simp
  have rs: "rs = expand_rule (registry_view (clock i) reg) rule"
    using compile_rule_expand [of "clock i" reg' rule] Cons.prems [of "clock i"] r by simp
  have shift: "enumerate (Suc 0) rules = map (\<lambda>(j, x). (Suc j, x)) (enumerate 0 rules)"
    by (simp add: enumerate_eq_zip zip_map1 [symmetric] map_Suc_upt [symmetric] del: upt_Suc)
  have "fst (compile_rules clock (Suc i) reg2 rules) =
      concat (map (\<lambda>(j, rule). expand_rule (registry_view (clock (Suc i + j)) reg) rule)
                (enumerate 0 rules))"
    using Cons.IH [of "Suc i" reg2] view2 by simp
  then show ?case
    by (simp add: r rs shift Let_def comp_def case_prod_unfold)
qed

lemma expand_rule_no_domain: "r \<in> set (expand_rule look rule) \<Longrightarrow> rule_domain r = None"
  by (auto simp: expand_rule_def rule_domain_def resolved_rule_def split: option.splits)

lemma compile_rule_no_domain:
  "rule_domain rule = None \<Longrightarrow> compile_rule now reg rule = ([rule], reg)"
  by (auto simp: compile_rule_def rule_domain_def split: option.splits)

lemma compile_rules_no_domain:
  "\<forall>r \<in> set rules. rule_domain r = None \<Longrightarrow> compile_rules clock i reg rules = (rules, reg)"
  by (induction rules arbitrary: i) (simp_all add: compile_rule_no_domain)

subsection \<open>Properties of the compilers\<close>

text \<open>
  C20. The flow compiler is the expansion of each rule by the registry as it stood when compilation
  began, although resolving removes expired entries on the way: a rule without a domain passes
  unchanged, a rule whose domain resolves becomes one rule for each address, and a rule whose domain
  does not resolve is left out. No compiled rule names a domain, the drivers are kept, and compiling
  the result again, at any time and with any registry, changes nothing.
\<close>

theorem flow_compile_spec:
  assumes "mono clock" and "flow_compile clock reg state = (state', reg')"
  shows "ds_rules state' =
      concat (map (\<lambda>(j, rule). expand_rule (registry_view (clock j) reg) rule)
                (enumerate 0 (ds_rules state))) \<and>
    (\<forall>r \<in> set (ds_rules state'). rule_domain r = None) \<and>
    ds_drivers state' = ds_drivers state \<and>
    flow_compile clock2 reg2 state' = (state', reg2)"
proof -
  have rules: "ds_rules state' =
      concat (map (\<lambda>(j, rule). expand_rule (registry_view (clock j) reg) rule)
                (enumerate 0 (ds_rules state)))"
    using compile_rules_expand [OF assms(1), of 0 reg reg "ds_rules state"] assms(2)
    by (auto simp: flow_compile_def split: prod.splits)
  then have "\<forall>r \<in> set (ds_rules state'). rule_domain r = None"
    using expand_rule_no_domain by auto
  moreover from this have "flow_compile clock2 reg2 state' = (state', reg2)"
    by (simp add: flow_compile_def compile_rules_no_domain)
  moreover have "ds_drivers state' = ds_drivers state"
    using assms(2) by (auto simp: flow_compile_def split: prod.splits)
  ultimately show ?thesis using rules by blast
qed

definition example_flow :: FlowCriteria where
  "example_flow = \<lparr>fc_src_ip = None, fc_dst_ip = None, fc_src_port = None, fc_dst_port = Some 443,
                   fc_protocol = Some 6, fc_dst_domain = Some ''Example.org''\<rparr>"

definition example_state :: DesiredState where
  "example_state =
     \<lparr>ds_rules = [\<lparr>dr_id = 7, dr_action = Block, dr_priority = 1, dr_flow = Some example_flow\<rparr>],
      ds_drivers = []\<rparr>"

theorem flow_compile_spec_witness:
  "\<exists>state' reg'. flow_compile (\<lambda>_. 5) (registry_insert registry_new ''example.ORG'' [V4 1, V4 2])
      example_state = (state', reg') \<and> length (ds_rules state') = 2 \<and>
    (\<forall>r \<in> set (ds_rules state'). rule_domain r = None)"
proof -
  let ?reg = "registry_insert registry_new ''example.ORG'' [V4 1, V4 2]"
  obtain state' reg' where run: "flow_compile (\<lambda>_. 5) ?reg example_state = (state', reg')"
    by fastforce
  have "to_ascii_lowercase ''Example.org'' = to_ascii_lowercase ''example.ORG''" by code_simp
  then have "length (ds_rules state') = 2"
    using flow_compile_spec [OF _ run] by (simp add: example_state_def example_flow_def mono_def
        expand_rule_def rule_domain_def policy_simps)
  moreover have "\<forall>r \<in> set (ds_rules state'). rule_domain r = None"
    using flow_compile_spec [OF _ run] by (simp add: mono_def)
  ultimately show ?thesis using run by blast
qed

text \<open>
  A DNS observation is trusted for exactly its time to live, whatever the case in which the
  domain is written and whatever was resolved in between: from the instant \<open>now + ttl\<close> on it is gone.
\<close>

theorem registry_ttl:
  assumes "t \<le> t'" and "to_ascii_lowercase d' = to_ascii_lowercase d"
  shows "fst (registry_resolve t'
      (snd (registry_resolve t (registry_insert_with_ttl now reg d ips ttl) e)) d') =
    (if t' < now + ttl then Some ips else None)"
  using assms
  by (simp add: registry_resolve_fst registry_resolve_snd registry_view_insert_with_ttl)

theorem registry_ttl_witness:
  "fst (registry_resolve 20
      (snd (registry_resolve 15 (registry_insert_with_ttl 10 registry_new ''a.b'' [V4 1] 30) ''a.b''))
      ''A.B'') = Some [V4 1]"
proof -
  have "to_ascii_lowercase ''A.B'' = to_ascii_lowercase ''a.b''" by code_simp
  then show ?thesis using registry_ttl [of 15 20 "''A.B''" "''a.b''"] by simp
qed

end
