(* ===== verification/Adapters.thy ===== *)
theory Adapters
  imports Coordinator Policy
begin

text \<open>
  The adapters that connect the daemon's state and executor to the coordinator,
  \<open>src/crates/balansir-daemon/src/reconciliation/{adapters,dummy}.rs\<close>. The trait object \<open>ExecutorAdapter\<close> is a
  record of functions on a kernel state \<open>'k\<close>; the handles shared behind mutexes (\<open>desired_state\<close>,
  \<open>actual_state\<close>, the snapshot store) are the fields of one world record.

  \<open>faithful_adapter\<close> states what an executor promises about the rules it enforces; the agreement lemmas
  say when the daemon's book-keeping of the actual state matches what the executor enforces.
\<close>

named_theorems adapter_simps \<open>effect of the daemon's adapters\<close>

subsection \<open>Errors, the executor port and the shared world\<close>

text \<open>
  \<open>ReconciliationError::ApplyRule\<close> carries the executor's message, or the result it did not expect
  (which the source renders with \<open>{:?}\<close>).
\<close>

datatype ReconciliationError =
    RE_Config string
  | RE_StateLoad string
  | RE_StateSave string
  | RE_Deserialize string
  | RE_Serialize string
  | RE_Reconcile string
  | RE_ApplyRule string
  | RE_UnexpectedResult ActionResult

type_synonym 'a ReconciliationResult = "('a, ReconciliationError) result"

record 'k ExecutorAdapter =
  ea_execute :: "ActionRequest \<Rightarrow> 'k \<Rightarrow> ActionResult \<times> 'k"
  ea_rule_count :: "'k \<Rightarrow> u32 \<times> 'k"
  ea_remove_rule :: "u32 \<Rightarrow> 'k \<Rightarrow> ActionResult \<times> 'k"
  ea_actual_rule_ids :: "'k \<Rightarrow> u32 list \<times> 'k"

record 'k World =
  wd_desired :: DesiredState
  wd_actual :: ActualState
  wd_snapshots :: MemorySnapshotStore
  wd_kernel :: 'k

definition daemon_desired :: "'k World \<Rightarrow> DesiredState ControlResult \<times> 'k World" where
  "daemon_desired w = (Inr (wd_desired w), w)"

definition daemon_actual :: "'k World \<Rightarrow> ActualState ControlResult \<times> 'k World" where
  "daemon_actual w = (Inr (wd_actual w), w)"

subsection \<open>Executing a plan\<close>

definition retain_other :: "u32 \<Rightarrow> ActualState \<Rightarrow> ActualState" where
  "retain_other i actual = actual\<lparr>as_active_rules := filter (\<lambda>r. ar_id r \<noteq> i) (as_active_rules actual)\<rparr>"

definition push_rule :: "ActualRule \<Rightarrow> ActualState \<Rightarrow> ActualState" where
  "push_rule r actual = actual\<lparr>as_active_rules := as_active_rules actual @ [r]\<rparr>"

definition apply_rule ::
    "'k ExecutorAdapter \<Rightarrow> DesiredRule \<Rightarrow> 'k World \<Rightarrow> unit ReconciliationResult \<times> 'k World" where
  "apply_rule ex rule w =
     (let request = policy_compile rule;
          (res, k) = ea_execute ex request (wd_kernel w);
          w = w\<lparr>wd_kernel := k\<rparr>
      in case res of
           Applied _ rule_id \<Rightarrow>
             (Inr (), w\<lparr>wd_actual :=
                push_rule \<lparr>ar_id = dr_id rule, ar_action = dr_action rule, ar_rule_id = rule_id,
                           ar_flow = dr_flow rule\<rparr> (retain_other (dr_id rule) (wd_actual w))\<rparr>)
         | AlreadyApplied \<Rightarrow> (Inr (), w)
         | AR_Failed _ message \<Rightarrow>
             (Inl (RE_ApplyRule (case message of Some m \<Rightarrow> m | None \<Rightarrow> ''rule failed'')), w)
         | other \<Rightarrow> (Inl (RE_UnexpectedResult other), w))"

fun execute_op ::
    "'k ExecutorAdapter \<Rightarrow> ReconciliationOperation \<Rightarrow> usize \<times> usize \<times> 'k World
       \<Rightarrow> usize \<times> usize \<times> 'k World" where
  "execute_op ex (UpdatePolicy rule) (succeeded, failed, w) =
     (case apply_rule ex rule w of
        (Inl _, w) \<Rightarrow> (succeeded, failed + 1, w)
      | (Inr _, w) \<Rightarrow> (succeeded + 1, failed, w))"
| "execute_op ex (RemovePolicy rule_id) (succeeded, failed, w) =
     (let (res, k) = ea_remove_rule ex rule_id (wd_kernel w);
          w = w\<lparr>wd_kernel := k\<rparr>
      in case res of
           Applied _ _ \<Rightarrow>
             (succeeded + 1, failed, w\<lparr>wd_actual := retain_other rule_id (wd_actual w)\<rparr>)
         | AlreadyApplied \<Rightarrow>
             (succeeded + 1, failed, w\<lparr>wd_actual := retain_other rule_id (wd_actual w)\<rparr>)
         | AR_Failed _ _ \<Rightarrow> (succeeded, failed + 1, w)
         | _ \<Rightarrow> (succeeded, failed + 1, w))"
| "execute_op ex (CreateDriver _) s = s"
| "execute_op ex (RemoveDriver _) s = s"
| "execute_op ex (RestartDriver _) s = s"
| "execute_op ex NoOp s = s"

definition execute_ops ::
    "'k ExecutorAdapter \<Rightarrow> ReconciliationOperation list \<Rightarrow> usize \<times> usize \<times> 'k World
       \<Rightarrow> usize \<times> usize \<times> 'k World" where
  "execute_ops ex ops s = fold (execute_op ex) ops s"

definition daemon_execute ::
    "'k ExecutorAdapter \<Rightarrow> ('k \<Rightarrow> 128 word \<times> 'k) \<Rightarrow> ReconciliationPlan \<Rightarrow> 'k World
       \<Rightarrow> ExecutionReport ControlResult \<times> 'k World" where
  "daemon_execute ex new_v4 plan w =
     (let (succeeded, failed, w) = execute_ops ex (rp_operations plan) (0, 0, w);
          (uuid, k) = new_v4 (wd_kernel w)
      in (Inr (ExecutionReport_new uuid (rp_operations plan) succeeded failed), w\<lparr>wd_kernel := k\<rparr>))"

subsection \<open>Rollback\<close>

definition to_revert :: "Snapshot \<Rightarrow> ActualState \<Rightarrow> u32 list" where
  "to_revert snapshot live =
     (let snapshot_ids = map ar_id (as_active_rules (sn_actual snapshot))
      in filter (\<lambda>i. i \<notin> set snapshot_ids) (map ar_id (as_active_rules live)))"

definition revert_all :: "'k ExecutorAdapter \<Rightarrow> u32 list \<Rightarrow> 'k \<Rightarrow> 'k" where
  "revert_all ex ids k = fold (\<lambda>i k. snd (ea_remove_rule ex i k)) ids k"

definition daemon_rollback ::
    "'k ExecutorAdapter \<Rightarrow> Snapshot \<Rightarrow> 'k World \<Rightarrow> unit ControlResult \<times> 'k World" where
  "daemon_rollback ex snapshot w =
     (let w = w\<lparr>wd_kernel := revert_all ex (to_revert snapshot (wd_actual w)) (wd_kernel w)\<rparr>
      in (Inr (), w\<lparr>wd_actual := sn_actual snapshot\<rparr>))"

subsection \<open>Two executor adapters\<close>

definition pending_adapter :: "'k ExecutorAdapter" where
  "pending_adapter =
     \<lparr>ea_execute = (\<lambda>request k. (Unsupported (action_type (rq_action request)), k)),
      ea_rule_count = (\<lambda>k. (0, k)),
      ea_remove_rule = (\<lambda>rule_id k. (Unsupported AT_Block, k)),
      ea_actual_rule_ids = (\<lambda>k. ([], k))\<rparr>"

text \<open>The dummy adapter's state is its counter; \<open>fetch_add\<close> and \<open>fetch_sub\<close> wrap.\<close>

definition dummy_adapter :: "u32 ExecutorAdapter" where
  "dummy_adapter =
     \<lparr>ea_execute = (\<lambda>request count. (Applied 100 (Some (count + 1)), count + 1)),
      ea_rule_count = (\<lambda>count. (count, count)),
      ea_remove_rule = (\<lambda>rule_id count. (Applied 50 (Some rule_id), count - 1)),
      ea_actual_rule_ids = (\<lambda>count. ([], count))\<rparr>"

subsection \<open>Counting and frame lemmas\<close>

lemma apply_rule_frame [adapter_simps]:
  "wd_desired (snd (apply_rule ex rule w)) = wd_desired w"
  "wd_snapshots (snd (apply_rule ex rule w)) = wd_snapshots w"
  by (simp_all add: apply_rule_def Let_def split: prod.splits ActionResult.splits)

lemma execute_op_frame:
  assumes "execute_op ex op (s, f, w) = (s', f', w')"
  shows "wd_desired w' = wd_desired w \<and> wd_snapshots w' = wd_snapshots w \<and>
     s' + f' \<le> Suc (s + f) \<and> s \<le> s' \<and> f \<le> f'"
proof (cases op)
  case (UpdatePolicy rule)
  then show ?thesis
    using assms apply_rule_frame [of ex rule w] by (auto split: prod.splits sum.splits)
next
  case (RemovePolicy i)
  then show ?thesis
    using assms by (auto simp: Let_def split: prod.splits ActionResult.splits)
qed (use assms in simp_all)

lemma execute_ops_simps [simp]:
  "execute_ops ex [] s = s"
  "execute_ops ex (op # ops) s = execute_ops ex ops (execute_op ex op s)"
  by (simp_all add: execute_ops_def)

lemma execute_ops_frame:
  "execute_ops ex ops (s, f, w) = (s', f', w') \<Longrightarrow>
     wd_desired w' = wd_desired w \<and> wd_snapshots w' = wd_snapshots w \<and>
     s' + f' \<le> s + f + length ops \<and> s \<le> s' \<and> f \<le> f'"
proof (induction ops arbitrary: s f w)
  case Nil
  then show ?case by simp
next
  case (Cons op ops)
  obtain s1 f1 w1 where op: "execute_op ex op (s, f, w) = (s1, f1, w1)" by (metis prod_cases3)
  from Cons.prems have "execute_ops ex ops (s1, f1, w1) = (s', f', w')" by (simp add: op)
  from Cons.IH [OF this] execute_op_frame [OF op] show ?case by simp
qed

interpretation daemon: plan_executor "daemon_execute ex new_v4"
proof
  fix plan w rep w'
  assume "daemon_execute ex new_v4 plan w = (Inr rep, w')"
  then obtain s f w1 uuid where "execute_ops ex (rp_operations plan) (0, 0, w) = (s, f, w1)"
    and "rep = ExecutionReport_new uuid (rp_operations plan) s f"
    by (auto simp: daemon_execute_def Let_def split: prod.splits)
  with execute_ops_frame [of ex "rp_operations plan" 0 0 w s f w1]
  show "er_operations rep = rp_operations plan \<and> er_total rep = length (rp_operations plan) \<and>
    er_success rep = (er_failed rep = 0) \<and>
    er_succeeded rep + er_failed rep \<le> length (rp_operations plan)"
    by (simp add: ExecutionReport_new_def)
qed

subsection \<open>What the executor enforces and what the daemon accounts for\<close>

text \<open>
  \<open>enf k\<close> is the request the executor enforces under each rule identifier in kernel state \<open>k\<close>. A faithful
  adapter answers \<open>Applied\<close> after installing the request, \<open>AlreadyApplied\<close> when exactly this request is in
  force, and otherwise has installed nothing; replacing a rule may fail after the old one is gone.
\<close>

type_synonym enforced = "u32 \<rightharpoonup> ActionRequest"

definition faithful_execute :: "('k \<Rightarrow> enforced) \<Rightarrow> 'k ExecutorAdapter \<Rightarrow> bool" where
  "faithful_execute enf ex \<longleftrightarrow>
     (\<forall>req k. case ea_execute ex req k of
        (Applied _ _, k') \<Rightarrow> enf k' = (enf k)(dt_policy_id (rq_trace req) \<mapsto> req)
      | (AlreadyApplied, k') \<Rightarrow> enf k (dt_policy_id (rq_trace req)) = Some req \<and> enf k' = enf k
      | (_, k') \<Rightarrow> enf k' = enf k \<or> enf k' = (enf k)(dt_policy_id (rq_trace req) := None))"

definition faithful_remove :: "('k \<Rightarrow> enforced) \<Rightarrow> 'k ExecutorAdapter \<Rightarrow> bool" where
  "faithful_remove enf ex \<longleftrightarrow>
     (\<forall>i k. case ea_remove_rule ex i k of
        (Applied _ _, k') \<Rightarrow> enf k' = (enf k)(i := None)
      | (AlreadyApplied, k') \<Rightarrow> enf k' = (enf k)(i := None)
      | (_, k') \<Rightarrow> enf k' = enf k)"

definition faithful_adapter :: "('k \<Rightarrow> enforced) \<Rightarrow> 'k ExecutorAdapter \<Rightarrow> bool" where
  "faithful_adapter enf ex \<longleftrightarrow> faithful_execute enf ex \<and> faithful_remove enf ex"

definition request_of :: "u32 \<Rightarrow> Action \<times> FlowCriteria option \<Rightarrow> ActionRequest" where
  "request_of i e =
     policy_compile \<lparr>dr_id = i, dr_action = fst e, dr_priority = 0, dr_flow = snd e\<rparr>"

definition requests :: "policy_map \<Rightarrow> enforced" where
  "requests m = (\<lambda>i. map_option (request_of i) (m i))"

definition agrees :: "('k \<Rightarrow> enforced) \<Rightarrow> 'k World \<Rightarrow> bool" where
  "agrees enf w \<longleftrightarrow> enf (wd_kernel w) = requests (actual_map (wd_actual w))"

text \<open>Every enforced rule is accounted for, with its content; an accounted rule may be missing.\<close>

definition accounted :: "('k \<Rightarrow> enforced) \<Rightarrow> 'k World \<Rightarrow> bool" where
  "accounted enf w \<longleftrightarrow> enf (wd_kernel w) \<subseteq>\<^sub>m requests (actual_map (wd_actual w))"

lemma policy_compile_request_of: "policy_compile r = request_of (dr_id r) (dr_action r, dr_flow r)"
  by (simp add: request_of_def policy_compile_def)

lemma policy_id_request_of [simp]: "dt_policy_id (rq_trace (request_of i e)) = i"
  by (simp add: request_of_def policy_compile_def)

lemma requests_simps [adapter_simps]:
  "requests (m(i \<mapsto> e)) = (requests m)(i \<mapsto> request_of i e)"
  "requests (m(i := None)) = (requests m)(i := None)"
  by (auto simp: requests_def)

lemma actual_map_filter:
  "actual_map (retain_other i a) = (actual_map a)(i := None)"
proof -
  have "map_of (map actual_entry (filter (\<lambda>r. ar_id r \<noteq> i) rs)) =
      (map_of (map actual_entry rs))(i := None)" for rs
    by (induction rs) (auto simp: actual_entry_def)
  then show ?thesis by (simp add: actual_map_def retain_other_def)
qed

lemma actual_map_push:
  assumes "actual_map a (ar_id r) = None"
  shows "actual_map (push_rule r a) = (actual_map a)(ar_id r \<mapsto> (ar_action r, ar_flow r))"
proof
  fix i
  show "actual_map (push_rule r a) i = ((actual_map a)(ar_id r \<mapsto> (ar_action r, ar_flow r))) i"
    using assms by (auto simp: actual_map_def push_rule_def map_of_append actual_entry_def map_add_def
        split: option.splits)
qed

lemma actual_map_replace:
  "actual_map (push_rule \<lparr>ar_id = i, ar_action = act, ar_rule_id = h, ar_flow = fl\<rparr> (retain_other i a)) =
     (actual_map a)(i \<mapsto> (act, fl))"
  by (subst actual_map_push) (simp_all add: actual_map_filter)

lemmas actual_map_simps [adapter_simps] = actual_map_filter actual_map_replace

lemma faithful_executeD:
  assumes "faithful_execute enf ex" and "ea_execute ex req k = (res, k')"
  shows "case res of
      Applied _ _ \<Rightarrow> enf k' = (enf k)(dt_policy_id (rq_trace req) \<mapsto> req)
    | AlreadyApplied \<Rightarrow> enf k (dt_policy_id (rq_trace req)) = Some req \<and> enf k' = enf k
    | _ \<Rightarrow> enf k' = enf k \<or> enf k' = (enf k)(dt_policy_id (rq_trace req) := None)"
  using assms(1) unfolding faithful_execute_def
  by (elim allE [of _ req] allE [of _ k]) (simp add: assms(2))

lemma faithful_removeD:
  assumes "faithful_remove enf ex" and "ea_remove_rule ex i k = (res, k')"
  shows "case res of
      Applied _ _ \<Rightarrow> enf k' = (enf k)(i := None)
    | AlreadyApplied \<Rightarrow> enf k' = (enf k)(i := None)
    | _ \<Rightarrow> enf k' = enf k"
  using assms(1) unfolding faithful_remove_def
  by (elim allE [of _ i] allE [of _ k]) (simp add: assms(2))

text \<open>The effect of one operation: what it does to both maps, as a function of its outcome.\<close>

lemma apply_rule_effect:
  assumes "faithful_execute enf ex" and "apply_rule ex rule w = (r, w')"
  shows "case r of
      Inr _ \<Rightarrow> enf (wd_kernel w') = (enf (wd_kernel w))(dr_id rule \<mapsto> policy_compile rule) \<and>
        (actual_map (wd_actual w') = (actual_map (wd_actual w))(dr_id rule \<mapsto> (dr_action rule, dr_flow rule))
         \<or> enf (wd_kernel w) (dr_id rule) = Some (policy_compile rule) \<and> wd_actual w' = wd_actual w)
    | Inl _ \<Rightarrow> wd_actual w' = wd_actual w \<and>
        (enf (wd_kernel w') = enf (wd_kernel w) \<or>
         enf (wd_kernel w') = (enf (wd_kernel w))(dr_id rule := None))"
proof -
  obtain res k where k: "ea_execute ex (policy_compile rule) (wd_kernel w) = (res, k)" by fastforce
  have id: "dt_policy_id (rq_trace (policy_compile rule)) = dr_id rule"
    by (simp add: policy_compile_request_of)
  with assms(2) faithful_executeD [OF assms(1) k] show ?thesis
    by (cases res) (auto simp: apply_rule_def k id actual_map_simps fun_upd_idem)
qed

lemma accounted_upd:
  assumes "m \<subseteq>\<^sub>m requests n"
  shows "m(i \<mapsto> request_of i e) \<subseteq>\<^sub>m requests (n(i \<mapsto> e))"
    and "m(i := None) \<subseteq>\<^sub>m requests (n(i := None))"
    and "m(i := None) \<subseteq>\<^sub>m requests n"
  using assms by (auto simp: adapter_simps map_le_def)

lemma execute_op_accounted:
  assumes "faithful_adapter enf ex" and "accounted enf w"
    and "execute_op ex op (s, f, w) = (s', f', w')"
  shows "accounted enf w'"
proof (cases op)
  case (UpdatePolicy rule)
  obtain r w1 where r: "apply_rule ex rule w = (r, w1)" by fastforce
  with assms(3) UpdatePolicy have w': "w' = w1" by (auto split: sum.splits)
  have "faithful_execute enf ex" using assms(1) by (simp add: faithful_adapter_def)
  from apply_rule_effect [OF this r] assms(2)
    accounted_upd [of "enf (wd_kernel w)" "actual_map (wd_actual w)"]
  show ?thesis
    by (cases r) (auto simp: accounted_def w' policy_compile_request_of fun_upd_idem)
next
  case (RemovePolicy i)
  obtain res k where k: "ea_remove_rule ex i (wd_kernel w) = (res, k)" by fastforce
  with faithful_removeD [OF _ k, of enf] assms RemovePolicy accounted_upd [of "enf (wd_kernel w)" "actual_map (wd_actual w)"]
  show ?thesis
    by (cases res) (auto simp: accounted_def faithful_adapter_def k actual_map_simps)
qed (use assms in auto)

lemma execute_ops_accounted:
  assumes "faithful_adapter enf ex"
  shows "accounted enf w \<Longrightarrow> execute_ops ex ops (s, f, w) = (s', f', w') \<Longrightarrow> accounted enf w'"
proof (induction ops arbitrary: s f w)
  case Nil
  then show ?case by simp
next
  case (Cons op ops)
  obtain s1 f1 w1 where op: "execute_op ex op (s, f, w) = (s1, f1, w1)" by (metis prod_cases3)
  from execute_op_accounted [OF assms Cons.prems(1) op] Cons.prems(2) Cons.IH show ?case
    by (simp add: op)
qed

lemma requests_policy_step:
  "requests m = requests n \<Longrightarrow> requests (policy_step m op) = requests (policy_step n op)"
  by (cases op) (simp_all add: adapter_simps)

lemma requests_policy_steps:
  "requests m = requests n \<Longrightarrow> requests (policy_steps m ops) = requests (policy_steps n ops)"
proof (induction ops arbitrary: m n)
  case (Cons op ops)
  from Cons.IH [OF requests_policy_step [OF Cons.prems, of op]] show ?case by simp
qed simp

lemma execute_op_success:
  assumes "faithful_adapter enf ex" and "agrees enf w"
    and "execute_op ex op (s, f, w) = (s', f, w')"
  shows "agrees enf w' \<and> enf (wd_kernel w') = requests (policy_step (actual_map (wd_actual w)) op)"
proof (cases op)
  case (UpdatePolicy rule)
  obtain r w1 where r: "apply_rule ex rule w = (r, w1)" by fastforce
  with assms(3) UpdatePolicy have w': "w' = w1" and ok: "r = Inr ()" by (auto split: sum.splits)
  have "faithful_execute enf ex" using assms(1) by (simp add: faithful_adapter_def)
  let ?m = "actual_map (wd_actual w)" and ?e = "(dr_action rule, dr_flow rule)"
  from apply_rule_effect [OF \<open>faithful_execute enf ex\<close> r] assms(2)
  have enf': "enf (wd_kernel w1) = (requests ?m)(dr_id rule \<mapsto> policy_compile rule)"
    and act': "actual_map (wd_actual w1) = ?m(dr_id rule \<mapsto> ?e) \<or>
      requests ?m (dr_id rule) = Some (policy_compile rule) \<and> wd_actual w1 = wd_actual w"
    by (simp_all add: agrees_def ok)
  have "agrees enf w1"
    using act' by (elim disjE)
      (simp_all only: agrees_def enf' requests_simps policy_compile_request_of fun_upd_idem)
  moreover have "enf (wd_kernel w1) = requests (policy_step ?m op)"
    by (simp only: enf' UpdatePolicy policy_step.simps requests_simps policy_compile_request_of)
  ultimately show ?thesis by (simp only: w')
next
  case (RemovePolicy i)
  obtain res k where k: "ea_remove_rule ex i (wd_kernel w) = (res, k)" by fastforce
  with faithful_removeD [OF _ k, of enf] assms RemovePolicy show ?thesis
    by (cases res) (auto simp: agrees_def faithful_adapter_def adapter_simps)
qed (use assms in \<open>auto simp: agrees_def\<close>)

lemma execute_ops_success:
  assumes "faithful_adapter enf ex"
  shows "agrees enf w \<Longrightarrow> execute_ops ex ops (s, f, w) = (s', f, w') \<Longrightarrow>
    agrees enf w' \<and> enf (wd_kernel w') = requests (policy_steps (actual_map (wd_actual w)) ops)"
proof (induction ops arbitrary: s w)
  case Nil
  then show ?case by (simp add: agrees_def)
next
  case (Cons op ops)
  obtain s1 f1 w1 where op: "execute_op ex op (s, f, w) = (s1, f1, w1)" by (metis prod_cases3)
  with Cons.prems have rest: "execute_ops ex ops (s1, f1, w1) = (s', f, w')" by simp
  from execute_op_frame [OF op] execute_ops_frame [OF rest] have f1: "f1 = f" by simp
  have step: "agrees enf w1" "enf (wd_kernel w1) = requests (policy_step (actual_map (wd_actual w)) op)"
    using execute_op_success [OF assms Cons.prems(1) op [unfolded f1]] by auto
  then have "requests (actual_map (wd_actual w1)) = requests (policy_step (actual_map (wd_actual w)) op)"
    by (simp add: agrees_def)
  from requests_policy_steps [OF this, of ops] Cons.IH [OF step(1) rest [unfolded f1]]
  show ?case by simp
qed

definition keeps :: "('k \<Rightarrow> enforced) \<Rightarrow> ('k \<Rightarrow> 'a \<times> 'k) \<Rightarrow> bool" where
  "keeps enf f \<longleftrightarrow> (\<forall>k. enf (snd (f k)) = enf k)"

lemma daemon_execute_correct:
  assumes "faithful_adapter enf ex" and "keeps enf new_v4" and "agrees enf w"
    and "daemon_execute ex new_v4 plan w = (r, w')"
  shows "\<exists>rep. r = Inr rep \<and> er_total rep = length (rp_operations plan) \<and>
    wd_desired w' = wd_desired w \<and> wd_snapshots w' = wd_snapshots w \<and> accounted enf w' \<and>
    (er_success rep \<longrightarrow> agrees enf w' \<and>
       enf (wd_kernel w') = requests (policy_steps (actual_map (wd_actual w)) (rp_operations plan)))"
proof -
  obtain s f w1 where ops: "execute_ops ex (rp_operations plan) (0, 0, w) = (s, f, w1)"
    by (metis prod_cases3)
  obtain uuid k where k: "new_v4 (wd_kernel w1) = (uuid, k)" by fastforce
  have enf: "enf k = enf (wd_kernel w1)" using assms(2) k unfolding keeps_def by (metis snd_conv)
  have acc: "accounted enf w" using assms(3) by (simp add: accounted_def agrees_def)
  have w': "w' = w1\<lparr>wd_kernel := k\<rparr>"
    and r: "r = Inr (ExecutionReport_new uuid (rp_operations plan) s f)"
    using assms(4) by (auto simp: daemon_execute_def ops k)
  have "accounted enf w'"
    using execute_ops_accounted [OF assms(1) acc ops] by (simp add: w' accounted_def enf)
  then show ?thesis
    using execute_ops_frame [OF ops] execute_ops_success [OF assms(1,3), of "rp_operations plan" 0 0 s]
      ops by (auto simp: r w' ExecutionReport_new_def enf agrees_def)
qed

subsection \<open>The pending adapter\<close>

definition policy_op :: "ReconciliationOperation \<Rightarrow> bool" where
  "policy_op op \<longleftrightarrow> (\<exists>r. op = UpdatePolicy r) \<or> (\<exists>i. op = RemovePolicy i)"

lemma execute_op_pending:
  "execute_op pending_adapter op (s, f, w) = (s, f + (if policy_op op then 1 else 0), w)"
  by (cases op) (auto simp: pending_adapter_def apply_rule_def policy_op_def)

lemma execute_ops_pending:
  "execute_ops pending_adapter ops (s, f, w) = (s, f + length (filter policy_op ops), w)"
  by (induction ops arbitrary: f) (simp_all add: execute_op_pending)

text \<open>
  Without a privileged mechanism nothing is claimed: the placeholder adapter changes neither the
  actual state nor the kernel, no step is reported as succeeded and every policy operation of the
  plan is reported as failed, so a plan that has one fails as a whole.
\<close>

theorem pending_adapter_claims_nothing:
  "daemon_execute pending_adapter new_v4 plan w =
     (Inr (ExecutionReport_new (fst (new_v4 (wd_kernel w))) (rp_operations plan) 0
        (length (filter policy_op (rp_operations plan)))),
      w\<lparr>wd_kernel := snd (new_v4 (wd_kernel w))\<rparr>)"
  by (simp add: daemon_execute_def execute_ops_pending split: prod.splits)

end
