(* ===== verification/Reconciler.thy ===== *)
theory Reconciler
  imports Adapters
begin

text \<open>
  The daemon's \<open>Reconciler\<close>, \<open>src/crates/balansir-daemon/src/reconciliation/reconciler.rs\<close>: the coordinator
  wired with the daemon's adapters, the transactional reload, the resynchronisation with the
  executor's inventory and with DNS observations, and the ownership loop's step. The executor, the
  event sinks, the random and wall clocks and the \<open>postcard\<close> encoder are the environment \<open>'k Env\<close>; each
  reading of the monotonic clock is an argument.

  The theorems follow what is enforced in the kernel: a successful cycle enforces exactly the desired
  policy, a failed reload restores the daemon's view but not necessarily the kernel.
\<close>

named_theorems reconciler_simps \<open>evaluation of the reconciler's operations\<close>

subsection \<open>Environment and state\<close>

record 'k Env =
  en_executor :: "'k ExecutorAdapter"
  en_new_v4 :: "'k \<Rightarrow> 128 word \<times> 'k"
  en_utc_now :: "'k \<Rightarrow> int \<times> 'k"
  en_sinks :: "(ControlEvent \<Rightarrow> 'k \<Rightarrow> unit ControlResult \<times> 'k) list"
  en_encode :: "DesiredState \<Rightarrow> u8 list option"
  en_desired_contended :: bool
  en_actual_contended :: bool

record ReconcilerConfig =
  rg_check_interval_secs :: u64
  rg_max_retries :: u32
  rg_retry_delay_secs :: u64
  rg_watchdog_timeout_secs :: u64
  rg_atomic_rollback :: bool
  rg_resync_every_n_cycles :: u32
  rg_dns_resync_interval_secs :: u64

definition default_ReconcilerConfig :: ReconcilerConfig where
  "default_ReconcilerConfig =
     \<lparr>rg_check_interval_secs = 30, rg_max_retries = 3, rg_retry_delay_secs = 5,
      rg_watchdog_timeout_secs = 30, rg_atomic_rollback = True, rg_resync_every_n_cycles = 3,
      rg_dns_resync_interval_secs = 60\<rparr>"

text \<open>The four instruments of the shared metrics that reconciliation updates.\<close>

record ReconcileMetrics =
  mt_reconciliations_total :: u64
  mt_reconciliation_failures_total :: u64
  mt_desired_rules :: i64
  mt_active_rules :: i64

record 'k Reconciler =
  rc_desired_raw :: "DesiredState option"
  rc_config :: ReconcilerConfig
  rc_coordinator :: Coordinator
  rc_flow_compiler :: "DnsRegistry option"
  rc_config_fingerprint :: "u64 option"
  rc_metrics :: "ReconcileMetrics option"
  rc_world :: "'k World"

abbreviation rc_desired :: "'k Reconciler \<Rightarrow> DesiredState" where
  "rc_desired r \<equiv> wd_desired (rc_world r)"

abbreviation rc_actual :: "'k Reconciler \<Rightarrow> ActualState" where
  "rc_actual r \<equiv> wd_actual (rc_world r)"

definition on_kernel :: "('k \<Rightarrow> 'a \<times> 'k) \<Rightarrow> 'k World \<Rightarrow> 'a \<times> 'k World" where
  "on_kernel f w = (case f (wd_kernel w) of (r, k) \<Rightarrow> (r, w\<lparr>wd_kernel := k\<rparr>))"

definition daemon_snapshot_save :: "Snapshot \<Rightarrow> 'k World \<Rightarrow> unit ControlResult \<times> 'k World" where
  "daemon_snapshot_save snapshot w =
     (case snapshot_store_save (wd_snapshots w) snapshot of (r, s) \<Rightarrow> (r, w\<lparr>wd_snapshots := s\<rparr>))"

text \<open>The wiring done by \<open>Reconciler::new\<close>.\<close>

definition daemon_config :: "'k Env \<Rightarrow> 'k World Config" where
  "daemon_config env =
     \<lparr>cf_desired_provider = daemon_desired,
      cf_actual_provider = daemon_actual,
      cf_planner = build_plan,
      cf_executor = daemon_execute (en_executor env) (en_new_v4 env),
      cf_snapshot_save = daemon_snapshot_save,
      cf_event_sink = (\<lambda>event. on_kernel (dynamic_emit (en_sinks env) event)),
      cf_rollback = daemon_rollback (en_executor env),
      env_new_v4 = on_kernel (en_new_v4 env),
      env_utc_now = on_kernel (en_utc_now env)\<rparr>"

definition reconciler_new :: "DesiredState \<Rightarrow> ReconcilerConfig \<Rightarrow> 'k \<Rightarrow> 'k Reconciler" where
  "reconciler_new desired_state config k =
     \<lparr>rc_desired_raw = None, rc_config = config, rc_coordinator = Coordinator_new,
      rc_flow_compiler = None, rc_config_fingerprint = None, rc_metrics = None,
      rc_world = \<lparr>wd_desired = desired_state, wd_actual = default_ActualState,
                  wd_snapshots = Map.empty, wd_kernel = k\<rparr>\<rparr>"

subsection \<open>Operations\<close>

definition compile_with ::
    "(nat \<Rightarrow> Instant) \<Rightarrow> DnsRegistry option \<Rightarrow> DesiredState \<Rightarrow> DesiredState \<times> DnsRegistry option" where
  "compile_with clock compiler state =
     (case compiler of
        Some reg \<Rightarrow> (case flow_compile clock reg state of (state, reg) \<Rightarrow> (state, Some reg))
      | None \<Rightarrow> (state, None))"

definition set_desired ::
    "'k Env \<Rightarrow> (nat \<Rightarrow> Instant) \<Rightarrow> DesiredState \<Rightarrow> 'k Reconciler \<Rightarrow> 'k Reconciler" where
  "set_desired env clock state r =
     (let raw = state;
          (state, compiler) = compile_with clock (rc_flow_compiler r) state
      in r\<lparr>rc_flow_compiler := compiler, rc_desired_raw := Some raw,
           rc_config_fingerprint := Some (config_fingerprint (en_encode env) state),
           rc_world := (rc_world r)\<lparr>wd_desired := state\<rparr>\<rparr>)"

definition record_reconcile :: "'k Env \<Rightarrow> bool \<Rightarrow> 'k Reconciler \<Rightarrow> 'k Reconciler" where
  "record_reconcile env ok r =
     (case rc_metrics r of
        None \<Rightarrow> r
      | Some m \<Rightarrow>
          (let desired = (if en_desired_contended env then 0
                          else as_i64 (length (ds_rules (rc_desired r))));
               actual = (if en_actual_contended env then 0
                         else as_i64 (length (as_active_rules (rc_actual r))));
               m = (if ok then m\<lparr>mt_reconciliations_total := mt_reconciliations_total m + 1\<rparr>
                    else m\<lparr>mt_reconciliation_failures_total :=
                             mt_reconciliation_failures_total m + 1\<rparr>)
           in r\<lparr>rc_metrics := Some (m\<lparr>mt_desired_rules := desired, mt_active_rules := actual\<rparr>)\<rparr>))"

definition attach_metrics :: "ReconcileMetrics \<Rightarrow> 'k Reconciler \<Rightarrow> 'k Reconciler" where
  "attach_metrics m r = r\<lparr>rc_metrics := Some m\<rparr>"

definition with_flow_compiler :: "DnsRegistry \<Rightarrow> 'k Reconciler \<Rightarrow> 'k Reconciler" where
  "with_flow_compiler reg r = r\<lparr>rc_flow_compiler := Some reg\<rparr>"

definition coordinate ::
    "'k Env \<Rightarrow> ReconcileReason \<Rightarrow> 'k Reconciler \<Rightarrow> unit ControlResult \<times> 'k Reconciler" where
  "coordinate env reason r =
     (case reconcile (daemon_config env) reason (rc_coordinator r) (rc_world r) of
        (res, c, w) \<Rightarrow> (res, r\<lparr>rc_coordinator := c, rc_world := w\<rparr>))"

definition reload ::
    "'k Env \<Rightarrow> (nat \<Rightarrow> Instant) \<Rightarrow> DesiredState \<Rightarrow> ReconcileReason \<Rightarrow> 'k Reconciler
       \<Rightarrow> unit ReconciliationResult \<times> 'k Reconciler" where
  "reload env clock candidate reason r =
     (let raw = candidate;
          (candidate, compiler) = compile_with clock (rc_flow_compiler r) candidate;
          fp = config_fingerprint (en_encode env) candidate;
          prev = rc_desired r;
          r = r\<lparr>rc_flow_compiler := compiler, rc_world := (rc_world r)\<lparr>wd_desired := candidate\<rparr>\<rparr>
      in case coordinate env reason r of
           (Inr _, r) \<Rightarrow>
             (Inr (), record_reconcile env True
                        (r\<lparr>rc_desired_raw := Some raw, rc_config_fingerprint := Some fp\<rparr>))
         | (Inl e, r) \<Rightarrow>
             (Inl (RE_Reconcile (show_control_error e)),
              record_reconcile env False (r\<lparr>rc_world := (rc_world r)\<lparr>wd_desired := prev\<rparr>\<rparr>)))"

definition add_rule :: "DesiredRule \<Rightarrow> 'k Reconciler \<Rightarrow> 'k Reconciler" where
  "add_rule rule r =
     r\<lparr>rc_world := (rc_world r)\<lparr>wd_desired :=
         (rc_desired r)\<lparr>ds_rules := ds_rules (rc_desired r) @ [rule]\<rparr>\<rparr>\<rparr>"

definition remove_rule :: "u32 \<Rightarrow> 'k Reconciler \<Rightarrow> 'k Reconciler" where
  "remove_rule i r =
     r\<lparr>rc_world := (rc_world r)\<lparr>wd_desired :=
         (rc_desired r)\<lparr>ds_rules := filter (\<lambda>x. dr_id x \<noteq> i) (ds_rules (rc_desired r))\<rparr>\<rparr>\<rparr>"

definition sync_actual_from_executor ::
    "'k Env \<Rightarrow> 'k Reconciler \<Rightarrow> unit ReconciliationResult \<times> 'k Reconciler" where
  "sync_actual_from_executor env r =
     (let (ids, w) = on_kernel (ea_actual_rule_ids (en_executor env)) (rc_world r)
      in (Inr (), r\<lparr>rc_world := w\<lparr>wd_actual := \<lparr>as_active_rules =
            map (\<lambda>i. \<lparr>ar_id = i, ar_action = Allow, ar_rule_id = None, ar_flow = None\<rparr>) ids\<rparr>\<rparr>\<rparr>))"

definition generation :: "'k Reconciler \<Rightarrow> u64" where
  "generation r = co_generation (rc_coordinator r)"

definition apply_plan ::
    "'k Env \<Rightarrow> ReconciliationPlan \<Rightarrow> 'k Reconciler \<Rightarrow> unit ReconciliationResult \<times> 'k Reconciler" where
  "apply_plan env plan r =
     (case daemon_execute (en_executor env) (en_new_v4 env) plan (rc_world r) of
        (Inl e, w) \<Rightarrow> (Inl (RE_Config (show_control_error e)), r\<lparr>rc_world := w\<rparr>)
      | (Inr report, w) \<Rightarrow>
          (if er_success report then Inr ()
           else Inl (RE_Reconcile (show_nat (er_failed report) @ '' of ''
                  @ show_nat (er_total report) @ '' steps failed'')),
           r\<lparr>rc_world := w\<rparr>))"

definition reconciler_build_plan :: "'k Reconciler \<Rightarrow> ReconciliationPlan" where
  "reconciler_build_plan r = build_plan (rc_desired r) (rc_actual r) (generation r)"

definition dry_run :: "'k Reconciler \<Rightarrow> ReconciliationPlan" where
  "dry_run r = reconciler_build_plan r"

definition explain :: "'k Reconciler \<Rightarrow> string" where
  "explain r = show_plan (reconciler_build_plan r)"

definition reconciler_reconcile ::
    "'k Env \<Rightarrow> 'k Reconciler \<Rightarrow> unit ReconciliationResult \<times> 'k Reconciler" where
  "reconciler_reconcile env r =
     (case coordinate env Scheduled r of
        (Inl e, r) \<Rightarrow> (Inl (RE_Reconcile (show_control_error e)), record_reconcile env False r)
      | (Inr _, r) \<Rightarrow> (Inr (), record_reconcile env True r))"

definition step :: "'k Env \<Rightarrow> u32 \<Rightarrow> 'k Reconciler \<Rightarrow> 'k Reconciler" where
  "step env cycle r =
     (let n = rg_resync_every_n_cycles (rc_config r);
          r = (if 0 < n \<and> cycle mod n = 0 then snd (sync_actual_from_executor env r) else r)
      in snd (reconciler_reconcile env r))"

text \<open>The first \<open>n\<close> iterations of \<open>run_loop\<close>, whose cycle counter wraps.\<close>

definition run_loop_steps :: "'k Env \<Rightarrow> nat \<Rightarrow> 'k Reconciler \<Rightarrow> 'k Reconciler" where
  "run_loop_steps env n r = snd (((\<lambda>(cycle, r). (cycle + 1, step env cycle r)) ^^ n) (0, r))"

definition dns_resync ::
    "'k Env \<Rightarrow> (nat \<Rightarrow> Instant) \<Rightarrow> 'k Reconciler \<Rightarrow> bool \<times> 'k Reconciler" where
  "dns_resync env clock r =
     (case (rc_flow_compiler r, rc_desired_raw r) of
        (Some reg, Some raw) \<Rightarrow>
          (case flow_compile clock reg raw of
             (recompiled, reg) \<Rightarrow>
               (let r = r\<lparr>rc_flow_compiler := Some reg\<rparr>
                in if rc_desired r = recompiled then (False, r)
                   else (True, snd (reconciler_reconcile env
                          (r\<lparr>rc_world := (rc_world r)\<lparr>wd_desired := recompiled\<rparr>,
                             rc_config_fingerprint :=
                               Some (config_fingerprint (en_encode env) recompiled)\<rparr>)))))
      | _ \<Rightarrow> (False, r))"

subsection \<open>A cycle seen from the daemon's world\<close>

text \<open>
  The clocks and the sinks are assumed not to touch what the executor enforces. Two worlds have the
  same policy when they agree on the desired and the actual state and on what is enforced.
\<close>

definition quiet_env :: "('k \<Rightarrow> enforced) \<Rightarrow> 'k Env \<Rightarrow> bool" where
  "quiet_env enf env \<longleftrightarrow>
     keeps enf (en_new_v4 env) \<and> keeps enf (en_utc_now env) \<and>
     (\<forall>sink \<in> set (en_sinks env). \<forall>event. keeps enf (sink event))"

definition same_policy :: "('k \<Rightarrow> enforced) \<Rightarrow> 'k World \<Rightarrow> 'k World \<Rightarrow> bool" where
  "same_policy enf w w' \<longleftrightarrow>
     wd_desired w' = wd_desired w \<and> wd_actual w' = wd_actual w \<and>
     enf (wd_kernel w') = enf (wd_kernel w)"

lemma same_policy_refl [simp]: "same_policy enf w w"
  by (simp add: same_policy_def)

lemma same_policy_trans [trans]:
  "same_policy enf w w' \<Longrightarrow> same_policy enf w' w'' \<Longrightarrow> same_policy enf w w''"
  by (simp add: same_policy_def)

lemma same_policy_agrees: "same_policy enf w w' \<Longrightarrow> agrees enf w' \<longleftrightarrow> agrees enf w"
  by (auto simp: same_policy_def agrees_def)

lemma on_kernel_same: "keeps enf f \<Longrightarrow> same_policy enf w (snd (on_kernel f w))"
  by (auto simp: on_kernel_def same_policy_def keeps_def split: prod.splits) (metis snd_conv)

lemma dynamic_emit_keeps:
  "\<forall>sink \<in> set sinks. \<forall>event. keeps enf (sink event) \<Longrightarrow> keeps enf (dynamic_emit sinks event)"
proof (induction sinks)
  case Nil
  then show ?case by (simp add: keeps_def)
next
  case (Cons sink sinks)
  have "enf (snd (dynamic_emit (sink # sinks) event k)) = enf k" for k
  proof -
    obtain r k1 where k1: "sink event k = (r, k1)" by fastforce
    have "enf (snd (sink event k)) = enf k" using Cons.prems by (simp add: keeps_def)
    then have "enf k1 = enf k" by (simp add: k1)
    moreover have "enf (snd (dynamic_emit sinks event k1)) = enf k1"
      using Cons by (simp add: keeps_def)
    ultimately show ?thesis by (cases r) (simp_all add: k1)
  qed
  then show ?case by (simp add: keeps_def)
qed

lemma emit_same:
  assumes "quiet_env enf env"
  shows "same_policy enf w (emit (daemon_config env) event w)"
  using on_kernel_same [OF dynamic_emit_keeps, of "en_sinks env" enf w event] assms
  by (simp add: emit_def daemon_config_def quiet_env_def)

lemma daemon_config_simps [reconciler_simps]:
  "cf_desired_provider (daemon_config env) w = (Inr (wd_desired w), w)"
  "cf_actual_provider (daemon_config env) w = (Inr (wd_actual w), w)"
  "cf_planner (daemon_config env) = build_plan"
  "cf_executor (daemon_config env) = daemon_execute (en_executor env) (en_new_v4 env)"
  "cf_snapshot_save (daemon_config env) = daemon_snapshot_save"
  "cf_rollback (daemon_config env) = daemon_rollback (en_executor env)"
  "env_new_v4 (daemon_config env) = on_kernel (en_new_v4 env)"
  "env_utc_now (daemon_config env) = on_kernel (en_utc_now env)"
  by (simp_all add: daemon_config_def daemon_desired_def daemon_actual_def)

lemma snapshot_save_same:
  "\<exists>w'. daemon_snapshot_save s w = (Inr (), w') \<and> same_policy enf w w'"
  by (simp add: daemon_snapshot_save_def snapshot_store_save_def same_policy_def)

lemma daemon_execute_reports: "\<exists>rep w'. daemon_execute ex new_v4 plan w = (Inr rep, w')"
  by (cases "execute_ops ex (rp_operations plan) (0, 0, w)")
    (simp add: daemon_execute_def Let_def case_prod_unfold)

text \<open>What became of a plan executed in a world with the policy of \<open>w\<close>.\<close>

definition plan_outcome ::
    "('k \<Rightarrow> enforced) \<Rightarrow> 'k Env \<Rightarrow> ActualState \<Rightarrow> ReconciliationPlan \<Rightarrow> 'k World
       \<Rightarrow> unit ControlResult \<Rightarrow> 'k World \<Rightarrow> bool" where
  "plan_outcome enf env a plan w r w' \<longleftrightarrow>
     (\<exists>w1 rep w2. same_policy enf w w1 \<and>
        daemon_execute (en_executor env) (en_new_v4 env) plan w1 = (Inr rep, w2) \<and>
        (if er_success rep then r = Inr () \<and> same_policy enf w2 w'
         else (\<exists>e. r = Inl e) \<and>
           (\<exists>snap w3. sn_actual snap = a \<and> same_policy enf w2 w3 \<and>
              same_policy enf (snd (daemon_rollback (en_executor env) snap w3)) w')))"

lemma plan_outcome_same:
  "plan_outcome enf env a plan w4 r w' \<Longrightarrow> same_policy enf w w4 \<Longrightarrow> plan_outcome enf env a plan w r w'"
  unfolding plan_outcome_def using same_policy_trans by blast

lemma fail_same:
  "quiet_env enf env \<Longrightarrow> fail (daemon_config env) e c w = (r, c', w') \<Longrightarrow>
     r = Inl e \<and> same_policy enf w w'"
  by (auto simp: fail_def Let_def emit_same)

lemma rollback_and_fail_daemon:
  assumes "quiet_env enf env"
    and "rollback_and_fail (daemon_config env) snap e c w = (r, c', w')"
  shows "r = Inl e \<and> (\<exists>w3. same_policy enf w w3 \<and>
           same_policy enf (snd (daemon_rollback (en_executor env) snap w3)) w')"
proof -
  let ?w3 = "emit (daemon_config env) RollbackStarted w"
  obtain w4 where w4: "daemon_rollback (en_executor env) snap ?w3 = (Inr (), w4)"
    by (simp add: daemon_rollback_def Let_def)
  let ?w5 = "emit (daemon_config env) RollbackCompleted w4"
  have "\<exists>c5. fail (daemon_config env) e c5 ?w5 = (r, c', w')"
    using assms(2) by (auto simp: rollback_and_fail_def reconciler_simps w4 Let_def)
  then have "r = Inl e" and "same_policy enf ?w5 w'"
    using fail_same [OF assms(1)] by blast+
  moreover have "same_policy enf w4 ?w5" and "same_policy enf w ?w3"
    by (rule emit_same [OF assms(1)])+
  ultimately show ?thesis using w4 same_policy_trans by (metis snd_conv)
qed

lemma reconcile_report_daemon:
  assumes "quiet_env enf env"
    and "reconcile_report (daemon_config env) plan snap (Inr rep) c w = (r, c', w')"
  shows "if er_success rep then r = Inr () \<and> same_policy enf w w'
    else (\<exists>e. r = Inl e) \<and> (\<exists>w3. same_policy enf w w3 \<and>
           same_policy enf (snd (daemon_rollback (en_executor env) snap w3)) w')"
proof (cases "er_success rep")
  case True
  with assms(2) have "r = Inr ()" and w': "w' = emit (daemon_config env) (Reconciled (er_execution_id rep))
      (emit (daemon_config env) CommitCompleted w)"
    by (auto simp: reconcile_report_def reconcile_commit_def Let_def)
  moreover have "same_policy enf w w'"
    unfolding w' by (rule same_policy_trans) (rule emit_same [OF assms(1)])+
  ultimately show ?thesis using True by simp
next
  case False
  with assms(2) rollback_and_fail_daemon [OF assms(1)] show ?thesis
    by (fastforce simp: reconcile_report_def)
qed

lemma reconcile_execute_daemon:
  assumes quiet: "quiet_env enf env"
    and "reconcile_execute (daemon_config env) d a plan c w = (r, c', w')"
  shows "plan_outcome enf env a plan w r w'"
proof -
  obtain uuid wa where wa: "on_kernel (en_new_v4 env) w = (uuid, wa)" by fastforce
  obtain now wb where wb: "on_kernel (en_utc_now env) wa = (now, wb)" by fastforce
  let ?snap = "Snapshot_new d a (PlanMetadata_new uuid now (rp_generation_before plan))"
  obtain wc where wc: "daemon_snapshot_save ?snap wb = (Inr (), wc)" and sc: "same_policy enf wb wc"
    using snapshot_save_same by blast
  let ?wd = "emit (daemon_config env) ExecutionStarted wc"
  obtain rep w2 where ex: "daemon_execute (en_executor env) (en_new_v4 env) plan ?wd = (Inr rep, w2)"
    using daemon_execute_reports by blast
  have "same_policy enf w wa" "same_policy enf wa wb"
    using on_kernel_same [of enf "en_new_v4 env" w] on_kernel_same [of enf "en_utc_now env" wa] quiet
    by (simp_all add: wa wb quiet_env_def)
  then have "same_policy enf w ?wd"
    using sc emit_same [OF quiet, of wc] same_policy_trans by blast
  moreover have "\<exists>c1. reconcile_report (daemon_config env) plan ?snap (Inr rep) c1 w2 = (r, c', w')"
    using assms(2) by (auto simp: reconcile_execute_def run_def reconciler_simps wa wb wc ex Let_def)
  moreover have "sn_actual ?snap = a" by (simp add: Snapshot_new_def)
  ultimately show ?thesis
    using ex reconcile_report_daemon [OF quiet, of plan ?snap rep _ w2 r c' w']
    unfolding plan_outcome_def by (metis (full_types))
qed

lemma reconcile_noop_daemon:
  assumes "quiet_env enf env" and "reconcile_noop (daemon_config env) c w = (r, c', w')"
  shows "r = Inr () \<and> same_policy enf w w'"
proof -
  let ?w1 = "emit (daemon_config env) CommitCompleted w"
  obtain uuid w2 where w2: "on_kernel (en_new_v4 env) ?w1 = (uuid, w2)" by fastforce
  have "same_policy enf w ?w1" by (rule emit_same [OF assms(1)])
  also have "same_policy enf ?w1 w2"
    using on_kernel_same [of enf "en_new_v4 env" ?w1] assms(1) by (simp add: w2 quiet_env_def)
  also have "same_policy enf w2 (emit (daemon_config env) (Reconciled uuid) w2)"
    by (rule emit_same [OF assms(1)])
  finally show ?thesis
    using assms(2) by (auto simp: reconcile_noop_def reconciler_simps w2 Let_def)
qed

text \<open>
  One cycle of the daemon: nothing to do, or the plan computed from the two states as they stood when
  the cycle began was executed.
\<close>

lemma reconcile_daemon:
  assumes quiet: "quiet_env enf env" and "\<not> co_busy c"
    and run: "reconcile (daemon_config env) reason c w = (r, c', w')"
  defines "plan \<equiv> build (wd_desired w) (wd_actual w) (co_generation c)"
  shows "(if plan_is_empty plan then r = Inr () \<and> same_policy enf w w'
     else plan_outcome enf env (wd_actual w) plan w r w') \<and>
    \<not> co_busy c' \<and>
    co_generation c' = (case r of Inl _ \<Rightarrow> co_generation c | Inr _ \<Rightarrow> rp_generation_after plan)"
proof -
  let ?cf = "daemon_config env"
  define w1 where "w1 = emit ?cf DesiredReadStarted (emit ?cf (ReconciliationRequested reason) w)"
  define w2 where "w2 = emit ?cf ActualReadStarted
      (emit ?cf (DesiredReadFinished (of_nat (length (ds_rules (wd_desired w1))))) w1)"
  define w3 where "w3 = emit ?cf (ActualReadFinished (length (as_active_rules (wd_actual w2)))) w2"
  have s1: "same_policy enf w w1" unfolding w1_def by (rule same_policy_trans) (rule emit_same [OF quiet])+
  have s2: "same_policy enf w1 w2" unfolding w2_def by (rule same_policy_trans) (rule emit_same [OF quiet])+
  have s3: "same_policy enf w2 w3" unfolding w3_def by (rule emit_same [OF quiet])
  have eqs: "wd_desired w1 = wd_desired w" "wd_actual w2 = wd_actual w"
    using s1 s2 by (simp_all add: same_policy_def)
  define c1 where "c1 = advance (ActualReadFinished (length (as_active_rules (wd_actual w2))))
      (advance (DesiredReadFinished (of_nat (length (ds_rules (wd_desired w1)))))
        (advance (ReconciliationRequested reason) (c\<lparr>co_busy := True\<rparr>)))"
  have gen: "co_generation c1 = co_generation c" by (simp add: c1_def coord_simps)
  have "reconcile_locked ?cf reason (c\<lparr>co_busy := True\<rparr>) w =
      reconcile_plan ?cf (wd_desired w1) (wd_actual w2) c1 w3"
    by (simp add: reconcile_locked_def reconciler_simps Let_def w1_def w2_def w3_def c1_def)
  with run assms(2) obtain c2 where
    rp: "reconcile_plan ?cf (wd_desired w) (wd_actual w) c1 w3 = (r, c2, w')"
    and c': "c' = c2\<lparr>co_busy := False\<rparr>"
    by (auto simp: reconcile_def eqs split: prod.splits)
  have "planned_generation ?cf (co_generation c1) (wd_desired w) (wd_actual w) = rp_generation_after plan"
    by (simp add: planned_generation_def reconciler_simps plan_def build_plan_def gen
        build_generation_after)
  with reconcile_plan_outcome [of c1 ?cf "wd_desired w" "wd_actual w" w3] have generation:
    "co_generation c' = (case r of Inl _ \<Rightarrow> co_generation c | Inr _ \<Rightarrow> rp_generation_after plan)"
    by (auto simp: rp c' gen failed_run_def done_run_def)
  define w4 where "w4 = emit ?cf (PlanningFinished (rp_generation_after plan)
      (length (rp_operations plan)) (plan_is_empty plan)) (emit ?cf PlanningStarted w3)"
  have "same_policy enf w3 w4" unfolding w4_def by (rule same_policy_trans) (rule emit_same [OF quiet])+
  then have s4: "same_policy enf w w4" using s1 s2 s3 same_policy_trans by blast
  have plan: "plan = build_plan (wd_desired w) (wd_actual w) (co_generation c1)"
    by (simp add: plan_def build_plan_def gen)
  have "if plan_is_empty plan then r = Inr () \<and> same_policy enf w w'
     else plan_outcome enf env (wd_actual w) plan w r w'"
  proof (cases "plan_is_empty plan")
    case True
    with rp have "\<exists>c3. reconcile_noop ?cf c3 w4 = (r, c2, w')"
      by (auto simp: reconcile_plan_def reconciler_simps Let_def w4_def plan)
    with True s4 reconcile_noop_daemon [OF quiet] show ?thesis by (metis same_policy_trans)
  next
    case False
    with rp have "\<exists>c3. reconcile_execute ?cf (wd_desired w) (wd_actual w) plan c3 w4 = (r, c2, w')"
      by (auto simp: reconcile_plan_def reconciler_simps Let_def w4_def plan)
    then have "plan_outcome enf env (wd_actual w) plan w4 r w'"
      using reconcile_execute_daemon [OF quiet] by blast
    with False s4 show ?thesis by (simp add: plan_outcome_same)
  qed
  with generation c' show ?thesis by simp
qed

subsection \<open>Consequences for what is enforced\<close>

lemma daemon_execute_desired:
  "daemon_execute ex new_v4 plan w = (r, w') \<Longrightarrow> wd_desired w' = wd_desired w"
  using execute_ops_frame [of ex "rp_operations plan" 0 0 w]
  by (auto simp: daemon_execute_def Let_def split: prod.splits)

lemma daemon_rollback_effect [reconciler_simps]:
  "wd_desired (snd (daemon_rollback ex snap w)) = wd_desired w"
  "wd_actual (snd (daemon_rollback ex snap w)) = sn_actual snap"
  by (simp_all add: daemon_rollback_def Let_def)

lemma plan_outcome_frame:
  assumes "plan_outcome enf env a plan w r w'"
  shows "wd_desired w' = wd_desired w \<and> (r \<noteq> Inr () \<longrightarrow> wd_actual w' = a)"
proof -
  obtain w1 rep w2 where w1: "same_policy enf w w1"
    and ex: "daemon_execute (en_executor env) (en_new_v4 env) plan w1 = (Inr rep, w2)"
    and out: "if er_success rep then r = Inr () \<and> same_policy enf w2 w'
      else (\<exists>e. r = Inl e) \<and>
        (\<exists>snap w3. sn_actual snap = a \<and> same_policy enf w2 w3 \<and>
           same_policy enf (snd (daemon_rollback (en_executor env) snap w3)) w')"
    using assms unfolding plan_outcome_def by blast
  have "wd_desired w2 = wd_desired w"
    using daemon_execute_desired [OF ex] w1 by (simp add: same_policy_def)
  with out show ?thesis
    by (cases "er_success rep") (auto simp: same_policy_def reconciler_simps)
qed

lemma plan_outcome_success:
  assumes "faithful_adapter enf (en_executor env)" and "quiet_env enf env" and "agrees enf w"
    and "plan_outcome enf env a plan w (Inr ()) w'"
  shows "agrees enf w' \<and>
    enf (wd_kernel w') = requests (policy_steps (actual_map (wd_actual w)) (rp_operations plan))"
proof -
  obtain w1 rep w2 where w1: "same_policy enf w w1"
    and ex: "daemon_execute (en_executor env) (en_new_v4 env) plan w1 = (Inr rep, w2)"
    and ok: "er_success rep" and w2: "same_policy enf w2 w'"
    using assms(4) unfolding plan_outcome_def by (auto split: if_splits)
  have "agrees enf w1" using w1 assms(3) by (simp add: same_policy_agrees)
  from daemon_execute_correct [OF assms(1) _ this ex] ok assms(2) have "agrees enf w2"
    and "enf (wd_kernel w2) = requests (policy_steps (actual_map (wd_actual w1)) (rp_operations plan))"
    by (auto simp: quiet_env_def)
  with w1 w2 show ?thesis by (auto simp: same_policy_agrees) (auto simp: same_policy_def)
qed

lemma reconcile_enforced:
  assumes "faithful_adapter enf (en_executor env)" and quiet: "quiet_env enf env"
    and "agrees enf w" and dist: "distinct (map dr_id (ds_rules (wd_desired w)))"
    and "\<not> co_busy c" and run: "reconcile (daemon_config env) reason c w = (r, c', w')"
  shows "wd_desired w' = wd_desired w \<and>
    (case r of
       Inr _ \<Rightarrow> agrees enf w' \<and> enf (wd_kernel w') = requests (desired_map (wd_desired w))
     | Inl _ \<Rightarrow> wd_actual w' = wd_actual w)"
proof -
  define plan where "plan = build (wd_desired w) (wd_actual w) (co_generation c)"
  have steps: "policy_steps (actual_map (wd_actual w)) (rp_operations plan) = desired_map (wd_desired w)"
    using basic_planner.converges [OF dist] by (simp add: plan_def build_plan_def)
  show ?thesis
  proof (cases "plan_is_empty plan")
    case True
    then have "r = Inr ()" and same: "same_policy enf w w'"
      using reconcile_daemon [OF quiet assms(5) run] by (simp_all add: plan_def)
    moreover have "actual_map (wd_actual w) = desired_map (wd_desired w)"
      using True basic_planner.empty_iff [OF dist] by (simp add: plan_def build_plan_def)
    ultimately show ?thesis
      using assms(3) by (auto simp: same_policy_agrees) (auto simp: same_policy_def agrees_def)
  next
    case False
    then have out: "plan_outcome enf env (wd_actual w) plan w r w'"
      using reconcile_daemon [OF quiet assms(5) run] by (simp add: plan_def)
    with plan_outcome_frame [OF out] plan_outcome_success [OF assms(1) quiet assms(3)] steps
    show ?thesis by (cases r) auto
  qed
qed

lemma record_reconcile_frame [reconciler_simps]:
  "rc_world (record_reconcile env ok r) = rc_world r"
  "rc_coordinator (record_reconcile env ok r) = rc_coordinator r"
  "rc_desired_raw (record_reconcile env ok r) = rc_desired_raw r"
  "rc_config_fingerprint (record_reconcile env ok r) = rc_config_fingerprint r"
  "rc_flow_compiler (record_reconcile env ok r) = rc_flow_compiler r"
  "rc_config (record_reconcile env ok r) = rc_config r"
  by (simp_all add: record_reconcile_def Let_def split: option.splits)

lemma coordinateE:
  assumes "coordinate env reason r = (res, r')"
  obtains c w where "reconcile (daemon_config env) reason (rc_coordinator r) (rc_world r) = (res, c, w)"
    and "r' = r\<lparr>rc_coordinator := c, rc_world := w\<rparr>"
  using assms by (auto simp: coordinate_def split: prod.splits)

subsection \<open>A kernel to test against\<close>

text \<open>
  A concrete executor whose state is the map of enforced requests and which refuses the rule
  identifiers in a given list. It answers \<open>AlreadyApplied\<close> when the very request is in force.
\<close>

definition map_adapter :: "u32 list \<Rightarrow> enforced ExecutorAdapter" where
  "map_adapter refused =
     \<lparr>ea_execute = (\<lambda>req k.
        let i = dt_policy_id (rq_trace req)
        in if i \<in> set refused then (AR_Failed (KernelError 0) None, k)
           else if k i = Some req then (AlreadyApplied, k)
           else (Applied 0 (Some i), k(i \<mapsto> req))),
      ea_rule_count = (\<lambda>k. (0, k)),
      ea_remove_rule = (\<lambda>i k. (Applied 0 (Some i), k(i := None))),
      ea_actual_rule_ids = (\<lambda>k. (filter (\<lambda>i. k i \<noteq> None) [1, 2, 3], k))\<rparr>"

definition map_env :: "u32 list \<Rightarrow> enforced Env" where
  "map_env refused =
     \<lparr>en_executor = map_adapter refused, en_new_v4 = (\<lambda>k. (7, k)), en_utc_now = (\<lambda>k. (0, k)),
      en_sinks = [noop_emit], en_encode = (\<lambda>_. Some []),
      en_desired_contended = False, en_actual_contended = False\<rparr>"

lemma map_adapter_faithful: "faithful_adapter (\<lambda>k. k) (map_adapter refused)"
  by (auto simp: faithful_adapter_def faithful_execute_def faithful_remove_def map_adapter_def Let_def)

lemma map_env_quiet: "quiet_env (\<lambda>k. k) (map_env refused)"
  by (simp add: quiet_env_def keeps_def map_env_def noop_emit_def)

definition simple_rule :: "u32 \<Rightarrow> Action \<Rightarrow> DesiredRule" where
  "simple_rule i a = \<lparr>dr_id = i, dr_action = a, dr_priority = 0, dr_flow = None\<rparr>"

definition policy :: "(u32 \<times> Action) list \<Rightarrow> DesiredState" where
  "policy rules = \<lparr>ds_rules = map (\<lambda>(i, a). simple_rule i a) rules, ds_drivers = []\<rparr>"

lemma reconcile_frame:
  assumes "reconcile (daemon_config env) reason c w = (r, c', w')"
  shows "wd_desired w' = wd_desired w \<and> (r \<noteq> Inr () \<longrightarrow> wd_actual w' = wd_actual w)"
proof (cases "co_busy c")
  case True
  with assms show ?thesis by (simp add: reconcile_def)
next
  case False
  have "quiet_env (\<lambda>_. Map.empty) env" by (simp add: quiet_env_def keeps_def)
  from reconcile_daemon [OF this False assms] plan_outcome_frame show ?thesis
    by (metis same_policy_def)
qed

lemma reconciler_enforced:
  assumes "faithful_adapter enf (en_executor env)" and "quiet_env enf env"
    and "agrees enf (rc_world r)" and "distinct (map dr_id (ds_rules (rc_desired r)))"
    and "\<not> co_busy (rc_coordinator r)" and "reconciler_reconcile env r = (res, r')"
  shows "rc_desired r' = rc_desired r \<and>
    (case res of
       Inr _ \<Rightarrow> agrees enf (rc_world r') \<and>
         enf (wd_kernel (rc_world r')) = requests (desired_map (rc_desired r))
     | Inl _ \<Rightarrow> rc_actual r' = rc_actual r)"
proof -
  obtain x r1 where x: "coordinate env Scheduled r = (x, r1)" by fastforce
  then obtain c w where
    run: "reconcile (daemon_config env) Scheduled (rc_coordinator r) (rc_world r) = (x, c, w)"
    and r1: "r1 = r\<lparr>rc_coordinator := c, rc_world := w\<rparr>" by (rule coordinateE)
  from reconcile_enforced [OF assms(1-5) run] assms(6) show ?thesis
    by (cases x) (auto simp: reconciler_reconcile_def x r1 reconciler_simps)
qed

lemma reconciler_desired [reconciler_simps]:
  "rc_desired (snd (reconciler_reconcile env r)) = rc_desired r"
  "rc_desired_raw (snd (reconciler_reconcile env r)) = rc_desired_raw r"
proof -
  obtain x r1 where x: "coordinate env Scheduled r = (x, r1)" by fastforce
  then obtain c w where
    run: "reconcile (daemon_config env) Scheduled (rc_coordinator r) (rc_world r) = (x, c, w)"
    and r1: "r1 = r\<lparr>rc_coordinator := c, rc_world := w\<rparr>" by (rule coordinateE)
  show "rc_desired (snd (reconciler_reconcile env r)) = rc_desired r"
    "rc_desired_raw (snd (reconciler_reconcile env r)) = rc_desired_raw r"
    using reconcile_frame [OF run]
    by (cases x; simp add: reconciler_reconcile_def x r1 reconciler_simps)+
qed

subsection \<open>Resynchronisation with the inventory\<close>

text \<open>The state after a resynchronisation in which one rule is in force that is not a bare \<open>allow\<close>.\<close>

definition resynced :: "('k \<Rightarrow> enforced) \<Rightarrow> DesiredRule \<Rightarrow> 'k Reconciler \<Rightarrow> bool" where
  "resynced enf rule r \<longleftrightarrow>
     ds_rules (rc_desired r) = [rule] \<and>
     as_active_rules (rc_actual r) =
       [\<lparr>ar_id = dr_id rule, ar_action = Allow, ar_rule_id = None, ar_flow = None\<rparr>] \<and>
     enf (wd_kernel (rc_world r)) = [dr_id rule \<mapsto> policy_compile rule] \<and>
     \<not> co_busy (rc_coordinator r)"

lemma resynced_start:
  assumes "keeps enf (ea_actual_rule_ids (en_executor env))"
    and "ds_rules (rc_desired r0) = [rule]"
    and "enf (wd_kernel (rc_world r0)) = [dr_id rule \<mapsto> policy_compile rule]"
    and "fst (ea_actual_rule_ids (en_executor env) (wd_kernel (rc_world r0))) = [dr_id rule]"
    and "\<not> co_busy (rc_coordinator r0)"
  shows "resynced enf rule (snd (sync_actual_from_executor env r0))"
proof -
  obtain ids k where k: "ea_actual_rule_ids (en_executor env) (wd_kernel (rc_world r0)) = (ids, k)"
    by fastforce
  moreover have "enf k = enf (wd_kernel (rc_world r0))"
    using assms(1) k unfolding keeps_def by (metis snd_conv)
  ultimately show ?thesis
    using assms by (simp add: resynced_def sync_actual_from_executor_def on_kernel_def)
qed

lemma sync_generation:
  "co_generation (rc_coordinator (snd (sync_actual_from_executor env r))) =
     co_generation (rc_coordinator r)"
  by (simp add: sync_actual_from_executor_def split: prod.splits)

lemma resynced_plan:
  assumes "(dr_action rule, dr_flow rule) \<noteq> (Allow, None)"
    and "ds_rules d = [rule]" and "as_active_rules a =
      [\<lparr>ar_id = dr_id rule, ar_action = Allow, ar_rule_id = None, ar_flow = None\<rparr>]"
  shows "build d a g = plan_new g [UpdatePolicy rule]"
  using assms by (auto simp: build_def diff_rule_def diff_extra_def)

lemma resynced_plan_not_empty:
  "(dr_action rule, dr_flow rule) \<noteq> (Allow, None) \<Longrightarrow> resynced enf rule r \<Longrightarrow>
     \<not> plan_is_empty (reconciler_build_plan r)"
  using resynced_plan [of rule "rc_desired r" "rc_actual r"]
  by (auto simp: resynced_def reconciler_build_plan_def build_plan_def plan_is_empty_def)

lemma resynced_execute:
  assumes already: "\<And>req k. enf k (dt_policy_id (rq_trace req)) = Some req \<Longrightarrow>
      fst (ea_execute ex req k) = AlreadyApplied"
    and "faithful_adapter enf ex" and "keeps enf new_v4"
    and "enf (wd_kernel w) (dr_id rule) = Some (policy_compile rule)"
    and "daemon_execute ex new_v4 (plan_new g [UpdatePolicy rule]) w = (Inr rep, w')"
  shows "er_success rep \<and> same_policy enf w w'"
proof -
  obtain res k where k: "ea_execute ex (policy_compile rule) (wd_kernel w) = (res, k)" by fastforce
  have "dt_policy_id (rq_trace (policy_compile rule)) = dr_id rule"
    by (simp add: policy_compile_request_of)
  then have res: "res = AlreadyApplied"
    using already [of "wd_kernel w" "policy_compile rule"] assms(4) by (simp add: k)
  have "enf k = enf (wd_kernel w)"
    using faithful_executeD [OF _ k] assms(2) by (simp add: res faithful_adapter_def)
  moreover have "enf (snd (new_v4 k)) = enf k" using assms(3) by (simp add: keeps_def)
  ultimately show ?thesis
    using assms(5) by (auto simp: daemon_execute_def apply_rule_def k res ExecutionReport_new_def
        same_policy_def split: prod.splits)
qed

lemma resynced_step:
  assumes "faithful_adapter enf (en_executor env)" and quiet: "quiet_env enf env"
    and already: "\<And>req k. enf k (dt_policy_id (rq_trace req)) = Some req \<Longrightarrow>
      fst (ea_execute (en_executor env) req k) = AlreadyApplied"
    and other: "(dr_action rule, dr_flow rule) \<noteq> (Allow, None)" and inv: "resynced enf rule r"
  shows "resynced enf rule (snd (reconciler_reconcile env r)) \<and>
    co_generation (rc_coordinator (snd (reconciler_reconcile env r))) =
      co_generation (rc_coordinator r) + 1"
proof -
  obtain x r1 where x: "coordinate env Scheduled r = (x, r1)" by fastforce
  then obtain c w where
    run: "reconcile (daemon_config env) Scheduled (rc_coordinator r) (rc_world r) = (x, c, w)"
    and r1: "r1 = r\<lparr>rc_coordinator := c, rc_world := w\<rparr>" by (rule coordinateE)
  let ?plan = "plan_new (co_generation (rc_coordinator r)) [UpdatePolicy rule]"
  have plan: "build (rc_desired r) (rc_actual r) (co_generation (rc_coordinator r)) = ?plan"
    using resynced_plan [OF other] inv by (simp add: resynced_def)
  have "\<not> plan_is_empty ?plan" by (simp add: plan_is_empty_def)
  then have out: "plan_outcome enf env (rc_actual r) ?plan (rc_world r) x w"
    and c: "\<not> co_busy c" "co_generation c = (case x of Inl _ \<Rightarrow> co_generation (rc_coordinator r)
      | Inr _ \<Rightarrow> rp_generation_after ?plan)"
    using reconcile_daemon [OF quiet _ run, unfolded plan] inv by (simp_all add: resynced_def)
  obtain w1 rep w2 where w1: "same_policy enf (rc_world r) w1"
    and ex: "daemon_execute (en_executor env) (en_new_v4 env) ?plan w1 = (Inr rep, w2)"
    and res: "if er_success rep then x = Inr () \<and> same_policy enf w2 w else \<exists>e. x = Inl e"
    using out unfolding plan_outcome_def by (auto split: if_splits)
  have "enf (wd_kernel w1) (dr_id rule) = Some (policy_compile rule)"
    using w1 inv by (simp add: same_policy_def resynced_def)
  then have "er_success rep \<and> same_policy enf w1 w2"
    using resynced_execute [OF already assms(1) _ _ ex] quiet by (simp add: quiet_env_def)
  with res w1 have "x = Inr ()" and same: "same_policy enf (rc_world r) w"
    by (simp, metis same_policy_trans)
  with c inv show ?thesis
    by (auto simp: reconciler_reconcile_def x r1 reconciler_simps resynced_def same_policy_def
        plan_new_def)
qed

lemma resynced_run:
  assumes "faithful_adapter enf (en_executor env)" and "quiet_env enf env"
    and "\<And>req k. enf k (dt_policy_id (rq_trace req)) = Some req \<Longrightarrow>
      fst (ea_execute (en_executor env) req k) = AlreadyApplied"
    and "(dr_action rule, dr_flow rule) \<noteq> (Allow, None)" and "resynced enf rule r"
  shows "resynced enf rule (((\<lambda>r. snd (reconciler_reconcile env r)) ^^ n) r) \<and>
    co_generation (rc_coordinator (((\<lambda>r. snd (reconciler_reconcile env r)) ^^ n) r)) =
      co_generation (rc_coordinator r) + of_nat n"
proof (induction n)
  case 0
  then show ?case using assms(5) by simp
next
  case (Suc n)
  then show ?case using resynced_step [OF assms(1-4)] by simp
qed

subsection \<open>Properties of the reconciler\<close>

text \<open>
  C1. A successful cycle enforces the policy: with a faithful executor, starting from a book-keeping
  that agrees with the kernel and desired rules with distinct identifiers, the kernel then enforces
  exactly the compiled request of every desired rule and nothing else, and the book-keeping agrees
  again. No cycle changes the desired state, and a failed one restores the actual state it read.
\<close>

theorem reconcile_enforces_desired:
  assumes "faithful_adapter enf (en_executor env)" and "quiet_env enf env"
    and "agrees enf (rc_world r)" and "distinct (map dr_id (ds_rules (rc_desired r)))"
    and "\<not> co_busy (rc_coordinator r)" and "reconciler_reconcile env r = (res, r')"
  shows "rc_desired r' = rc_desired r \<and>
    (case res of
       Inr _ \<Rightarrow> agrees enf (rc_world r') \<and>
         enf (wd_kernel (rc_world r')) = requests (desired_map (rc_desired r))
     | Inl _ \<Rightarrow> rc_actual r' = rc_actual r)"
  using reconciler_enforced [OF assms] .

theorem reconcile_enforces_desired_witness:
  "\<exists>r'. reconciler_reconcile (map_env [])
      (reconciler_new (policy [(1, Block), (2, Allow)]) default_ReconcilerConfig Map.empty) = (Inr (), r') \<and>
    wd_kernel (rc_world r') = requests (desired_map (policy [(1, Block), (2, Allow)]))"
proof -
  let ?r = "reconciler_new (policy [(1, Block), (2, Allow)]) default_ReconcilerConfig Map.empty"
  have "\<not> isl (fst (reconciler_reconcile (map_env []) ?r))" by code_simp
  then obtain r' where run: "reconciler_reconcile (map_env []) ?r = (Inr (), r')"
    by (cases "reconciler_reconcile (map_env []) ?r"; cases "fst (reconciler_reconcile (map_env []) ?r)")
      auto
  have "agrees (\<lambda>k. k) (rc_world ?r)"
    by (simp add: agrees_def reconciler_new_def default_ActualState_def actual_map_def requests_def)
  moreover have "faithful_adapter (\<lambda>k. k) (en_executor (map_env []))"
    by (simp add: map_env_def map_adapter_faithful)
  moreover have "distinct (map dr_id (ds_rules (rc_desired ?r)))"
    and "\<not> co_busy (rc_coordinator ?r)"
    by (simp_all add: reconciler_new_def policy_def simple_rule_def Coordinator_new_def)
  ultimately show ?thesis
    using reconcile_enforces_desired [OF _ map_env_quiet _ _ _ run] run
    by (auto simp: reconciler_new_def)
qed

text \<open>
  C5. A reload is atomic for the daemon's own state: if it fails, whatever the reason, the desired
  state, the authored state, the fingerprint and the actual state are what they were; if it succeeds,
  the desired state is the compiled candidate, and the authored state and the fingerprint are the
  candidate's.
\<close>

theorem reload_atomic:
  assumes "reload env clock candidate reason r = (res, r')"
  shows "case res of
      Inl _ \<Rightarrow> rc_desired r' = rc_desired r \<and> rc_desired_raw r' = rc_desired_raw r \<and>
        rc_config_fingerprint r' = rc_config_fingerprint r \<and> rc_actual r' = rc_actual r
    | Inr _ \<Rightarrow> rc_desired r' = fst (compile_with clock (rc_flow_compiler r) candidate) \<and>
        rc_desired_raw r' = Some candidate \<and>
        rc_config_fingerprint r' = Some (config_fingerprint (en_encode env) (rc_desired r'))"
proof -
  obtain cand comp where cand: "compile_with clock (rc_flow_compiler r) candidate = (cand, comp)"
    by fastforce
  let ?r0 = "r\<lparr>rc_flow_compiler := comp, rc_world := (rc_world r)\<lparr>wd_desired := cand\<rparr>\<rparr>"
  obtain x r1 where x: "coordinate env reason ?r0 = (x, r1)" by fastforce
  then obtain c w where "reconcile (daemon_config env) reason (rc_coordinator r) (rc_world ?r0) = (x, c, w)"
    and r1: "r1 = ?r0\<lparr>rc_coordinator := c, rc_world := w\<rparr>" by (auto elim: coordinateE)
  with reconcile_frame have "wd_desired w = cand" "x \<noteq> Inr () \<longrightarrow> wd_actual w = rc_actual r"
    by fastforce+
  with assms show ?thesis
    by (cases x) (auto simp: reload_def cand x r1 Let_def reconciler_simps)
qed

theorem reload_atomic_witness:
  "\<exists>e r'. reload (map_env [2]) (\<lambda>_. 0) (policy [(2, Block)]) ConfigReload
      (reconciler_new (policy [(1, Allow)]) default_ReconcilerConfig Map.empty) = (Inl e, r') \<and>
    rc_desired r' = policy [(1, Allow)]"
proof -
  let ?r = "reconciler_new (policy [(1, Allow)]) default_ReconcilerConfig Map.empty"
  let ?run = "reload (map_env [2]) (\<lambda>_. 0) (policy [(2, Block)]) ConfigReload ?r"
  have "isl (fst ?run)" by code_simp
  then obtain e r' where run: "?run = (Inl e, r')" by (cases ?run; cases "fst ?run") auto
  from reload_atomic [OF run] run show ?thesis by (auto simp: reconciler_new_def)
qed

definition before_reload :: "enforced Reconciler" where
  "before_reload = snd (reconciler_reconcile (map_env [2])
     (reconciler_new (policy [(1, Allow)]) default_ReconcilerConfig Map.empty))"


text \<open>
  After a resynchronisation with the kernel's inventory, a rule that is in force and is not a bare
  \<open>allow\<close> is planned again in every later cycle: the inventory records a placeholder, the executor
  answers \<open>AlreadyApplied\<close>, and that answer does not update the actual state. Each of \<open>n\<close> further cycles
  succeeds, changes nothing and advances the generation.
\<close>

theorem resynced_rule_never_settles:
  assumes "faithful_adapter enf (en_executor env)" and "quiet_env enf env"
    and "keeps enf (ea_actual_rule_ids (en_executor env))"
    and "\<And>req k. enf k (dt_policy_id (rq_trace req)) = Some req \<Longrightarrow>
      fst (ea_execute (en_executor env) req k) = AlreadyApplied"
    and "ds_rules (rc_desired r0) = [rule]" and "(dr_action rule, dr_flow rule) \<noteq> (Allow, None)"
    and "enf (wd_kernel (rc_world r0)) = [dr_id rule \<mapsto> policy_compile rule]"
    and "fst (ea_actual_rule_ids (en_executor env) (wd_kernel (rc_world r0))) = [dr_id rule]"
    and "\<not> co_busy (rc_coordinator r0)"
    and "r = ((\<lambda>r. snd (reconciler_reconcile env r)) ^^ n) (snd (sync_actual_from_executor env r0))"
  shows "generation r = generation r0 + of_nat n \<and> \<not> plan_is_empty (dry_run r) \<and>
    enf (wd_kernel (rc_world r)) = [dr_id rule \<mapsto> policy_compile rule]"
  using resynced_run [OF assms(1,2,4,6) resynced_start [OF assms(3,5,7-9)], of n] assms(10)
  by (simp add: resynced_def generation_def sync_generation resynced_plan_not_empty [OF assms(6)]
      dry_run_def)

theorem resynced_rule_never_settles_witness:
  "\<exists>r. r = ((\<lambda>r. snd (reconciler_reconcile (map_env []) r)) ^^ 3) (snd (sync_actual_from_executor (map_env [])
      (reconciler_new (policy [(1, Block)]) default_ReconcilerConfig
        [1 \<mapsto> policy_compile (simple_rule 1 Block)]))) \<and>
    generation r = 4 \<and> \<not> plan_is_empty (dry_run r)"
proof -
  let ?env = "map_env []" and ?rule = "simple_rule 1 Block"
  let ?r0 = "reconciler_new (policy [(1, Block)]) default_ReconcilerConfig [1 \<mapsto> policy_compile ?rule]"
  have "faithful_adapter (\<lambda>k. k) (en_executor ?env)" by (simp add: map_env_def map_adapter_faithful)
  moreover have "keeps (\<lambda>k. k) (ea_actual_rule_ids (en_executor ?env))"
    by (simp add: keeps_def map_env_def map_adapter_def)
  moreover have "fst (ea_execute (en_executor ?env) req k) = AlreadyApplied"
    if "k (dt_policy_id (rq_trace req)) = Some req" for req k
    using that by (simp add: map_env_def map_adapter_def Let_def)
  moreover have "fst (ea_actual_rule_ids (en_executor ?env) (wd_kernel (rc_world ?r0))) = [dr_id ?rule]"
    by (simp add: map_env_def map_adapter_def reconciler_new_def simple_rule_def)
  ultimately show ?thesis
    using resynced_rule_never_settles [OF _ map_env_quiet, of "[]" ?r0 ?rule _ 3]
    by (simp add: reconciler_new_def policy_def simple_rule_def Coordinator_new_def generation_def)
qed

text \<open>
  The DNS resynchronisation makes the authored state the only source of the desired state: with a
  compiler and an authored state present, the desired state becomes the compilation of the authored
  one under the present observations, the reported flag says whether it differed, and the authored
  state is kept. In particular a rule added to the desired state alone does not survive it.
\<close>

theorem dns_resync_recompiles:
  assumes "rc_flow_compiler r = Some reg" and "rc_desired_raw r = Some raw"
    and "dns_resync env clock r = (changed, r')"
  shows "rc_desired r' = fst (flow_compile clock reg raw) \<and>
    changed = (rc_desired r \<noteq> fst (flow_compile clock reg raw)) \<and>
    rc_desired_raw r' = rc_desired_raw r \<and>
    (rule \<notin> set (ds_rules (fst (flow_compile clock reg raw))) \<longrightarrow>
      rule \<notin> set (ds_rules (rc_desired (snd (dns_resync env clock (add_rule rule r))))))"
proof -
  have desired: "rc_desired (snd (dns_resync env clock q)) = fst (flow_compile clock reg raw)"
    and raw: "rc_desired_raw (snd (dns_resync env clock q)) = rc_desired_raw q"
    and flag: "fst (dns_resync env clock q) = (rc_desired q \<noteq> fst (flow_compile clock reg raw))"
    if q: "rc_flow_compiler q = Some reg" "rc_desired_raw q = Some raw" for q
  proof -
    obtain d reg' where d: "flow_compile clock reg raw = (d, reg')" by fastforce
    show "rc_desired (snd (dns_resync env clock q)) = fst (flow_compile clock reg raw)"
      by (simp add: dns_resync_def q d Let_def reconciler_desired)
    show "rc_desired_raw (snd (dns_resync env clock q)) = rc_desired_raw q"
      by (simp add: dns_resync_def q d Let_def reconciler_desired)
    show "fst (dns_resync env clock q) = (rc_desired q \<noteq> fst (flow_compile clock reg raw))"
      by (simp add: dns_resync_def q d Let_def)
  qed
  have "rc_flow_compiler (add_rule rule r) = Some reg" "rc_desired_raw (add_rule rule r) = Some raw"
    using assms(1,2) by (simp_all add: add_rule_def)
  from desired [OF this] desired [OF assms(1,2)] raw [OF assms(1,2)] flag [OF assms(1,2)] assms(3)
  show ?thesis by simp
qed

theorem dns_resync_recompiles_witness:
  "simple_rule 9 Block \<notin> set (ds_rules (rc_desired (snd (dns_resync (map_env []) (\<lambda>_. 0)
     (add_rule (simple_rule 9 Block)
       (set_desired (map_env []) (\<lambda>_. 0) (policy [(1, Block)])
         (with_flow_compiler registry_new
           (reconciler_new (policy []) default_ReconcilerConfig Map.empty))))))))"
proof -
  let ?r = "set_desired (map_env []) (\<lambda>_. 0) (policy [(1, Block)])
      (with_flow_compiler registry_new
        (reconciler_new (policy []) default_ReconcilerConfig Map.empty))"
  have "fst (flow_compile (\<lambda>_. 0) registry_new (policy [(1, Block)])) = policy [(1, Block)]"
    by code_simp
  moreover have "rc_flow_compiler ?r = Some registry_new" "rc_desired_raw ?r = Some (policy [(1, Block)])"
    by (simp_all add: set_desired_def with_flow_compiler_def compile_with_def Let_def policy_def
        flow_compile_def compile_rule_def simple_rule_def)
  moreover obtain b r' where "dns_resync (map_env []) (\<lambda>_. 0) ?r = (b, r')" by fastforce
  ultimately show ?thesis
    using dns_resync_recompiles [of ?r registry_new "policy [(1, Block)]" "map_env []" "\<lambda>_. 0" b r'
        "simple_rule 9 Block"] by (simp add: policy_def simple_rule_def)
qed

end
