(* ===== verification/F64.thy ===== *)
theory F64
  imports Prelude "HOL-Library.Log_Nat"
begin

text \<open>
  IEEE 754 binary64, the \<open>f64\<close> of the sources: values are NaN, the infinities and the finite values as
  exact rationals; each operation computes the exact result and rounds it to nearest, ties to even,
  with subnormals and overflow to infinity. The sign of zero is not represented: no expression of the
  modelled code divides by a zero that can be negative or reads the sign of a zero.
\<close>

subsection \<open>Rounding\<close>

datatype f64 = NaN | NInf | Fin rat | PInf

text \<open>\<open>ilog2 x\<close> is the binary exponent of a positive rational.\<close>

definition ilog2 :: "rat \<Rightarrow> int" where
  "ilog2 x =
     (case quotient_of x of (p, q) \<Rightarrow>
        let e = bitlen p - bitlen q in if 2 powi e \<le> x then e else e - 1)"

definition round_half_even :: "rat \<Rightarrow> int" where
  "round_half_even x =
     (let n = \<lfloor>x\<rfloor>; d = x - of_int n
      in if d < 1 / 2 then n else if 1 / 2 < d then n + 1 else if even n then n else n + 1)"

definition ulp :: "rat \<Rightarrow> rat" where
  "ulp x = 2 powi (max (ilog2 \<bar>x\<bar> - 52) (- 1074))"

definition round_rat :: "rat \<Rightarrow> rat" where
  "round_rat x = (if x = 0 then 0 else of_int (round_half_even (x / ulp x)) * ulp x)"

definition f64_round :: "rat \<Rightarrow> f64" where
  "f64_round x =
     (let r = round_rat x in if 2 ^ 1024 \<le> r then PInf else if r \<le> - (2 ^ 1024) then NInf else Fin r)"

subsection \<open>Rounding is monotone and exact on small integers\<close>

lemma bitlen_powi:
  assumes "0 < n"
  shows "2 powi (bitlen n - 1) \<le> (of_int n :: rat)" and "(of_int n :: rat) < 2 powi bitlen n"
proof -
  have len: "1 \<le> bitlen n" using assms bitlen_eq_zero_iff [of n] bitlen_nonneg [of n] by linarith
  have "(of_int (2 ^ nat (bitlen n - 1)) :: rat) \<le> of_int n"
    using bitlen_bounds [OF assms] by (simp only: of_int_le_iff)
  then show "2 powi (bitlen n - 1) \<le> (of_int n :: rat)" using len by (simp add: power_int_def)
  have "(of_int n :: rat) < of_int (2 ^ nat (bitlen n))"
    using bitlen_bounds [OF assms] by (simp only: of_int_less_iff)
  then show "(of_int n :: rat) < 2 powi bitlen n" using len by (simp add: power_int_def)
qed

lemma ilog2_bounds:
  assumes "0 < x"
  shows "2 powi ilog2 x \<le> x" and "x < 2 powi (ilog2 x + 1)"
proof -
  obtain p q where pq: "quotient_of x = (p, q)" by fastforce
  have q: "0 < q" using quotient_of_denom_pos [OF pq] .
  have x: "x = of_int p / of_int q" using quotient_of_div [OF pq] .
  have p: "0 < p" using assms q by (simp add: x zero_less_divide_iff)
  have "x < 2 powi bitlen p / 2 powi (bitlen q - 1)"
    unfolding x using bitlen_powi [OF p] bitlen_powi [OF q] p q by (intro frac_less) auto
  then have upper: "x < 2 powi (bitlen p - bitlen q + 1)"
    by (simp add: power_int_diff power_int_add algebra_simps)
  have "2 powi (bitlen p - 1) / 2 powi bitlen q \<le> x"
    unfolding x using bitlen_powi [OF p] bitlen_powi [OF q] p q
    by (intro frac_le) (auto intro: less_imp_le)
  then have lower: "2 powi (bitlen p - bitlen q - 1) \<le> x"
    by (simp add: power_int_diff mult.commute)
  show "2 powi ilog2 x \<le> x" and "x < 2 powi (ilog2 x + 1)"
    using upper lower by (auto simp: ilog2_def pq Let_def)
qed

lemma powi_less_cancel: "(2::rat) powi i < 2 powi j \<Longrightarrow> i < j"
  by (metis linorder_not_less one_le_numeral power_int_increasing)

lemma ilog2_mono:
  assumes "0 < x" and "x \<le> y"
  shows "ilog2 x \<le> ilog2 y"
proof -
  have "2 powi ilog2 x < (2::rat) powi (ilog2 y + 1)"
    using ilog2_bounds(1) [OF assms(1)] ilog2_bounds(2) [of y] assms by linarith
  then show ?thesis using powi_less_cancel by fastforce
qed

lemma round_half_even_of_int [simp]: "round_half_even (of_int n) = n"
  by (simp add: round_half_even_def)

lemma round_half_even_mono:
  assumes "x \<le> y"
  shows "round_half_even x \<le> round_half_even y"
proof (cases "\<lfloor>x\<rfloor> = \<lfloor>y\<rfloor>")
  case True
  with assms show ?thesis by (auto simp: round_half_even_def Let_def)
next
  case False
  then have less: "\<lfloor>x\<rfloor> + 1 \<le> \<lfloor>y\<rfloor>" using floor_mono [OF assms] by linarith
  have "round_half_even x \<le> \<lfloor>x\<rfloor> + 1" and "\<lfloor>y\<rfloor> \<le> round_half_even y"
    by (auto simp: round_half_even_def Let_def)
  then show ?thesis using less by linarith
qed

lemma round_half_even_minus: "round_half_even (- x) = - round_half_even x"
proof (cases "x = of_int \<lfloor>x\<rfloor>")
  case True
  then show ?thesis by (metis of_int_minus round_half_even_of_int)
next
  case False
  then have "\<lfloor>- x\<rfloor> = - \<lfloor>x\<rfloor> - 1"
    by (metis add.commute ceiling_altdef floor_minus minus_add_distrib uminus_add_conv_diff)
  then show ?thesis by (auto simp: round_half_even_def Let_def)
qed

lemma ulp_pos [simp]: "0 < ulp x"
  by (simp add: ulp_def)

lemma ulp_minus [simp]: "ulp (- x) = ulp x"
  by (simp add: ulp_def)

lemma round_rat_minus: "round_rat (- x) = - round_rat x"
  by (simp add: round_rat_def round_half_even_minus)

lemma round_rat_zero [simp]: "round_rat 0 = 0"
  by (simp add: round_rat_def)

lemma round_rat_nonneg: "0 \<le> x \<Longrightarrow> 0 \<le> round_rat x"
  using round_half_even_mono [of 0 "x / ulp x"] round_half_even_of_int [of 0] less_imp_le [OF ulp_pos]
  by (simp add: round_rat_def)

lemma round_rat_le_grid:
  assumes "0 < x" and "x \<le> of_int n * ulp x"
  shows "round_rat x \<le> of_int n * ulp x"
proof -
  have "round_half_even (x / ulp x) \<le> round_half_even (of_int n)"
    using assms by (intro round_half_even_mono) (simp add: divide_le_eq)
  then show ?thesis using assms by (simp add: round_rat_def)
qed

lemma round_rat_ge_grid:
  assumes "0 < x" and "of_int n * ulp x \<le> x"
  shows "of_int n * ulp x \<le> round_rat x"
proof -
  have "round_half_even (of_int n) \<le> round_half_even (x / ulp x)"
    using assms by (intro round_half_even_mono) (simp add: le_divide_eq)
  then show ?thesis using assms by (simp add: round_rat_def)
qed

lemma round_rat_mono_pos:
  assumes "0 < x" and "x \<le> y"
  shows "round_rat x \<le> round_rat y"
proof (cases "ulp x = ulp y")
  case True
  have "round_half_even (x / ulp x) \<le> round_half_even (y / ulp x)"
    using assms less_imp_le [OF ulp_pos] by (intro round_half_even_mono divide_right_mono)
  with True assms show ?thesis by (simp add: round_rat_def)
next
  case False
  define i where "i = max (ilog2 x - 52) (- 1074)"
  define j where "j = ilog2 y"
  have log: "ilog2 x \<le> j" using ilog2_mono [OF assms] by (simp add: j_def)
  have ux: "ulp x = 2 powi i" using assms by (simp add: ulp_def i_def)
  have "ilog2 x \<noteq> j" using False assms by (auto simp: ulp_def j_def)
  then have "ilog2 x < j" using log by simp
  moreover from this have "- 1074 < j - 52"
    using False assms by (auto simp: ulp_def j_def max_def split: if_splits)
  ultimately have "ilog2 x < j" "- 1074 < j - 52" .
  then have uy: "ulp y = 2 powi (j - 52)" and ij: "i \<le> j"
    using assms log by (auto simp: ulp_def j_def i_def)
  have "x \<le> 2 powi (ilog2 x + 1)" using ilog2_bounds(2) [OF assms(1)] by simp
  also have "\<dots> \<le> 2 powi j" using \<open>ilog2 x < j\<close> by (intro power_int_increasing) auto
  also have pj: "2 powi j = of_int (2 ^ nat (j - i)) * ulp x"
  proof -
    have "(2::rat) powi j = 2 powi (j - i) * 2 powi i" by (simp flip: power_int_add)
    also have "(2::rat) powi (j - i) = 2 ^ nat (j - i)" using ij by (simp add: power_int_def)
    finally show ?thesis by (simp add: ux)
  qed
  finally have "round_rat x \<le> 2 powi j"
    using round_rat_le_grid [OF assms(1)] pj by metis
  moreover have "2 powi j = of_int (2 ^ 52) * ulp y"
    by (simp add: uy power_int_diff)
  moreover have "2 powi j \<le> y" using ilog2_bounds(1) [of y] assms by (simp add: j_def)
  ultimately show ?thesis using round_rat_ge_grid [of y "2 ^ 52"] assms by linarith
qed

lemma round_rat_mono:
  assumes "x \<le> y"
  shows "round_rat x \<le> round_rat y"
proof (cases "0 < x")
  case True
  then show ?thesis using round_rat_mono_pos assms by blast
next
  case False
  show ?thesis
  proof (cases "0 \<le> y")
    case True
    have "0 \<le> round_rat (- x)" using False by (intro round_rat_nonneg) simp
    moreover have "0 \<le> round_rat y" using True by (rule round_rat_nonneg)
    ultimately show ?thesis by (simp add: round_rat_minus)
  next
    case neg: False
    have "round_rat (- y) \<le> round_rat (- x)"
      using neg assms by (intro round_rat_mono_pos) auto
    then show ?thesis by (simp add: round_rat_minus)
  qed
qed

lemma round_rat_pos:
  assumes "2 powi (- 1022) \<le> x"
  shows "0 < round_rat x"
proof -
  have x: "0 < x" using assms by (rule less_le_trans [rotated]) simp
  have "(2::rat) powi (- 1022) < 2 powi (ilog2 x + 1)"
    using ilog2_bounds(2) [OF x] assms by linarith
  then have "- 1022 < ilog2 x + 1" by (rule powi_less_cancel)
  then have "ulp x = 2 powi (ilog2 x - 52)" using x by (simp add: ulp_def)
  also have "\<dots> \<le> 2 powi ilog2 x" by (intro power_int_increasing) auto
  also have "\<dots> \<le> x" by (rule ilog2_bounds(1) [OF x])
  finally have "of_int 1 * ulp x \<le> round_rat x" using round_rat_ge_grid [OF x, of 1] by simp
  then show ?thesis using less_le_trans [OF ulp_pos] by simp
qed

lemma round_rat_grid: "x = of_int m * ulp x \<Longrightarrow> round_rat x = x"
  by (auto simp: round_rat_def) (metis less_irrefl nonzero_mult_div_cancel_right round_half_even_of_int ulp_pos)

lemma ilog2_powi [simp]: "ilog2 (2 powi k) = k"
proof -
  have "(2::rat) powi ilog2 (2 powi k) < 2 powi (k + 1)"
    using ilog2_bounds(1) [of "2 powi k"] by (rule le_less_trans) (simp_all add: power_int_add)
  then have "ilog2 (2 powi k) < k + 1" by (rule powi_less_cancel)
  moreover have "k < ilog2 (2 powi k) + 1"
    using ilog2_bounds(2) [of "2 powi k"] by (intro powi_less_cancel) simp
  ultimately show ?thesis by simp
qed

text \<open>Powers of two in the normal range are exact.\<close>

lemma round_rat_powi:
  assumes "- 1022 \<le> k"
  shows "round_rat (2 powi k) = 2 powi k"
proof (rule round_rat_grid)
  have "ulp (2 powi k) = 2 powi (k - 52)" using assms by (simp add: ulp_def)
  then show "(2::rat) powi k = of_int (2 ^ 52) * ulp (2 powi k)" by (simp add: power_int_diff)
qed

lemma round_rat_of_int [simp]:
  assumes "\<bar>n\<bar> < 2 ^ 53"
  shows "round_rat (of_int n) = of_int n"
proof (cases "n = 0")
  case False
  define e where "e = ilog2 \<bar>of_int n\<bar>"
  define i where "i = max (e - 52) (- 1074)"
  have "2 powi e \<le> (\<bar>of_int n\<bar> :: rat)" using ilog2_bounds(1) False by (simp add: e_def)
  also have "\<dots> < of_int (2 ^ 53)" using assms by (simp only: of_int_less_iff flip: of_int_abs)
  also have "\<dots> = 2 powi 53" by simp
  finally have "e < 53" by (rule powi_less_cancel)
  then have "i \<le> 0" by (simp add: i_def)
  then have "(2::rat) ^ nat (- i) * 2 powi i = 1"
    by (simp add: power_int_def flip: power_mult_distrib)
  then have "of_int n = of_int (n * 2 ^ nat (- i)) * ulp (of_int n)"
    by (simp add: ulp_def flip: e_def i_def)
  then show ?thesis by (rule round_rat_grid)
qed simp

lemma round_rat_numeral [simp]:
  "numeral k < (2 ^ 53 :: int) \<Longrightarrow> round_rat (numeral k) = numeral k"
  using round_rat_of_int [of "numeral k"] by simp

lemma round_rat_one [simp]: "round_rat 1 = 1"
  using round_rat_of_int [of 1] by simp

subsection \<open>Order and arithmetic\<close>

text \<open>\<open><\<close> and \<open><=\<close> are false when an operand is NaN.\<close>

fun f64_le :: "f64 \<Rightarrow> f64 \<Rightarrow> bool" where
  "f64_le NaN _ = False"
| "f64_le _ NaN = False"
| "f64_le NInf _ = True"
| "f64_le _ PInf = True"
| "f64_le (Fin a) (Fin b) = (a \<le> b)"
| "f64_le _ _ = False"

definition f64_lt :: "f64 \<Rightarrow> f64 \<Rightarrow> bool" where
  "f64_lt a b \<longleftrightarrow> f64_le a b \<and> \<not> f64_le b a"

definition f64_eq :: "f64 \<Rightarrow> f64 \<Rightarrow> bool" where
  "f64_eq a b \<longleftrightarrow> f64_le a b \<and> f64_le b a"

definition is_nan :: "f64 \<Rightarrow> bool" where
  "is_nan a \<longleftrightarrow> a = NaN"

fun is_finite :: "f64 \<Rightarrow> bool" where
  "is_finite (Fin _) = True"
| "is_finite _ = False"

fun f64_neg :: "f64 \<Rightarrow> f64" where
  "f64_neg NaN = NaN"
| "f64_neg PInf = NInf"
| "f64_neg NInf = PInf"
| "f64_neg (Fin a) = Fin (- a)"

fun f64_abs :: "f64 \<Rightarrow> f64" where
  "f64_abs NaN = NaN"
| "f64_abs PInf = PInf"
| "f64_abs NInf = PInf"
| "f64_abs (Fin a) = Fin \<bar>a\<bar>"

fun f64_add :: "f64 \<Rightarrow> f64 \<Rightarrow> f64" where
  "f64_add (Fin a) (Fin b) = f64_round (a + b)"
| "f64_add NaN _ = NaN"
| "f64_add _ NaN = NaN"
| "f64_add PInf NInf = NaN"
| "f64_add NInf PInf = NaN"
| "f64_add PInf _ = PInf"
| "f64_add _ PInf = PInf"
| "f64_add NInf _ = NInf"
| "f64_add _ NInf = NInf"

definition f64_sub :: "f64 \<Rightarrow> f64 \<Rightarrow> f64" where
  "f64_sub a b = f64_add a (f64_neg b)"

text \<open>The infinity whose sign is that of \<open>s\<close>; NaN when \<open>s\<close> is zero.\<close>

definition signed_inf :: "rat \<Rightarrow> f64" where
  "signed_inf s = (if s = 0 then NaN else if 0 < s then PInf else NInf)"

fun f64_sign :: "f64 \<Rightarrow> rat" where
  "f64_sign (Fin a) = sgn a"
| "f64_sign PInf = 1"
| "f64_sign NInf = - 1"
| "f64_sign NaN = 0"

fun f64_mul :: "f64 \<Rightarrow> f64 \<Rightarrow> f64" where
  "f64_mul (Fin a) (Fin b) = f64_round (a * b)"
| "f64_mul NaN _ = NaN"
| "f64_mul _ NaN = NaN"
| "f64_mul a b = signed_inf (f64_sign a * f64_sign b)"

fun f64_div :: "f64 \<Rightarrow> f64 \<Rightarrow> f64" where
  "f64_div (Fin a) (Fin b) = (if b = 0 then signed_inf (sgn a) else f64_round (a / b))"
| "f64_div NaN _ = NaN"
| "f64_div _ NaN = NaN"
| "f64_div (Fin a) _ = Fin 0"
| "f64_div a (Fin b) = signed_inf (f64_sign a * (if b < 0 then - 1 else 1))"
| "f64_div _ _ = NaN"

text \<open>\<open>f64::clamp\<close>, \<open>f64::max\<close> and the casts from unsigned integers.\<close>

definition f64_clamp :: "f64 \<Rightarrow> f64 \<Rightarrow> f64 \<Rightarrow> f64" where
  "f64_clamp x lo hi = (let x = (if f64_lt x lo then lo else x) in if f64_lt hi x then hi else x)"

definition f64_max :: "f64 \<Rightarrow> f64 \<Rightarrow> f64" where
  "f64_max a b = (if a = NaN then b else if b = NaN then a else if f64_le a b then b else a)"

definition f64_of_word :: "'a::len word \<Rightarrow> f64" where
  "f64_of_word w = f64_round (of_nat (unat w))"

subsection \<open>Lemmas on the operations\<close>

named_theorems f64_simps \<open>evaluation rules for f64\<close>

lemma f64_le_refl: "f64_le a a \<longleftrightarrow> a \<noteq> NaN"
  by (cases a) simp_all

lemma f64_le_total: "a \<noteq> NaN \<Longrightarrow> b \<noteq> NaN \<Longrightarrow> f64_le a b \<or> f64_le b a"
  by (cases a; cases b) auto

lemma f64_le_trans: "f64_le a b \<Longrightarrow> f64_le b c \<Longrightarrow> f64_le a c"
  by (cases a; cases b; cases c) auto

lemma f64_le_antisym: "f64_le a b \<Longrightarrow> f64_le b a \<Longrightarrow> a = b"
  by (cases a; cases b) auto

lemma f64_le_NaN [simp]: "\<not> f64_le a NaN"
  by (cases a) simp_all

lemma f64_le_notNaN: "f64_le a b \<Longrightarrow> a \<noteq> NaN \<and> b \<noteq> NaN"
  by auto

lemma f64_lt_Fin [simp]: "f64_lt (Fin a) (Fin b) \<longleftrightarrow> a < b"
  by (auto simp: f64_lt_def)

lemma not_f64_lt: "a \<noteq> NaN \<Longrightarrow> b \<noteq> NaN \<Longrightarrow> \<not> f64_lt a b \<longleftrightarrow> f64_le b a"
  using f64_le_total by (auto simp: f64_lt_def)

lemma f64_round_not_NaN [simp]: "f64_round x \<noteq> NaN"
  by (simp add: f64_round_def Let_def)

lemma f64_round_mono: "x \<le> y \<Longrightarrow> f64_le (f64_round x) (f64_round y)"
  using round_rat_mono [of x y] by (auto simp: f64_round_def Let_def)

lemma f64_round_of_int [simp]: "\<bar>n\<bar> < 2 ^ 53 \<Longrightarrow> f64_round (of_int n) = Fin (of_int n)"
proof -
  assume n: "\<bar>n\<bar> < 2 ^ 53"
  then have "(of_int n :: rat) < of_int (2 ^ 1024)" "of_int (- (2 ^ 1024)) < (of_int n :: rat)"
    unfolding of_int_less_iff by auto
  then show ?thesis using n by (simp add: f64_round_def Let_def)
qed

lemma f64_round_numeral [simp]:
  "numeral k < (2 ^ 53 :: int) \<Longrightarrow> f64_round (numeral k) = Fin (numeral k)"
  using f64_round_of_int [of "numeral k"] by simp

lemma f64_round_0_1 [simp]: "f64_round 0 = Fin 0" "f64_round 1 = Fin 1"
  using f64_round_of_int [of 0] f64_round_of_int [of 1] by simp_all

text \<open>Bounds by small integers survive rounding.\<close>

lemma f64_round_le_int:
  "x \<le> of_int n \<Longrightarrow> \<bar>n\<bar> < 2 ^ 53 \<Longrightarrow> f64_le (f64_round x) (Fin (of_int n))"
  using f64_round_mono [of x "of_int n"] by simp

lemma f64_round_ge_int:
  "of_int n \<le> x \<Longrightarrow> \<bar>n\<bar> < 2 ^ 53 \<Longrightarrow> f64_le (Fin (of_int n)) (f64_round x)"
  using f64_round_mono [of "of_int n" x] by simp

lemma f64_round_between:
  assumes "of_int m \<le> x" and "x \<le> of_int n" and "\<bar>m\<bar> < 2 ^ 53" and "\<bar>n\<bar> < 2 ^ 53"
  obtains r where "f64_round x = Fin r" and "of_int m \<le> r" and "r \<le> of_int n"
  using f64_round_ge_int [OF assms(1,3)] f64_round_le_int [OF assms(2,4)]
  by (cases "f64_round x") auto

lemma f64_clamp_between:
  assumes "f64_le lo hi" and "x \<noteq> NaN"
  shows "f64_le lo (f64_clamp x lo hi)" and "f64_le (f64_clamp x lo hi) hi"
  using assms not_f64_lt [of x lo] not_f64_lt [of hi x] f64_le_notNaN [OF assms(1)]
  by (auto simp: f64_clamp_def Let_def f64_le_refl not_f64_lt f64_lt_def)

lemma f64_clamp_Fin:
  assumes "lo \<le> hi" and "x \<noteq> NaN"
  obtains c where "f64_clamp x (Fin lo) (Fin hi) = Fin c" and "lo \<le> c" and "c \<le> hi"
  using f64_clamp_between [of "Fin lo" "Fin hi" x] assms
  by (cases "f64_clamp x (Fin lo) (Fin hi)") auto

text \<open>Values that are not NaN and not negative.\<close>

definition f64_nonneg :: "f64 \<Rightarrow> bool" where
  "f64_nonneg a \<longleftrightarrow> f64_le (Fin 0) a"

lemma f64_nonneg_cases: "f64_nonneg a \<longleftrightarrow> a = PInf \<or> (\<exists>x \<ge> 0. a = Fin x)"
  by (cases a) (auto simp: f64_nonneg_def)

lemma f64_nonneg_round: "0 \<le> x \<Longrightarrow> f64_nonneg (f64_round x)"
  using f64_round_ge_int [of 0 x] by (simp add: f64_nonneg_def)

lemma f64_nonneg_add: "f64_nonneg a \<Longrightarrow> f64_nonneg b \<Longrightarrow> f64_nonneg (f64_add a b)"
  by (auto simp: f64_nonneg_cases [of a] f64_nonneg_cases [of b] f64_nonneg_round)
    (auto simp: f64_nonneg_def)

lemma f64_nonneg_mul:
  "f64_nonneg a \<Longrightarrow> f64_nonneg b \<Longrightarrow> (a = PInf \<longrightarrow> b \<noteq> Fin 0) \<Longrightarrow> (b = PInf \<longrightarrow> a \<noteq> Fin 0) \<Longrightarrow>
     f64_nonneg (f64_mul a b)"
  by (auto simp: f64_nonneg_cases [of a] f64_nonneg_cases [of b] f64_nonneg_round signed_inf_def)
    (auto simp: f64_nonneg_def sgn_if split: if_splits)

lemma f64_nonneg_abs: "a \<noteq> NaN \<Longrightarrow> f64_nonneg (f64_abs a)"
  by (cases a) (auto simp: f64_nonneg_def)

end
