(* ===== verification/PathHealth.thy ===== *)
theory PathHealth
  imports F64 Policy
begin

text \<open>
  The unified path health tracker of \<open>src/crates/balansir-health/src/lib.rs\<close>: smoothing, hysteresis and
  the anti-flapping cooldown. A call of \<open>observe\<close> reads the monotonic clock up to twice; the readings are
  its first two arguments. The texts of \<open>reasons\<close> are represented by their arguments.

  The lemmas characterise the counters of a run of samples, say when the state may change, and keep
  the smoothed values away from NaN and from negative numbers.
\<close>

named_theorems health_simps \<open>evaluation rules for the tracker\<close>

subsection \<open>Data\<close>

datatype PathState = PS_Unknown | PS_Healthy | PS_Degraded | PS_Failing

fun path_label :: "PathState \<Rightarrow> string" where
  "path_label PS_Unknown = ''Unknown''"
| "path_label PS_Healthy = ''Healthy''"
| "path_label PS_Degraded = ''Degraded''"
| "path_label PS_Failing = ''Failing''"

record PathHealthConfig =
  pc_latency_threshold_ms :: f64
  pc_loss_threshold_pct :: f64
  pc_enter_degraded :: u32
  pc_exit_degraded :: u32
  pc_cooldown :: Duration
  pc_alpha :: f64

definition secs :: "nat \<Rightarrow> Duration" where
  "secs n = n * 10 ^ 9"

definition default_PathHealthConfig :: PathHealthConfig where
  "default_PathHealthConfig =
     \<lparr>pc_latency_threshold_ms = Fin 150, pc_loss_threshold_pct = Fin 5, pc_enter_degraded = 2,
      pc_exit_degraded = 3, pc_cooldown = secs 10, pc_alpha = f64_round (3 / 10)\<rparr>"

record PathSample =
  sa_latency_ms :: "f64 option"
  sa_loss_pct :: "f64 option"
  sa_reachable :: bool
  sa_degraded_evidence :: bool

definition healthy_sample :: PathSample where
  "healthy_sample = \<lparr>sa_latency_ms = None, sa_loss_pct = None, sa_reachable = True,
                     sa_degraded_evidence = False\<rparr>"

definition failure_sample :: PathSample where
  "failure_sample = \<lparr>sa_latency_ms = None, sa_loss_pct = None, sa_reachable = False,
                     sa_degraded_evidence = False\<rparr>"

datatype PathTransition = EnteredDegraded | EnteredFailing | Recovered

datatype path_reason =
    RCollecting
  | RHealthyRtt f64
  | RPathHealthy
  | RRttExceeds f64 f64
  | RLossExceeds f64 f64
  | RDegradedBelow
  | RConsecutive u32 u32
  | RTotalFailures u64
  | RProbeFailed

record PathHealthView =
  vw_state :: string
  vw_latency_ms :: "f64 option"
  vw_variance_ms :: "f64 option"
  vw_loss_pct :: "f64 option"
  vw_samples :: u64
  vw_failures :: u64
  vw_consecutive_failures :: u32
  vw_reasons :: "path_reason list"

record PathHealth =
  ph_config :: PathHealthConfig
  ph_state :: PathState
  ph_latency_ms :: f64
  ph_variance_ms :: f64
  ph_loss_pct :: f64
  ph_samples :: u64
  ph_consecutive_bad :: u32
  ph_consecutive_good :: u32
  ph_failures :: u64
  ph_last_transition :: "Instant option"

subsection \<open>Operations\<close>

definition PathHealth_new :: "PathHealthConfig \<Rightarrow> PathHealth" where
  "PathHealth_new config =
     \<lparr>ph_config = config, ph_state = PS_Unknown, ph_latency_ms = Fin 0, ph_variance_ms = Fin 0,
      ph_loss_pct = Fin 0, ph_samples = 0, ph_consecutive_bad = 0, ph_consecutive_good = 0,
      ph_failures = 0, ph_last_transition = None\<rparr>"

definition reset :: "PathHealth \<Rightarrow> PathHealth" where
  "reset h = PathHealth_new (ph_config h)"

definition ema :: "f64 \<Rightarrow> f64 \<Rightarrow> f64 \<Rightarrow> f64" where
  "ema a x prev = f64_add (f64_mul a x) (f64_mul (f64_sub (Fin 1) a) prev)"

definition update_latency :: "f64 \<Rightarrow> f64 \<Rightarrow> PathHealth \<Rightarrow> PathHealth" where
  "update_latency a lat h =
     (let latency = (if ph_samples h \<le> 1 then lat else ema a lat (ph_latency_ms h));
          variance = (if ph_samples h \<le> 1 then Fin 0
                      else (let d = f64_abs (f64_sub lat latency) in ema a d (ph_variance_ms h)))
      in h\<lparr>ph_latency_ms := latency, ph_variance_ms := variance\<rparr>)"

definition usable :: "f64 option \<Rightarrow> bool" where
  "usable v = (case v of Some x \<Rightarrow> is_finite x \<and> f64_le (Fin 0) x | None \<Rightarrow> False)"

definition update_ema :: "PathSample \<Rightarrow> PathHealth \<Rightarrow> PathHealth" where
  "update_ema sample h =
     (let a = f64_clamp (pc_alpha (ph_config h)) (f64_round (1 / 1000)) (Fin 1);
          h = (if usable (sa_latency_ms sample) then update_latency a (the (sa_latency_ms sample)) h
               else h)
      in if usable (sa_loss_pct sample)
         then h\<lparr>ph_loss_pct := (if ph_samples h \<le> 1 then the (sa_loss_pct sample)
                                else ema a (the (sa_loss_pct sample)) (ph_loss_pct h))\<rparr>
         else h)"

definition exceeds :: "f64 option \<Rightarrow> f64 \<Rightarrow> bool" where
  "exceeds v threshold =
     (is_finite threshold \<and> (case v of Some l \<Rightarrow> f64_lt threshold l | None \<Rightarrow> False))"

definition degraded_sample :: "PathHealthConfig \<Rightarrow> PathSample \<Rightarrow> bool" where
  "degraded_sample config sample \<longleftrightarrow>
     \<not> sa_reachable sample \<or> sa_degraded_evidence sample \<or>
     exceeds (sa_latency_ms sample) (pc_latency_threshold_ms config) \<or>
     exceeds (sa_loss_pct sample) (pc_loss_threshold_pct config)"

definition count_sample :: "PathSample \<Rightarrow> PathHealth \<Rightarrow> PathHealth" where
  "count_sample sample h =
     (let h = (if degraded_sample (ph_config h) sample
               then h\<lparr>ph_consecutive_bad := sat_add (ph_consecutive_bad h) 1, ph_consecutive_good := 0\<rparr>
               else h\<lparr>ph_consecutive_good := sat_add (ph_consecutive_good h) 1, ph_consecutive_bad := 0\<rparr>)
      in if \<not> sa_reachable sample then h\<lparr>ph_failures := sat_add (ph_failures h) 1\<rparr> else h)"

definition target_state :: "PathSample \<Rightarrow> PathHealth \<Rightarrow> PathState" where
  "target_state sample h =
     (if pc_enter_degraded (ph_config h) \<le> ph_consecutive_bad h
      then if \<not> sa_reachable sample then PS_Failing else PS_Degraded
      else PS_Healthy)"

fun path_rank :: "PathState \<Rightarrow> nat" where
  "path_rank PS_Unknown = 0"
| "path_rank PS_Healthy = 1"
| "path_rank PS_Degraded = 2"
| "path_rank PS_Failing = 3"

definition improvement_held :: "Instant \<Rightarrow> PathHealth \<Rightarrow> bool" where
  "improvement_held now h \<longleftrightarrow>
     ph_consecutive_good h < pc_exit_degraded (ph_config h) \<or>
     (case ph_last_transition h of
        Some since \<Rightarrow> now - since < pc_cooldown (ph_config h)
      | None \<Rightarrow> False)"

definition path_transition :: "PathState \<Rightarrow> PathState \<Rightarrow> PathTransition option" where
  "path_transition prev target =
     (case (prev, target) of
        (PS_Healthy, PS_Degraded) \<Rightarrow> Some EnteredDegraded
      | (PS_Healthy, PS_Failing) \<Rightarrow> Some EnteredFailing
      | (PS_Degraded, PS_Failing) \<Rightarrow> Some EnteredFailing
      | (PS_Failing, PS_Healthy) \<Rightarrow> Some Recovered
      | (PS_Degraded, PS_Healthy) \<Rightarrow> Some Recovered
      | _ \<Rightarrow> None)"

definition observe ::
    "Instant \<Rightarrow> Instant \<Rightarrow> PathSample \<Rightarrow> PathHealth \<Rightarrow> PathTransition option \<times> PathHealth" where
  "observe now now' sample h =
     (let h = h\<lparr>ph_samples := sat_add (ph_samples h) 1\<rparr>;
          h = update_ema sample h;
          h = count_sample sample h;
          target = target_state sample h
      in if target = ph_state h then (None, h)
         else if path_rank target < path_rank (ph_state h) \<and> improvement_held now h then (None, h)
         else (path_transition (ph_state h) target,
               h\<lparr>ph_state := target, ph_last_transition := Some now'\<rparr>))"

definition reasons :: "PathHealth \<Rightarrow> path_reason list" where
  "reasons h =
     (let th = pc_latency_threshold_ms (ph_config h);
          loss_th = pc_loss_threshold_pct (ph_config h);
          r = (case ph_state h of
                 PS_Unknown \<Rightarrow> [RCollecting]
               | PS_Healthy \<Rightarrow> [if 0 < ph_samples h then RHealthyRtt (ph_latency_ms h) else RPathHealthy]
               | PS_Degraded \<Rightarrow>
                   (let r = (if is_finite th \<and> f64_lt th (ph_latency_ms h)
                             then [RRttExceeds (ph_latency_ms h) th] else [])
                            @ (if is_finite loss_th \<and> f64_lt loss_th (ph_loss_pct h)
                               then [RLossExceeds (ph_loss_pct h) loss_th] else [])
                    in if r = [] then [RDegradedBelow] else r)
               | PS_Failing \<Rightarrow>
                   [RConsecutive (ph_consecutive_bad h) (pc_enter_degraded (ph_config h))]
                   @ (if 0 < ph_failures h then [RTotalFailures (ph_failures h)] else []))
      in if \<not> is_finite th \<and> ph_state h = PS_Failing \<and> ph_consecutive_bad h = 0
         then r @ [RProbeFailed] else r)"

definition view :: "PathHealth \<Rightarrow> PathHealthView" where
  "view h =
     (let known = (\<lambda>x. if 0 < ph_samples h then Some x else None)
      in \<lparr>vw_state = to_ascii_lowercase (path_label (ph_state h)),
          vw_latency_ms = known (ph_latency_ms h), vw_variance_ms = known (ph_variance_ms h),
          vw_loss_pct = known (ph_loss_pct h), vw_samples = ph_samples h,
          vw_failures = ph_failures h, vw_consecutive_failures = ph_consecutive_bad h,
          vw_reasons = reasons h\<rparr>)"

text \<open>A run of samples, each with its two clock readings.\<close>

type_synonym timed_sample = "Instant \<times> Instant \<times> PathSample"

definition observe_all :: "timed_sample list \<Rightarrow> PathHealth \<Rightarrow> PathHealth" where
  "observe_all xs h = fold (\<lambda>(now, now', s) h. snd (observe now now' s h)) xs h"

subsection \<open>Counters\<close>

lemma update_latency_frame [health_simps]:
  "ph_config (update_latency a l h) = ph_config h"
  "ph_state (update_latency a l h) = ph_state h"
  "ph_samples (update_latency a l h) = ph_samples h"
  "ph_consecutive_bad (update_latency a l h) = ph_consecutive_bad h"
  "ph_consecutive_good (update_latency a l h) = ph_consecutive_good h"
  "ph_failures (update_latency a l h) = ph_failures h"
  "ph_last_transition (update_latency a l h) = ph_last_transition h"
  "ph_loss_pct (update_latency a l h) = ph_loss_pct h"
  by (simp_all add: update_latency_def Let_def)

lemma update_ema_frame [health_simps]:
  "ph_config (update_ema s h) = ph_config h"
  "ph_state (update_ema s h) = ph_state h"
  "ph_samples (update_ema s h) = ph_samples h"
  "ph_consecutive_bad (update_ema s h) = ph_consecutive_bad h"
  "ph_consecutive_good (update_ema s h) = ph_consecutive_good h"
  "ph_failures (update_ema s h) = ph_failures h"
  "ph_last_transition (update_ema s h) = ph_last_transition h"
  by (simp_all add: update_ema_def Let_def health_simps)

lemma count_sample_frame [health_simps]:
  "ph_config (count_sample s h) = ph_config h"
  "ph_state (count_sample s h) = ph_state h"
  "ph_samples (count_sample s h) = ph_samples h"
  "ph_last_transition (count_sample s h) = ph_last_transition h"
  "ph_latency_ms (count_sample s h) = ph_latency_ms h"
  "ph_variance_ms (count_sample s h) = ph_variance_ms h"
  "ph_loss_pct (count_sample s h) = ph_loss_pct h"
  by (simp_all add: count_sample_def Let_def)

lemma count_sample_counters [health_simps]:
  "ph_consecutive_bad (count_sample s h) =
     (if degraded_sample (ph_config h) s then sat_add (ph_consecutive_bad h) 1 else 0)"
  "ph_consecutive_good (count_sample s h) =
     (if degraded_sample (ph_config h) s then 0 else sat_add (ph_consecutive_good h) 1)"
  "ph_failures (count_sample s h) =
     (if sa_reachable s then ph_failures h else sat_add (ph_failures h) 1)"
  by (simp_all add: count_sample_def Let_def)

text \<open>The tracker after the sample is accounted for and before the state machine moves.\<close>

definition accounted_sample :: "PathSample \<Rightarrow> PathHealth \<Rightarrow> PathHealth" where
  "accounted_sample s h = count_sample s (update_ema s (h\<lparr>ph_samples := sat_add (ph_samples h) 1\<rparr>))"

lemma accounted_sample_simps [health_simps]:
  "ph_config (accounted_sample s h) = ph_config h"
  "ph_state (accounted_sample s h) = ph_state h"
  "ph_samples (accounted_sample s h) = sat_add (ph_samples h) 1"
  "ph_last_transition (accounted_sample s h) = ph_last_transition h"
  "ph_consecutive_bad (accounted_sample s h) =
     (if degraded_sample (ph_config h) s then sat_add (ph_consecutive_bad h) 1 else 0)"
  "ph_consecutive_good (accounted_sample s h) =
     (if degraded_sample (ph_config h) s then 0 else sat_add (ph_consecutive_good h) 1)"
  "ph_failures (accounted_sample s h) =
     (if sa_reachable s then ph_failures h else sat_add (ph_failures h) 1)"
  by (simp_all add: accounted_sample_def health_simps)

lemma observe_alt:
  "observe now now' s h =
     (let h' = accounted_sample s h; target = target_state s h'
      in if target = ph_state h then (None, h')
         else if path_rank target < path_rank (ph_state h) \<and> improvement_held now h' then (None, h')
         else (path_transition (ph_state h) target,
               h'\<lparr>ph_state := target, ph_last_transition := Some now'\<rparr>))"
  by (simp add: observe_def accounted_sample_def Let_def health_simps)

lemma observe_counters [health_simps]:
  "ph_config (snd (observe now now' s h)) = ph_config h"
  "ph_samples (snd (observe now now' s h)) = sat_add (ph_samples h) 1"
  "ph_consecutive_bad (snd (observe now now' s h)) =
     (if degraded_sample (ph_config h) s then sat_add (ph_consecutive_bad h) 1 else 0)"
  "ph_consecutive_good (snd (observe now now' s h)) =
     (if degraded_sample (ph_config h) s then 0 else sat_add (ph_consecutive_good h) 1)"
  "ph_failures (snd (observe now now' s h)) =
     (if sa_reachable s then ph_failures h else sat_add (ph_failures h) 1)"
  by (simp_all add: observe_alt Let_def health_simps)

lemma observe_all_simps [simp]:
  "observe_all [] h = h"
  "observe_all (xs @ [x]) h = snd (observe (fst x) (fst (snd x)) (snd (snd x)) (observe_all xs h))"
  by (simp_all add: observe_all_def case_prod_unfold)

lemma observe_all_config [health_simps]: "ph_config (observe_all xs h) = ph_config h"
  by (induction xs rule: rev_induct) (simp_all add: health_simps)

text \<open>The length of the longest suffix of a list whose elements satisfy a predicate.\<close>

definition trailing :: "('a \<Rightarrow> bool) \<Rightarrow> 'a list \<Rightarrow> nat" where
  "trailing P xs = length (takeWhile P (rev xs))"

lemma trailing_simps [simp]:
  "trailing P [] = 0"
  "trailing P (xs @ [x]) = (if P x then Suc (trailing P xs) else 0)"
  by (simp_all add: trailing_def)

lemma trailing_ge_iff: "n \<le> trailing P xs \<longleftrightarrow> n \<le> length xs \<and> (\<forall>x \<in> set (drop (length xs - n) xs). P x)"
proof -
  have "m \<le> length (takeWhile P ys) \<longleftrightarrow> m \<le> length ys \<and> (\<forall>y \<in> set (take m ys). P y)" for m ys
  proof (induction ys arbitrary: m)
    case (Cons y ys)
    then show ?case by (cases m) auto
  qed simp
  from this [of n "rev xs"] show ?thesis by (simp add: trailing_def take_rev)
qed

abbreviation sample_of :: "timed_sample \<Rightarrow> PathSample" where
  "sample_of x \<equiv> snd (snd x)"

lemma unat_sat_add_1:
  "unat (sat_add w 1) = min (Suc (unat w)) (2 ^ LENGTH('a) - 1)" for w :: "'a::len word"
proof -
  have "(1::nat) < 2 ^ LENGTH('a)" by (rule one_less_power) simp_all
  then show ?thesis by (simp add: unat_sat_add)
qed

lemma counters_from_new:
  fixes config xs
  defines "h \<equiv> observe_all xs (PathHealth_new config)"
    and "bad \<equiv> (\<lambda>x. degraded_sample config (sample_of x))"
  shows "unat (ph_samples h) = min (length xs) (2 ^ 64 - 1)"
    and "unat (ph_consecutive_bad h) = min (trailing bad xs) (2 ^ 32 - 1)"
    and "unat (ph_consecutive_good h) = min (trailing (\<lambda>x. \<not> bad x) xs) (2 ^ 32 - 1)"
    and "unat (ph_failures h) =
      min (length (filter (\<lambda>x. \<not> sa_reachable (sample_of x)) xs)) (2 ^ 64 - 1)"
  unfolding h_def bad_def
  by (induction xs rule: rev_induct)
    (auto simp: health_simps PathHealth_new_def unat_sat_add_1 observe_all_config)

subsection \<open>Transitions\<close>

text \<open>
  What one observation may do to the state: \<open>bad\<close> and \<open>good\<close> are the streaks including this sample.
\<close>

definition transition_rules ::
    "PathHealthConfig \<Rightarrow> Instant \<Rightarrow> Instant option \<Rightarrow> PathSample \<Rightarrow> u32 \<Rightarrow> u32 \<Rightarrow> PathState \<Rightarrow> PathState
       \<Rightarrow> bool" where
  "transition_rules config now last_change s bad good st st' \<longleftrightarrow>
     (if pc_enter_degraded config \<le> bad \<and> \<not> sa_reachable s then st' = PS_Failing
      else if pc_enter_degraded config \<le> bad \<and> st \<noteq> PS_Failing then st' = PS_Degraded
      else st' \<noteq> st \<longrightarrow>
        st' = (if pc_enter_degraded config \<le> bad then PS_Degraded else PS_Healthy) \<and>
        (st \<noteq> PS_Unknown \<longrightarrow>
          pc_exit_degraded config \<le> good \<and>
          (\<forall>t. last_change = Some t \<longrightarrow> pc_cooldown config \<le> now - t)))"

lemma observe_transition_rules:
  "transition_rules (ph_config h) now (ph_last_transition h) s
     (ph_consecutive_bad (snd (observe now now' s h)))
     (ph_consecutive_good (snd (observe now now' s h)))
     (ph_state h) (ph_state (snd (observe now now' s h)))"
proof -
  define h' where "h' = accounted_sample s h"
  have obs: "ph_consecutive_bad (snd (observe now now' s h)) = ph_consecutive_bad h'"
    "ph_consecutive_good (snd (observe now now' s h)) = ph_consecutive_good h'"
    by (simp_all add: h'_def health_simps)
  have cfg: "ph_config h' = ph_config h" "ph_last_transition h' = ph_last_transition h"
    by (simp_all add: h'_def health_simps)
  have st: "ph_state (snd (observe now now' s h)) =
      (if target_state s h' = ph_state h then ph_state h
       else if path_rank (target_state s h') < path_rank (ph_state h) \<and> improvement_held now h'
       then ph_state h else target_state s h')"
    by (simp add: observe_alt Let_def health_simps h'_def)
  show ?thesis
    unfolding obs st transition_rules_def
    by (cases "ph_state h")
      (auto simp: target_state_def improvement_held_def cfg split: option.splits)
qed

lemma observe_reports:
  "fst (observe now now' s h) = path_transition (ph_state h) (ph_state (snd (observe now now' s h)))"
  by (auto simp: observe_alt Let_def health_simps path_transition_def split: PathState.splits)

lemma observe_last_transition:
  "ph_last_transition (snd (observe now now' s h)) =
     (if ph_state (snd (observe now now' s h)) = ph_state h then ph_last_transition h else Some now')"
  by (auto simp: observe_alt Let_def health_simps)

subsection \<open>Smoothed values\<close>

definition ema_inv :: "PathHealth \<Rightarrow> bool" where
  "ema_inv h \<longleftrightarrow>
     f64_nonneg (ph_latency_ms h) \<and> f64_nonneg (ph_variance_ms h) \<and> f64_nonneg (ph_loss_pct h)"

text \<open>A smoothing factor strictly between 0 and 1, and so is its complement.\<close>

definition proper_factor :: "f64 \<Rightarrow> bool" where
  "proper_factor a \<longleftrightarrow>
     (\<exists>c > 0. a = Fin c) \<and> (\<exists>b > 0. f64_sub (Fin 1) a = Fin b)"

lemma ema_nonneg:
  assumes "proper_factor a" and "f64_nonneg x" and "f64_nonneg prev"
  shows "f64_nonneg (ema a x prev)"
proof -
  obtain c b where a: "a = Fin c" "0 < c" and b: "f64_sub (Fin 1) (Fin c) = Fin b" "0 < b"
    using assms(1) by (auto simp: proper_factor_def)
  have "f64_nonneg (Fin c)" "f64_nonneg (Fin b)" using a b by (simp_all add: f64_nonneg_def)
  then show ?thesis
    using a b assms(2,3) unfolding ema_def by (intro f64_nonneg_add f64_nonneg_mul) auto
qed

lemma f64_round_half: "f64_round (1 / 2) = Fin (1 / 2)"
  using round_rat_powi [of "- 1"] by (simp add: f64_round_def Let_def power_int_minus)

lemma tiny_thousandth: "2 powi (- 1022) \<le> (1 / 1000 :: rat)"
proof -
  have "(2::rat) powi (- 1022) \<le> 2 powi (- 10)" by (rule power_int_increasing) auto
  then show ?thesis by (rule order_trans) (simp add: power_int_minus)
qed

lemma f64_round_thousandth:
  obtains l where "f64_round (1 / 1000) = Fin l" and "l \<le> 1 / 2" and "0 < l"
proof -
  have "f64_le (f64_round (1 / 1000)) (Fin (1 / 2))"
    using f64_round_mono [of "1 / 1000" "1 / 2"] f64_round_half by simp
  then show ?thesis
    using round_rat_pos [OF tiny_thousandth] that
    by (auto simp: f64_round_def Let_def split: if_splits)
qed

lemma alpha_proper:
  assumes "pc_alpha config = Fin c" and "c \<le> 999 / 1000"
  shows "proper_factor (f64_clamp (pc_alpha config) (f64_round (1 / 1000)) (Fin 1))"
proof -
  obtain l where l: "f64_round (1 / 1000) = Fin l" "l \<le> 1 / 2" "0 < l"
    by (rule f64_round_thousandth)
  define d where "d = max c l"
  have clamp: "f64_clamp (pc_alpha config) (f64_round (1 / 1000)) (Fin 1) = Fin d"
    using assms l by (auto simp: f64_clamp_def Let_def d_def max_def)
  have d: "0 < d" "d \<le> 999 / 1000" using assms l by (auto simp: d_def)
  have "2 powi (- 1022) \<le> 1 - d" using d tiny_thousandth by linarith
  then have "0 < round_rat (1 - d)" by (rule round_rat_pos)
  moreover have "f64_le (f64_round (1 - d)) (Fin 1)"
    using f64_round_le_int [of "1 - d" 1] d by simp
  ultimately have "\<exists>b > 0. f64_round (1 - d) = Fin b"
    by (auto simp: f64_round_def Let_def split: if_splits)
  then show ?thesis using d by (simp add: clamp proper_factor_def f64_sub_def)
qed

lemma usable_nonneg: "usable v \<Longrightarrow> \<exists>x. the v = Fin x \<and> f64_nonneg (the v)"
  by (cases "the v") (auto simp: usable_def f64_nonneg_def split: option.splits)

lemma update_latency_inv:
  assumes "proper_factor a" and "lat = Fin x" and "f64_nonneg lat" and "ema_inv h"
  shows "ema_inv (update_latency a lat h)"
proof -
  let ?l = "if ph_samples h \<le> 1 then lat else ema a lat (ph_latency_ms h)"
  have l: "f64_nonneg ?l" using ema_nonneg [OF assms(1,3)] assms(3,4) by (simp add: ema_inv_def)
  then have "f64_sub lat ?l \<noteq> NaN"
    by (auto simp: f64_nonneg_cases f64_sub_def assms(2))
  then have "f64_nonneg (ema a (f64_abs (f64_sub lat ?l)) (ph_variance_ms h))"
    using ema_nonneg [OF assms(1) f64_nonneg_abs] assms(4) by (simp add: ema_inv_def)
  with l assms(4) show ?thesis
    by (auto simp: ema_inv_def update_latency_def Let_def f64_nonneg_def)
qed

lemma update_ema_inv:
  assumes "pc_alpha (ph_config h) = Fin c" and "c \<le> 999 / 1000" and "ema_inv h"
  shows "ema_inv (update_ema s h)"
proof -
  let ?a = "f64_clamp (pc_alpha (ph_config h)) (f64_round (1 / 1000)) (Fin 1)"
  have a: "proper_factor ?a" using alpha_proper [OF assms(1,2)] .
  define h1 where "h1 = (if usable (sa_latency_ms s) then update_latency ?a (the (sa_latency_ms s)) h else h)"
  have "ema_inv h1"
    using usable_nonneg [of "sa_latency_ms s"] update_latency_inv [OF a] assms(3)
    by (auto simp: h1_def)
  moreover have "f64_nonneg (ema ?a (the (sa_loss_pct s)) (ph_loss_pct h1))" if "usable (sa_loss_pct s)"
    using usable_nonneg [OF that] ema_nonneg [OF a] \<open>ema_inv h1\<close> by (auto simp: ema_inv_def)
  moreover have "f64_nonneg (the (sa_loss_pct s))" if "usable (sa_loss_pct s)"
    using usable_nonneg [OF that] by auto
  ultimately show ?thesis
    by (simp add: update_ema_def Let_def ema_inv_def flip: h1_def)
qed

lemma observe_ema_inv:
  assumes "pc_alpha (ph_config h) = Fin c" and "c \<le> 999 / 1000" and "ema_inv h"
  shows "ema_inv (snd (observe now now' s h))"
proof -
  have "ema_inv (update_ema s (h\<lparr>ph_samples := sat_add (ph_samples h) 1\<rparr>))"
    using assms by (intro update_ema_inv) (auto simp: ema_inv_def)
  then show ?thesis
    by (auto simp: observe_alt accounted_sample_def Let_def ema_inv_def health_simps)
qed

lemma observe_latency:
  "ph_latency_ms (snd (observe now now' s h)) =
     ph_latency_ms (update_ema s (h\<lparr>ph_samples := sat_add (ph_samples h) 1\<rparr>))"
  by (simp add: observe_alt accounted_sample_def Let_def health_simps)

lemma update_ema_latency:
  "ph_latency_ms (update_ema s h) =
     (if usable (sa_latency_ms s)
      then if ph_samples h \<le> 1 then the (sa_latency_ms s)
           else ema (f64_clamp (pc_alpha (ph_config h)) (f64_round (1 / 1000)) (Fin 1))
                  (the (sa_latency_ms s)) (ph_latency_ms h)
      else ph_latency_ms h)"
  by (simp add: update_ema_def update_latency_def Let_def)

lemma observe_all_ema_inv:
  assumes "pc_alpha config = Fin c" and "c \<le> 999 / 1000"
  shows "ema_inv (observe_all xs (PathHealth_new config))"
proof (induction xs rule: rev_induct)
  case Nil
  then show ?case by (simp add: ema_inv_def PathHealth_new_def f64_nonneg_def)
next
  case (snoc x xs)
  then show ?case
    using assms by (simp add: observe_ema_inv [of _ c] health_simps PathHealth_new_def)
qed

lemma word_le_min_iff: "w \<le> v \<longleftrightarrow> unat w \<le> n"
  if "unat v = min n (2 ^ 32 - 1)" for v w :: u32
proof -
  have "unat w < 2 ^ 32" using unsigned_less [of w] by simp
  then show ?thesis using that by (simp add: word_le_nat_alt)
qed

subsection \<open>Properties of the tracker\<close>



text \<open>
  The smoothed latency, variance and loss are never NaN and never negative, whatever samples are
  fed, including NaN, infinite and negative measurements, for every smoothing factor up to 0.999
  (smaller ones, zero and negative ones included, are clamped).
\<close>

theorem path_ema_nonneg:
  assumes "pc_alpha config = Fin c" and "c \<le> 999 / 1000"
  shows "f64_le (Fin 0) (ph_latency_ms (observe_all xs (PathHealth_new config))) \<and>
    f64_le (Fin 0) (ph_variance_ms (observe_all xs (PathHealth_new config))) \<and>
    f64_le (Fin 0) (ph_loss_pct (observe_all xs (PathHealth_new config)))"
  using observe_all_ema_inv [OF assms, of xs] by (simp add: ema_inv_def f64_nonneg_def)

theorem path_ema_nonneg_witness:
  "f64_le (Fin 0) (ph_latency_ms (observe_all
     [(0, 0, healthy_sample\<lparr>sa_latency_ms := Some (Fin 20)\<rparr>),
      (1, 1, healthy_sample\<lparr>sa_latency_ms := Some NaN\<rparr>),
      (2, 2, healthy_sample\<lparr>sa_latency_ms := Some (Fin 70)\<rparr>)]
     (PathHealth_new (default_PathHealthConfig\<lparr>pc_alpha := Fin (1 / 2)\<rparr>))))"
  using path_ema_nonneg [of "default_PathHealthConfig\<lparr>pc_alpha := Fin (1 / 2)\<rparr>" "1 / 2"] by simp

text \<open>
  The smoothing starts from the first sample, not from the first measurement: when the first
  sample has no latency, the first measured latency is blended with zero instead of being taken.
\<close>

theorem first_latency_is_blended_with_zero:
  assumes "sa_latency_ms (sample_of y) = None"
    and "sa_latency_ms (sample_of x) = Some (Fin l)" and "0 \<le> l"
  shows "ph_latency_ms (observe_all [y, x] (PathHealth_new config)) =
    ema (f64_clamp (pc_alpha config) (f64_round (1 / 1000)) (Fin 1)) (Fin l) (Fin 0)"
proof -
  define h where "h = snd (observe (fst y) (fst (snd y)) (sample_of y) (PathHealth_new config))"
  have h: "ph_samples h = 1" "ph_latency_ms h = Fin 0" "ph_config h = config"
    using assms(1) by (simp_all add: h_def health_simps observe_latency update_ema_latency usable_def
        PathHealth_new_def sat_add_def)
  have two: "sat_add 1 1 = (2 :: u64)" and "\<not> (2 :: u64) \<le> 1"
    by (simp_all add: sat_add_def word_le_nat_alt)
  moreover have "observe_all [y, x] (PathHealth_new config) =
      snd (observe (fst x) (fst (snd x)) (sample_of x) h)"
    by (simp add: observe_all_def case_prod_unfold h_def)
  ultimately show ?thesis
    using assms(2,3) by (simp add: observe_latency update_ema_latency h usable_def)
qed

theorem first_latency_is_blended_with_zero_witness:
  "ph_latency_ms (observe_all
     [(0, 0, healthy_sample), (1, 1, healthy_sample\<lparr>sa_latency_ms := Some (Fin 200)\<rparr>)]
     (PathHealth_new (default_PathHealthConfig\<lparr>pc_alpha := Fin (1 / 2)\<rparr>))) = Fin 100"
proof -
  obtain l where l: "f64_round (1 / 1000) = Fin l" "l \<le> 1 / 2" "0 < l"
    by (rule f64_round_thousandth)
  then have "f64_clamp (Fin (1 / 2)) (f64_round (1 / 1000)) (Fin 1) = Fin (1 / 2)"
    by (simp add: f64_clamp_def)
  moreover have "ema (Fin (1 / 2)) (Fin 200) (Fin 0) = Fin 100"
    by (simp add: ema_def f64_sub_def f64_round_half)
  ultimately show ?thesis
    using first_latency_is_blended_with_zero [of "(0, 0, healthy_sample)"
        "(1, 1, healthy_sample\<lparr>sa_latency_ms := Some (Fin 200)\<rparr>)" 200
        "default_PathHealthConfig\<lparr>pc_alpha := Fin (1 / 2)\<rparr>"]
    by (simp add: healthy_sample_def)
qed

end
