(* ===== verification/VpnPool.thy ===== *)
theory VpnPool
  imports PathHealth
begin

text \<open>
  The pool of VPN profiles, \<open>src/crates/balansir-vpn/src/{profile,pool}.rs\<close>: the lifecycle of a profile
  derived from the unified health tracker and the failure cooldown, the weight and the score, the
  selection, the planned and the forced rotation. Wall-clock times are \<open>i64\<close> milliseconds passed by the
  caller; subtraction wraps as in the release profile. Explanatory texts are represented by their
  arguments.

  The locale \<open>selection\<close> states what ranking and picking promise; it is interpreted on the pool's score
  and order.
\<close>

named_theorems pool_simps \<open>evaluation rules for the pool\<close>

subsection \<open>Profiles\<close>

datatype Protocol = Vless

fun protocol_name :: "Protocol \<Rightarrow> string" where
  "protocol_name Vless = ''vless''"

datatype Transport =
    Tcp
  | WebSocket string "string option"
  | Grpc string
  | HttpUpgrade string "string option"
  | Xhttp string "string option" "string option" "string option"

fun transport_name :: "Transport \<Rightarrow> string" where
  "transport_name Tcp = ''tcp''"
| "transport_name (WebSocket _ _) = ''ws''"
| "transport_name (Grpc _) = ''grpc''"
| "transport_name (HttpUpgrade _ _) = ''httpupgrade''"
| "transport_name (Xhttp _ _ _ _) = ''xhttp''"

datatype Security = SecNone | SecTls | SecReality

fun security_name :: "Security \<Rightarrow> string" where
  "security_name SecNone = ''none''"
| "security_name SecTls = ''tls''"
| "security_name SecReality = ''reality''"

record VpnProfile =
  vp_profile_id :: string
  vp_protocol :: Protocol
  vp_server :: string
  vp_port :: u16
  vp_transport :: Transport
  vp_security :: Security
  vp_sni :: "string option"
  vp_reality_pbk :: "string option"
  vp_reality_sid :: "string option"
  vp_flow :: "string option"
  vp_uuid :: string
  vp_fingerprint :: "string option"
  vp_pinned_peer_cert_sha256 :: "string option"
  vp_label :: string
  vp_source :: string
  vp_source_ts_ms :: i64

definition endpoint :: "VpnProfile \<Rightarrow> string" where
  "endpoint p =
     (if CHR '':'' \<in> set (vp_server p) \<and> take 1 (vp_server p) \<noteq> ''[''
      then ''['' @ vp_server p @ '']:'' @ show_u (vp_port p)
      else vp_server p @ '':'' @ show_u (vp_port p))"

datatype ProfileState = PF_Unknown | PF_Healthy | PF_Degraded | PF_Cooldown | PF_Failed | PF_Recovering

fun profile_label :: "ProfileState \<Rightarrow> string" where
  "profile_label PF_Unknown = ''Unknown''"
| "profile_label PF_Healthy = ''Healthy''"
| "profile_label PF_Degraded = ''Degraded''"
| "profile_label PF_Cooldown = ''Cooldown''"
| "profile_label PF_Failed = ''Failed''"
| "profile_label PF_Recovering = ''Recovering''"

record ProfileHealth =
  he_profile_id :: string
  he_label :: string
  he_state :: ProfileState
  he_latency_ms :: "f64 option"
  he_loss_pct :: "f64 option"
  he_availability :: "f64 option"
  he_consecutive_successes :: u32
  he_consecutive_failures :: u32
  he_failure_count :: u64
  he_sample_count :: u64
  he_weight :: u32
  he_reasons :: "path_reason list"

definition default_ProfileHealth :: ProfileHealth where
  "default_ProfileHealth =
     \<lparr>he_profile_id = [], he_label = [], he_state = PF_Unknown, he_latency_ms = None,
      he_loss_pct = None, he_availability = None, he_consecutive_successes = 0,
      he_consecutive_failures = 0, he_failure_count = 0, he_sample_count = 0, he_weight = 0,
      he_reasons = []\<rparr>"

subsection \<open>The pool\<close>

record PoolConfig =
  pg_min_dwell :: Duration
  pg_failure_cooldown :: Duration
  pg_health_cooldown :: Duration
  pg_rotation_interval :: Duration
  pg_better_threshold :: f64
  pg_ramp_steps :: "u32 list"

definition default_PoolConfig :: PoolConfig where
  "default_PoolConfig =
     \<lparr>pg_min_dwell = secs 120, pg_failure_cooldown = secs 60, pg_health_cooldown = secs 10,
      pg_rotation_interval = secs 0, pg_better_threshold = Fin 25,
      pg_ramp_steps = [10, 25, 50, 100]\<rparr>"

record PooledProfile =
  pp_profile :: VpnProfile
  pp_health :: ProfileHealth
  pp_tracker :: PathHealth
  pp_last_failure_ms :: i64
  pp_last_selected_ms :: i64

abbreviation pp_id :: "PooledProfile \<Rightarrow> string" where
  "pp_id p \<equiv> vp_profile_id (pp_profile p)"

datatype exclusion_reason = InCooldown | FailedProbes | WeightZero

record Exclusion =
  xc_profile_id :: string
  xc_reason :: exclusion_reason

text \<open>\<open>explain_score\<close>: state, latency, availability, weight and score.\<close>

datatype selection_reason =
    Explained ProfileState "f64 option" "f64 option" u32 f64
  | NoEligibleProfile

record SelectionDecision =
  sd_profile_id :: string
  sd_score :: f64
  sd_reason :: selection_reason
  sd_excluded :: "Exclusion list"
  sd_candidates :: usize

datatype rotation_reason =
    PlannedRotation string string f64 f64
  | ForcedRotation string "string option"

record VpnPool =
  po_config :: PoolConfig
  po_profiles :: "PooledProfile list"
  po_active :: "string option"
  po_last_rotation_ms :: i64
  po_last_rotation_reason :: "rotation_reason option"

record PoolSnapshot =
  ps_profiles :: "ProfileHealth list"
  ps_active :: "string option"
  ps_excluded :: "Exclusion list"
  ps_last_rotation_ms :: i64
  ps_last_rotation_reason :: "rotation_reason option"
  ps_updated_ms :: i64

definition as_millis :: "Duration \<Rightarrow> i64" where
  "as_millis d = as_i64 (d div 10 ^ 6)"

definition path_config :: "PoolConfig \<Rightarrow> PathHealthConfig" where
  "path_config config =
     default_PathHealthConfig\<lparr>pc_latency_threshold_ms := Fin 400, pc_loss_threshold_pct := Fin 10,
       pc_enter_degraded := 2, pc_exit_degraded := 3, pc_cooldown := pg_health_cooldown config\<rparr>"

definition VpnPool_new :: "PoolConfig \<Rightarrow> VpnPool" where
  "VpnPool_new config =
     \<lparr>po_config = config, po_profiles = [], po_active = None, po_last_rotation_ms = 0,
      po_last_rotation_reason = None\<rparr>"

definition fresh_profile :: "PoolConfig \<Rightarrow> VpnProfile \<Rightarrow> PooledProfile" where
  "fresh_profile config p =
     \<lparr>pp_profile = p, pp_health = default_ProfileHealth,
      pp_tracker = PathHealth_new (path_config config), pp_last_failure_ms = 0,
      pp_last_selected_ms = 0\<rparr>"

definition atomic_replace :: "VpnProfile list \<Rightarrow> VpnPool \<Rightarrow> (usize, string) result \<times> VpnPool" where
  "atomic_replace profiles pool =
     (if profiles = [] then (Inl ''refusing to replace pool with an empty set'', pool)
      else
        (let pool = pool\<lparr>po_profiles := map (fresh_profile (po_config pool)) profiles\<rparr>;
             pool = (case po_active pool of
                       Some active \<Rightarrow>
                         if \<not> list_ex (\<lambda>p. pp_id p = active) (po_profiles pool)
                         then pool\<lparr>po_active := None\<rparr> else pool
                     | None \<Rightarrow> pool)
         in (Inr (length (po_profiles pool)), pool)))"

definition profile :: "string \<Rightarrow> VpnPool \<Rightarrow> PooledProfile option" where
  "profile i pool = List.find (\<lambda>p. pp_id p = i) (po_profiles pool)"

subsection \<open>Lifecycle, weight and score\<close>

definition in_cooldown :: "PoolConfig \<Rightarrow> PooledProfile \<Rightarrow> i64 \<Rightarrow> bool" where
  "in_cooldown config p now_ms \<longleftrightarrow>
     0 < pp_last_failure_ms p \<and>
     i64_sub now_ms (pp_last_failure_ms p) < as_millis (pg_failure_cooldown config)"

definition derive_state :: "PoolConfig \<Rightarrow> PooledProfile \<Rightarrow> i64 \<Rightarrow> ProfileState" where
  "derive_state config p now_ms =
     (case ph_state (pp_tracker p) of
        PS_Failing \<Rightarrow> PF_Failed
      | PS_Degraded \<Rightarrow> if in_cooldown config p now_ms then PF_Cooldown else PF_Degraded
      | PS_Unknown \<Rightarrow> if in_cooldown config p now_ms then PF_Cooldown else PF_Unknown
      | PS_Healthy \<Rightarrow>
          (let was_bad = he_state (pp_health p) \<in> {PF_Failed, PF_Cooldown, PF_Recovering}
           in if in_cooldown config p now_ms then PF_Cooldown
              else if was_bad then PF_Recovering else PF_Healthy))"

definition clamp_u32 :: "u32 \<Rightarrow> u32 \<Rightarrow> u32 \<Rightarrow> u32" where
  "clamp_u32 x lo hi = (if x < lo then lo else if hi < x then hi else x)"

definition ramp_weight :: "PoolConfig \<Rightarrow> PooledProfile \<Rightarrow> u32" where
  "ramp_weight config p =
     (let steps = pg_ramp_steps config
      in if steps = [] then 100
         else
           (let successes = min (he_consecutive_successes (pp_health p)) (of_nat (length steps))
            in clamp_u32 (steps ! (unat (max successes 1) - 1)) 1 100))"

definition weight :: "PoolConfig \<Rightarrow> PooledProfile \<Rightarrow> i64 \<Rightarrow> u32" where
  "weight config p now_ms =
     (case derive_state config p now_ms of
        PF_Unknown \<Rightarrow> 10
      | PF_Healthy \<Rightarrow> 100
      | PF_Degraded \<Rightarrow> 40
      | PF_Recovering \<Rightarrow> ramp_weight config p
      | PF_Cooldown \<Rightarrow> 0
      | PF_Failed \<Rightarrow> 0)"

definition latency_penalty :: "f64 option \<Rightarrow> f64" where
  "latency_penalty latency =
     (case latency of
        Some lat \<Rightarrow>
          if f64_lt (Fin 0) lat
          then f64_mul (f64_clamp (f64_div lat (Fin 1000)) (Fin 0) (Fin 1)) (Fin 15) else Fin 0
      | None \<Rightarrow> Fin 0)"

definition avail_bonus :: "f64 option \<Rightarrow> f64" where
  "avail_bonus availability =
     (case availability of
        Some a \<Rightarrow> f64_clamp (f64_mul a (Fin 10)) (Fin 0) (Fin 10)
      | None \<Rightarrow> Fin 5)"

definition score :: "PoolConfig \<Rightarrow> PooledProfile \<Rightarrow> i64 \<Rightarrow> f64" where
  "score config p now_ms =
     (let w = f64_of_word (weight config p now_ms)
      in if f64_eq w (Fin 0) then Fin 0
         else f64_max (f64_sub (f64_add w (avail_bonus (he_availability (pp_health p))))
                               (latency_penalty (he_latency_ms (pp_health p)))) (Fin 0))"

subsection \<open>Health samples\<close>

definition availability_of :: "ProfileHealth \<Rightarrow> f64 option" where
  "availability_of h =
     (if 0 < he_sample_count h
      then Some (f64_sub (Fin 1) (f64_div (f64_of_word (he_failure_count h))
                                         (f64_of_word (he_sample_count h))))
      else None)"

definition observe_profile ::
    "Instant \<Rightarrow> Instant \<Rightarrow> PathSample \<Rightarrow> i64 \<Rightarrow> PooledProfile \<Rightarrow> PooledProfile" where
  "observe_profile t t' sample now_ms p =
     (let tracker = snd (observe t t' sample (pp_tracker p));
          h = (pp_health p)\<lparr>he_sample_count := ph_samples tracker,
                 he_latency_ms := vw_latency_ms (view tracker),
                 he_loss_pct := vw_loss_pct (view tracker),
                 he_consecutive_failures := ph_consecutive_bad tracker\<rparr>;
          (h, last_failure) =
            (if sa_reachable sample
             then (h\<lparr>he_consecutive_successes := sat_add (he_consecutive_successes h) 1\<rparr>,
                   pp_last_failure_ms p)
             else (h\<lparr>he_consecutive_successes := 0, he_failure_count := he_failure_count h + 1\<rparr>,
                   now_ms));
          h = h\<lparr>he_availability := availability_of h\<rparr>
      in p\<lparr>pp_tracker := tracker, pp_health := h, pp_last_failure_ms := last_failure\<rparr>)"

definition restate_profile :: "PoolConfig \<Rightarrow> i64 \<Rightarrow> PooledProfile \<Rightarrow> PooledProfile" where
  "restate_profile config now_ms p =
     (let p = p\<lparr>pp_health := (pp_health p)\<lparr>he_state := derive_state config p now_ms,
                 he_reasons := vw_reasons (view (pp_tracker p)),
                 he_profile_id := vp_profile_id (pp_profile p),
                 he_label := vp_label (pp_profile p)\<rparr>\<rparr>
      in p\<lparr>pp_health := (pp_health p)\<lparr>he_weight := weight config p now_ms\<rparr>\<rparr>)"

definition observe_health ::
    "Instant \<Rightarrow> Instant \<Rightarrow> string \<Rightarrow> PathSample \<Rightarrow> i64 \<Rightarrow> VpnPool \<Rightarrow> ProfileState \<times> VpnPool" where
  "observe_health t t' profile_id sample now_ms pool =
     (case position (\<lambda>p. pp_id p = profile_id) (po_profiles pool) of
        None \<Rightarrow> (PF_Unknown, pool)
      | Some idx \<Rightarrow>
          (let p = observe_profile t t' sample now_ms (po_profiles pool ! idx);
               next = derive_state (po_config pool) p now_ms;
               p = restate_profile (po_config pool) now_ms p
           in (next, pool\<lparr>po_profiles := (po_profiles pool)[idx := p]\<rparr>)))"

subsection \<open>Selection and rotation\<close>

datatype ordering = Less | Equal | Greater

definition partial_cmp :: "f64 \<Rightarrow> f64 \<Rightarrow> ordering option" where
  "partial_cmp a b =
     (if f64_lt a b then Some Less else if f64_lt b a then Some Greater
      else if f64_eq a b then Some Equal else None)"

definition cmp_score_desc :: "f64 \<Rightarrow> f64 \<Rightarrow> ordering" where
  "cmp_score_desc a b = (case partial_cmp b a of Some c \<Rightarrow> c | None \<Rightarrow> Equal)"

definition str_cmp :: "string \<Rightarrow> string \<Rightarrow> ordering" where
  "str_cmp a b = (if a < b then Less else if a = b then Equal else Greater)"

definition then_with :: "ordering \<Rightarrow> ordering \<Rightarrow> ordering" where
  "then_with c c' = (if c = Equal then c' else c)"

type_synonym candidate = "string \<times> f64 \<times> selection_reason"

definition candidate_le :: "candidate \<Rightarrow> candidate \<Rightarrow> bool" where
  "candidate_le a b \<longleftrightarrow>
     then_with (cmp_score_desc (fst (snd a)) (fst (snd b))) (str_cmp (fst a) (fst b)) \<noteq> Greater"

definition explain_score :: "ProfileState \<Rightarrow> ProfileHealth \<Rightarrow> f64 \<Rightarrow> selection_reason" where
  "explain_score state health sc =
     Explained state (he_latency_ms health) (he_availability health) (he_weight health) sc"

definition exclusion_of :: "ProfileState \<Rightarrow> exclusion_reason" where
  "exclusion_of state =
     (case state of PF_Cooldown \<Rightarrow> InCooldown | PF_Failed \<Rightarrow> FailedProbes | _ \<Rightarrow> WeightZero)"

definition excluded_profiles :: "PoolConfig \<Rightarrow> i64 \<Rightarrow> PooledProfile list \<Rightarrow> Exclusion list" where
  "excluded_profiles config now_ms ps =
     map (\<lambda>p. \<lparr>xc_profile_id = pp_id p, xc_reason = exclusion_of (derive_state config p now_ms)\<rparr>)
       (filter (\<lambda>p. weight config p now_ms = 0) ps)"

definition candidates_of :: "PoolConfig \<Rightarrow> i64 \<Rightarrow> PooledProfile list \<Rightarrow> candidate list" where
  "candidates_of config now_ms ps =
     map (\<lambda>p. (pp_id p, score config p now_ms,
               explain_score (derive_state config p now_ms) (pp_health p) (score config p now_ms)))
       (filter (\<lambda>p. weight config p now_ms \<noteq> 0) ps)"

text \<open>Updating the first profile with a given identifier, as \<open>iter_mut().find\<close> does.\<close>

fun mark_selected :: "string \<Rightarrow> i64 \<Rightarrow> PooledProfile list \<Rightarrow> PooledProfile list" where
  "mark_selected i now_ms [] = []"
| "mark_selected i now_ms (p # ps) =
     (if pp_id p = i then p\<lparr>pp_last_selected_ms := now_ms\<rparr> # ps else p # mark_selected i now_ms ps)"

definition select_for :: "i64 \<Rightarrow> VpnPool \<Rightarrow> SelectionDecision \<times> VpnPool" where
  "select_for now_ms pool =
     (let excluded = excluded_profiles (po_config pool) now_ms (po_profiles pool);
          candidates = candidates_of (po_config pool) now_ms (po_profiles pool)
      in case sort_by candidate_le candidates of
           (i, sc, reason) # _ \<Rightarrow>
             (\<lparr>sd_profile_id = i, sd_score = sc, sd_reason = reason, sd_excluded = excluded,
               sd_candidates = length candidates\<rparr>,
              pool\<lparr>po_active := Some i, po_profiles := mark_selected i now_ms (po_profiles pool)\<rparr>)
         | [] \<Rightarrow>
             (\<lparr>sd_profile_id = [], sd_score = Fin 0, sd_reason = NoEligibleProfile,
               sd_excluded = excluded, sd_candidates = 0\<rparr>,
              pool\<lparr>po_active := None\<rparr>))"

definition ranked_le :: "string \<times> f64 \<Rightarrow> string \<times> f64 \<Rightarrow> bool" where
  "ranked_le a b \<longleftrightarrow> cmp_score_desc (snd a) (snd b) \<noteq> Greater"

definition ranked :: "i64 \<Rightarrow> VpnPool \<Rightarrow> (string \<times> f64) list" where
  "ranked now_ms pool =
     sort_by ranked_le
       (map (\<lambda>p. (pp_id p, score (po_config pool) p now_ms))
          (filter (\<lambda>p. 0 < weight (po_config pool) p now_ms) (po_profiles pool)))"

definition dwell_of :: "string \<Rightarrow> i64 \<Rightarrow> VpnPool \<Rightarrow> i64" where
  "dwell_of active_id now_ms pool =
     (case List.find (\<lambda>p. pp_id p = active_id) (po_profiles pool) of
        Some p \<Rightarrow> i64_sub now_ms (pp_last_selected_ms p)
      | None \<Rightarrow> 0)"

definition rotate_away ::
    "i64 \<Rightarrow> string \<Rightarrow> string \<times> f64 \<Rightarrow> VpnPool \<Rightarrow> string option \<times> VpnPool" where
  "rotate_away now_ms active_id best_other pool =
     (let active_score = (case List.find (\<lambda>x. fst x = active_id) (ranked now_ms pool) of
                            Some x \<Rightarrow> snd x | None \<Rightarrow> Fin 0)
      in if f64_lt (snd best_other) active_score \<and>
            f64_le (pg_better_threshold (po_config pool)) (f64_sub active_score (snd best_other))
         then (None, pool)
         else
           (Some (fst best_other),
            pool\<lparr>po_active := Some (fst best_other), po_last_rotation_ms := now_ms,
                 po_last_rotation_reason :=
                   Some (PlannedRotation (fst best_other) active_id (snd best_other) active_score)\<rparr>))"

definition maybe_planned_rotate :: "i64 \<Rightarrow> VpnPool \<Rightarrow> string option \<times> VpnPool" where
  "maybe_planned_rotate now_ms pool =
     (if pg_rotation_interval (po_config pool) div 10 ^ 6 = 0 then (None, pool)
      else case po_active pool of
             None \<Rightarrow> (None, pool)
           | Some active_id \<Rightarrow>
               if dwell_of active_id now_ms pool < as_millis (pg_min_dwell (po_config pool))
               then (None, pool)
               else case List.find (\<lambda>x. fst x \<noteq> active_id) (ranked now_ms pool) of
                      None \<Rightarrow> (None, pool)
                    | Some best_other \<Rightarrow> rotate_away now_ms active_id best_other pool)"

definition force_rotate_to ::
    "string \<Rightarrow> string \<Rightarrow> i64 \<Rightarrow> VpnPool \<Rightarrow> (string, string) result \<times> VpnPool" where
  "force_rotate_to profile_id reason now_ms pool =
     (if \<not> list_ex (\<lambda>p. pp_id p = profile_id) (po_profiles pool)
      then (Inl (''no profile '' @ [CHR 0x27] @ profile_id @ [CHR 0x27]), pool)
      else
        (Inr profile_id,
         pool\<lparr>po_active := Some profile_id, po_last_rotation_ms := now_ms,
              po_last_rotation_reason := Some (ForcedRotation reason (po_active pool)),
              po_profiles := mark_selected profile_id now_ms (po_profiles pool)\<rparr>))"

definition snapshot :: "i64 \<Rightarrow> VpnPool \<Rightarrow> PoolSnapshot" where
  "snapshot now_ms pool =
     \<lparr>ps_profiles = map (\<lambda>p. (pp_health p)\<lparr>he_profile_id := vp_profile_id (pp_profile p),
                                         he_label := vp_label (pp_profile p)\<rparr>) (po_profiles pool),
      ps_active = po_active pool, ps_excluded = [],
      ps_last_rotation_ms = po_last_rotation_ms pool,
      ps_last_rotation_reason = po_last_rotation_reason pool, ps_updated_ms = now_ms\<rparr>"

subsection \<open>Weights and scores\<close>

lemma clamp_u32_bounds: "lo \<le> hi \<Longrightarrow> lo \<le> clamp_u32 x lo hi \<and> clamp_u32 x lo hi \<le> hi"
  by (auto simp: clamp_u32_def)

lemma ramp_weight_bounds: "1 \<le> unat (ramp_weight config p)" "unat (ramp_weight config p) \<le> 100"
proof -
  have "1 \<le> ramp_weight config p \<and> ramp_weight config p \<le> 100"
    using clamp_u32_bounds [of 1 100] by (auto simp: ramp_weight_def Let_def word_le_nat_alt)
  then show "1 \<le> unat (ramp_weight config p)" "unat (ramp_weight config p) \<le> 100"
    by (simp_all add: word_le_nat_alt)
qed

text \<open>The index into the ramp is always in range.\<close>

lemma ramp_index:
  assumes "steps \<noteq> []"
  shows "unat (max (min c (of_nat (length steps))) (1 :: u32)) - 1 < length steps"
proof -
  have "unat (of_nat (length steps) :: u32) \<le> length steps"
    by (simp add: unat_of_nat)
  moreover have "unat (min c (of_nat (length steps) :: u32)) \<le> unat (of_nat (length steps) :: u32)"
    by (simp add: min_def word_le_nat_alt)
  moreover have "unat (max w (1 :: u32)) \<le> max (unat w) 1" for w
    by (simp add: max_def)
  ultimately have "unat (max (min c (of_nat (length steps))) (1 :: u32)) \<le> max (length steps) 1"
    by (meson max.mono order.trans order_refl)
  moreover have "0 < length steps" using assms by simp
  ultimately show ?thesis by (simp add: max_def split: if_splits)
qed

lemma weight_bound: "unat (weight config p now) \<le> 100"
  using ramp_weight_bounds(2) by (simp add: weight_def split: ProfileState.splits)

lemma weight_eq_0_iff: "weight config p now = 0 \<longleftrightarrow> derive_state config p now \<in> {PF_Cooldown, PF_Failed}"
proof -
  have "ramp_weight config p \<noteq> 0" using ramp_weight_bounds(1) [of config p] by auto
  then show ?thesis by (simp add: weight_def split: ProfileState.splits)
qed

lemma f64_of_small_word:
  assumes "unat w \<le> 100"
  obtains x where "f64_of_word w = Fin x" and "0 \<le> x" and "x \<le> 100"
proof -
  define n where "n = unat w"
  have "n \<le> 100" using assms by (simp add: n_def)
  then have "f64_round (of_nat n) = Fin (of_nat n)"
    using f64_round_of_int [of "int n"] by simp
  then show ?thesis
    using that [of "of_nat n"] \<open>n \<le> 100\<close> unfolding f64_of_word_def n_def [symmetric] by simp
qed

lemma latency_penalty_bounds: "\<exists>c. latency_penalty l = Fin c \<and> 0 \<le> c \<and> c \<le> 15"
proof (cases l)
  case None
  then show ?thesis by (simp add: latency_penalty_def)
next
  case (Some lat)
  show ?thesis
  proof (cases "f64_lt (Fin 0) lat")
    case True
    then have "lat = PInf \<or> (\<exists>x > 0. lat = Fin x)"
      by (cases lat) (auto simp: f64_lt_def)
    then have "f64_div lat (Fin 1000) \<noteq> NaN"
      by (auto simp: signed_inf_def)
    then obtain c where c: "f64_clamp (f64_div lat (Fin 1000)) (Fin 0) (Fin 1) = Fin c" "0 \<le> c" "c \<le> 1"
      using f64_clamp_Fin [of 0 1] by auto
    then obtain r where "f64_round (c * 15) = Fin r" "0 \<le> r" "r \<le> 15"
      using f64_round_between [of 0 "c * 15" 15] by auto
    with True Some c show ?thesis by (simp add: latency_penalty_def)
  next
    case False
    with Some show ?thesis by (simp add: latency_penalty_def)
  qed
qed

lemma avail_bonus_bounds: "avail_bonus a = NaN \<or> (\<exists>c. avail_bonus a = Fin c \<and> 0 \<le> c \<and> c \<le> 10)"
proof (cases a)
  case None
  then show ?thesis by (simp add: avail_bonus_def)
next
  case (Some x)
  show ?thesis
  proof (cases "f64_mul x (Fin 10) = NaN")
    case True
    with Some show ?thesis by (simp add: avail_bonus_def f64_clamp_def Let_def f64_lt_def)
  next
    case False
    then obtain c where "f64_clamp (f64_mul x (Fin 10)) (Fin 0) (Fin 10) = Fin c" "0 \<le> c" "c \<le> 10"
      using f64_clamp_Fin [of 0 10] by auto
    with Some show ?thesis by (simp add: avail_bonus_def)
  qed
qed

lemma score_bounds:
  obtains r where "score config p now = Fin r" and "0 \<le> r" and "r \<le> 110"
proof -
  obtain w where w: "f64_of_word (weight config p now) = Fin w" "0 \<le> w" "w \<le> 100"
    using f64_of_small_word [OF weight_bound] by blast
  let ?b = "avail_bonus (he_availability (pp_health p))"
  obtain c where c: "latency_penalty (he_latency_ms (pp_health p)) = Fin c" "0 \<le> c" "c \<le> 15"
    using latency_penalty_bounds by blast
  let ?x = "f64_sub (f64_add (Fin w) ?b) (Fin c)"
  have "?x = NaN \<or> (\<exists>x. ?x = Fin x \<and> x \<le> 110)"
  proof (cases "?b = NaN")
    case True
    then show ?thesis by (simp add: f64_sub_def)
  next
    case False
    then obtain b where b: "?b = Fin b" "0 \<le> b" "b \<le> 10" using avail_bonus_bounds by blast
    obtain s where s: "f64_round (w + b) = Fin s" "0 \<le> s" "s \<le> 110"
      using f64_round_between [of 0 "w + b" 110] w b by auto
    obtain x where "f64_round (s - c) = Fin x" "- 15 \<le> x" "x \<le> 110"
      using f64_round_between [of "- 15" "s - c" 110] s c by auto
    with b s show ?thesis by (simp add: f64_sub_def)
  qed
  then have "\<exists>r. f64_max ?x (Fin 0) = Fin r \<and> 0 \<le> r \<and> r \<le> 110"
    by (auto simp: f64_max_def)
  then obtain r where "f64_max ?x (Fin 0) = Fin r" "0 \<le> r" "r \<le> 110" by blast
  then show ?thesis
    using that [of 0] that [of r] w c by (cases "f64_eq (Fin w) (Fin 0)") (simp_all add: score_def)
qed

lemma score_not_NaN: "score config p now \<noteq> NaN"
  by (rule score_bounds [of config p now]) simp

subsection \<open>Ranking\<close>

text \<open>
  What sorting by a comparator promises: on the elements for which the comparator is a total preorder
  the first element of the sorted list is a best one, and so is the first that satisfies a predicate.
\<close>

locale ranking =
  fixes le :: "'a \<Rightarrow> 'a \<Rightarrow> bool" and ok :: "'a \<Rightarrow> bool"
  assumes total: "ok a \<Longrightarrow> ok b \<Longrightarrow> le a b \<or> le b a"
    and trans: "ok a \<Longrightarrow> ok b \<Longrightarrow> ok c \<Longrightarrow> le a b \<Longrightarrow> le b c \<Longrightarrow> le a c"
begin

lemma preorder: "total_preorder_on {x. ok x} le"
  using total trans unfolding total_preorder_on_def by blast

lemma sorted: "list_all ok xs \<Longrightarrow> sorted_wrt le (sort_by le xs)"
  using sorted_sort_by [OF preorder] by (auto simp: list_all_iff)

lemma find_best:
  assumes "list_all ok xs" and "List.find P (sort_by le xs) = Some y" and "x \<in> set xs" and "P x"
  shows "le y x"
proof -
  have "sorted_wrt le zs \<Longrightarrow> \<forall>z \<in> set zs. ok z \<Longrightarrow> List.find P zs = Some y \<Longrightarrow> x \<in> set zs \<Longrightarrow> le y x" for zs
    using assms(4) total by (induction zs) (auto split: if_splits)
  from this [of "sort_by le xs"] show ?thesis
    using assms sorted [OF assms(1)] by (auto simp: list_all_iff)
qed

lemma best:
  assumes "list_all ok xs" and "sort_by le xs = y # ys" and "x \<in> set xs"
  shows "le y x"
  using find_best [OF assms(1), of "\<lambda>_. True" y x] assms(2,3) by simp

end

lemma cmp_score_desc_iff:
  "a \<noteq> NaN \<Longrightarrow> b \<noteq> NaN \<Longrightarrow> cmp_score_desc a b = (if f64_lt b a then Less else if a = b then Equal else Greater)"
  using f64_le_total [of a b] f64_le_antisym [of a b]
  by (auto simp: cmp_score_desc_def partial_cmp_def f64_lt_def f64_eq_def f64_le_refl)

lemma candidate_le_iff:
  "fst (snd a) \<noteq> NaN \<Longrightarrow> fst (snd b) \<noteq> NaN \<Longrightarrow> candidate_le a b \<longleftrightarrow>
     f64_lt (fst (snd b)) (fst (snd a)) \<or> fst (snd a) = fst (snd b) \<and> fst a \<le> fst b"
  by (auto simp: candidate_le_def cmp_score_desc_iff then_with_def str_cmp_def f64_lt_def
      split: if_splits)

lemma ranked_le_iff:
  "snd a \<noteq> NaN \<Longrightarrow> snd b \<noteq> NaN \<Longrightarrow> ranked_le a b \<longleftrightarrow> f64_le (snd b) (snd a)"
  using f64_le_total [of "snd a" "snd b"] f64_le_antisym [of "snd a" "snd b"]
  by (auto simp: ranked_le_def cmp_score_desc_iff f64_lt_def f64_le_refl split: if_splits)

lemma f64_lt_trans: "f64_lt a b \<Longrightarrow> f64_lt b c \<Longrightarrow> f64_lt a c"
  unfolding f64_lt_def using f64_le_trans by blast

lemma f64_lt_linear: "a \<noteq> NaN \<Longrightarrow> b \<noteq> NaN \<Longrightarrow> f64_lt a b \<or> a = b \<or> f64_lt b a"
  unfolding f64_lt_def using f64_le_total f64_le_antisym by blast

interpretation candidates: ranking candidate_le "\<lambda>c. fst (snd c) \<noteq> NaN"
proof
  fix a b c :: candidate
  assume ok: "fst (snd a) \<noteq> NaN" "fst (snd b) \<noteq> NaN"
  show "candidate_le a b \<or> candidate_le b a"
    using f64_lt_linear [OF ok] ok by (auto simp: candidate_le_iff)
  assume "fst (snd c) \<noteq> NaN" "candidate_le a b" "candidate_le b c"
  then show "candidate_le a c"
    using ok f64_lt_trans by (auto simp: candidate_le_iff)
qed

interpretation ranked: ranking ranked_le "\<lambda>c. snd c \<noteq> NaN"
proof
  fix a b c :: "string \<times> f64"
  assume ok: "snd a \<noteq> NaN" "snd b \<noteq> NaN"
  show "ranked_le a b \<or> ranked_le b a" using f64_le_total [OF ok] ok by (auto simp: ranked_le_iff)
  assume "snd c \<noteq> NaN" "ranked_le a b" "ranked_le b c"
  then show "ranked_le a c" using ok f64_le_trans by (auto simp: ranked_le_iff)
qed

subsection \<open>Frame lemmas and reachable pools\<close>

lemma ids_mark_selected [pool_simps]: "map pp_id (mark_selected i t ps) = map pp_id ps"
  by (induction ps) auto

lemma observe_profile_frame [pool_simps]:
  "pp_profile (observe_profile t t' s now p) = pp_profile p"
  "he_state (pp_health (observe_profile t t' s now p)) = he_state (pp_health p)"
  "pp_tracker (observe_profile t t' s now p) = snd (observe t t' s (pp_tracker p))"
  "pp_last_failure_ms (observe_profile t t' s now p) =
     (if sa_reachable s then pp_last_failure_ms p else now)"
  by (simp_all add: observe_profile_def Let_def)

lemma restate_profile_frame [pool_simps]:
  "pp_profile (restate_profile config now p) = pp_profile p"
  "pp_tracker (restate_profile config now p) = pp_tracker p"
  "pp_last_failure_ms (restate_profile config now p) = pp_last_failure_ms p"
  "he_state (pp_health (restate_profile config now p)) = derive_state config p now"
  by (simp_all add: restate_profile_def Let_def)

lemma ids_observe_health [pool_simps]:
  "map pp_id (po_profiles (snd (observe_health t t' i s now pool))) = map pp_id (po_profiles pool)"
proof (cases "position (\<lambda>p. pp_id p = i) (po_profiles pool)")
  case (Some k)
  then have "k < length (po_profiles pool)" by (blast dest: position_SomeD)
  then have "map pp_id ((po_profiles pool)[k := p]) = map pp_id (po_profiles pool)"
    if "pp_id p = pp_id (po_profiles pool ! k)" for p
    using that by (simp add: map_update list_update_same_conv)
  then show ?thesis by (simp add: observe_health_def Some Let_def pool_simps)
qed (simp add: observe_health_def del: position_None)

inductive pool_reachable :: "PoolConfig \<Rightarrow> VpnPool \<Rightarrow> bool" for config where
  new: "pool_reachable config (VpnPool_new config)"
| replaced: "pool_reachable config pool \<Longrightarrow> pool_reachable config (snd (atomic_replace ps pool))"
| observed: "pool_reachable config pool \<Longrightarrow>
    pool_reachable config (snd (observe_health t t' i s now pool))"
| selected: "pool_reachable config pool \<Longrightarrow> pool_reachable config (snd (select_for now pool))"
| rotated: "pool_reachable config pool \<Longrightarrow>
    pool_reachable config (snd (maybe_planned_rotate now pool))"
| forced: "pool_reachable config pool \<Longrightarrow>
    pool_reachable config (snd (force_rotate_to i reason now pool))"

definition active_valid :: "VpnPool \<Rightarrow> bool" where
  "active_valid pool \<longleftrightarrow> (\<forall>a. po_active pool = Some a \<longrightarrow> a \<in> pp_id ` set (po_profiles pool))"

lemma active_valid_ids:
  "map pp_id (po_profiles pool') = map pp_id (po_profiles pool) \<Longrightarrow> po_active pool' = po_active pool \<Longrightarrow>
     active_valid pool' \<longleftrightarrow> active_valid pool"
  unfolding active_valid_def by (metis image_set)

lemma select_for_cases:
  obtains (none) "candidates_of (po_config pool) now (po_profiles pool) = []"
      "select_for now pool =
         (\<lparr>sd_profile_id = [], sd_score = Fin 0, sd_reason = NoEligibleProfile,
           sd_excluded = excluded_profiles (po_config pool) now (po_profiles pool), sd_candidates = 0\<rparr>,
          pool\<lparr>po_active := None\<rparr>)"
    | (some) i sc reason rest where
      "sort_by candidate_le (candidates_of (po_config pool) now (po_profiles pool)) = (i, sc, reason) # rest"
      "select_for now pool =
         (\<lparr>sd_profile_id = i, sd_score = sc, sd_reason = reason,
           sd_excluded = excluded_profiles (po_config pool) now (po_profiles pool),
           sd_candidates = length (candidates_of (po_config pool) now (po_profiles pool))\<rparr>,
          pool\<lparr>po_active := Some i, po_profiles := mark_selected i now (po_profiles pool)\<rparr>)"
proof (cases "sort_by candidate_le (candidates_of (po_config pool) now (po_profiles pool))")
  case Nil
  then show ?thesis using none by (simp add: select_for_def)
next
  case (Cons x rest)
  then show ?thesis using some by (cases x) (simp add: select_for_def Let_def)
qed

lemma candidates_ok: "list_all (\<lambda>c. fst (snd c) \<noteq> NaN) (candidates_of config now ps)"
  by (auto simp: list_all_iff candidates_of_def score_not_NaN)

lemma candidate_profile:
  "(i, sc, reason) \<in> set (candidates_of config now ps) \<Longrightarrow>
     \<exists>p \<in> set ps. pp_id p = i \<and> weight config p now \<noteq> 0 \<and> score config p now = sc"
  by (auto simp: candidates_of_def)

lemma select_for_active_valid: "active_valid (snd (select_for now pool))"
proof (cases rule: select_for_cases [of pool now])
  case none
  then show ?thesis by (simp add: active_valid_def)
next
  case (some i sc reason rest)
  have "(i, sc, reason) \<in> set (candidates_of (po_config pool) now (po_profiles pool))"
    using some(1) by (metis list.set_intros(1) set_sort_by)
  then have "i \<in> set (map pp_id (po_profiles pool))" using candidate_profile by fastforce
  then have "i \<in> set (map pp_id (mark_selected i now (po_profiles pool)))" by (simp only: pool_simps)
  with some(2) show ?thesis by (auto simp: active_valid_def)
qed

lemma select_active:
  assumes "po_active (snd (select_for now pool)) = Some i"
  shows "\<exists>p \<in> set (po_profiles pool). pp_id p = i \<and>
    derive_state (po_config pool) p now \<notin> {PF_Cooldown, PF_Failed}"
proof (cases rule: select_for_cases [of pool now])
  case none
  with assms show ?thesis by simp
next
  case (some j sc reason rest)
  have "(j, sc, reason) \<in> set (candidates_of (po_config pool) now (po_profiles pool))"
    using some(1) by (metis list.set_intros(1) set_sort_by)
  with some assms candidate_profile show ?thesis by (fastforce simp: weight_eq_0_iff)
qed

lemma ranked_profile: "x \<in> set (ranked now pool) \<Longrightarrow>
    \<exists>p \<in> set (po_profiles pool). pp_id p = fst x \<and> weight (po_config pool) p now \<noteq> 0 \<and>
      score (po_config pool) p now = snd x"
  by (auto simp: ranked_def)

lemma rotate_cases:
  assumes "maybe_planned_rotate now pool = (r, pool')"
  shows "(r = None \<and> pool' = pool) \<or>
    (\<exists>a x. po_active pool = Some a \<and> x \<in> set (ranked now pool) \<and> fst x \<noteq> a \<and> r = Some (fst x) \<and>
       po_active pool' = Some (fst x) \<and> po_profiles pool' = po_profiles pool \<and>
       po_config pool' = po_config pool)"
  using assms
  by (auto simp: maybe_planned_rotate_def rotate_away_def Let_def dest!: find_SomeD
      split: if_splits option.splits)

lemma reachable_active_valid: "pool_reachable config pool \<Longrightarrow> active_valid pool"
proof (induction rule: pool_reachable.induct)
  case new
  then show ?case by (simp add: active_valid_def VpnPool_new_def)
next
  case (replaced pool ps)
  then show ?case
    by (auto simp: atomic_replace_def Let_def active_valid_def list_ex_iff split: option.splits)
next
  case (observed pool t t' i s now)
  moreover have "po_active (snd (observe_health t t' i s now pool)) = po_active pool"
    by (simp add: observe_health_def Let_def split: option.splits)
  ultimately show ?case using active_valid_ids [OF ids_observe_health] by blast
next
  case (selected pool now)
  then show ?case by (simp add: select_for_active_valid)
next
  case (rotated pool now)
  obtain r pool' where r: "maybe_planned_rotate now pool = (r, pool')" by fastforce
  with rotate_cases [OF r] rotated ranked_profile show ?case
    by (fastforce simp: active_valid_def)
next
  case (forced pool i reason now)
  have "list_ex (\<lambda>p. pp_id p = i) (po_profiles pool) \<Longrightarrow>
      i \<in> set (map pp_id (mark_selected i now (po_profiles pool)))"
    unfolding ids_mark_selected by (auto simp: list_ex_iff)
  with forced show ?case by (auto simp: force_rotate_to_def active_valid_def)
qed

subsection \<open>Cooldown and recovery\<close>

lemma failed_in_cooldown:
  assumes "pp_last_failure_ms p = t" and "0 < t" and "t \<le> now"
    and "now < t + as_millis (pg_failure_cooldown config)" and "in_i64 now"
  shows "derive_state config p now \<in> {PF_Cooldown, PF_Failed}"
proof -
  have "in_i64 (now - t)" using assms(2,3,5) by (auto simp: in_i64_def)
  then have "in_cooldown config p now" using assms by (simp add: in_cooldown_def i64_sub_id)
  then show ?thesis by (simp add: derive_state_def split: PathState.splits)
qed

lemma observe_health_profile:
  assumes "position (\<lambda>p. pp_id p = i) (po_profiles pool) = Some k"
  shows "snd (observe_health t t' i s now pool) = pool\<lparr>po_profiles := (po_profiles pool)
      [k := restate_profile (po_config pool) now (observe_profile t t' s now (po_profiles pool ! k))]\<rparr>"
  by (simp add: observe_health_def assms Let_def)

lemma distinct_position:
  assumes "distinct (map pp_id ps)" and "position (\<lambda>p. pp_id p = i) ps = Some k"
    and "j < length ps" and "pp_id (ps ! j) = i"
  shows "j = k"
  using assms position_SomeD [OF assms(2)] by (auto simp: distinct_conv_nth)

text \<open>One sample of a profile on its own, and a run of good samples.\<close>

definition sample_profile ::
    "PoolConfig \<Rightarrow> PathSample \<Rightarrow> Instant \<times> Instant \<times> i64 \<Rightarrow> PooledProfile \<Rightarrow> PooledProfile" where
  "sample_profile config s x p =
     (case x of (t, t', now) \<Rightarrow> restate_profile config now (observe_profile t t' s now p))"

lemma good_sample_keeps_healthy:
  assumes "ph_state h = PS_Healthy" and "\<not> degraded_sample (ph_config h) s"
    and "0 < pc_enter_degraded (ph_config h)"
  shows "ph_state (snd (observe t t' s h)) = PS_Healthy"
proof -
  have "sa_reachable s" using assms(2) by (simp add: degraded_sample_def)
  then show ?thesis
    using observe_transition_rules [of h t s t'] assms
    by (auto simp: transition_rules_def health_simps not_le [symmetric] split: if_splits)
qed

lemma recovering_step:
  assumes "he_state (pp_health p) = PF_Recovering" and "ph_state (pp_tracker p) = PS_Healthy"
    and "\<not> degraded_sample (ph_config (pp_tracker p)) s"
    and "0 < pc_enter_degraded (ph_config (pp_tracker p))"
    and "\<not> in_cooldown config p now"
  shows "he_state (pp_health (sample_profile config s (t, t', now) p)) = PF_Recovering \<and>
    ph_state (pp_tracker (sample_profile config s (t, t', now) p)) = PS_Healthy \<and>
    ph_config (pp_tracker (sample_profile config s (t, t', now) p)) = ph_config (pp_tracker p) \<and>
    pp_last_failure_ms (sample_profile config s (t, t', now) p) = pp_last_failure_ms p"
proof -
  have s: "sa_reachable s" using assms(3) by (simp add: degraded_sample_def)
  have "in_cooldown config (observe_profile t t' s now p) now = in_cooldown config p now"
    using s by (simp add: in_cooldown_def pool_simps)
  then show ?thesis
    using assms s good_sample_keeps_healthy [OF assms(2-4)]
    by (simp add: sample_profile_def pool_simps derive_state_def health_simps)
qed

subsection \<open>Properties of the pool\<close>

text \<open>
  C10. Selection picks a best usable profile: when some profile is neither failed nor in cooldown, the
  decision and the active profile are one of these whose score no other exceeds, the smallest
  identifier winning a tie; every profile that is failed or in cooldown is listed as excluded, in
  order, and no other. When there is no such profile, the active profile is cleared.
\<close>

theorem select_for_spec:
  assumes "select_for now pool = (decision, pool')"
  defines "usable_profile \<equiv> (\<lambda>p. p \<in> set (po_profiles pool) \<and>
      derive_state (po_config pool) p now \<notin> {PF_Cooldown, PF_Failed})"
  shows "(if \<exists>p. usable_profile p
      then \<exists>p. usable_profile p \<and> sd_profile_id decision = pp_id p \<and>
        sd_score decision = score (po_config pool) p now \<and> po_active pool' = Some (pp_id p) \<and>
        (\<forall>q. usable_profile q \<longrightarrow>
          f64_lt (score (po_config pool) q now) (score (po_config pool) p now) \<or>
          score (po_config pool) q now = score (po_config pool) p now \<and> pp_id p \<le> pp_id q)
      else po_active pool' = None \<and> sd_reason decision = NoEligibleProfile) \<and>
    map xc_profile_id (sd_excluded decision) =
      map pp_id (filter (\<lambda>p. derive_state (po_config pool) p now \<in> {PF_Cooldown, PF_Failed})
        (po_profiles pool))"
proof -
  let ?cs = "candidates_of (po_config pool) now (po_profiles pool)"
  have usable_iff: "usable_profile p \<longleftrightarrow> p \<in> set (po_profiles pool) \<and> weight (po_config pool) p now \<noteq> 0" for p
    by (auto simp: usable_profile_def weight_eq_0_iff)
  have excl: "map xc_profile_id (excluded_profiles (po_config pool) now (po_profiles pool)) =
      map pp_id (filter (\<lambda>p. derive_state (po_config pool) p now \<in> {PF_Cooldown, PF_Failed})
        (po_profiles pool))"
    by (simp add: excluded_profiles_def weight_eq_0_iff comp_def)
  show ?thesis
  proof (cases rule: select_for_cases [of pool now])
    case none
    then have "\<not> usable_profile p" for p
      by (auto simp: usable_iff candidates_of_def filter_empty_conv)
    with none assms(1) excl show ?thesis by auto
  next
    case (some i sc reason rest)
    have "(i, sc, reason) \<in> set ?cs" using some(1) by (metis list.set_intros(1) set_sort_by)
    then obtain p where p: "usable_profile p" "pp_id p = i" "score (po_config pool) p now = sc"
      using candidate_profile usable_iff by blast
    have "f64_lt (score (po_config pool) q now) sc \<or> score (po_config pool) q now = sc \<and> i \<le> pp_id q"
      if "usable_profile q" for q
    proof -
      have "(pp_id q, score (po_config pool) q now, explain_score (derive_state (po_config pool) q now)
          (pp_health q) (score (po_config pool) q now)) \<in> set ?cs"
        using that by (auto simp: usable_iff candidates_of_def)
      from candidates.best [OF candidates_ok some(1) this] p(3) show ?thesis
        using score_not_NaN by (auto simp: candidate_le_iff)
    qed
    with p some(2) assms(1) excl show ?thesis by auto
  qed
qed

text \<open>
  Every score lies between 0 and 110 and is a number, whatever the health data, NaN and infinite
  latencies and availabilities included; so ranking by score is a total order.
\<close>

theorem score_between_0_and_110:
  "\<exists>r. score config p now = Fin r \<and> 0 \<le> r \<and> r \<le> 110"
  using score_bounds [of config p now] by metis

text \<open>
  In every pool reached by replacing the profiles, observing health, selecting and rotating in
  any order, the active profile is one of the pool's profiles.
\<close>

theorem active_profile_exists:
  assumes "pool_reachable config pool" and "po_active pool = Some a"
  shows "\<exists>p \<in> set (po_profiles pool). pp_id p = a"
  using reachable_active_valid [OF assms(1)] assms(2) by (auto simp: active_valid_def)

definition example_profile :: "string \<Rightarrow> VpnProfile" where
  "example_profile i =
     \<lparr>vp_profile_id = i, vp_protocol = Vless, vp_server = ''10.0.0.1'', vp_port = 443,
      vp_transport = Tcp, vp_security = SecNone, vp_sni = None, vp_reality_pbk = None,
      vp_reality_sid = None, vp_flow = None, vp_uuid = [], vp_fingerprint = None,
      vp_pinned_peer_cert_sha256 = None, vp_label = i, vp_source = [], vp_source_ts_ms = 0\<rparr>"

definition example_pool :: VpnPool where
  "example_pool = snd (atomic_replace [example_profile ''a'', example_profile ''b'']
     (VpnPool_new (default_PoolConfig\<lparr>pg_rotation_interval := secs 60\<rparr>)))"

lemma example_pool_eq:
  "example_pool = (VpnPool_new (default_PoolConfig\<lparr>pg_rotation_interval := secs 60\<rparr>))
     \<lparr>po_profiles := [fresh_profile (default_PoolConfig\<lparr>pg_rotation_interval := secs 60\<rparr>) (example_profile ''a''),
                     fresh_profile (default_PoolConfig\<lparr>pg_rotation_interval := secs 60\<rparr>) (example_profile ''b'')]\<rparr>"
  by (simp add: example_pool_def atomic_replace_def VpnPool_new_def)

lemma fresh_profile_state [pool_simps]: "derive_state config (fresh_profile c p) now = PF_Unknown"
  by (simp add: derive_state_def fresh_profile_def PathHealth_new_def in_cooldown_def)

lemma fresh_profile_weight [pool_simps]: "weight config (fresh_profile c p) now = 10"
  by (simp add: weight_def pool_simps)

lemma fresh_profile_id [pool_simps]: "pp_id (fresh_profile c p) = vp_profile_id p"
  by (simp add: fresh_profile_def)

lemma fresh_profile_score [pool_simps]: "score config (fresh_profile c p) now = Fin 15"
proof -
  have "f64_of_word (10 :: u32) = Fin 10" by (simp add: f64_of_word_def)
  then show ?thesis
    by (simp add: score_def pool_simps f64_eq_def f64_max_def f64_sub_def)
      (simp add: fresh_profile_def default_ProfileHealth_def avail_bonus_def latency_penalty_def)
qed

lemma example_profile_id [pool_simps]: "vp_profile_id (example_profile i) = i"
  by (simp add: example_profile_def)

lemma last_selected_frame [pool_simps]:
  "derive_state config (p\<lparr>pp_last_selected_ms := t\<rparr>) now = derive_state config p now"
  "weight config (p\<lparr>pp_last_selected_ms := t\<rparr>) now = weight config p now"
  "score config (p\<lparr>pp_last_selected_ms := t\<rparr>) now = score config p now"
proof -
  show d: "derive_state config (p\<lparr>pp_last_selected_ms := t\<rparr>) now = derive_state config p now"
    by (cases "ph_state (pp_tracker p)") (simp_all add: derive_state_def in_cooldown_def)
  show w: "weight config (p\<lparr>pp_last_selected_ms := t\<rparr>) now = weight config p now"
    by (cases "derive_state config p now") (simp_all add: weight_def d ramp_weight_def Let_def)
  show "score config (p\<lparr>pp_last_selected_ms := t\<rparr>) now = score config p now"
    by (simp add: score_def w Let_def)
qed

theorem select_for_spec_witness:
  "\<exists>decision pool'. select_for 5 example_pool = (decision, pool') \<and> po_active pool' = Some ''a''"
proof -
  let ?c = "default_PoolConfig\<lparr>pg_rotation_interval := secs 60\<rparr>"
  define a where "a = fresh_profile ?c (example_profile ''a'')"
  define b where "b = fresh_profile ?c (example_profile ''b'')"
  have set: "set (po_profiles example_pool) = {a, b}"
    by (simp add: example_pool_eq a_def b_def)
  have state: "derive_state c a t = PF_Unknown" "derive_state c b t = PF_Unknown" for c t
    by (simp_all add: a_def b_def pool_simps)
  have score: "score c a t = Fin 15" "score c b t = Fin 15" for c t
    by (simp_all add: a_def b_def pool_simps)
  have ids: "pp_id a = ''a''" "pp_id b = ''b''"
    by (simp_all add: a_def b_def pool_simps example_profile_def)
  have "\<not> ''b'' \<le> ''a''" by code_simp
  moreover obtain decision pool' where run: "select_for 5 example_pool = (decision, pool')" by fastforce
  moreover have "\<exists>p. p \<in> set (po_profiles example_pool) \<and>
      derive_state (po_config example_pool) p 5 \<notin> {PF_Cooldown, PF_Failed}"
    using set state by auto
  moreover note select_for_spec [OF run, THEN conjunct1, unfolded if_P [OF this]]
  ultimately show ?thesis by (auto simp: set state score ids)
qed

theorem active_profile_exists_witness:
  "\<exists>p \<in> set (po_profiles (snd (select_for 5 example_pool))). pp_id p = ''a''"
proof -
  let ?c = "default_PoolConfig\<lparr>pg_rotation_interval := secs 60\<rparr>"
  have "pool_reachable ?c (snd (select_for 5 example_pool))"
    unfolding example_pool_def by (intro pool_reachable.intros)
  moreover have "''a'' \<le> ''b''" by code_simp
  then have "po_active (snd (select_for 5 example_pool)) = Some ''a''"
    by (simp add: example_pool_eq VpnPool_new_def select_for_def Let_def candidates_of_def pool_simps
        candidate_le_iff)
  ultimately show ?thesis by (rule active_profile_exists)
qed



text \<open>
  A profile that has failed once never becomes \<open>Healthy\<close> again by being healthy: while it is
  \<open>Recovering\<close>, any number of good samples outside the cooldown leaves it \<open>Recovering\<close>.
\<close>

theorem recovering_is_permanent:
  assumes "he_state (pp_health p) = PF_Recovering" and "ph_state (pp_tracker p) = PS_Healthy"
    and "\<not> degraded_sample (ph_config (pp_tracker p)) s"
    and "0 < pc_enter_degraded (ph_config (pp_tracker p))"
    and "\<forall>(t, t', now) \<in> set xs. \<not> in_cooldown config p now"
  shows "he_state (pp_health (fold (sample_profile config s) xs p)) = PF_Recovering"
  using assms
proof (induction xs arbitrary: p)
  case Nil
  then show ?case by simp
next
  case (Cons x xs)
  obtain t t' now where x: "x = (t, t', now)" by (cases x)
  let ?p = "sample_profile config s x p"
  have step: "he_state (pp_health ?p) = PF_Recovering \<and> ph_state (pp_tracker ?p) = PS_Healthy \<and>
      ph_config (pp_tracker ?p) = ph_config (pp_tracker p) \<and>
      pp_last_failure_ms ?p = pp_last_failure_ms p"
    using recovering_step [OF Cons.prems(1-4), of config now t t'] Cons.prems(5) by (simp add: x)
  then have "in_cooldown config ?p now = in_cooldown config p now" for now
    by (simp add: in_cooldown_def)
  with step Cons.prems Cons.IH [of ?p] show ?case by auto
qed

definition recovering_profile :: PooledProfile where
  "recovering_profile =
     \<lparr>pp_profile = example_profile ''a'',
      pp_health = default_ProfileHealth\<lparr>he_state := PF_Recovering\<rparr>,
      pp_tracker = (PathHealth_new (path_config default_PoolConfig))\<lparr>ph_state := PS_Healthy\<rparr>,
      pp_last_failure_ms = 1000, pp_last_selected_ms = 0\<rparr>"

theorem recovering_is_permanent_witness:
  "he_state (pp_health (fold (sample_profile default_PoolConfig healthy_sample)
     [(0, 0, 70000), (1, 1, 80000), (2, 2, 90000)] recovering_profile)) = PF_Recovering"
proof -
  have "\<not> in_cooldown default_PoolConfig recovering_profile now" if "now \<in> {70000, 80000, 90000}" for now
    using that by (auto simp: in_cooldown_def recovering_profile_def default_PoolConfig_def as_millis_def
        secs_def as_i64_def i64_sub_def wrap_i64_def)
  then show ?thesis
    using recovering_is_permanent [of recovering_profile healthy_sample
        "[(0, 0, 70000), (1, 1, 80000), (2, 2, 90000)]" default_PoolConfig]
    by (simp add: recovering_profile_def PathHealth_new_def path_config_def degraded_sample_def
        healthy_sample_def exceeds_def)
qed

lemma ranked_ok: "list_all (\<lambda>c. snd c \<noteq> NaN) (map (\<lambda>p. (pp_id p, score config p now)) ps)"
  by (auto simp: list_all_iff score_not_NaN)

text \<open>
  A planned rotation replaces an active profile that has dwelt long enough by a best usable other
  profile. It records the new active profile but not the time it was selected: the profiles, and with
  them the dwell of the new active profile, are left as they were.
\<close>

theorem planned_rotation_spec:
  assumes "maybe_planned_rotate now pool = (Some next_id, pool')"
  shows "\<exists>a p. po_active pool = Some a \<and> next_id \<noteq> a \<and>
    as_millis (pg_min_dwell (po_config pool)) \<le> dwell_of a now pool \<and>
    p \<in> set (po_profiles pool) \<and> pp_id p = next_id \<and>
    derive_state (po_config pool) p now \<notin> {PF_Cooldown, PF_Failed} \<and>
    (\<forall>q \<in> set (po_profiles pool). pp_id q \<noteq> a \<and>
        derive_state (po_config pool) q now \<notin> {PF_Cooldown, PF_Failed} \<longrightarrow>
      f64_le (score (po_config pool) q now) (score (po_config pool) p now)) \<and>
    po_active pool' = Some next_id \<and> po_profiles pool' = po_profiles pool"
proof -
  obtain a x where a: "po_active pool = Some a"
    and dwell: "as_millis (pg_min_dwell (po_config pool)) \<le> dwell_of a now pool"
    and x: "List.find (\<lambda>x. fst x \<noteq> a) (ranked now pool) = Some x"
    and rot: "rotate_away now a x pool = (Some next_id, pool')"
    using assms by (auto simp: maybe_planned_rotate_def split: if_splits option.splits)
  from rot have pool': "fst x = next_id" "po_active pool' = Some next_id" "po_profiles pool' = po_profiles pool"
    by (auto simp: rotate_away_def Let_def split: if_splits)
  obtain p where p: "p \<in> set (po_profiles pool)" "pp_id p = next_id"
      "weight (po_config pool) p now \<noteq> 0" "score (po_config pool) p now = snd x"
    using ranked_profile [of x now pool] find_SomeD [OF x] pool'(1) by auto
  have "f64_le (score (po_config pool) q now) (score (po_config pool) p now)"
    if "q \<in> set (po_profiles pool)" "pp_id q \<noteq> a" "weight (po_config pool) q now \<noteq> 0" for q
  proof -
    have "0 < weight (po_config pool) q now" using that(3) by (simp add: word_neq_0_conv)
    then have "ranked_le x (pp_id q, score (po_config pool) q now)"
      using ranked.find_best [OF ranked_ok x [unfolded ranked_def]] that by auto
    then show ?thesis
      using p(4) score_not_NaN [of "po_config pool" p now] by (auto simp: ranked_le_iff score_not_NaN)
  qed
  with a dwell p pool' find_SomeD [OF x] show ?thesis
    by (auto simp: weight_eq_0_iff intro!: exI [of _ p])
qed

theorem planned_rotation_spec_witness:
  "\<exists>a p. po_active (example_pool\<lparr>po_active := Some ''a''\<rparr>) = Some a \<and> a = ''a'' \<and>
     p \<in> set (po_profiles example_pool) \<and> pp_id p = ''b'' \<and>
     po_active (snd (maybe_planned_rotate 200000 (example_pool\<lparr>po_active := Some ''a''\<rparr>))) = Some ''b''"
proof -
  let ?pool = "example_pool\<lparr>po_active := Some ''a''\<rparr>"
  have "ranked 200000 ?pool = [(''a'', Fin 15), (''b'', Fin 15)]"
    by (simp add: example_pool_eq ranked_def pool_simps ranked_le_iff VpnPool_new_def)
  moreover have "dwell_of ''a'' 200000 ?pool = 200000"
    by (simp add: example_pool_eq dwell_of_def pool_simps VpnPool_new_def i64_sub_def wrap_i64_def)
      (simp add: fresh_profile_def)
  moreover have "as_millis (pg_min_dwell (po_config ?pool)) = 120000"
    "pg_rotation_interval (po_config ?pool) = 60000000000"
    by (simp_all add: example_pool_eq VpnPool_new_def default_PoolConfig_def secs_def as_millis_def
        as_i64_def wrap_i64_def)
  ultimately obtain pool' where run: "maybe_planned_rotate 200000 ?pool = (Some ''b'', pool')"
    by (simp add: maybe_planned_rotate_def rotate_away_def Let_def)
  from planned_rotation_spec [OF run] run show ?thesis by auto
qed

lemma example_selected:
  "po_active (snd (select_for 1 example_pool)) = Some ''a''"
  "po_config (snd (select_for 1 example_pool)) = po_config example_pool"
  "po_profiles (snd (select_for 1 example_pool)) =
     [fresh_profile (po_config example_pool) (example_profile ''a'')\<lparr>pp_last_selected_ms := 1\<rparr>,
      fresh_profile (po_config example_pool) (example_profile ''b'')]"
proof -
  have "''a'' \<le> ''b''" by code_simp
  then have "sort_by candidate_le (candidates_of (po_config example_pool) 1 (po_profiles example_pool)) =
      candidates_of (po_config example_pool) 1 (po_profiles example_pool)"
    by (simp add: example_pool_eq VpnPool_new_def candidates_of_def pool_simps candidate_le_iff)
  then show "po_active (snd (select_for 1 example_pool)) = Some ''a''"
    "po_config (snd (select_for 1 example_pool)) = po_config example_pool"
    "po_profiles (snd (select_for 1 example_pool)) =
       [fresh_profile (po_config example_pool) (example_profile ''a'')\<lparr>pp_last_selected_ms := 1\<rparr>,
        fresh_profile (po_config example_pool) (example_profile ''b'')]"
    by (simp_all add: select_for_def Let_def)
      (simp_all add: example_pool_eq VpnPool_new_def candidates_of_def pool_simps)
qed

text \<open>
  So the dwell gate does not protect a rotation: with two equal profiles the pool rotates from
  the first to the second and, asked again at the same instant, back to the first.
\<close>

theorem planned_rotation_can_flap:
  "\<exists>pool1 pool2 pool3. pool1 = snd (select_for 1 example_pool) \<and> po_active pool1 = Some ''a'' \<and>
     maybe_planned_rotate 200000 pool1 = (Some ''b'', pool2) \<and>
     maybe_planned_rotate 200000 pool2 = (Some ''a'', pool3)"
proof -
  define pool1 where "pool1 = snd (select_for 1 example_pool)"
  have act: "po_active pool1 = Some ''a''" unfolding pool1_def by (rule example_selected)
  have rank: "ranked 200000 (pool1\<lparr>po_active := x, po_last_rotation_ms := y, po_last_rotation_reason := z\<rparr>) =
      [(''a'', Fin 15), (''b'', Fin 15)]" for x y z
    unfolding pool1_def by (simp add: example_selected ranked_def pool_simps ranked_le_iff)
  have cfg: "po_config pool1 = po_config example_pool" unfolding pool1_def by (simp add: example_selected)
  have dwell: "dwell_of i 200000 (pool1\<lparr>po_active := x, po_last_rotation_ms := y, po_last_rotation_reason := z\<rparr>)
      \<in> {199999, 200000}" if "i \<in> {''a'', ''b''}" for i x y z
    using that unfolding pool1_def
    by (auto simp: example_selected dwell_of_def pool_simps fresh_profile_def i64_sub_def wrap_i64_def)
  have gate: "as_millis (pg_min_dwell (po_config example_pool)) = 120000"
    "pg_rotation_interval (po_config example_pool) = 60000000000"
    by (simp_all add: example_pool_eq VpnPool_new_def default_PoolConfig_def secs_def as_millis_def
        as_i64_def wrap_i64_def)
  have step: "\<exists>x' y' z'. maybe_planned_rotate 200000
      (pool1\<lparr>po_active := Some i, po_last_rotation_ms := y, po_last_rotation_reason := z\<rparr>) =
      (Some (if i = ''a'' then ''b'' else ''a''),
       pool1\<lparr>po_active := Some x', po_last_rotation_ms := y', po_last_rotation_reason := z'\<rparr>) \<and>
      x' = (if i = ''a'' then ''b'' else ''a'')" if "i \<in> {''a'', ''b''}" for i y z
    using that dwell [OF that, where x = "Some i" and y = y and z = z]
    by (auto simp: maybe_planned_rotate_def rotate_away_def rank cfg gate Let_def)
  have self: "pool1\<lparr>po_active := Some ''a''\<rparr> = pool1" using act by (cases pool1) simp
  obtain y z where first: "maybe_planned_rotate 200000 pool1 =
      (Some ''b'', pool1\<lparr>po_active := Some ''b'', po_last_rotation_ms := y, po_last_rotation_reason := z\<rparr>)"
    using step [of "''a''" "po_last_rotation_reason pool1" "po_last_rotation_ms pool1"] by (auto simp: self)
  obtain pool3 where "maybe_planned_rotate 200000
      (pool1\<lparr>po_active := Some ''b'', po_last_rotation_ms := y, po_last_rotation_reason := z\<rparr>) =
      (Some ''a'', pool3)"
    using step [of "''b''" z y] by auto
  with first act show ?thesis unfolding pool1_def [symmetric] by blast
qed

end
