(* ===== verification/Bytes.thy ===== *)
theory Bytes
  imports Prelude "HOL-Library.Monad_Syntax"
begin

text \<open>
  Byte buffers. Indexing or slicing a Rust vector out of range panics, so the operations here return
  \<open>None\<close> for a panic and code that uses them is written in the option monad; a function of the sources
  that itself returns an \<open>Option\<close> has two levels. The theory also holds the conversions between
  integers and big-endian bytes, and UTF-8 validation as \<open>std::str::from_utf8\<close> does it.
\<close>

named_theorems byte_simps \<open>facts on indexing, slicing and writing byte buffers\<close>

subsection \<open>Indexing and slicing\<close>

definition index :: "'a list \<Rightarrow> usize \<Rightarrow> 'a option" where
  "index xs i = (if i < length xs then Some (xs ! i) else None)"

definition slice :: "'a list \<Rightarrow> usize \<Rightarrow> usize \<Rightarrow> 'a list option" where
  "slice xs a b = (if a \<le> b \<and> b \<le> length xs then Some (take (b - a) (drop a xs)) else None)"

definition slice_from :: "'a list \<Rightarrow> usize \<Rightarrow> 'a list option" where
  "slice_from xs a = (if a \<le> length xs then Some (drop a xs) else None)"

definition store :: "'a list \<Rightarrow> usize \<Rightarrow> 'a \<Rightarrow> 'a list option" where
  "store xs i v = (if i < length xs then Some (xs[i := v]) else None)"

text \<open>\<open>xs[a..a + ys.len()].copy_from_slice(&ys)\<close>.\<close>

definition overwrite :: "'a list \<Rightarrow> usize \<Rightarrow> 'a list \<Rightarrow> 'a list" where
  "overwrite xs a ys = take a xs @ ys @ drop (a + length ys) xs"

definition copy_at :: "'a list \<Rightarrow> usize \<Rightarrow> 'a list \<Rightarrow> 'a list option" where
  "copy_at xs a ys = (if a + length ys \<le> length xs then Some (overwrite xs a ys) else None)"

lemma index_Some [byte_simps]: "i < length xs \<Longrightarrow> index xs i = Some (xs ! i)"
  by (simp add: index_def)

lemma index_eq_Some: "index xs i = Some x \<longleftrightarrow> i < length xs \<and> x = xs ! i"
  by (auto simp: index_def)

lemma slice_Some [byte_simps]:
  "a \<le> b \<Longrightarrow> b \<le> length xs \<Longrightarrow> slice xs a b = Some (take (b - a) (drop a xs))"
  by (simp add: slice_def)

lemma slice_from_Some [byte_simps]: "a \<le> length xs \<Longrightarrow> slice_from xs a = Some (drop a xs)"
  by (simp add: slice_from_def)

lemma store_Some [byte_simps]: "i < length xs \<Longrightarrow> store xs i v = Some (xs[i := v])"
  by (simp add: store_def)

lemma copy_at_Some [byte_simps]:
  "a + length ys \<le> length xs \<Longrightarrow> copy_at xs a ys = Some (overwrite xs a ys)"
  by (simp add: copy_at_def)

lemma length_overwrite [simp]: "a + length ys \<le> length xs \<Longrightarrow> length (overwrite xs a ys) = length xs"
  by (simp add: overwrite_def)

lemma nth_overwrite:
  "a + length ys \<le> length xs \<Longrightarrow> i < length xs \<Longrightarrow>
   overwrite xs a ys ! i = (if a \<le> i \<and> i < a + length ys then ys ! (i - a) else xs ! i)"
  by (auto simp: overwrite_def nth_append)

lemma drop_overwrite: "a + length ys \<le> b \<Longrightarrow> a + length ys \<le> length xs \<Longrightarrow>
   drop b (overwrite xs a ys) = drop b xs"
  by (simp add: overwrite_def)

lemma take_overwrite: "b \<le> a \<Longrightarrow> a + length ys \<le> length xs \<Longrightarrow> take b (overwrite xs a ys) = take b xs"
  by (simp add: overwrite_def)

lemma take_drop_overwrite:
  "a + length ys \<le> length xs \<Longrightarrow> take (length ys) (drop a (overwrite xs a ys)) = ys"
  by (simp add: overwrite_def)

lemma take_drop_before_overwrite:
  "k + m \<le> a \<Longrightarrow> a + length ys \<le> length xs \<Longrightarrow>
   take m (drop k (overwrite xs a ys)) = take m (drop k xs)"
  by (simp add: overwrite_def drop_take)

lemma drop_overwrite_inside:
  "drop k (overwrite xs (k + a) ys) = overwrite (drop k xs) a ys" if "k + a \<le> length xs"
  using that by (simp add: overwrite_def drop_take ac_simps)

lemma take_overwrite_inside:
  "a + length ys \<le> n \<Longrightarrow> n \<le> length xs \<Longrightarrow> take n (overwrite xs a ys) = overwrite (take n xs) a ys"
  by (simp add: overwrite_def drop_take)

subsection \<open>Padding to a multiple of four\<close>

text \<open>\<open>while v.len() % 4 != 0 { v.push(z); }\<close>.\<close>

function pad4 :: "'a \<Rightarrow> 'a list \<Rightarrow> 'a list" where
  "pad4 z kept = (if length kept mod 4 \<noteq> 0 then pad4 z (kept @ [z]) else kept)"
  by pat_completeness auto
termination
  by (relation "measure (\<lambda>(_, kept). 3 - (length kept + 3) mod 4)") (simp_all, presburger)

declare pad4.simps [simp del]

lemma pad_step:
  fixes n :: nat
  assumes "n mod 4 \<noteq> 0"
  shows "(4 - n mod 4) mod 4 = Suc ((4 - Suc n mod 4) mod 4)"
proof -
  have "n mod 4 < 4" by simp
  with assms consider "n mod 4 = 1" | "n mod 4 = 2" | "n mod 4 = 3" by linarith
  then show ?thesis by cases (simp_all add: mod_Suc)
qed

lemma pad4_eq: "pad4 z xs = xs @ replicate ((4 - length xs mod 4) mod 4) z"
proof (induction z xs rule: pad4.induct)
  case (1 z xs)
  show ?case
  proof (cases "length xs mod 4 = 0")
    case True
    then show ?thesis by (simp add: pad4.simps [of z xs])
  next
    case False
    have "pad4 z xs = pad4 z (xs @ [z])" using False by (simp add: pad4.simps [of z xs])
    also have "\<dots> = (xs @ [z]) @ replicate ((4 - Suc (length xs) mod 4) mod 4) z"
      using 1 [OF False] by simp
    finally show ?thesis by (simp add: pad_step [OF False])
  qed
qed

lemma dvd_length_pad4: "4 dvd length (pad4 z xs)"
proof (induction z xs rule: pad4.induct)
  case (1 z xs)
  then show ?case
    by (cases "length xs mod 4 = 0") (simp_all add: pad4.simps [of z xs] dvd_eq_mod_eq_0)
qed

lemma length_pad4_le: "length (pad4 z xs) \<le> length xs + 3"
proof -
  have "(4 - length xs mod 4) mod 4 < 4" by (rule mod_less_divisor) simp
  then show ?thesis unfolding pad4_eq by simp
qed

subsection \<open>Big-endian integers\<close>

definition u16_from_be :: "u8 \<Rightarrow> u8 \<Rightarrow> u16" where
  "u16_from_be a b = push_bit 8 (ucast a) OR ucast b"

definition u16_to_be :: "u16 \<Rightarrow> u8 list" where
  "u16_to_be w = [ucast (drop_bit 8 w), ucast w]"

definition u32_from_be :: "u8 \<Rightarrow> u8 \<Rightarrow> u8 \<Rightarrow> u8 \<Rightarrow> u32" where
  "u32_from_be a b c d =
     push_bit 24 (ucast a) OR push_bit 16 (ucast b) OR push_bit 8 (ucast c) OR ucast d"

definition u32_to_be :: "u32 \<Rightarrow> u8 list" where
  "u32_to_be w =
     [ucast (drop_bit 24 w), ucast (drop_bit 16 w), ucast (drop_bit 8 w), ucast w]"

text \<open>\<open>u16::from_be_bytes([xs[i], xs[i + 1]]) as usize\<close>.\<close>

definition be_len :: "u8 list \<Rightarrow> usize \<Rightarrow> usize option" where
  "be_len xs i = do { a \<leftarrow> index xs i; b \<leftarrow> index xs (i + 1); Some (unat (u16_from_be a b)) }"

lemma length_be [simp]: "length (u16_to_be w) = 2" "length (u32_to_be v) = 4"
  by (simp_all add: u16_to_be_def u32_to_be_def)

lemma u16_be_roundtrip [simp]: "u16_from_be (u16_to_be w ! 0) (u16_to_be w ! Suc 0) = w"
  by (rule bit_word_eqI)
    (auto simp: u16_from_be_def u16_to_be_def bit_or_iff bit_push_bit_iff bit_ucast_iff bit_drop_bit_eq)

lemma u32_be_roundtrip [simp]:
  "u32_from_be (u32_to_be w ! 0) (u32_to_be w ! Suc 0) (u32_to_be w ! 2) (u32_to_be w ! 3) = w"
proof (rule bit_word_eqI)
  fix n
  assume "n < LENGTH(32)"
  then consider "n < 8" | "8 \<le> n" "n < 16" | "16 \<le> n" "n < 24" | "24 \<le> n" "n < 32"
    by fastforce
  then show "bit (u32_from_be (u32_to_be w ! 0) (u32_to_be w ! Suc 0) (u32_to_be w ! 2)
      (u32_to_be w ! 3)) n = bit w n"
    by cases (auto simp: u32_from_be_def u32_to_be_def bit_or_iff bit_push_bit_iff bit_ucast_iff
        bit_drop_bit_eq)
qed

lemma u8_less: "unat a < 256" for a :: u8
  using unsigned_less [of a] by simp

lemma u16_less: "unat a < 65536" for a :: u16
  using unsigned_less [of a] by simp

lemma unat_u16_from_be: "unat (u16_from_be a b) = 256 * unat a + unat b"
proof -
  have "push_bit 8 (ucast a :: u16) AND ucast b = 0"
    by (rule bit_word_eqI) (auto simp: bit_and_iff bit_push_bit_iff bit_ucast_iff dest: bit_imp_le_length)
  then have "u16_from_be a b = push_bit 8 (ucast a) + ucast b"
    using word_plus_and_or [of "push_bit 8 (ucast a)" "ucast b :: u16"] by (simp add: u16_from_be_def)
  moreover have "unat a < 256" "unat b < 256"
    by (rule u8_less)+
  ultimately show ?thesis
    by (simp add: push_bit_eq_mult unat_word_ariths unsigned_ucast_eq take_bit_nat_eq_self)
qed

lemma unat_u16_to_be:
  "256 * unat (u16_to_be w ! 0) + unat (u16_to_be w ! Suc 0) = unat w"
  by (metis unat_u16_from_be u16_be_roundtrip)

lemma be_len_Some [byte_simps]:
  "i + 1 < length xs \<Longrightarrow> be_len xs i = Some (unat (u16_from_be (xs ! i) (xs ! (i + 1))))"
  by (simp add: be_len_def index_def)

subsection \<open>Addresses\<close>

text \<open>\<open>Ipv4Addr::new\<close> and \<open>Ipv6Addr::from\<close> on octets.\<close>

definition v4_of_octets :: "u8 list \<Rightarrow> u32" where
  "v4_of_octets bs = foldl (\<lambda>a b. push_bit 8 a OR ucast b) 0 bs"

definition v6_of_octets :: "u8 list \<Rightarrow> 128 word" where
  "v6_of_octets bs = foldl (\<lambda>a b. push_bit 8 a OR ucast b) 0 bs"

subsection \<open>UTF-8\<close>

definition byte_in :: "nat \<Rightarrow> nat \<Rightarrow> u8 \<Rightarrow> bool" where
  "byte_in lo hi b \<longleftrightarrow> lo \<le> unat b \<and> unat b \<le> hi"

abbreviation cont :: "u8 \<Rightarrow> bool" where
  "cont \<equiv> byte_in 0x80 0xBF"

text \<open>The admissible second bytes after the lead byte of a sequence of three or four bytes.\<close>

definition utf8_second :: "u8 \<Rightarrow> u8 \<Rightarrow> bool" where
  "utf8_second a b =
     (if a = 0xE0 then byte_in 0xA0 0xBF b
      else if a = 0xED then byte_in 0x80 0x9F b
      else if a = 0xF0 then byte_in 0x90 0xBF b
      else if a = 0xF4 then byte_in 0x80 0x8F b
      else cont b)"

fun valid_utf8 :: "u8 list \<Rightarrow> bool" where
  "valid_utf8 [] = True"
| "valid_utf8 (a # xs) =
     (if byte_in 0 0x7F a then valid_utf8 xs
      else if byte_in 0xC2 0xDF a then
        (case xs of b # ys \<Rightarrow> cont b \<and> valid_utf8 ys | _ \<Rightarrow> False)
      else if byte_in 0xE0 0xEF a then
        (case xs of b # c # ys \<Rightarrow> utf8_second a b \<and> cont c \<and> valid_utf8 ys | _ \<Rightarrow> False)
      else if byte_in 0xF0 0xF4 a then
        (case xs of b # c # d # ys \<Rightarrow> utf8_second a b \<and> cont c \<and> cont d \<and> valid_utf8 ys | _ \<Rightarrow> False)
      else False)"

text \<open>\<open>std::str::from_utf8(bytes).ok().map(|s| s.to_string())\<close>.\<close>

definition from_utf8 :: "u8 list \<Rightarrow> string option" where
  "from_utf8 bytes = (if valid_utf8 bytes then Some (map (\<lambda>b. char_of (unat b)) bytes) else None)"

end
