(* ===== verification/B4Packet.thy ===== *)
theory B4Packet
  imports Bytes
begin

text \<open>
  Packet parsing and mutation of the DPI engine, \<open>src/crates/balansir-b4/src/packet.rs\<close>: IPv4/TCP and
  IPv4/UDP parsing, TCP options, checksums, splitting, the fake QUIC packet and the extraction of the
  TLS server name. A panic is the outer \<open>None\<close>, so that a total function of the sources is shown to
  return \<open>Some\<close>. \<open>fastrand_byte\<close> reads the clock; its successive values are the argument \<open>rand\<close>.
\<close>

subsection \<open>IPv4 and TCP\<close>

record TcpPacket =
  tp_raw :: "u8 list"
  tp_ip_header_len :: usize
  tp_ip_total_len :: usize
  tp_tcp_offset :: usize
  tp_tcp_header_len :: usize
  tp_tcp_doff_field :: usize
  tp_checksum_offsets :: "usize \<times> usize"

definition TcpPacket_parse :: "u8 list \<Rightarrow> TcpPacket option option" where
  "TcpPacket_parse raw =
     (if length raw < 20 then Some None
      else do {
        ver_ihl \<leftarrow> index raw 0;
        if drop_bit 4 ver_ihl \<noteq> 4 then Some None
        else let ip_header_len = unat (ver_ihl AND 0x0f) * 4 in
          if ip_header_len < 20 \<or> length raw < ip_header_len then Some None
          else do {
            proto \<leftarrow> index raw 9;
            if proto \<noteq> 6 then Some None
            else do {
              ip_total_len \<leftarrow> be_len raw 2;
              if ip_total_len < ip_header_len \<or> length raw < ip_total_len then Some None
              else let tcp_offset = ip_header_len in
                if length raw < tcp_offset + 20 then Some None
                else let tcp_doff_field = tcp_offset + 12 in do {
                  doff \<leftarrow> index raw tcp_doff_field;
                  let tcp_header_len = unat (drop_bit 4 doff) * 4 in
                    if tcp_header_len < 20 \<or> length raw < tcp_offset + tcp_header_len
                    then Some None
                    else Some (Some
                      \<lparr>tp_raw = raw, tp_ip_header_len = ip_header_len, tp_ip_total_len = ip_total_len,
                       tp_tcp_offset = tcp_offset, tp_tcp_header_len = tcp_header_len,
                       tp_tcp_doff_field = tcp_doff_field,
                       tp_checksum_offsets = (10, tcp_offset + 16)\<rparr>)
                }
            }
          }
      })"

definition be16_at :: "u8 list \<Rightarrow> usize \<Rightarrow> u16 option" where
  "be16_at raw i = do { a \<leftarrow> index raw i; b \<leftarrow> index raw (i + 1); Some (u16_from_be a b) }"

definition ip_at :: "u8 list \<Rightarrow> usize \<Rightarrow> u8 list option" where
  "ip_at raw i = do {
     a \<leftarrow> index raw i; b \<leftarrow> index raw (i + 1); c \<leftarrow> index raw (i + 2); d \<leftarrow> index raw (i + 3);
     Some [a, b, c, d] }"

definition tcp_dst_port :: "TcpPacket \<Rightarrow> u16 option" where
  "tcp_dst_port pkt = be16_at (tp_raw pkt) (tp_tcp_offset pkt + 2)"

definition tcp_src_port :: "TcpPacket \<Rightarrow> u16 option" where
  "tcp_src_port pkt = be16_at (tp_raw pkt) (tp_tcp_offset pkt)"

definition tcp_src_ip :: "TcpPacket \<Rightarrow> u8 list option" where
  "tcp_src_ip pkt = ip_at (tp_raw pkt) 12"

definition tcp_dst_ip :: "TcpPacket \<Rightarrow> u8 list option" where
  "tcp_dst_ip pkt = ip_at (tp_raw pkt) 16"

definition tcp_seq :: "TcpPacket \<Rightarrow> u32 option" where
  "tcp_seq pkt = do {
     a \<leftarrow> index (tp_raw pkt) (tp_tcp_offset pkt + 4); b \<leftarrow> index (tp_raw pkt) (tp_tcp_offset pkt + 5);
     c \<leftarrow> index (tp_raw pkt) (tp_tcp_offset pkt + 6); d \<leftarrow> index (tp_raw pkt) (tp_tcp_offset pkt + 7);
     Some (u32_from_be a b c d) }"

definition set_tcp_seq :: "u32 \<Rightarrow> TcpPacket \<Rightarrow> TcpPacket option" where
  "set_tcp_seq seq pkt = do {
     raw \<leftarrow> copy_at (tp_raw pkt) (tp_tcp_offset pkt + 4) (u32_to_be seq);
     Some (pkt\<lparr>tp_raw := raw\<rparr>) }"

definition tcp_flags :: "TcpPacket \<Rightarrow> u8 option" where
  "tcp_flags pkt = index (tp_raw pkt) (tp_tcp_offset pkt + 13)"

definition tcp_payload :: "TcpPacket \<Rightarrow> u8 list option" where
  "tcp_payload pkt = slice_from (tp_raw pkt) (tp_tcp_offset pkt + tp_tcp_header_len pkt)"

subsection \<open>TCP options\<close>

definition MSS :: u8 where
  "MSS = 2"

definition SACK_PERMITTED :: u8 where
  "SACK_PERMITTED = 4"

function (sequential) mss_loop :: "u16 \<Rightarrow> usize \<Rightarrow> usize \<Rightarrow> u8 list \<Rightarrow> (bool \<times> u8 list) option" where
  "mss_loop mss stop i raw =
     (if i + 1 < stop then
        (case index raw i of
           None \<Rightarrow> None
         | Some kind \<Rightarrow>
             if kind = 0 then Some (False, raw)
             else if kind = 1 then mss_loop mss stop (i + 1) raw
             else
               (case index raw (i + 1) of
                  None \<Rightarrow> None
                | Some l \<Rightarrow>
                    if unat l < 2 \<or> stop < i + unat l then Some (False, raw)
                    else if kind = MSS \<and> 4 \<le> unat l
                    then map_option (Pair True) (copy_at raw (i + 2) (u16_to_be mss))
                    else mss_loop mss stop (i + unat l) raw))
      else Some (False, raw))"
  by pat_completeness auto
termination
  by (relation "measure (\<lambda>(mss, stop, i, raw). stop - i)") auto

definition set_mss :: "u16 \<Rightarrow> TcpPacket \<Rightarrow> (bool \<times> TcpPacket) option" where
  "set_mss mss pkt = do {
     (found, raw) \<leftarrow> mss_loop mss (tp_tcp_offset pkt + tp_tcp_header_len pkt)
       (tp_tcp_offset pkt + 20) (tp_raw pkt);
     Some (found, pkt\<lparr>tp_raw := raw\<rparr>) }"

function (sequential) strip_loop ::
    "u8 \<Rightarrow> u8 list \<Rightarrow> usize \<Rightarrow> usize \<Rightarrow> u8 list \<Rightarrow> bool \<Rightarrow> (u8 list \<times> bool) option" where
  "strip_loop kind raw stop i kept changed =
     (if i < stop then
        (case index raw i of
           None \<Rightarrow> None
         | Some k \<Rightarrow>
             if k = 0 then map_option (\<lambda>rest. (kept @ rest, changed)) (slice raw i stop)
             else if k = 1 then strip_loop kind raw stop (i + 1) (kept @ [1]) changed
             else
               (case index raw (i + 1) of
                  None \<Rightarrow> None
                | Some l \<Rightarrow>
                    if unat l < 2 \<or> stop < i + unat l
                    then map_option (\<lambda>rest. (kept @ rest, changed)) (slice raw i stop)
                    else if k = kind then strip_loop kind raw stop (i + unat l) kept True
                    else
                      (case slice raw i (i + unat l) of
                         None \<Rightarrow> None
                       | Some opt \<Rightarrow> strip_loop kind raw stop (i + unat l) (kept @ opt) changed)))
      else Some (kept, changed))"
  by pat_completeness auto
termination
  by (relation "measure (\<lambda>(kind, raw, stop, i, kept, changed). stop - i)") auto

declare mss_loop.simps [simp del] strip_loop.simps [simp del]

definition rebuild :: "TcpPacket \<Rightarrow> u8 list \<Rightarrow> TcpPacket option" where
  "rebuild pkt kept = do {
     let tcp_start = tp_tcp_offset pkt;
     payload \<leftarrow> slice_from (tp_raw pkt) (tcp_start + tp_tcp_header_len pkt);
     ip \<leftarrow> slice (tp_raw pkt) 0 tcp_start;
     fixed \<leftarrow> slice (tp_raw pkt) tcp_start (tcp_start + 20);
     let out = ip @ fixed @ kept @ payload;
     let new_tcp_header_len = (20 + length kept + 3) div 4 * 4;
     let dof = (of_nat (new_tcp_header_len div 4) :: u8);
     old \<leftarrow> index out (tcp_start + 12);
     out \<leftarrow> store out (tcp_start + 12) (push_bit 4 dof OR (old AND 0x0f));
     old_ip_len \<leftarrow> be_len out 2;
     out \<leftarrow> copy_at out 2 (u16_to_be (of_nat (length out)));
     Some (pkt\<lparr>tp_raw := out, tp_tcp_header_len := new_tcp_header_len\<rparr>) }"

definition strip_option :: "u8 \<Rightarrow> TcpPacket \<Rightarrow> (bool \<times> TcpPacket) option" where
  "strip_option kind pkt = do {
     (kept, changed) \<leftarrow> strip_loop kind (tp_raw pkt) (tp_tcp_offset pkt + tp_tcp_header_len pkt)
       (tp_tcp_offset pkt + 20) [] False;
     if \<not> changed then Some (False, pkt)
     else do { pkt' \<leftarrow> rebuild pkt (pad4 1 kept); Some (True, pkt') } }"

subsection \<open>Checksums\<close>

fun ip_sum :: "u8 list \<Rightarrow> usize list \<Rightarrow> u32 \<Rightarrow> u32 option" where
  "ip_sum raw [] acc = Some acc"
| "ip_sum raw (i # is) acc =
     (if i = 10 \<or> i = 11 then ip_sum raw is acc
      else
        (case index raw i of
           None \<Rightarrow> None
         | Some b \<Rightarrow> ip_sum raw is (acc + (if i mod 2 = 0 then push_bit 8 (ucast b) else ucast b))))"

lemma unat_carry_step:
  "unat ((acc AND 0xffff) + drop_bit 16 acc) = unat acc mod 65536 + unat acc div 65536" for acc :: u32
proof -
  have "acc AND 0xffff = take_bit 16 acc"
    by (simp add: take_bit_eq_mask mask_eq_exp_minus_1)
  then have "unat (acc AND 0xffff) = unat acc mod 65536"
    by (simp add: take_bit_eq_mod unat_mod_distrib)
  moreover have "unat (drop_bit 16 acc) = unat acc div 65536"
    by (simp add: drop_bit_eq_div unat_div_distrib)
  moreover have "unat acc < 4294967296" using unsigned_less [of acc] by simp
  ultimately show ?thesis by (simp add: unat_word_ariths)
qed

lemma carry_fold_less:
  fixes acc :: u32
  assumes "drop_bit 16 acc \<noteq> 0"
  shows "unat ((acc AND 0xffff) + drop_bit 16 acc) < unat acc"
proof -
  have "unat acc div 65536 \<noteq> 0"
  proof
    assume "unat acc div 65536 = 0"
    then have "unat (drop_bit 16 acc) = 0" by (simp add: drop_bit_eq_div unat_div_distrib)
    then show False using assms by (simp only: unsigned_eq_0_iff)
  qed
  moreover have "unat acc mod 65536 + 65536 * (unat acc div 65536) = unat acc"
    by (rule mod_mult_div_eq)
  ultimately show ?thesis unfolding unat_carry_step by linarith
qed

function carry_fold :: "u32 \<Rightarrow> u32" where
  "carry_fold acc =
     (if drop_bit 16 acc \<noteq> 0 then carry_fold ((acc AND 0xffff) + drop_bit 16 acc) else acc)"
  by pat_completeness auto
termination
  by (relation "measure unat") (simp_all add: carry_fold_less)

declare carry_fold.simps [simp del]

text \<open>\<open>!(acc as u16)\<close> after the carries are folded.\<close>

definition fold_checksum :: "u32 \<Rightarrow> u16" where
  "fold_checksum acc = NOT (ucast (carry_fold acc))"

definition fix_ipv4_checksum :: "TcpPacket \<Rightarrow> TcpPacket option" where
  "fix_ipv4_checksum pkt = do {
     acc \<leftarrow> ip_sum (tp_raw pkt) [0..<tp_ip_header_len pkt] 0;
     raw \<leftarrow> copy_at (tp_raw pkt) 10 (u16_to_be (fold_checksum acc));
     Some (pkt\<lparr>tp_raw := raw\<rparr>) }"

text \<open>The loop \<open>for i in (0..len).step_by(2)\<close> over big-endian pairs, an odd last byte padded with zero.\<close>

definition evens :: "usize \<Rightarrow> usize list" where
  "evens n = map (\<lambda>k. 2 * k) [0..<(n + 1) div 2]"

fun pair_sum :: "u8 list \<Rightarrow> usize \<Rightarrow> usize \<Rightarrow> usize list \<Rightarrow> u32 \<Rightarrow> u32 option" where
  "pair_sum bytes off len [] acc = Some acc"
| "pair_sum bytes off len (i # is) acc =
     (case index bytes (off + i) of
        None \<Rightarrow> None
      | Some hi \<Rightarrow>
          (case (if i + 1 < len then index bytes (off + i + 1) else Some 0) of
             None \<Rightarrow> None
           | Some lo \<Rightarrow> pair_sum bytes off len is (acc + (push_bit 8 (ucast hi) OR ucast lo))))"

definition fix_tcp_checksum :: "TcpPacket \<Rightarrow> TcpPacket option" where
  "fix_tcp_checksum pkt = do {
     src \<leftarrow> ip_at (tp_raw pkt) 12;
     dst \<leftarrow> ip_at (tp_raw pkt) 16;
     let tcp_len = length (tp_raw pkt) - tp_tcp_offset pkt;
     acc \<leftarrow> pair_sum src 0 4 (evens 4) 0;
     acc \<leftarrow> pair_sum dst 0 4 (evens 4) acc;
     let acc = acc + 6 + of_nat tcp_len;
     acc \<leftarrow> pair_sum (tp_raw pkt) (tp_tcp_offset pkt) tcp_len (evens tcp_len) acc;
     raw \<leftarrow> copy_at (tp_raw pkt) (snd (tp_checksum_offsets pkt)) (u16_to_be (fold_checksum acc));
     fix_ipv4_checksum (pkt\<lparr>tp_raw := raw\<rparr>) }"

definition fix_udp_checksum ::
    "u8 list \<Rightarrow> u8 list \<Rightarrow> u8 list \<Rightarrow> usize \<Rightarrow> usize \<Rightarrow> u8 list option" where
  "fix_udp_checksum pkt src dst udp_offset udp_len = do {
     pkt \<leftarrow> copy_at pkt (udp_offset + 6) [0, 0];
     acc \<leftarrow> pair_sum src 0 4 (evens 4) 0;
     acc \<leftarrow> pair_sum dst 0 4 (evens 4) acc;
     let acc = acc + 17 + of_nat udp_len;
     acc \<leftarrow> pair_sum pkt udp_offset udp_len (evens udp_len) acc;
     copy_at pkt (udp_offset + 6) (u16_to_be (fold_checksum acc)) }"

subsection \<open>UDP and the fake QUIC packet\<close>

record UdpPacket =
  up_raw :: "u8 list"
  up_ip_header_len :: usize
  up_udp_offset :: usize
  up_udp_len :: usize

definition UdpPacket_parse :: "u8 list \<Rightarrow> UdpPacket option option" where
  "UdpPacket_parse raw =
     (if length raw < 20 then Some None
      else do {
        ver_ihl \<leftarrow> index raw 0;
        if drop_bit 4 ver_ihl \<noteq> 4 then Some None
        else let ip_header_len = unat (ver_ihl AND 0x0f) * 4 in
          if ip_header_len < 20 \<or> length raw < ip_header_len then Some None
          else do {
            proto \<leftarrow> index raw 9;
            if proto \<noteq> 17 then Some None
            else do {
              ip_total_len \<leftarrow> be_len raw 2;
              if ip_total_len < ip_header_len \<or> length raw < ip_total_len then Some None
              else let udp_offset = ip_header_len in
                if length raw < udp_offset + 8 then Some None
                else do {
                  udp_len \<leftarrow> be_len raw (udp_offset + 4);
                  if udp_len < 8 \<or> length raw < udp_offset + udp_len then Some None
                  else Some (Some
                    \<lparr>up_raw = raw, up_ip_header_len = ip_header_len, up_udp_offset = udp_offset,
                     up_udp_len = udp_len\<rparr>)
                }
            }
          }
      })"

definition udp_dst_port :: "UdpPacket \<Rightarrow> u16 option" where
  "udp_dst_port pkt = be16_at (up_raw pkt) (up_udp_offset pkt + 2)"

definition udp_src_port :: "UdpPacket \<Rightarrow> u16 option" where
  "udp_src_port pkt = be16_at (up_raw pkt) (up_udp_offset pkt)"

definition udp_src_ip :: "UdpPacket \<Rightarrow> u8 list option" where
  "udp_src_ip pkt = ip_at (up_raw pkt) 12"

definition udp_dst_ip :: "UdpPacket \<Rightarrow> u8 list option" where
  "udp_dst_ip pkt = ip_at (up_raw pkt) 16"

definition udp_payload :: "UdpPacket \<Rightarrow> u8 list option" where
  "udp_payload pkt =
     slice (up_raw pkt) (up_udp_offset pkt + 8) (up_udp_offset pkt + up_udp_len pkt)"

definition quic_payload :: "(nat \<Rightarrow> u8) \<Rightarrow> usize \<Rightarrow> usize \<Rightarrow> u8 list \<Rightarrow> u8 list option" where
  "quic_payload rand p payload_len pkt = do {
     pkt \<leftarrow> store pkt p 0xC3;
     if payload_len > 1 then do {
       pkt \<leftarrow> copy_at pkt (p + 1) (u32_to_be 1);
       if payload_len > 5 then do {
         pkt \<leftarrow> store pkt (p + 5) 0;
         Some (take (p + 6) pkt @ map rand [0..<length pkt - (p + 6)])
       } else Some pkt
     } else Some pkt }"

definition build_fake_quic_packet ::
    "(nat \<Rightarrow> u8) \<Rightarrow> u8 list \<Rightarrow> u8 list \<Rightarrow> u16 \<Rightarrow> u16 \<Rightarrow> usize \<Rightarrow> u8 list option" where
  "build_fake_quic_packet rand src dst src_port dst_port payload_len = do {
     let len = 20 + 8 + max payload_len 1;
     let pkt = replicate len 0;
     pkt \<leftarrow> store pkt 0 0x45;
     pkt \<leftarrow> copy_at pkt 2 (u16_to_be (of_nat len));
     pkt \<leftarrow> store pkt 8 64;
     pkt \<leftarrow> store pkt 9 17;
     pkt \<leftarrow> copy_at pkt 12 src;
     pkt \<leftarrow> copy_at pkt 16 dst;
     let u = 20;
     pkt \<leftarrow> copy_at pkt u (u16_to_be src_port);
     pkt \<leftarrow> copy_at pkt (u + 2) (u16_to_be dst_port);
     let udp_len = 8 + max payload_len 1;
     pkt \<leftarrow> copy_at pkt (u + 4) (u16_to_be (of_nat udp_len));
     pkt \<leftarrow> quic_payload rand (u + 8) payload_len pkt;
     let tmp = \<lparr>tp_raw = pkt, tp_ip_header_len = 20, tp_ip_total_len = len, tp_tcp_offset = u,
       tp_tcp_header_len = 8, tp_tcp_doff_field = 0, tp_checksum_offsets = (10, u + 6)\<rparr>;
     tmp \<leftarrow> fix_ipv4_checksum tmp;
     fix_udp_checksum pkt src dst u udp_len }"

subsection \<open>Splitting a segment\<close>

definition fragment_tcp_payload :: "TcpPacket \<Rightarrow> usize \<Rightarrow> (u8 list \<times> u8 list) option option" where
  "fragment_tcp_payload pkt split_at = do {
     payload \<leftarrow> tcp_payload pkt;
     if split_at = 0 \<or> length payload \<le> split_at then Some None
     else do {
       let total = length (tp_raw pkt);
       let tcp_header = tp_tcp_offset pkt + tp_tcp_header_len pkt;
       frag1 \<leftarrow> slice (tp_raw pkt) 0 (tcp_header + split_at);
       frag1 \<leftarrow> copy_at frag1 2 (u16_to_be (of_nat (length frag1)));
       frag1 \<leftarrow> store frag1 6 0x40;
       frag1 \<leftarrow> store frag1 7 0x00;
       let offset = (of_nat (tcp_header div 8) :: u16);
       frag2 \<leftarrow> slice (tp_raw pkt) 0 (tp_ip_header_len pkt);
       let f2_len = (of_nat (tp_ip_header_len pkt + (total - tcp_header - split_at)) :: u16);
       frag2 \<leftarrow> copy_at frag2 2 (u16_to_be f2_len);
       frag2 \<leftarrow> store frag2 6 0x40;
       frag2 \<leftarrow> store frag2 7 (ucast (drop_bit 8 offset AND 0xff));
       rest \<leftarrow> slice_from (tp_raw pkt) (tcp_header + split_at);
       let frag2 = frag2 @ rest;
       f1 \<leftarrow> fix_ipv4_checksum
         \<lparr>tp_raw = frag1, tp_ip_header_len = tp_ip_header_len pkt, tp_ip_total_len = length frag1,
          tp_tcp_offset = tp_tcp_offset pkt, tp_tcp_header_len = tp_tcp_header_len pkt,
          tp_tcp_doff_field = 0, tp_checksum_offsets = (10, tp_tcp_offset pkt + 16)\<rparr>;
       f1 \<leftarrow> fix_tcp_checksum f1;
       f2 \<leftarrow> fix_ipv4_checksum
         \<lparr>tp_raw = frag2, tp_ip_header_len = tp_ip_header_len pkt, tp_ip_total_len = length frag2,
          tp_tcp_offset = 0, tp_tcp_header_len = 0, tp_tcp_doff_field = 0,
          tp_checksum_offsets = (10, 0)\<rparr>;
       Some (Some (tp_raw f1, tp_raw f2))
     } }"

subsection \<open>What parsing establishes\<close>

definition tcp_wf :: "TcpPacket \<Rightarrow> bool" where
  "tcp_wf pkt \<longleftrightarrow>
     20 \<le> tp_ip_header_len pkt \<and> tp_ip_header_len pkt \<le> 60 \<and> 4 dvd tp_ip_header_len pkt \<and>
     tp_tcp_offset pkt = tp_ip_header_len pkt \<and>
     20 \<le> tp_tcp_header_len pkt \<and> tp_tcp_header_len pkt \<le> 60 \<and> 4 dvd tp_tcp_header_len pkt \<and>
     tp_tcp_offset pkt + tp_tcp_header_len pkt \<le> length (tp_raw pkt) \<and>
     tp_checksum_offsets pkt = (10, tp_tcp_offset pkt + 16)"

lemma nibble_bounds: "unat (b AND 0x0f) \<le> 15" "unat (drop_bit 4 b) \<le> 15" for b :: u8
proof -
  have "b AND 0x0f = take_bit 4 b" by (simp add: take_bit_eq_mask mask_eq_exp_minus_1)
  then have "unat (b AND 0x0f) = unat b mod 16" by (simp add: take_bit_eq_mod unat_mod_distrib)
  then show "unat (b AND 0x0f) \<le> 15" by simp
  from u8_less [of b] show "unat (drop_bit 4 b) \<le> 15" by (simp add: drop_bit_eq_div unat_div_distrib)
qed

text \<open>Every index is guarded: parsing never panics, whatever the bytes.\<close>

lemma TcpPacket_parse_flat:
  fixes raw :: "u8 list"
  defines "ihl \<equiv> unat (raw ! 0 AND 0x0f) * 4" and "tot \<equiv> unat (u16_from_be (raw ! 2) (raw ! 3))"
  defines "thl \<equiv> unat (drop_bit 4 (raw ! (ihl + 12))) * 4"
  shows "TcpPacket_parse raw = Some
    (if length raw < 20 \<or> drop_bit 4 (raw ! 0) \<noteq> 4 \<or> ihl < 20 \<or> length raw < ihl \<or> raw ! 9 \<noteq> 6 \<or>
        tot < ihl \<or> length raw < tot \<or> length raw < ihl + 20 \<or> thl < 20 \<or> length raw < ihl + thl
     then None
     else Some \<lparr>tp_raw = raw, tp_ip_header_len = ihl, tp_ip_total_len = tot, tp_tcp_offset = ihl,
       tp_tcp_header_len = thl, tp_tcp_doff_field = ihl + 12, tp_checksum_offsets = (10, ihl + 16)\<rparr>)"
proof (cases "length raw < 20")
  case True
  then show ?thesis by (simp add: TcpPacket_parse_def)
next
  case False
  then have "index raw 0 = Some (raw ! 0)" "index raw 9 = Some (raw ! 9)" "be_len raw 2 = Some tot"
    by (simp_all add: index_def be_len_def tot_def del: length_greater_0_conv)
  with False show ?thesis
    by (simp add: TcpPacket_parse_def Let_def ihl_def thl_def index_def)
qed

lemma TcpPacket_parse_wf:
  assumes "TcpPacket_parse raw = Some (Some pkt)"
  shows "tcp_wf pkt" and "tp_raw pkt = raw" and "tp_ip_total_len pkt \<le> length raw"
    and "tp_ip_total_len pkt = unat (u16_from_be (raw ! 2) (raw ! 3))"
    and "unat (raw ! 0 AND 0x0f) * 4 = tp_ip_header_len pkt" and "drop_bit 4 (raw ! 0) = 4"
    and "raw ! 9 = 6" and "unat (drop_bit 4 (raw ! (tp_tcp_offset pkt + 12))) * 4 = tp_tcp_header_len pkt"
    and "tp_tcp_doff_field pkt = tp_tcp_offset pkt + 12"
  using assms nibble_bounds(1) [of "raw ! 0"]
    nibble_bounds(2) [of "raw ! (unat (raw ! 0 AND 0x0f) * 4 + 12)"]
  by (auto simp: TcpPacket_parse_flat tcp_wf_def split: if_splits)

end
