(* ===== verification/B4Checksum.thy ===== *)
theory B4Checksum
  imports B4Packet
begin

text \<open>
  The checksums of \<open>src/crates/balansir-b4/src/packet.rs\<close> against the Internet checksum of RFC 1071:
  the ones' complement sum of the 16-bit words of a header, its checksum field included, is \<open>0xffff\<close>.
  The specification is the plain sum of the words, \<open>word_sum\<close>, taken modulo \<open>0xffff\<close>.
\<close>

subsection \<open>The specification\<close>

fun word_sum :: "u8 list \<Rightarrow> nat" where
  "word_sum [] = 0"
| "word_sum [a] = 256 * unat a"
| "word_sum (a # b # xs) = 256 * unat a + unat b + word_sum xs"

text \<open>The carries folded in, the sum of the words is \<open>0xffff\<close>.\<close>

definition checksum_ok :: "nat \<Rightarrow> bool" where
  "checksum_ok s \<longleftrightarrow> s \<noteq> 0 \<and> 65535 dvd s"

text \<open>What a receiver checks, reading the lengths from the packet itself.\<close>

definition ipv4_checksum_ok :: "u8 list \<Rightarrow> bool" where
  "ipv4_checksum_ok raw \<longleftrightarrow> checksum_ok (word_sum (take (unat (raw ! 0 AND 0x0f) * 4) raw))"

definition pseudo_sum :: "u8 list \<Rightarrow> nat" where
  "pseudo_sum raw = word_sum (take 4 (drop 12 raw)) + word_sum (take 4 (drop 16 raw))"

definition segment_sum :: "nat \<Rightarrow> u8 list \<Rightarrow> nat \<Rightarrow> nat \<Rightarrow> nat" where
  "segment_sum proto raw off len = pseudo_sum raw + proto + len + word_sum (take len (drop off raw))"

definition tcp_checksum_ok :: "u8 list \<Rightarrow> bool" where
  "tcp_checksum_ok raw \<longleftrightarrow>
     (let off = unat (raw ! 0 AND 0x0f) * 4; tot = unat (u16_from_be (raw ! 2) (raw ! 3))
      in checksum_ok (segment_sum 6 raw off (tot - off)))"

subsection \<open>Sums of words\<close>

lemma word_sum_append: "even (length xs) \<Longrightarrow> word_sum (xs @ ys) = word_sum xs + word_sum ys"
  by (induction xs rule: word_sum.induct) auto

lemma word_sum_bound: "word_sum xs \<le> 65535 * ((length xs + 1) div 2)"
proof (induction xs rule: word_sum.induct)
  case (2 a)
  then show ?case using u8_less [of a] by simp
next
  case (3 a b xs)
  with u8_less [of a] u8_less [of b] show ?case by simp
qed simp

lemma word_sum_u16 [simp]: "word_sum (u16_to_be w) = unat w"
  using unat_u16_to_be [of w] by (simp add: u16_to_be_def)

lemma word_sum_pair: "word_sum [a, b] = unat (u16_from_be a b)"
  by (simp add: unat_u16_from_be)

definition weight :: "usize \<Rightarrow> nat" where
  "weight i = (if even i then 256 else 1)"

lemma word_sum_weights: "word_sum xs = (\<Sum>i<length xs. weight i * unat (xs ! i))"
proof (induction xs rule: word_sum.induct)
  case (3 a b xs)
  then show ?case
    by (simp add: sum.lessThan_Suc_shift weight_def del: sum.lessThan_Suc)
qed (simp_all add: weight_def)

lemma of_nat_pair: "push_bit 8 (ucast hi) OR ucast lo = (of_nat (256 * unat hi + unat lo) :: u32)"
  for hi lo :: u8
proof -
  have "push_bit 8 (ucast hi :: u32) AND ucast lo = 0"
    by (rule bit_word_eqI) (auto simp: bit_and_iff bit_push_bit_iff bit_ucast_iff dest: bit_imp_le_length)
  then have "push_bit 8 (ucast hi :: u32) OR ucast lo = push_bit 8 (ucast hi) + ucast lo"
    using word_plus_and_or [of "push_bit 8 (ucast hi :: u32)" "ucast lo"] by simp
  then show ?thesis by (simp add: push_bit_eq_mult)
qed

subsection \<open>The loops compute the sums\<close>

lemma pair_sum_from:
  "off + n \<le> length bs \<Longrightarrow>
   pair_sum bs off n (map (\<lambda>k. 2 * k) [j..<Suc n div 2]) acc =
     Some (acc + of_nat (word_sum (take (n - 2 * j) (drop (off + 2 * j) bs))))"
proof (induction "Suc n div 2 - j" arbitrary: j acc)
  case 0
  then have "n - 2 * j = 0" by linarith
  with 0 show ?case by simp
next
  case (Suc m)
  then have lt: "2 * j < n" and ups: "[j..<Suc n div 2] = j # [Suc j..<Suc n div 2]"
    by (linarith, simp add: upt_conv_Cons)
  let ?hi = "bs ! (off + 2 * j)" and ?lo = "bs ! (off + 2 * j + 1)"
  note IH = Suc(1) [of "Suc j"]
  show ?case
  proof (cases "2 * j + 1 < n")
    case True
    then have "take (n - 2 * j) (drop (off + 2 * j) bs) =
        ?hi # ?lo # take (n - 2 * Suc j) (drop (off + 2 * Suc j) bs)"
      using Suc.prems by (simp add: take_Cons' Cons_nth_drop_Suc [symmetric])
    with True lt Suc show ?thesis by (simp add: ups IH index_def of_nat_pair)
  next
    case False
    then have "n - 2 * j = 1" "n - 2 * Suc j = 0" using lt by auto
    moreover have "take 1 (drop (off + 2 * j) bs) = [?hi]"
      using lt Suc.prems by (simp add: take_Suc_conv_app_nth)
    ultimately show ?thesis using False lt Suc of_nat_pair [of ?hi 0]
      by (simp add: ups IH index_def)
  qed
qed

lemma pair_sum_evens:
  "off + n \<le> length bs \<Longrightarrow>
   pair_sum bs off n (evens n) acc = Some (acc + of_nat (word_sum (take n (drop off bs))))"
  using pair_sum_from [of off n bs 0 acc] by (simp add: evens_def)

lemma ip_sum_spec:
  "n \<le> length raw \<Longrightarrow>
   ip_sum raw [j..<n] acc =
     Some (acc + of_nat (\<Sum>i \<in> {j..<n} - {10, 11}. weight i * unat (raw ! i)))"
proof (induction "n - j" arbitrary: j acc)
  case (Suc m)
  then have lt: "j < n" and ups: "[j..<n] = j # [Suc j..<n]" by (linarith, simp add: upt_conv_Cons)
  have ins: "{j..<n} - {10, 11} =
      (if j = 10 \<or> j = 11 then {Suc j..<n} - {10, 11} else insert j ({Suc j..<n} - {10, 11}))"
    using lt by auto
  show ?case
    using lt Suc by (simp add: ups ins index_def weight_def push_bit_eq_mult add.assoc even_iff_mod_2_eq_zero)
qed simp

subsection \<open>Folding and complementing\<close>

lemma carry_fold_spec:
  "unat (carry_fold s) \<le> 65535 \<and> unat (carry_fold s) mod 65535 = unat s mod 65535"
proof (induction s rule: carry_fold.induct)
  case (1 s)
  show ?case
  proof (cases "drop_bit 16 s = 0")
    case True
    then have "unat s div 65536 = 0"
      using unat_div_distrib [of s 65536] by (simp add: drop_bit_eq_div)
    with True show ?thesis by (simp add: carry_fold.simps [of s])
  next
    case False
    have "unat s = unat s mod 65536 + unat s div 65536 + 65535 * (unat s div 65536)"
      using mod_mult_div_eq [of "unat s" 65536] by linarith
    then have "(unat s mod 65536 + unat s div 65536) mod 65535 = unat s mod 65535"
      by (metis mod_mult_self2)
    with 1 [OF False] False show ?thesis
      by (simp add: carry_fold.simps [of s] unat_carry_step)
  qed
qed

lemma unat_fold_checksum: "unat (fold_checksum s) = 65535 - unat (carry_fold s)"
proof -
  have le: "unat (carry_fold s) \<le> 65535" using carry_fold_spec by blast
  have "unat (NOT w) = 65535 - unat w" for w :: u16
  proof -
    have "NOT w = - 1 - w" by (simp add: not_eq_complement)
    moreover have "unat (- 1 :: u16) = 65535"
      by (simp add: unsigned_minus_1_eq_mask mask_eq_exp_minus_1)
    ultimately show ?thesis using unat_sub [of w "- 1"] by simp
  qed
  moreover have "unat (ucast (carry_fold s) :: u16) = unat (carry_fold s)"
    using le by (simp add: unsigned_ucast_eq take_bit_nat_eq_self)
  ultimately show ?thesis by (simp add: fold_checksum_def)
qed

lemma fold_checksum_complements:
  assumes "s < 2 ^ 32"
  shows "65535 dvd s + unat (fold_checksum (of_nat s))"
proof -
  let ?t = "unat (carry_fold (of_nat s))"
  have t: "?t \<le> 65535" "?t mod 65535 = s mod 65535"
    using assms carry_fold_spec [of "of_nat s"] by (simp_all add: unat_of_nat)
  have "(s + 65535 - ?t) mod 65535 = 0"
    using t by (metis (no_types, lifting) diff_add_inverse2 le_add2 mod_add_self2 mod_eq_dvd_iff_nat
        mod_eq_0_iff_dvd order_trans)
  then show ?thesis using t by (simp add: unat_fold_checksum mod_eq_0_iff_dvd)
qed

subsection \<open>The IPv4 header\<close>

definition header_sum :: "u8 list \<Rightarrow> usize \<Rightarrow> nat" where
  "header_sum raw n = (\<Sum>i \<in> {0..<n} - {10, 11}. weight i * unat (raw ! i))"

lemma word_sum_take:
  "n \<le> length raw \<Longrightarrow> word_sum (take n raw) = (\<Sum>i \<in> {0..<n}. weight i * unat (raw ! i))"
  by (simp add: word_sum_weights lessThan_atLeast0)

lemma header_sum_fixed:
  assumes "12 \<le> n" and "n \<le> length raw"
  shows "word_sum (take n (overwrite raw 10 (u16_to_be c))) = header_sum raw n + unat c"
proof -
  let ?raw = "overwrite raw 10 (u16_to_be c)"
  have split: "(\<Sum>i \<in> {0..<n}. weight i * unat (?raw ! i)) =
      (\<Sum>i \<in> {0..<n} - {10, 11}. weight i * unat (?raw ! i)) +
      (\<Sum>i \<in> {10, 11}. weight i * unat (?raw ! i))"
    using assms by (intro sum.subset_diff) auto
  have "(\<Sum>i \<in> {0..<n} - {10, 11}. weight i * unat (?raw ! i)) = header_sum raw n"
    unfolding header_sum_def using assms by (intro sum.cong) (auto simp: nth_overwrite)
  moreover have "(\<Sum>i \<in> {10, 11}. weight i * unat (?raw ! i)) = unat c"
    using assms unat_u16_to_be [of c] by (simp add: nth_overwrite weight_def)
  ultimately show ?thesis using assms split by (simp add: word_sum_take)
qed

lemma header_sum_bounds:
  assumes "n \<le> 60" and "n \<le> length raw" and "0 < n" and "raw ! 0 \<noteq> 0"
  shows "0 < header_sum raw n" and "header_sum raw n < 2 ^ 32"
proof -
  have "0 < unat (raw ! 0)" using assms(4) by (simp add: unat_gt_0)
  then have "0 < weight 0 * unat (raw ! 0)" by (simp add: weight_def)
  also have "\<dots> \<le> header_sum raw n"
    unfolding header_sum_def using assms
    by (intro member_le_sum [where f = "\<lambda>i. weight i * unat (raw ! i)"]) auto
  finally show "0 < header_sum raw n" .
  have "header_sum raw n \<le> word_sum (take n raw)"
    unfolding header_sum_def word_sum_take [OF assms(2)] by (intro sum_mono2) auto
  also have "\<dots> \<le> 65535 * ((n + 1) div 2)" using word_sum_bound [of "take n raw"] assms(2) by simp
  also have "\<dots> < 2 ^ 32" using assms(1) by simp
  finally show "header_sum raw n < 2 ^ 32" .
qed

definition ipv4_checksum :: "TcpPacket \<Rightarrow> u16" where
  "ipv4_checksum pkt = fold_checksum (of_nat (header_sum (tp_raw pkt) (tp_ip_header_len pkt)))"

lemma fix_ipv4_checksum_eq:
  assumes "20 \<le> tp_ip_header_len pkt" and "tp_ip_header_len pkt \<le> length (tp_raw pkt)"
  shows "fix_ipv4_checksum pkt =
    Some (pkt\<lparr>tp_raw := overwrite (tp_raw pkt) 10 (u16_to_be (ipv4_checksum pkt))\<rparr>)"
  using assms
  by (simp add: fix_ipv4_checksum_def ip_sum_spec byte_simps ipv4_checksum_def header_sum_def)

lemma ipv4_checksum_correct:
  assumes "20 \<le> tp_ip_header_len pkt" and "tp_ip_header_len pkt \<le> 60"
    and "tp_ip_header_len pkt \<le> length (tp_raw pkt)" and "tp_raw pkt ! 0 \<noteq> 0"
  shows "checksum_ok (word_sum (take (tp_ip_header_len pkt)
    (overwrite (tp_raw pkt) 10 (u16_to_be (ipv4_checksum pkt)))))"
proof -
  let ?s = "header_sum (tp_raw pkt) (tp_ip_header_len pkt)"
  have s: "0 < ?s" "?s < 2 ^ 32" by (rule header_sum_bounds; use assms in simp)+
  with fold_checksum_complements [OF s(2)] assms show ?thesis
    by (simp add: header_sum_fixed checksum_ok_def ipv4_checksum_def)
qed

subsection \<open>The TCP segment\<close>

lemma word_sum_field:
  assumes "even k" and "k + 2 \<le> length xs"
  shows "word_sum (overwrite xs k (u16_to_be c)) + unat (u16_from_be (xs ! k) (xs ! (k + 1))) =
    word_sum xs + unat c"
proof -
  have "xs = take k xs @ [xs ! k, xs ! (k + 1)] @ drop (k + 2) xs"
    using assms by (simp add: Cons_nth_drop_Suc)
  then have "word_sum xs = word_sum (take k xs) + word_sum [xs ! k, xs ! (k + 1)] + word_sum (drop (k + 2) xs)"
    using assms word_sum_append [of "take k xs"] word_sum_append [of "[xs ! k, xs ! (k + 1)]"]
    by (metis add.assoc add_leD1 even_numeral length_Cons length_take list.size(3) min.absorb2 numeral_2_eq_2)
  moreover have "word_sum (overwrite xs k (u16_to_be c)) =
      word_sum (take k xs) + unat c + word_sum (drop (k + 2) xs)"
    using assms word_sum_append [of "u16_to_be c"] by (simp add: overwrite_def word_sum_append)
  ultimately show ?thesis by (simp only: word_sum_pair)
qed

definition field_at :: "u8 list \<Rightarrow> usize \<Rightarrow> u16" where
  "field_at raw i = u16_from_be (raw ! i) (raw ! (i + 1))"

lemma be16_at_Some [byte_simps]: "i + 1 < length raw \<Longrightarrow> be16_at raw i = Some (field_at raw i)"
  by (simp add: be16_at_def field_at_def index_def)

lemma ip_at_Some [byte_simps]: "i + 4 \<le> length raw \<Longrightarrow> ip_at raw i = Some (take 4 (drop i raw))"
  by (simp add: ip_at_def index_def take_Cons' Cons_nth_drop_Suc [symmetric] numeral_3_eq_3)

lemma field_at_overwrite [simp]: "i + 2 \<le> length raw \<Longrightarrow> field_at (overwrite raw i (u16_to_be c)) i = c"
  by (simp add: field_at_def nth_overwrite)

text \<open>The lengths and the layout in the record are those the bytes say, and the packet fills the buffer.\<close>

definition tcp_valid :: "TcpPacket \<Rightarrow> bool" where
  "tcp_valid pkt \<longleftrightarrow> tcp_wf pkt \<and>
     drop_bit 4 (tp_raw pkt ! 0) = 4 \<and> unat (tp_raw pkt ! 0 AND 0x0f) * 4 = tp_ip_header_len pkt \<and>
     unat (field_at (tp_raw pkt) 2) = length (tp_raw pkt) \<and> tp_raw pkt ! 9 = 6 \<and>
     unat (drop_bit 4 (tp_raw pkt ! (tp_tcp_offset pkt + 12))) * 4 = tp_tcp_header_len pkt"

lemma parse_tcp_valid:
  assumes "TcpPacket_parse raw = Some (Some pkt)" and "tp_ip_total_len pkt = length raw"
  shows "tcp_valid pkt" and "tp_raw pkt = raw"
  using TcpPacket_parse_wf [OF assms(1)] assms(2) by (simp_all add: tcp_valid_def field_at_def)

lemma tcp_valid_parses:
  assumes "tcp_valid pkt"
  shows "TcpPacket_parse (tp_raw pkt) = Some (Some
    (pkt\<lparr>tp_ip_total_len := length (tp_raw pkt), tp_tcp_doff_field := tp_tcp_offset pkt + 12\<rparr>))"
  using assms unfolding tcp_valid_def tcp_wf_def field_at_def
  by (cases pkt) (auto simp: TcpPacket_parse_flat)

lemma tcp_valid_length: "tcp_valid pkt \<Longrightarrow> length (tp_raw pkt) \<le> 65535"
  using u16_less [of "field_at (tp_raw pkt) 2"] by (auto simp: tcp_valid_def)

text \<open>Bytes that neither the parser nor the layout reads may change freely.\<close>

lemma tcp_valid_update:
  assumes "tcp_valid pkt" and "length raw = length (tp_raw pkt)"
    and "\<And>i. i \<in> {0, 2, 3, 9, tp_tcp_offset pkt + 12} \<Longrightarrow> raw ! i = tp_raw pkt ! i"
  shows "tcp_valid (pkt\<lparr>tp_raw := raw\<rparr>)"
  using assms(1,2) assms(3) [of 0] assms(3) [of 2] assms(3) [of 3] assms(3) [of 9]
    assms(3) [of "tp_tcp_offset pkt + 12"]
  by (auto simp: tcp_valid_def tcp_wf_def field_at_def)

definition tcp_sum :: "TcpPacket \<Rightarrow> nat" where
  "tcp_sum pkt = segment_sum 6 (tp_raw pkt) (tp_tcp_offset pkt)
     (length (tp_raw pkt) - tp_tcp_offset pkt)"

definition with_tcp_checksum :: "TcpPacket \<Rightarrow> TcpPacket" where
  "with_tcp_checksum pkt = pkt\<lparr>tp_raw :=
     overwrite (tp_raw pkt) (tp_tcp_offset pkt + 16) (u16_to_be (fold_checksum (of_nat (tcp_sum pkt))))\<rparr>"

definition with_checksums :: "TcpPacket \<Rightarrow> TcpPacket" where
  "with_checksums pkt = (let p = with_tcp_checksum pkt in
     p\<lparr>tp_raw := overwrite (tp_raw p) 10 (u16_to_be (ipv4_checksum p))\<rparr>)"

lemma fix_tcp_checksum_eq:
  assumes "tcp_wf pkt"
  shows "fix_tcp_checksum pkt = Some (with_checksums pkt)"
proof -
  have wf: "20 \<le> tp_tcp_offset pkt" "tp_tcp_offset pkt + 20 \<le> length (tp_raw pkt)"
      "tp_checksum_offsets pkt = (10, tp_tcp_offset pkt + 16)" "tp_ip_header_len pkt = tp_tcp_offset pkt"
    using assms by (auto simp: tcp_wf_def)
  let ?acc = "of_nat (tcp_sum pkt) :: u32"
  have "fix_tcp_checksum pkt = do {
      raw \<leftarrow> copy_at (tp_raw pkt) (tp_tcp_offset pkt + 16) (u16_to_be (fold_checksum ?acc));
      fix_ipv4_checksum (pkt\<lparr>tp_raw := raw\<rparr>) }"
    using wf by (simp add: fix_tcp_checksum_def ip_at_Some pair_sum_evens Let_def tcp_sum_def
        segment_sum_def pseudo_sum_def algebra_simps)
  also have "\<dots> = fix_ipv4_checksum (with_tcp_checksum pkt)"
    using wf by (simp add: copy_at_Some with_tcp_checksum_def)
  also have "\<dots> = Some (with_checksums pkt)"
    using wf by (simp add: fix_ipv4_checksum_eq with_tcp_checksum_def with_checksums_def Let_def)
  finally show ?thesis .
qed

lemma with_checksums_simps [simp]:
  "tp_ip_header_len (with_checksums pkt) = tp_ip_header_len pkt"
  "tp_tcp_offset (with_checksums pkt) = tp_tcp_offset pkt"
  "tp_tcp_header_len (with_checksums pkt) = tp_tcp_header_len pkt"
  "tp_ip_total_len (with_checksums pkt) = tp_ip_total_len pkt"
  by (simp_all add: with_checksums_def with_tcp_checksum_def Let_def)

lemma with_checksums_bytes:
  assumes "tcp_wf pkt"
  shows "length (tp_raw (with_checksums pkt)) = length (tp_raw pkt)"
    and "i < length (tp_raw pkt) \<Longrightarrow> i \<notin> {10, 11, tp_tcp_offset pkt + 16, tp_tcp_offset pkt + 17} \<Longrightarrow>
      tp_raw (with_checksums pkt) ! i = tp_raw pkt ! i"
  using assms
  by (auto simp: with_checksums_def with_tcp_checksum_def Let_def nth_overwrite tcp_wf_def)

text \<open>
  Recomputing the TCP checksum sums the segment with the old checksum still in it, so the result is
  right only for an old checksum that counts as zero.
\<close>

lemma segment_sum_bound:
  assumes "len \<le> 65535" and "proto \<le> 255"
  shows "segment_sum proto raw off len < 2 ^ 32"
proof -
  have b: "word_sum xs \<le> 65535 * ((m + 1) div 2)" if "length xs \<le> m" for xs m
    using word_sum_bound [of xs] that by (meson add_le_mono1 div_le_mono le_trans mult_le_mono2)
  have "word_sum (take 4 (drop 12 raw)) \<le> 131070" "word_sum (take 4 (drop 16 raw)) \<le> 131070"
    using b [of "take 4 (drop 12 raw)" 4] b [of "take 4 (drop 16 raw)" 4] by simp_all
  moreover have "word_sum (take len (drop off raw)) \<le> 65535 * 32768"
    using b [of "take len (drop off raw)" 65535] assms by simp
  ultimately show ?thesis using assms by (simp add: segment_sum_def pseudo_sum_def)
qed

lemma tcp_sum_bound: "length (tp_raw pkt) \<le> 65535 \<Longrightarrow> tcp_sum pkt < 2 ^ 32"
  unfolding tcp_sum_def by (rule segment_sum_bound) simp_all

lemma segment_sum_with_checksums:
  assumes "tcp_wf pkt"
  shows "tcp_sum (with_checksums pkt) + unat (field_at (tp_raw pkt) (tp_tcp_offset pkt + 16)) =
    tcp_sum pkt + unat (fold_checksum (of_nat (tcp_sum pkt)))"
proof -
  let ?off = "tp_tcp_offset pkt" and ?raw = "tp_raw pkt"
  let ?c = "fold_checksum (of_nat (tcp_sum pkt))"
  have off: "20 \<le> ?off" "?off + 20 \<le> length ?raw" using assms by (auto simp: tcp_wf_def)
  let ?raw1 = "overwrite ?raw (?off + 16) (u16_to_be ?c)"
  have "drop ?off ?raw1 = overwrite (drop ?off ?raw) 16 (u16_to_be ?c)"
    using off by (intro drop_overwrite_inside) simp
  moreover have "field_at ?raw (?off + 16) = u16_from_be (drop ?off ?raw ! 16) (drop ?off ?raw ! (16 + 1))"
    using off by (simp add: field_at_def ac_simps)
  ultimately have "word_sum (drop ?off ?raw1) + unat (field_at ?raw (?off + 16)) =
      word_sum (drop ?off ?raw) + unat ?c"
    using word_sum_field [of 16 "drop ?off ?raw" ?c] off by simp
  moreover have "tcp_sum (with_checksums pkt) =
      pseudo_sum ?raw + 6 + (length ?raw - ?off) + word_sum (drop ?off ?raw1)"
    unfolding tcp_sum_def [of "with_checksums pkt"] using off
    by (simp add: segment_sum_def pseudo_sum_def with_checksums_def with_tcp_checksum_def Let_def drop_overwrite take_drop_before_overwrite)
  ultimately show ?thesis by (simp add: tcp_sum_def [of pkt] segment_sum_def)
qed

lemma tcp_valid_with_checksums: "tcp_valid pkt \<Longrightarrow> tcp_valid (with_checksums pkt)"
proof -
  assume v: "tcp_valid pkt"
  then have wf: "tcp_wf pkt" by (simp add: tcp_valid_def)
  have "with_checksums pkt = pkt\<lparr>tp_raw := tp_raw (with_checksums pkt)\<rparr>"
    by (simp add: with_checksums_def with_tcp_checksum_def Let_def)
  moreover have "tcp_valid (pkt\<lparr>tp_raw := tp_raw (with_checksums pkt)\<rparr>)"
    using wf by (intro tcp_valid_update [OF v] with_checksums_bytes) (auto simp: tcp_wf_def)
  ultimately show ?thesis by simp
qed

lemma ipv4_checksum_ok_with_checksums:
  assumes "tcp_valid pkt"
  shows "ipv4_checksum_ok (tp_raw (with_checksums pkt))"
proof -
  let ?p = "with_tcp_checksum pkt"
  have wf: "20 \<le> tp_ip_header_len pkt" "tp_ip_header_len pkt \<le> 60"
      "tp_tcp_offset pkt = tp_ip_header_len pkt" "tp_tcp_offset pkt + 20 \<le> length (tp_raw pkt)"
    using assms by (auto simp: tcp_valid_def tcp_wf_def)
  have nz: "tp_raw pkt ! 0 \<noteq> 0" "tp_raw pkt \<noteq> []" using assms wf by (auto simp: tcp_valid_def)
  have p: "tp_ip_header_len ?p = tp_ip_header_len pkt" "length (tp_raw ?p) = length (tp_raw pkt)"
      "tp_raw ?p ! 0 = tp_raw pkt ! 0"
    using wf nz(2) by (simp_all add: with_tcp_checksum_def nth_overwrite)
  then have "checksum_ok (word_sum (take (tp_ip_header_len pkt) (tp_raw (with_checksums pkt))))"
    using ipv4_checksum_correct [of ?p] wf nz by (simp add: with_checksums_def Let_def)
  moreover have "unat (tp_raw (with_checksums pkt) ! 0 AND 0x0f) * 4 = tp_ip_header_len pkt"
    using tcp_valid_with_checksums [OF assms] by (simp add: tcp_valid_def)
  ultimately show ?thesis by (simp add: ipv4_checksum_ok_def)
qed

lemma tcp_checksum_ok_valid: "tcp_valid pkt \<Longrightarrow> tcp_checksum_ok (tp_raw pkt) \<longleftrightarrow> checksum_ok (tcp_sum pkt)"
  by (auto simp: tcp_checksum_ok_def tcp_sum_def tcp_valid_def tcp_wf_def field_at_def Let_def)

lemma dvd_u16: "65535 dvd unat c \<longleftrightarrow> c \<in> {0, 0xffff}" for c :: u16
proof
  assume "65535 dvd unat c"
  then obtain k where k: "unat c = 65535 * k" by (elim dvdE)
  with u16_less [of c] have "k = 0 \<or> k = 1" by auto
  with k have "unat c = 0 \<or> unat c = unat (0xffff :: u16)" by auto
  then show "c \<in> {0, 0xffff}" by (auto simp only: unat_eq_zero word_unat_eq_iff [symmetric] insert_iff)
qed auto

lemma tcp_checksum_with_checksums:
  assumes "tcp_valid pkt"
  shows "tcp_checksum_ok (tp_raw (with_checksums pkt)) \<longleftrightarrow>
    field_at (tp_raw pkt) (tp_tcp_offset pkt + 16) \<in> {0, 0xffff}"
proof -
  let ?s = "tcp_sum pkt" and ?s' = "tcp_sum (with_checksums pkt)"
  let ?c = "unat (field_at (tp_raw pkt) (tp_tcp_offset pkt + 16))"
  have "tcp_wf pkt" using assms by (simp add: tcp_valid_def)
  then have "?s' + ?c = ?s + unat (fold_checksum (of_nat ?s))" by (rule segment_sum_with_checksums)
  moreover have "65535 dvd ?s + unat (fold_checksum (of_nat ?s))"
    using fold_checksum_complements tcp_sum_bound tcp_valid_length [OF assms] by blast
  ultimately have "65535 dvd ?s' + ?c" by simp
  then have "65535 dvd ?s' \<longleftrightarrow> 65535 dvd ?c" by (metis dvd_add_left_iff dvd_add_right_iff)
  moreover have "?s' \<noteq> 0" by (simp add: tcp_sum_def segment_sum_def)
  ultimately show ?thesis
    by (simp add: tcp_checksum_ok_valid [OF tcp_valid_with_checksums [OF assms]] checksum_ok_def dvd_u16)
qed

definition example_syn :: "u8 list" where
  "example_syn =
     [0x45, 0, 0, 44, 0, 0, 0, 0, 64, 6, 0, 0, 10, 0, 0, 1, 10, 0, 0, 2] @
     [0, 0, 0x01, 0xbb, 0, 0, 0, 0, 0, 0, 0, 0, 0x60, 0x02, 0, 0, 0x12, 0x34, 0, 0] @ [2, 4, 5, 0xb4]"

definition example_packet :: TcpPacket where
  "example_packet =
     \<lparr>tp_raw = example_syn, tp_ip_header_len = 20, tp_ip_total_len = 44, tp_tcp_offset = 20,
      tp_tcp_header_len = 24, tp_tcp_doff_field = 32, tp_checksum_offsets = (10, 36)\<rparr>"

lemma example_parse: "TcpPacket_parse example_syn = Some (Some example_packet)"
  by code_simp

text \<open>
  C37. Recomputing the checksums of a TCP packet never panics, keeps every byte outside the two
  checksum fields and makes the IPv4 header checksum right. The TCP checksum is right exactly when
  the field held \<open>0\<close> or \<open>0xffff\<close> before: the field is not cleared before the segment is summed.
\<close>

theorem tcp_checksum_fixed_iff:
  assumes "TcpPacket_parse raw = Some (Some pkt)" and "tp_ip_total_len pkt = length raw"
  shows "\<exists>pkt'. fix_tcp_checksum pkt = Some pkt' \<and> length (tp_raw pkt') = length raw \<and>
    (\<forall>i < length raw. i \<notin> {10, 11, tp_tcp_offset pkt + 16, tp_tcp_offset pkt + 17} \<longrightarrow>
       tp_raw pkt' ! i = raw ! i) \<and>
    ipv4_checksum_ok (tp_raw pkt') \<and>
    (tcp_checksum_ok (tp_raw pkt') \<longleftrightarrow> field_at raw (tp_tcp_offset pkt + 16) \<in> {0, 0xffff})"
proof -
  note v = parse_tcp_valid [OF assms]
  then have wf: "tcp_wf pkt" by (simp add: tcp_valid_def)
  show ?thesis
    using fix_tcp_checksum_eq [OF wf] with_checksums_bytes [OF wf]
      ipv4_checksum_ok_with_checksums [OF v(1)] tcp_checksum_with_checksums [OF v(1)] v(2)
    by simp
qed

theorem tcp_checksum_fixed_iff_witness:
  "\<exists>pkt'. TcpPacket_parse example_syn = Some (Some example_packet) \<and>
     fix_tcp_checksum example_packet = Some pkt' \<and> ipv4_checksum_ok (tp_raw pkt') \<and>
     \<not> tcp_checksum_ok (tp_raw pkt')"
proof -
  have "tp_ip_total_len example_packet = length example_syn" by code_simp
  moreover have "field_at example_syn (tp_tcp_offset example_packet + 16) \<notin> {0, 0xffff}" by code_simp
  ultimately show ?thesis
    using tcp_checksum_fixed_iff [OF example_parse] example_parse by auto
qed

end
