(* ===== verification/B4Options.thy ===== *)
theory B4Options
  imports B4Checksum
begin

text \<open>
  TCP options (\<open>tcp_opt\<close> of \<open>src/crates/balansir-b4/src/packet.rs\<close>). The specification reads the option
  bytes of a header as a list of options followed by a rest that does not parse: the end marker with
  its padding, or a malformed option. \<open>set_mss\<close> and \<open>strip_option\<close> are shown to act on that list.
\<close>

subsection \<open>The option list of a header\<close>

datatype tcp_option = Nop | Opt u8 "u8 list"

function parse_options :: "u8 list \<Rightarrow> tcp_option list \<times> u8 list" where
  "parse_options [] = ([], [])"
| "parse_options [k] = (if k = 1 then ([Nop], []) else ([], [k]))"
| "parse_options (k # l # xs) =
     (if k = 0 then ([], k # l # xs)
      else if k = 1 then (let (os, rest) = parse_options (l # xs) in (Nop # os, rest))
      else if unat l < 2 \<or> length xs + 2 < unat l then ([], k # l # xs)
      else let (os, rest) = parse_options (drop (unat l - 2) xs)
        in (Opt k (take (unat l - 2) xs) # os, rest))"
  by pat_completeness auto
termination
  by (relation "measure length") auto

fun show_option :: "tcp_option \<Rightarrow> u8 list" where
  "show_option Nop = [1]"
| "show_option (Opt k d) = k # of_nat (length d + 2) # d"

definition show_options :: "tcp_option list \<Rightarrow> u8 list" where
  "show_options os = concat (map show_option os)"

fun option_wf :: "tcp_option \<Rightarrow> bool" where
  "option_wf Nop = True"
| "option_wf (Opt k d) \<longleftrightarrow> k \<noteq> 0 \<and> k \<noteq> 1 \<and> length d + 2 < 256"

fun of_kind :: "u8 \<Rightarrow> tcp_option \<Rightarrow> bool" where
  "of_kind kind Nop = False"
| "of_kind kind (Opt k d) \<longleftrightarrow> k = kind"

lemma show_options_simps [simp]:
  "show_options [] = []"
  "show_options (o' # os) = show_option o' @ show_options os"
  "show_options (os @ os') = show_options os @ show_options os'"
  by (simp_all add: show_options_def)

lemma unat_option_len [simp]: "n < 254 \<Longrightarrow> unat (2 + of_nat n :: u8) = n + 2"
  by (simp add: unat_word_ariths unat_of_nat)

lemma option_len_unat [simp]: "2 \<le> unat l \<Longrightarrow> 2 + of_nat (unat l - 2) = l" for l :: u8
  by (rule word_unat_eq_iff [THEN iffD2]) (use u8_less [of l] in simp)

lemma show_parse_options:
  "parse_options xs = (os, rest) \<Longrightarrow> show_options os @ rest = xs \<and> list_all option_wf os"
proof (induction xs arbitrary: os rest rule: parse_options.induct)
  case (3 k l xs)
  show ?case
  proof (cases "k = 0 \<or> k \<noteq> 1 \<and> (unat l < 2 \<or> length xs + 2 < unat l)")
    case True
    with 3 show ?thesis by (auto split: if_splits)
  next
    case False
    have "min (length xs) (unat l - 2) = unat l - 2" if "\<not> length xs + 2 < unat l"
      using that by simp
    with False 3 u8_less [of l] show ?thesis
      by (auto split: if_splits prod.splits)
  qed
qed (auto split: if_splits)

lemma parse_show_options:
  "list_all option_wf os \<Longrightarrow>
   parse_options (show_options os @ xs) =
     (os @ fst (parse_options xs), snd (parse_options xs))"
proof (induction os)
  case (Cons o' os)
  show ?case
  proof (cases o')
    case Nop
    show ?thesis
    proof (cases "show_options os @ xs")
      case Nil
      with Nop Cons show ?thesis by auto
    next
      case (Cons y ys)
      with Nop Cons.IH Cons.prems show ?thesis by (auto simp: Let_def split: prod.splits)
    qed
  next
    case (Opt k d)
    with Cons show ?thesis by (auto simp: Let_def split: prod.splits)
  qed
qed simp

lemma parse_nops: "parse_options (replicate n 1) = (replicate n Nop, [])"
  using parse_show_options [of "replicate n Nop" "[]"]
  by (simp add: show_options_def concat_replicate_single list_all_length)

subsection \<open>The loops walk the option list\<close>

definition region :: "u8 list \<Rightarrow> usize \<Rightarrow> usize \<Rightarrow> u8 list" where
  "region raw stop i = take (stop - i) (drop i raw)"

lemma region_Cons: "i < stop \<Longrightarrow> stop \<le> length raw \<Longrightarrow> region raw stop i = raw ! i # region raw stop (Suc i)"
  by (simp add: region_def take_Cons' Cons_nth_drop_Suc [symmetric])

lemma region_end [simp]: "stop \<le> i \<Longrightarrow> region raw stop i = []"
  by (simp add: region_def)

lemma length_region [simp]: "stop \<le> length raw \<Longrightarrow> length (region raw stop i) = stop - i"
  by (simp add: region_def)

lemma drop_region: "drop n (region raw stop i) = region raw stop (i + n)"
  by (simp add: region_def drop_take add.commute)

lemma slice_region: "i \<le> stop \<Longrightarrow> stop \<le> length raw \<Longrightarrow> slice raw i stop = Some (region raw stop i)"
  by (simp add: slice_def region_def)

lemma take_region: "i + n \<le> stop \<Longrightarrow> take n (region raw stop i) = take n (drop i raw)"
  by (simp add: region_def min_def)

lemma parse_options_stop: "xs \<noteq> [] \<Longrightarrow> hd xs = 0 \<Longrightarrow> parse_options xs = ([], xs)"
  by (cases xs rule: parse_options.cases) auto

lemma parse_options_nop:
  "parse_options (1 # xs) = (Nop # fst (parse_options xs), snd (parse_options xs))"
  using parse_show_options [of "[Nop]" xs] by simp

text \<open>The byte after a last lone kind byte is read before the bound is checked.\<close>

definition dangling :: "u8 list \<Rightarrow> usize \<Rightarrow> u8 list \<Rightarrow> bool" where
  "dangling raw stop rest \<longleftrightarrow> (\<exists>k. rest = [k] \<and> k \<noteq> 0) \<and> stop = length raw"

lemma region_malformed:
  assumes "Suc i < stop" and "stop \<le> length raw" and "raw ! i \<noteq> 0" and "raw ! i \<noteq> 1"
    and "unat (raw ! Suc i) < 2 \<or> stop < i + unat (raw ! Suc i)"
  shows "parse_options (region raw stop i) = ([], region raw stop i)" and "\<not> dangling raw stop (region raw stop i)"
proof -
  have "region raw stop i = raw ! i # raw ! Suc i # region raw stop (Suc (Suc i))"
    using assms by (simp add: region_Cons)
  moreover have "unat (raw ! Suc i) < 2 \<or> length (region raw stop (Suc (Suc i))) + 2 < unat (raw ! Suc i)"
    using assms by auto
  ultimately show "parse_options (region raw stop i) = ([], region raw stop i)"
      "\<not> dangling raw stop (region raw stop i)"
    using assms(3,4) by (simp_all add: dangling_def)
qed

lemma region_option:
  fixes raw i
  defines "l \<equiv> unat (raw ! Suc i)"
  assumes "Suc i < stop" and "stop \<le> length raw" and "raw ! i \<noteq> 0" and "raw ! i \<noteq> 1"
    and "\<not> (l < 2 \<or> stop < i + l)"
  shows "\<exists>d. parse_options (region raw stop i) =
      (Opt (raw ! i) d # fst (parse_options (region raw stop (i + l))),
       snd (parse_options (region raw stop (i + l)))) \<and>
    slice raw i (i + l) = Some (show_option (Opt (raw ! i) d)) \<and> length d + 2 = l"
proof -
  let ?d = "take (l - 2) (region raw stop (Suc (Suc i)))"
  have reg: "region raw stop i = raw ! i # raw ! Suc i # region raw stop (Suc (Suc i))"
    using assms by (simp add: region_Cons)
  have len: "\<not> l < 2" "\<not> length (region raw stop (Suc (Suc i))) + 2 < l" "length ?d + 2 = l"
    using assms by auto
  have "drop (l - 2) (region raw stop (Suc (Suc i))) = region raw stop (i + l)"
  proof -
    have "Suc (Suc i) + (l - 2) = i + l" using len(1) by simp
    then show ?thesis by (simp only: drop_region)
  qed
  then have parse: "parse_options (region raw stop i) =
      (Opt (raw ! i) ?d # fst (parse_options (region raw stop (i + l))),
       snd (parse_options (region raw stop (i + l))))"
    using assms(4,5) len(1,2) by (simp add: reg l_def Let_def split: prod.splits)
  have "take l (region raw stop i) = raw ! i # raw ! Suc i # ?d"
    using len(1) by (simp add: reg take_Cons' numeral_2_eq_2)
  moreover have "2 + of_nat (length ?d) = raw ! Suc i"
    using len option_len_unat [of "raw ! Suc i"] unfolding l_def by (metis add_diff_cancel_right' not_less)
  ultimately have "take l (drop i raw) = show_option (Opt (raw ! i) ?d)"
    using assms(6) take_region [of i l "stop" raw] by simp
  then show ?thesis using parse len(3) assms by (intro exI [of _ ?d]) (simp add: slice_def)
qed

text \<open>One turn of the loop takes one option, or the malformed rest, off the region.\<close>

lemma strip_loop_spec:
  assumes "stop \<le> length raw" and "i \<le> stop" and "parse_options (region raw stop i) = (os, rest)"
  shows "strip_loop kind raw stop i kept changed =
    (if dangling raw stop rest then None
     else Some (kept @ show_options (filter (\<lambda>x. \<not> of_kind kind x) os) @ rest,
       changed \<or> list_ex (of_kind kind) os))"
  using assms
proof (induction "stop - i" arbitrary: i kept changed os rest rule: less_induct)
  case less
  note unfold = strip_loop.simps [of kind raw "stop" i kept changed] and le = less.prems(1)
  consider "i = stop" | "i < stop" "raw ! i = 0" | "i < stop" "raw ! i = 1"
    | "raw ! i \<noteq> 0" "raw ! i \<noteq> 1" "Suc i = stop" | "raw ! i \<noteq> 0" "raw ! i \<noteq> 1" "Suc i < stop"
    using less.prems(2) by linarith
  then show ?case
  proof cases
    case 1
    with less.prems show ?thesis unfolding unfold by (auto simp: dangling_def)
  next
    case 2
    then have "os = []" "rest = region raw stop i"
      using less.prems parse_options_stop [of "region raw stop i"] by (simp_all add: region_Cons)
    with 2 le show ?thesis by (simp add: unfold index_def slice_region dangling_def region_Cons)
  next
    case 3
    obtain os' where os': "parse_options (region raw stop (Suc i)) = (os', rest)" "os = Nop # os'"
      using less.prems 3 by (cases "parse_options (region raw stop (Suc i))")
        (auto simp: region_Cons parse_options_nop intro: that)
    have "strip_loop kind raw stop (Suc i) (kept @ [1]) changed =
        (if dangling raw stop rest then None
         else Some ((kept @ [1]) @ show_options (filter (\<lambda>x. \<not> of_kind kind x) os') @ rest,
           changed \<or> list_ex (of_kind kind) os'))"
      using 3 le os'(1) by (intro less.hyps) simp_all
    with 3 le os'(2) show ?thesis by (simp add: unfold index_def)
  next
    case 4
    then have "os = []" "rest = [raw ! i]" using less.prems by (simp_all add: region_Cons)
    moreover have "stop < i + unat l" if "\<not> unat l < 2" for l :: u8 using that 4(3) by simp
    ultimately show ?thesis
      using 4 le by (auto simp: unfold index_def slice_region dangling_def region_Cons)
  next
    case 5
    let ?l = "unat (raw ! Suc i)"
    show ?thesis
    proof (cases "?l < 2 \<or> stop < i + ?l")
      case True
      with region_malformed [OF 5(3) le 5(1,2)] have "os = []" "rest = region raw stop i" "\<not> dangling raw stop rest"
        using less.prems(3) by auto
      with 5 True le show ?thesis by (auto simp: unfold index_def slice_region)
    next
      case False
      from region_option [OF 5(3) le 5(1,2) False] less.prems(3) obtain d os' where
        os': "parse_options (region raw stop (i + ?l)) = (os', rest)" "os = Opt (raw ! i) d # os'"
          "slice raw i (i + ?l) = Some (show_option (Opt (raw ! i) d))"
        by (cases "parse_options (region raw stop (i + ?l))") (auto intro: that)
      have "strip_loop kind raw stop (i + ?l) kept' changed' =
          (if dangling raw stop rest then None
           else Some (kept' @ show_options (filter (\<lambda>x. \<not> of_kind kind x) os') @ rest,
             changed' \<or> list_ex (of_kind kind) os'))" for kept' changed'
        using 5 le os'(1) False by (intro less.hyps) auto
      with 5 False le os' show ?thesis by (simp add: unfold index_def del: show_option.simps)
    qed
  qed
qed

subsection \<open>Rebuilding the header\<close>

definition options_of :: "TcpPacket \<Rightarrow> u8 list" where
  "options_of pkt =
     region (tp_raw pkt) (tp_tcp_offset pkt + tp_tcp_header_len pkt) (tp_tcp_offset pkt + 20)"

lemma drop_bit_nibbles:
  fixes d b :: u8
  assumes "unat d \<le> 15"
  shows "drop_bit 4 (push_bit 4 d OR (b AND 0x0f)) = d"
proof -
  have "take_bit 4 d = d"
    using assms by (simp add: word_unat_eq_iff unsigned_take_bit_eq take_bit_nat_eq_self)
  then have "n < 4" if "bit d n" for n using that by (metis bit_take_bit_iff)
  moreover have "b AND 0x0f = take_bit 4 b" by (simp add: take_bit_eq_mask mask_eq_exp_minus_1)
  ultimately show ?thesis
    by (intro bit_word_eqI) (auto simp: bit_drop_bit_eq bit_or_iff bit_push_bit_iff bit_take_bit_iff)
qed

definition rebuilt_raw :: "TcpPacket \<Rightarrow> u8 list \<Rightarrow> u8 list" where
  "rebuilt_raw pkt kept =
     (let off = tp_tcp_offset pkt; raw = tp_raw pkt;
          out = take (off + 20) raw @ kept @ drop (off + tp_tcp_header_len pkt) raw;
          dof = of_nat ((20 + length kept) div 4)
      in overwrite (out[off + 12 := push_bit 4 dof OR (raw ! (off + 12) AND 0x0f)])
           2 (u16_to_be (of_nat (length out))))"

definition rebuilt :: "TcpPacket \<Rightarrow> u8 list \<Rightarrow> TcpPacket" where
  "rebuilt pkt kept = pkt\<lparr>tp_raw := rebuilt_raw pkt kept, tp_tcp_header_len := 20 + length kept\<rparr>"

lemma rebuild_eq:
  assumes "tcp_wf pkt" and "4 dvd length kept"
  shows "rebuild pkt kept = Some (rebuilt pkt kept)"
proof -
  let ?off = "tp_tcp_offset pkt" and ?raw = "tp_raw pkt"
  have wf: "20 \<le> ?off" "?off + tp_tcp_header_len pkt \<le> length ?raw" "20 \<le> tp_tcp_header_len pkt"
    using assms by (auto simp: tcp_wf_def)
  have dvd: "(20 + length kept + 3) div 4 * 4 = 20 + length kept" using assms(2) by presburger
  then have dvd': "(20 + length kept + 3) div 4 * 4 div 4 = (20 + length kept) div 4" by simp
  have split: "take ?off ?raw @ take 20 (drop ?off ?raw) = take (?off + 20) ?raw"
    by (simp add: take_add)
  then show ?thesis
    using wf dvd dvd' unfolding rebuild_def
    by (simp add: Let_def byte_simps rebuilt_def rebuilt_raw_def nth_append
        append_assoc [symmetric] del: append_assoc)
qed

lemma rebuilt_bytes:
  assumes "tcp_wf pkt"
  shows "length (rebuilt_raw pkt kept) =
      tp_tcp_offset pkt + 20 + length kept + (length (tp_raw pkt) - (tp_tcp_offset pkt + tp_tcp_header_len pkt))"
    and "i < tp_tcp_offset pkt + 20 \<Longrightarrow> i \<notin> {2, 3, tp_tcp_offset pkt + 12} \<Longrightarrow>
      rebuilt_raw pkt kept ! i = tp_raw pkt ! i"
    and "field_at (rebuilt_raw pkt kept) 2 = of_nat (length (rebuilt_raw pkt kept))"
    and "rebuilt_raw pkt kept ! (tp_tcp_offset pkt + 12) =
      push_bit 4 (of_nat ((20 + length kept) div 4)) OR (tp_raw pkt ! (tp_tcp_offset pkt + 12) AND 0x0f)"
    and "drop (tp_tcp_offset pkt + 20) (rebuilt_raw pkt kept) =
      kept @ drop (tp_tcp_offset pkt + tp_tcp_header_len pkt) (tp_raw pkt)"
  using assms
  by (auto simp: tcp_wf_def rebuilt_raw_def Let_def nth_overwrite nth_append drop_overwrite
      drop_update_cancel field_at_def)

lemma rebuilt_valid:
  assumes "tcp_valid pkt" and "4 dvd length kept" and "20 + length kept \<le> tp_tcp_header_len pkt"
  shows "tcp_valid (rebuilt pkt kept)"
proof -
  let ?off = "tp_tcp_offset pkt" and ?raw = "rebuilt_raw pkt kept"
  have wf: "tcp_wf pkt" using assms(1) by (simp add: tcp_valid_def)
  note len = rebuilt_bytes(1) [OF wf, of kept]
  have "20 + length kept \<le> 60" using wf assms(3) by (auto simp: tcp_wf_def)
  then have dof: "unat (of_nat ((20 + length kept) div 4) :: u8) = (20 + length kept) div 4"
      "(20 + length kept) div 4 \<le> 15"
    by (simp_all add: unat_of_nat)
  have "unat (drop_bit 4 (?raw ! (?off + 12))) * 4 = (20 + length kept) div 4 * 4"
    unfolding rebuilt_bytes(4) [OF wf] using dof by (subst drop_bit_nibbles) simp_all
  also have "\<dots> = 20 + length kept" using assms(2) by presburger
  finally have doff: "unat (drop_bit 4 (?raw ! (?off + 12))) * 4 = 20 + length kept" .
  have "length ?raw \<le> 65535" and fits: "?off + (20 + length kept) \<le> length ?raw"
    using wf assms(3) tcp_valid_length [OF assms(1)] len by (auto simp: tcp_wf_def)
  then have "unat (field_at ?raw 2) = length ?raw"
    unfolding rebuilt_bytes(3) [OF wf] by (simp add: unat_of_nat)
  moreover have "?raw ! 0 = tp_raw pkt ! 0" "?raw ! 9 = tp_raw pkt ! 9"
    using wf by (auto intro!: rebuilt_bytes(2) [OF wf] simp: tcp_wf_def)
  ultimately show ?thesis
    using assms doff fits by (auto simp: tcp_valid_def tcp_wf_def rebuilt_def)
qed

lemma rebuilt_parts:
  assumes "tcp_wf pkt"
  shows "options_of (rebuilt pkt kept) = kept" and "tcp_payload (rebuilt pkt kept) = tcp_payload pkt"
    and "tp_tcp_offset (rebuilt pkt kept) = tp_tcp_offset pkt"
proof -
  note d = rebuilt_bytes(5) [OF assms, of kept] and l = rebuilt_bytes(1) [OF assms, of kept]
  show "options_of (rebuilt pkt kept) = kept" using d by (simp add: options_of_def region_def rebuilt_def)
  have "drop (tp_tcp_offset pkt + (20 + length kept)) (rebuilt_raw pkt kept) =
      drop (length kept) (drop (tp_tcp_offset pkt + 20) (rebuilt_raw pkt kept))"
    by (simp add: ac_simps)
  then show "tcp_payload (rebuilt pkt kept) = tcp_payload pkt"
    using assms l d by (auto simp: tcp_payload_def rebuilt_def slice_from_def tcp_wf_def)
  show "tp_tcp_offset (rebuilt pkt kept) = tp_tcp_offset pkt" by (simp add: rebuilt_def)
qed

subsection \<open>Stripping an option\<close>

definition has_dangling_kind :: "TcpPacket \<Rightarrow> bool" where
  "has_dangling_kind pkt \<longleftrightarrow>
     dangling (tp_raw pkt) (tp_tcp_offset pkt + tp_tcp_header_len pkt)
       (snd (parse_options (options_of pkt)))"

definition kept_options :: "u8 \<Rightarrow> TcpPacket \<Rightarrow> u8 list" where
  "kept_options kind pkt =
     show_options (filter (\<lambda>x. \<not> of_kind kind x) (fst (parse_options (options_of pkt)))) @
     snd (parse_options (options_of pkt))"

lemma strip_option_eq:
  assumes "tcp_wf pkt"
  shows "strip_option kind pkt =
    (if has_dangling_kind pkt then None
     else if list_ex (of_kind kind) (fst (parse_options (options_of pkt)))
     then Some (True, rebuilt pkt (pad4 1 (kept_options kind pkt)))
     else Some (False, pkt))"
proof -
  obtain os rest where p: "parse_options (options_of pkt) = (os, rest)" by (cases "parse_options (options_of pkt)")
  have "strip_loop kind (tp_raw pkt) (tp_tcp_offset pkt + tp_tcp_header_len pkt) (tp_tcp_offset pkt + 20) [] False =
      (if dangling (tp_raw pkt) (tp_tcp_offset pkt + tp_tcp_header_len pkt) rest then None
       else Some ([] @ show_options (filter (\<lambda>x. \<not> of_kind kind x) os) @ rest,
         False \<or> list_ex (of_kind kind) os))"
    using assms p by (intro strip_loop_spec) (auto simp: tcp_wf_def options_of_def)
  then show ?thesis
    using p by (simp add: strip_option_def has_dangling_kind_def kept_options_def
        rebuild_eq [OF assms dvd_length_pad4])
qed

lemma length_show_options_filter:
  "length (show_options (filter P os)) \<le> length (show_options os)"
  by (induction os) auto

lemma length_show_options_removed:
  "list_ex (of_kind kind) os \<Longrightarrow>
   length (show_options (filter (\<lambda>x. \<not> of_kind kind x) os)) + 2 \<le> length (show_options os)"
proof (induction os)
  case (Cons o' os)
  then show ?case
    using length_show_options_filter [of "\<lambda>x. \<not> of_kind kind x" os] by (cases o') (auto split: if_splits)
qed simp

lemma kept_options_fit:
  assumes "tcp_wf pkt" and "list_ex (of_kind kind) (fst (parse_options (options_of pkt)))"
  shows "20 + length (pad4 1 (kept_options kind pkt)) \<le> tp_tcp_header_len pkt"
proof -
  have "show_options (fst (parse_options (options_of pkt))) @ snd (parse_options (options_of pkt)) = options_of pkt"
    using show_parse_options [of "options_of pkt"] by (metis prod.collapse)
  then have "length (options_of pkt) = length (show_options (fst (parse_options (options_of pkt)))) +
      length (snd (parse_options (options_of pkt)))"
    by (metis length_append)
  then have "length (kept_options kind pkt) + 2 \<le> length (options_of pkt)"
    using length_show_options_removed [OF assms(2)] by (simp add: kept_options_def)
  moreover have "length (options_of pkt) + 20 = tp_tcp_header_len pkt"
    using assms(1) by (auto simp: tcp_wf_def options_of_def)
  ultimately have "length (pad4 1 (kept_options kind pkt)) + 20 < tp_tcp_header_len pkt + 4"
    using length_pad4_le [of 1 "kept_options kind pkt"] by linarith
  moreover have "4 dvd length (pad4 1 (kept_options kind pkt)) + 20" "4 dvd tp_tcp_header_len pkt"
    using assms(1) dvd_length_pad4 [of 1 "kept_options kind pkt"] by (auto simp: tcp_wf_def)
  ultimately show ?thesis by presburger
qed

lemma parse_kept_options:
  assumes "parse_options (options_of pkt) = (os, rest)" and "rest = [] \<or> hd rest = 0"
  shows "\<exists>n. fst (parse_options (pad4 1 (kept_options kind pkt))) =
    filter (\<lambda>x. \<not> of_kind kind x) os @ replicate n Nop"
proof -
  let ?os = "filter (\<lambda>x. \<not> of_kind kind x) os"
  obtain n where "pad4 1 (kept_options kind pkt) = show_options ?os @ rest @ replicate n 1"
    using assms(1) by (simp add: kept_options_def pad4_eq)
  moreover have "list_all option_wf ?os"
    using show_parse_options [OF assms(1)] by (auto simp: list_all_iff)
  ultimately have "fst (parse_options (pad4 1 (kept_options kind pkt))) =
      ?os @ fst (parse_options (rest @ replicate n 1))"
    by (simp add: parse_show_options)
  moreover have "\<exists>m. fst (parse_options (rest @ replicate n 1)) = replicate m Nop"
  proof (cases "rest = []")
    case True
    then show ?thesis by (auto simp: parse_nops)
  next
    case False
    then have "parse_options (rest @ replicate n 1) = ([], rest @ replicate n 1)"
      using assms(2) by (intro parse_options_stop) auto
    then show ?thesis by (intro exI [of _ 0]) simp
  qed
  ultimately show ?thesis by auto
qed


definition example_sack :: "u8 list" where
  "example_sack = [0x45, 0, 0, 48] @ take 28 (drop 4 example_syn) @ [0x70] @ drop 33 example_syn @ [4, 2, 1, 1]"

definition example_sack_packet :: TcpPacket where
  "example_sack_packet =
     example_packet\<lparr>tp_raw := example_sack, tp_ip_total_len := 48, tp_tcp_header_len := 28\<rparr>"


subsection \<open>Rewriting the MSS\<close>

fun is_mss :: "tcp_option \<Rightarrow> bool" where
  "is_mss Nop = False"
| "is_mss (Opt k d) \<longleftrightarrow> k = MSS \<and> 2 \<le> length d"

fun mss_pos :: "usize \<Rightarrow> tcp_option list \<Rightarrow> usize option" where
  "mss_pos p [] = None"
| "mss_pos p (x # os) = (if is_mss x then Some p else mss_pos (p + length (show_option x)) os)"

fun update_mss :: "u16 \<Rightarrow> tcp_option list \<Rightarrow> tcp_option list" where
  "update_mss mss [] = []"
| "update_mss mss (Nop # os) = Nop # update_mss mss os"
| "update_mss mss (Opt k d # os) =
     (if is_mss (Opt k d) then Opt k (u16_to_be mss @ drop 2 d) # os else Opt k d # update_mss mss os)"

lemma mss_loop_spec:
  assumes "stop \<le> length raw" and "i \<le> stop" and "parse_options (region raw stop i) = (os, rest)"
  shows "mss_loop mss stop i raw = Some (case mss_pos i os of
      None \<Rightarrow> (False, raw) | Some p \<Rightarrow> (True, overwrite raw (p + 2) (u16_to_be mss)))"
  using assms
proof (induction "stop - i" arbitrary: i os rest rule: less_induct)
  case less
  note unfold = mss_loop.simps [of mss "stop" i raw] and le = less.prems(1)
  consider "stop \<le> Suc i" | "Suc i < stop" "raw ! i = 0" | "Suc i < stop" "raw ! i = 1"
    | "raw ! i \<noteq> 0" "raw ! i \<noteq> 1" "Suc i < stop" by linarith
  then show ?case
  proof cases
    case 1
    then have "i = stop \<or> region raw stop i = [raw ! i]"
      using le less.prems(2) by (cases "i = stop") (simp_all add: region_Cons)
    then have "mss_pos i os = None" using less.prems(3) by (auto split: if_splits)
    with 1 show ?thesis by (simp add: unfold)
  next
    case 2
    then have "os = []"
      using less.prems parse_options_stop [of "region raw stop i"] by (simp add: region_Cons)
    with 2 le show ?thesis by (simp add: unfold index_def)
  next
    case 3
    obtain os' where os': "parse_options (region raw stop (Suc i)) = (os', rest)" "os = Nop # os'"
      using less.prems 3 by (cases "parse_options (region raw stop (Suc i))")
        (auto simp: region_Cons parse_options_nop intro: that)
    have "mss_loop mss stop (Suc i) raw = Some (case mss_pos (Suc i) os' of
        None \<Rightarrow> (False, raw) | Some p \<Rightarrow> (True, overwrite raw (p + 2) (u16_to_be mss)))"
      using 3 le os'(1) by (intro less.hyps) simp_all
    with 3 le os'(2) show ?thesis by (simp add: unfold index_def)
  next
    case 4
    let ?l = "unat (raw ! Suc i)"
    show ?thesis
    proof (cases "?l < 2 \<or> stop < i + ?l")
      case True
      with region_malformed(1) [OF 4(3) le 4(1,2)] less.prems(3) 4 le show ?thesis
        by (auto simp: unfold index_def)
    next
      case False
      from region_option [OF 4(3) le 4(1,2) False] less.prems(3) obtain d os' where
        os': "parse_options (region raw stop (i + ?l)) = (os', rest)" "os = Opt (raw ! i) d # os'"
          "length d + 2 = ?l"
        by (cases "parse_options (region raw stop (i + ?l))") (auto intro: that)
      have "mss_loop mss stop (i + ?l) raw = Some (case mss_pos (i + ?l) os' of
          None \<Rightarrow> (False, raw) | Some p \<Rightarrow> (True, overwrite raw (p + 2) (u16_to_be mss)))"
        using 4 le os'(1) False by (intro less.hyps) auto
      moreover have "is_mss (Opt (raw ! i) d) \<longleftrightarrow> raw ! i = MSS \<and> 4 \<le> ?l" using os'(3) by auto
      moreover have "i + length (show_option (Opt (raw ! i) d)) = i + ?l" using os'(3) by simp
      ultimately show ?thesis using 4 False le os'(2)
        by (auto simp: unfold index_def copy_at_def)
    qed
  qed
qed

lemma mss_pos_update:
  assumes "mss_pos p os = Some q" and "length pre = p" and "list_all option_wf os"
  shows "overwrite (pre @ show_options os @ post) (q + 2) (u16_to_be mss) =
    pre @ show_options (update_mss mss os) @ post"
  using assms
proof (induction os arbitrary: p pre)
  case (Cons x os)
  show ?case
  proof (cases "is_mss x")
    case True
    then obtain d where x: "x = Opt MSS d" "2 \<le> length d" by (cases x) auto
    have "drop (q + 4) (pre @ show_options (x # os) @ post) = drop 2 d @ show_options os @ post"
      using Cons.prems True x by simp
    moreover have "min (length d) 2 = 2" using x(2) by simp
    ultimately show ?thesis
      using Cons.prems True x by (simp add: overwrite_def)
  next
    case False
    have "overwrite ((pre @ show_option x) @ show_options os @ post) (q + 2) (u16_to_be mss) =
        (pre @ show_option x) @ show_options (update_mss mss os) @ post"
      using Cons.prems False by (intro Cons.IH [where p = "p + length (show_option x)"]) simp_all
    with False show ?thesis by (cases x) auto
  qed
qed simp

lemma mss_pos_None: "mss_pos p os = None \<longleftrightarrow> \<not> list_ex is_mss os"
  by (induction os arbitrary: p) auto

lemma update_mss_wf: "list_all option_wf os \<Longrightarrow> list_all option_wf (update_mss mss os)"
  by (induction mss os rule: update_mss.induct) auto

lemma update_mss_id: "\<not> list_ex is_mss os \<Longrightarrow> update_mss mss os = os"
  by (induction mss os rule: update_mss.induct) auto

lemma length_show_update: "length (show_options (update_mss mss os)) = length (show_options os)"
  by (induction mss os rule: update_mss.induct) auto

lemma parse_rest: "parse_options xs = (os, rest) \<Longrightarrow> parse_options rest = ([], rest)"
  by (induction xs arbitrary: os rest rule: parse_options.induct)
    (auto split: if_splits prod.splits simp: Let_def)

lemma options_split:
  assumes "tcp_wf pkt"
  shows "tp_raw pkt = take (tp_tcp_offset pkt + 20) (tp_raw pkt) @ options_of pkt @
    drop (tp_tcp_offset pkt + tp_tcp_header_len pkt) (tp_raw pkt)"
proof -
  have "20 \<le> tp_tcp_header_len pkt" using assms by (simp add: tcp_wf_def)
  then have "drop (tp_tcp_offset pkt + tp_tcp_header_len pkt) (tp_raw pkt) =
      drop (tp_tcp_header_len pkt - 20) (drop (tp_tcp_offset pkt + 20) (tp_raw pkt))"
    by (simp add: add.commute)
  then show ?thesis by (simp add: options_of_def region_def del: drop_drop)
qed

lemma set_mss_eq:
  assumes "tcp_valid pkt" and "parse_options (options_of pkt) = (os, rest)"
  shows "set_mss mss pkt = Some (list_ex is_mss os, pkt\<lparr>tp_raw :=
    take (tp_tcp_offset pkt + 20) (tp_raw pkt) @ (show_options (update_mss mss os) @ rest) @
    drop (tp_tcp_offset pkt + tp_tcp_header_len pkt) (tp_raw pkt)\<rparr>)"
proof -
  let ?pre = "take (tp_tcp_offset pkt + 20) (tp_raw pkt)"
  let ?post = "drop (tp_tcp_offset pkt + tp_tcp_header_len pkt) (tp_raw pkt)"
  have wf: "tcp_wf pkt" using assms(1) by (simp add: tcp_valid_def)
  then have le: "tp_tcp_offset pkt + 20 \<le> length (tp_raw pkt)" by (auto simp: tcp_wf_def)
  note shown = show_parse_options [OF assms(2)]
  have raw: "tp_raw pkt = ?pre @ show_options os @ (rest @ ?post)"
    using options_split [OF wf] shown by (metis append_assoc)
  have loop: "mss_loop mss (tp_tcp_offset pkt + tp_tcp_header_len pkt) (tp_tcp_offset pkt + 20) (tp_raw pkt) =
      Some (case mss_pos (tp_tcp_offset pkt + 20) os of
        None \<Rightarrow> (False, tp_raw pkt) | Some p \<Rightarrow> (True, overwrite (tp_raw pkt) (p + 2) (u16_to_be mss)))"
    using wf assms(2) by (intro mss_loop_spec) (auto simp: tcp_wf_def options_of_def)
  show ?thesis
  proof (cases "mss_pos (tp_tcp_offset pkt + 20) os")
    case None
    then have none: "\<not> list_ex is_mss os" by (simp add: mss_pos_None)
    moreover have "pkt = pkt\<lparr>tp_raw := ?pre @ show_options os @ (rest @ ?post)\<rparr>" using raw by simp
    ultimately show ?thesis using None loop by (simp add: set_mss_def update_mss_id)
  next
    case (Some p)
    then have "list_ex is_mss os" using mss_pos_None by (metis option.distinct(1))
    moreover have "overwrite (tp_raw pkt) (p + 2) (u16_to_be mss) =
        ?pre @ show_options (update_mss mss os) @ (rest @ ?post)"
    proof -
      have "overwrite (tp_raw pkt) (p + 2) (u16_to_be mss) =
          overwrite (?pre @ show_options os @ (rest @ ?post)) (p + 2) (u16_to_be mss)"
        using raw by (rule arg_cong [where f = "\<lambda>x. overwrite x (p + 2) (u16_to_be mss)"])
      also have "\<dots> = ?pre @ show_options (update_mss mss os) @ (rest @ ?post)"
        using le shown by (intro mss_pos_update [OF Some]) simp_all
      finally show ?thesis .
    qed
    ultimately show ?thesis using Some loop by (simp add: set_mss_def)
  qed
qed

definition with_mss :: "u16 \<Rightarrow> TcpPacket \<Rightarrow> TcpPacket" where
  "with_mss mss pkt = pkt\<lparr>tp_raw := take (tp_tcp_offset pkt + 20) (tp_raw pkt) @
     (show_options (update_mss mss (fst (parse_options (options_of pkt)))) @ snd (parse_options (options_of pkt))) @
     drop (tp_tcp_offset pkt + tp_tcp_header_len pkt) (tp_raw pkt)\<rparr>"

lemma with_mss_parts:
  assumes "tcp_valid pkt" and "parse_options (options_of pkt) = (os, rest)"
  shows "tcp_valid (with_mss mss pkt)" and "length (tp_raw (with_mss mss pkt)) = length (tp_raw pkt)"
    and "take (tp_tcp_offset pkt + 20) (tp_raw (with_mss mss pkt)) = take (tp_tcp_offset pkt + 20) (tp_raw pkt)"
    and "options_of (with_mss mss pkt) = show_options (update_mss mss os) @ rest"
    and "tcp_payload (with_mss mss pkt) = tcp_payload pkt"
proof -
  let ?n = "tp_tcp_offset pkt + 20" and ?stop = "tp_tcp_offset pkt + tp_tcp_header_len pkt"
  have wf: "20 \<le> tp_tcp_offset pkt" "20 \<le> tp_tcp_header_len pkt" "?stop \<le> length (tp_raw pkt)"
    using assms(1) by (auto simp: tcp_valid_def tcp_wf_def)
  have "length (show_options os @ rest) = tp_tcp_header_len pkt - 20"
    using show_parse_options [OF assms(2)] wf by (simp add: options_of_def)
  then have opts: "length (show_options (update_mss mss os) @ rest) = tp_tcp_header_len pkt - 20"
    by (simp add: length_show_update)
  note eq = with_mss_def [of mss pkt, unfolded assms(2) fst_conv snd_conv]
  show "length (tp_raw (with_mss mss pkt)) = length (tp_raw pkt)" using wf opts by (simp add: eq)
  show "tcp_valid (with_mss mss pkt)"
    unfolding eq using wf opts by (intro tcp_valid_update [OF assms(1)]) (auto simp: nth_append)
  show "take ?n (tp_raw (with_mss mss pkt)) = take ?n (tp_raw pkt)" using wf by (simp add: eq)
  show "options_of (with_mss mss pkt) = show_options (update_mss mss os) @ rest"
    using wf opts by (simp add: options_of_def region_def eq)
  show "tcp_payload (with_mss mss pkt) = tcp_payload pkt"
    using wf opts by (simp add: tcp_payload_def slice_from_def eq)
qed

text \<open>
  Rewriting the MSS of a received packet never panics. It reports success exactly when an MSS
  option with room for the value is present, replaces the value of the first such option and nothing
  else: the result parses again with the same layout, the other options, the rest and the payload
  are kept.
\<close>

theorem set_mss_spec:
  assumes "TcpPacket_parse raw = Some (Some pkt)" and "tp_ip_total_len pkt = length raw"
    and "parse_options (options_of pkt) = (os, rest)"
  shows "\<exists>pkt'. set_mss mss pkt = Some (list_ex is_mss os, pkt') \<and>
    TcpPacket_parse (tp_raw pkt') = Some (Some pkt') \<and>
    parse_options (options_of pkt') = (update_mss mss os, rest) \<and>
    tcp_payload pkt' = tcp_payload pkt \<and>
    take (tp_tcp_offset pkt + 20) (tp_raw pkt') = take (tp_tcp_offset pkt + 20) raw"
proof -
  note v = parse_tcp_valid [OF assms(1,2)]
  note parts = with_mss_parts [OF v(1) assms(3), of mss]
  have "set_mss mss pkt = Some (list_ex is_mss os, with_mss mss pkt)"
    using set_mss_eq [OF v(1) assms(3)] by (simp add: with_mss_def assms(3))
  moreover have "TcpPacket_parse (tp_raw (with_mss mss pkt)) = Some (Some (with_mss mss pkt))"
    using tcp_valid_parses [OF parts(1)] TcpPacket_parse_wf(9) [OF assms(1)] assms(2) parts(2) v(2)
    by (simp add: with_mss_def)
  moreover have "parse_options (options_of (with_mss mss pkt)) = (update_mss mss os, rest)"
    using show_parse_options [OF assms(3)]
    by (simp add: parts(4) parse_show_options update_mss_wf parse_rest [OF assms(3)])
  ultimately show ?thesis using parts(3,5) v(2) by simp
qed

theorem set_mss_spec_witness:
  "\<exists>pkt'. set_mss 1200 example_packet = Some (True, pkt') \<and>
     parse_options (options_of pkt') = ([Opt MSS [4, 0xb0]], [])"
proof -
  have len: "tp_ip_total_len example_packet = length example_syn" by code_simp
  have os: "parse_options (options_of example_packet) = ([Opt MSS [5, 0xb4]], [])" by code_simp
  show ?thesis using set_mss_spec [OF example_parse len os, of 1200] by (auto simp: u16_to_be_def drop_bit_eq_div)
qed

end
