(* ===== verification/B4Fragment.thy ===== *)
theory B4Fragment
  imports B4Options
begin

text \<open>
  The packet generators of \<open>src/crates/balansir-b4/src/packet.rs\<close>: splitting a segment in two and the
  fake QUIC packet. What the two packets of a split carry, and what their headers say.
\<close>

subsection \<open>Splitting a segment\<close>

definition frag1_raw :: "TcpPacket \<Rightarrow> usize \<Rightarrow> u8 list" where
  "frag1_raw pkt split_at =
     (let n = tp_tcp_offset pkt + tp_tcp_header_len pkt + split_at
      in (overwrite (take n (tp_raw pkt)) 2 (u16_to_be (of_nat n)))[6 := 0x40, 7 := 0])"

definition frag2_raw :: "TcpPacket \<Rightarrow> usize \<Rightarrow> u8 list" where
  "frag2_raw pkt split_at =
     (let n = tp_tcp_offset pkt + tp_tcp_header_len pkt + split_at; ihl = tp_ip_header_len pkt
      in (overwrite (take ihl (tp_raw pkt)) 2 (u16_to_be (of_nat (ihl + (length (tp_raw pkt) - n)))))
           [6 := 0x40, 7 := 0] @ drop n (tp_raw pkt))"

definition frag1 :: "TcpPacket \<Rightarrow> usize \<Rightarrow> TcpPacket" where
  "frag1 pkt split_at = pkt\<lparr>tp_raw := frag1_raw pkt split_at,
     tp_ip_total_len := length (frag1_raw pkt split_at), tp_tcp_doff_field := 0\<rparr>"

definition frag2 :: "TcpPacket \<Rightarrow> usize \<Rightarrow> TcpPacket" where
  "frag2 pkt split_at =
     \<lparr>tp_raw = frag2_raw pkt split_at, tp_ip_header_len = tp_ip_header_len pkt,
      tp_ip_total_len = length (frag2_raw pkt split_at), tp_tcp_offset = 0, tp_tcp_header_len = 0,
      tp_tcp_doff_field = 0, tp_checksum_offsets = (10, 0)\<rparr>"

definition with_ipv4_checksum :: "TcpPacket \<Rightarrow> TcpPacket" where
  "with_ipv4_checksum p = p\<lparr>tp_raw := overwrite (tp_raw p) 10 (u16_to_be (ipv4_checksum p))\<rparr>"

lemma tcp_payload_valid:
  "tcp_wf pkt \<Longrightarrow> tcp_payload pkt = Some (drop (tp_tcp_offset pkt + tp_tcp_header_len pkt) (tp_raw pkt))"
  by (simp add: tcp_payload_def slice_from_def tcp_wf_def)

lemma frag_offset_zero: "k \<le> 120 \<Longrightarrow> ucast (drop_bit 8 (of_nat (k div 8) :: u16) AND 0xff) = (0 :: u8)"
proof -
  assume "k \<le> 120"
  then have "k div 8 < 256" by simp
  then have "unat (drop_bit 8 (of_nat (k div 8) :: u16)) = 0"
    by (simp add: drop_bit_eq_div unat_div_distrib unat_of_nat)
  then have "drop_bit 8 (of_nat (k div 8) :: u16) = 0" by (simp only: unsigned_eq_0_iff)
  then show ?thesis by simp
qed

lemma frag_lengths:
  assumes "tcp_wf pkt"
    and "tp_tcp_offset pkt + tp_tcp_header_len pkt + split_at < length (tp_raw pkt)"
  shows "length (frag1_raw pkt split_at) = tp_tcp_offset pkt + tp_tcp_header_len pkt + split_at"
    and "length (frag2_raw pkt split_at) = tp_ip_header_len pkt +
      (length (tp_raw pkt) - (tp_tcp_offset pkt + tp_tcp_header_len pkt + split_at))"
  using assms by (auto simp: frag1_raw_def frag2_raw_def Let_def tcp_wf_def)

lemma fragment_eq:
  assumes "tcp_wf pkt" and "0 < split_at"
    and "tp_tcp_offset pkt + tp_tcp_header_len pkt + split_at < length (tp_raw pkt)"
  shows "fragment_tcp_payload pkt split_at = Some (Some
    (tp_raw (with_checksums (with_ipv4_checksum (frag1 pkt split_at))),
     tp_raw (with_ipv4_checksum (frag2 pkt split_at))))"
proof -
  have wf: "20 \<le> tp_ip_header_len pkt" "tp_tcp_offset pkt = tp_ip_header_len pkt"
      "20 \<le> tp_tcp_header_len pkt" "tp_tcp_offset pkt + tp_tcp_header_len pkt \<le> 120"
      "tp_checksum_offsets pkt = (10, tp_tcp_offset pkt + 16)"
    using assms(1) by (auto simp: tcp_wf_def)
  note len = frag_lengths [OF assms(1,3)]
  have f1: "fix_ipv4_checksum (frag1 pkt split_at) = Some (with_ipv4_checksum (frag1 pkt split_at))"
    using wf len by (simp add: fix_ipv4_checksum_eq with_ipv4_checksum_def frag1_def)
  have "tcp_wf (with_ipv4_checksum (frag1 pkt split_at))"
    using assms(1) len by (auto simp: tcp_wf_def with_ipv4_checksum_def frag1_def)
  note f1' = fix_tcp_checksum_eq [OF this]
  have f2: "fix_ipv4_checksum (frag2 pkt split_at) = Some (with_ipv4_checksum (frag2 pkt split_at))"
    using wf len by (simp add: fix_ipv4_checksum_eq with_ipv4_checksum_def frag2_def)
  have recs: "\<lparr>tp_raw = frag1_raw pkt split_at, tp_ip_header_len = tp_ip_header_len pkt,
      tp_ip_total_len = length (frag1_raw pkt split_at), tp_tcp_offset = tp_tcp_offset pkt,
      tp_tcp_header_len = tp_tcp_header_len pkt, tp_tcp_doff_field = 0,
      tp_checksum_offsets = (10, tp_tcp_offset pkt + 16)\<rparr> = frag1 pkt split_at"
    using wf by (cases pkt) (simp add: frag1_def)
  have nle: "\<not> length (tp_raw pkt) - (tp_ip_header_len pkt + tp_tcp_header_len pkt) \<le> split_at"
    using assms(3) wf(2) by simp
  show ?thesis
    using assms(2,3) wf nle f1 f1' f2 [unfolded frag2_def] recs
    unfolding fragment_tcp_payload_def tcp_payload_valid [OF assms(1)] frag2_def
    by (simp add: Let_def byte_simps frag_offset_zero frag1_raw_def frag2_raw_def
        del: of_nat_add of_nat_diff)
qed

text \<open>The fragmentation word of an IPv4 header: don't-fragment, more-fragments, offset in units of 8.\<close>

definition dont_fragment :: "u8 list \<Rightarrow> bool" where
  "dont_fragment raw \<longleftrightarrow> bit (raw ! 6) 6"

definition is_fragment :: "u8 list \<Rightarrow> bool" where
  "is_fragment raw \<longleftrightarrow> raw ! 6 AND 0x3f \<noteq> 0 \<or> raw ! 7 \<noteq> 0"

lemma frag1_valid:
  assumes "tcp_valid pkt"
    and "tp_tcp_offset pkt + tp_tcp_header_len pkt + split_at < length (tp_raw pkt)"
  shows "tcp_valid (with_ipv4_checksum (frag1 pkt split_at))"
proof -
  let ?n = "tp_tcp_offset pkt + tp_tcp_header_len pkt + split_at"
  have wf: "tcp_wf pkt" and off: "20 \<le> tp_tcp_offset pkt" "20 \<le> tp_tcp_header_len pkt"
    using assms(1) by (auto simp: tcp_valid_def tcp_wf_def)
  note len = frag_lengths(1) [OF wf assms(2)]
  have n: "unat (of_nat ?n :: u16) = ?n"
    using tcp_valid_length [OF assms(1)] assms(2) by (simp add: unat_of_nat del: of_nat_add)
  have same: "frag1_raw pkt split_at ! i = tp_raw pkt ! i" if "i < ?n" "i \<notin> {2, 3, 6, 7}" for i
    using that off assms(2) by (auto simp: frag1_raw_def Let_def nth_overwrite nth_list_update)
  have "field_at (frag1_raw pkt split_at) 2 = of_nat ?n"
    using off assms(2) by (simp add: frag1_raw_def Let_def field_at_def nth_overwrite del: of_nat_add)
  then have "unat (field_at (frag1_raw pkt split_at) 2) = length (frag1_raw pkt split_at)"
    using n len by simp
  then have "tcp_valid (frag1 pkt split_at)"
    using assms(1) len off same [of 0] same [of 9] same [of "tp_tcp_offset pkt + 12"]
    by (auto simp: tcp_valid_def tcp_wf_def frag1_def)
  then show ?thesis
    unfolding with_ipv4_checksum_def using len off
    by (intro tcp_valid_update) (auto simp: frag1_def nth_overwrite)
qed

lemma frag1_parts:
  assumes "tcp_valid pkt"
    and "tp_tcp_offset pkt + tp_tcp_header_len pkt + split_at < length (tp_raw pkt)"
  defines "f1 \<equiv> tp_raw (with_checksums (with_ipv4_checksum (frag1 pkt split_at)))"
  shows "f1 ! 6 = 0x40" and "f1 ! 7 = 0" and "ipv4_checksum_ok f1"
    and "drop (tp_tcp_offset pkt + tp_tcp_header_len pkt) f1 =
      take split_at (drop (tp_tcp_offset pkt + tp_tcp_header_len pkt) (tp_raw pkt))"
proof -
  let ?p = "with_ipv4_checksum (frag1 pkt split_at)"
  have wf: "tcp_wf pkt" and off: "20 \<le> tp_tcp_offset pkt" "20 \<le> tp_tcp_header_len pkt"
    using assms(1) by (auto simp: tcp_valid_def tcp_wf_def)
  note len = frag_lengths(1) [OF wf assms(2)] and v = frag1_valid [OF assms(1,2)]
  have p: "tp_tcp_offset ?p = tp_tcp_offset pkt" "length (tp_raw ?p) = length (frag1_raw pkt split_at)"
    using len off by (simp_all add: with_ipv4_checksum_def frag1_def)
  have wfp: "tcp_wf ?p" using v by (simp add: tcp_valid_def)
  show "f1 ! 6 = 0x40" "f1 ! 7 = 0"
    unfolding f1_def using with_checksums_bytes(2) [OF wfp, of 6] with_checksums_bytes(2) [OF wfp, of 7] p len off
    by (auto simp: with_ipv4_checksum_def frag1_def nth_overwrite frag1_raw_def Let_def)
  show "ipv4_checksum_ok f1" unfolding f1_def using v by (rule ipv4_checksum_ok_with_checksums)
  show "drop (tp_tcp_offset pkt + tp_tcp_header_len pkt) f1 =
      take split_at (drop (tp_tcp_offset pkt + tp_tcp_header_len pkt) (tp_raw pkt))"
    unfolding f1_def using len off assms(2)
    by (simp add: with_checksums_def with_tcp_checksum_def Let_def with_ipv4_checksum_def frag1_def
        drop_overwrite) (simp add: frag1_raw_def Let_def drop_overwrite drop_update_cancel drop_take)
qed

lemma frag2_parts:
  assumes "tcp_valid pkt"
    and "tp_tcp_offset pkt + tp_tcp_header_len pkt + split_at < length (tp_raw pkt)"
  defines "f2 \<equiv> tp_raw (with_ipv4_checksum (frag2 pkt split_at))"
  shows "f2 ! 6 = 0x40" and "f2 ! 7 = 0" and "ipv4_checksum_ok f2"
    and "drop (tp_tcp_offset pkt) f2 = drop (tp_tcp_offset pkt + tp_tcp_header_len pkt + split_at) (tp_raw pkt)"
proof -
  have wf: "tcp_wf pkt" and off: "20 \<le> tp_ip_header_len pkt" "tp_ip_header_len pkt \<le> 60"
      "tp_tcp_offset pkt = tp_ip_header_len pkt"
      "20 \<le> tp_tcp_header_len pkt" and hdr: "unat (tp_raw pkt ! 0 AND 0x0f) * 4 = tp_ip_header_len pkt"
    using assms(1) by (auto simp: tcp_valid_def tcp_wf_def)
  note len = frag_lengths(2) [OF wf assms(2)]
  have f2: "f2 = overwrite (frag2_raw pkt split_at) 10 (u16_to_be (ipv4_checksum (frag2 pkt split_at)))"
    by (simp add: f2_def with_ipv4_checksum_def frag2_def)
  have "f2 ! i = frag2_raw pkt split_at ! i" if "i < tp_ip_header_len pkt" "i \<notin> {10, 11}" for i
    unfolding f2 using that len off by (subst nth_overwrite) auto
  moreover have "frag2_raw pkt split_at ! 6 = 0x40" "frag2_raw pkt split_at ! 7 = 0"
      and zero: "frag2_raw pkt split_at ! 0 = tp_raw pkt ! 0"
    using off assms(2) by (auto simp: frag2_raw_def Let_def nth_append nth_overwrite)
  ultimately have bytes: "f2 ! 6 = 0x40" "f2 ! 7 = 0" and f20: "f2 ! 0 = tp_raw pkt ! 0"
    using off by auto
  then show "f2 ! 6 = 0x40" "f2 ! 7 = 0" by simp_all
  have "frag2_raw pkt split_at ! 0 \<noteq> 0" unfolding zero using hdr off by auto
  then have "checksum_ok (word_sum (take (tp_ip_header_len pkt) f2))"
    using ipv4_checksum_correct [of "frag2 pkt split_at"] len off by (simp add: frag2_def f2)
  then show "ipv4_checksum_ok f2" by (simp add: ipv4_checksum_ok_def f20 hdr)
  show "drop (tp_tcp_offset pkt) f2 = drop (tp_tcp_offset pkt + tp_tcp_header_len pkt + split_at) (tp_raw pkt)"
    unfolding f2 using len off assms(2)
    by (simp add: drop_overwrite) (simp add: frag2_raw_def Let_def)
qed

text \<open>
  Splitting a received segment at an inner position of its payload never panics and loses
  nothing: the first packet carries the payload up to the split, the second the rest, and both have
  a right IPv4 header checksum. But neither is an IP fragment: both have the don't-fragment flag, no
  more-fragments flag and offset zero, so a receiver takes them for two unrelated packets.
\<close>

theorem split_is_not_fragmentation:
  assumes "TcpPacket_parse raw = Some (Some pkt)" and "tp_ip_total_len pkt = length raw"
    and "tcp_payload pkt = Some payload" and "0 < split_at" and "split_at < length payload"
  shows "\<exists>f1 f2. fragment_tcp_payload pkt split_at = Some (Some (f1, f2)) \<and>
    drop (tp_tcp_offset pkt + tp_tcp_header_len pkt) f1 = take split_at payload \<and>
    drop (tp_tcp_offset pkt) f2 = drop split_at payload \<and>
    ipv4_checksum_ok f1 \<and> ipv4_checksum_ok f2 \<and>
    \<not> is_fragment f1 \<and> dont_fragment f1 \<and> \<not> is_fragment f2 \<and> dont_fragment f2"
proof -
  note v = parse_tcp_valid [OF assms(1,2)]
  then have wf: "tcp_wf pkt" by (simp add: tcp_valid_def)
  have payload: "payload = drop (tp_tcp_offset pkt + tp_tcp_header_len pkt) (tp_raw pkt)"
    using assms(3) tcp_payload_valid [OF wf] by simp
  then have lt: "tp_tcp_offset pkt + tp_tcp_header_len pkt + split_at < length (tp_raw pkt)"
    using assms(5) by simp
  have flags: "bit (0x40 :: u8) 6" by code_simp
  show ?thesis
    unfolding fragment_eq [OF wf assms(4) lt] is_fragment_def dont_fragment_def
    using frag1_parts [OF v(1) lt] frag2_parts [OF v(1) lt] flags payload by (auto simp: add.commute)
qed

definition example_data :: "u8 list" where
  "example_data = [0x45, 0, 0, 47] @ drop 4 example_syn @ [0x16, 3, 1]"

definition example_data_packet :: TcpPacket where
  "example_data_packet = example_packet\<lparr>tp_raw := example_data, tp_ip_total_len := 47\<rparr>"

theorem split_is_not_fragmentation_witness:
  "\<exists>f1 f2. TcpPacket_parse example_data = Some (Some example_data_packet) \<and>
     fragment_tcp_payload example_data_packet 1 = Some (Some (f1, f2)) \<and>
     drop 44 f1 = [0x16] \<and> drop 20 f2 = [3, 1] \<and> \<not> is_fragment f1 \<and> \<not> is_fragment f2"
proof -
  have parse: "TcpPacket_parse example_data = Some (Some example_data_packet)" by code_simp
  have len: "tp_ip_total_len example_data_packet = length example_data" by code_simp
  have payload: "tcp_payload example_data_packet = Some [0x16, 3, 1]" by code_simp
  have offs: "tp_tcp_offset example_data_packet = 20" "tp_tcp_header_len example_data_packet = 24"
    by code_simp+
  show ?thesis
    using split_is_not_fragmentation [OF parse len payload, of 1] parse offs by auto
qed

subsection \<open>The fake QUIC packet\<close>

lemma UdpPacket_parse_flat:
  fixes raw :: "u8 list"
  defines "ihl \<equiv> unat (raw ! 0 AND 0x0f) * 4" and "tot \<equiv> unat (field_at raw 2)"
  defines "ulen \<equiv> unat (field_at raw (ihl + 4))"
  shows "UdpPacket_parse raw = Some
    (if length raw < 20 \<or> drop_bit 4 (raw ! 0) \<noteq> 4 \<or> ihl < 20 \<or> length raw < ihl \<or> raw ! 9 \<noteq> 17 \<or>
        tot < ihl \<or> length raw < tot \<or> length raw < ihl + 8 \<or> ulen < 8 \<or> length raw < ihl + ulen
     then None
     else Some \<lparr>up_raw = raw, up_ip_header_len = ihl, up_udp_offset = ihl, up_udp_len = ulen\<rparr>)"
proof (cases "length raw < 20")
  case True
  then show ?thesis by (simp add: UdpPacket_parse_def)
next
  case False
  then have "index raw 0 = Some (raw ! 0)" "index raw 9 = Some (raw ! 9)" "be_len raw 2 = Some tot"
    by (simp_all add: index_def be_len_def tot_def field_at_def del: length_greater_0_conv)
  with False show ?thesis
    by (simp add: UdpPacket_parse_def Let_def ihl_def ulen_def be_len_def index_def field_at_def)
qed

definition udp_checksum_ok :: "u8 list \<Rightarrow> usize \<Rightarrow> usize \<Rightarrow> bool" where
  "udp_checksum_ok raw off len \<longleftrightarrow> checksum_ok (segment_sum 17 raw off len)"

definition with_udp_checksum :: "u8 list \<Rightarrow> usize \<Rightarrow> usize \<Rightarrow> u8 list" where
  "with_udp_checksum raw off len =
     (let raw = overwrite raw (off + 6) [0, 0]
      in overwrite raw (off + 6) (u16_to_be (fold_checksum (of_nat (segment_sum 17 raw off len)))))"

lemma fix_udp_checksum_eq:
  assumes "off + len \<le> length raw" and "8 \<le> len" and "20 \<le> off"
    and "take 4 (drop 12 raw) = src" and "take 4 (drop 16 raw) = dst"
  shows "fix_udp_checksum raw src dst off len = Some (with_udp_checksum raw off len)"
proof -
  have "length src = 4" "length dst = 4" using assms by auto
  moreover have "take 4 (drop 12 (overwrite raw (off + 6) [0, 0])) = src"
      "take 4 (drop 16 (overwrite raw (off + 6) [0, 0])) = dst"
    using assms by (simp_all add: take_drop_before_overwrite)
  ultimately show ?thesis
    using assms(1,2)
    by (simp add: fix_udp_checksum_def copy_at_def pair_sum_evens with_udp_checksum_def Let_def
        segment_sum_def pseudo_sum_def add_ac)
qed

lemma udp_checksum_correct:
  assumes "off + len \<le> length raw" and "8 \<le> len" and "20 \<le> off" and "len \<le> 65535"
  shows "udp_checksum_ok (with_udp_checksum raw off len) off len"
proof -
  define raw0 where "raw0 = overwrite raw (off + 6) [0, 0]"
  define c where "c = fold_checksum (of_nat (segment_sum 17 raw0 off len))"
  let ?seg = "take len (drop off raw0)"
  have len: "length raw0 = length raw" using assms by (simp add: raw0_def)
  have "raw0 ! (off + 6) = 0" "raw0 ! (off + 7) = 0" using assms by (simp_all add: raw0_def nth_overwrite)
  then have zero: "u16_from_be (?seg ! 6) (?seg ! (6 + 1)) = 0"
    using assms len by (simp add: u16_from_be_def)
  have "take len (drop off (overwrite raw0 (off + 6) (u16_to_be c))) = overwrite ?seg 6 (u16_to_be c)"
    using assms len by (simp add: drop_overwrite_inside take_overwrite_inside)
  then have "word_sum (take len (drop off (overwrite raw0 (off + 6) (u16_to_be c)))) = word_sum ?seg + unat c"
    using word_sum_field [of 6 ?seg c] zero assms len by simp
  moreover have "pseudo_sum (overwrite raw0 (off + 6) (u16_to_be c)) = pseudo_sum raw0"
    using assms len by (simp add: pseudo_sum_def take_drop_before_overwrite)
  ultimately have "segment_sum 17 (with_udp_checksum raw off len) off len = segment_sum 17 raw0 off len + unat c"
    by (simp add: with_udp_checksum_def raw0_def c_def Let_def segment_sum_def)
  moreover have "segment_sum 17 raw0 off len < 2 ^ 32" using assms(4) by (intro segment_sum_bound) simp_all
  moreover have "segment_sum 17 raw0 off len \<noteq> 0" by (simp add: segment_sum_def)
  ultimately show ?thesis
    using fold_checksum_complements [of "segment_sum 17 raw0 off len"]
    by (simp add: udp_checksum_ok_def checksum_ok_def c_def)
qed

definition quic_header :: "u8 list \<Rightarrow> u8 list \<Rightarrow> u16 \<Rightarrow> u16 \<Rightarrow> usize \<Rightarrow> u16 \<Rightarrow> u8 list" where
  "quic_header src dst src_port dst_port n csum =
     [0x45, 0] @ u16_to_be (of_nat (28 + n)) @ [0, 0, 0, 0, 64, 17, 0, 0] @ src @ dst @
     u16_to_be src_port @ u16_to_be dst_port @ u16_to_be (of_nat (8 + n)) @ u16_to_be csum"

definition quic_body :: "(nat \<Rightarrow> u8) \<Rightarrow> usize \<Rightarrow> u8 list" where
  "quic_body rand n =
     (if n \<le> 1 then [0xC3]
      else [0xC3] @ u32_to_be 1 @ (if n = 5 then [] else 0 # map rand [0..<n - 6]))"

lemma length_4_cases: "length xs = 4 \<Longrightarrow> \<exists>a b c d. xs = [a, b, c, d]"
  by (auto simp: numeral_eq_Suc length_Suc_conv)

lemma quic_header_built:
  assumes "length src = 4" and "length dst = 4"
  shows "do {
     pkt \<leftarrow> store (replicate (20 + 8 + Suc n) 0) 0 0x45;
     pkt \<leftarrow> copy_at pkt 2 (u16_to_be (of_nat (20 + 8 + Suc n)));
     pkt \<leftarrow> store pkt 8 64;
     pkt \<leftarrow> store pkt 9 17;
     pkt \<leftarrow> copy_at pkt 12 src;
     pkt \<leftarrow> copy_at pkt 16 dst;
     pkt \<leftarrow> copy_at pkt 20 (u16_to_be src_port);
     pkt \<leftarrow> copy_at pkt (20 + 2) (u16_to_be dst_port);
     copy_at pkt (20 + 4) (u16_to_be (of_nat (8 + Suc n))) } =
   Some (quic_header src dst src_port dst_port (Suc n) 0 @ replicate (Suc n) 0)"
proof -
  obtain a b c d where src: "src = [a, b, c, d]" using length_4_cases [OF assms(1)] by blast
  obtain a' b' c' d' where dst: "dst = [a', b', c', d']" using length_4_cases [OF assms(2)] by blast
  have "replicate (20 + 8 + Suc n) (0 :: u8) = replicate (20 + 8) 0 @ replicate (Suc n) 0" by (rule replicate_add)
  also have "replicate (20 + 8) (0 :: u8) = [0, 0, 0, 0, 0, 0, 0, 0, 0, 0, 0, 0, 0, 0, 0, 0, 0, 0, 0, 0, 0, 0, 0, 0, 0, 0, 0, 0]"
    by (simp add: numeral_eq_Suc)
  finally show ?thesis
    by (simp add: store_def copy_at_def overwrite_def quic_header_def u16_to_be_def src dst del: of_nat_add of_nat_Suc replicate_Suc)
qed

lemma length_quic_header [simp]:
  "length src = 4 \<Longrightarrow> length dst = 4 \<Longrightarrow> length (quic_header src dst sp dp n c) = 28"
  by (simp add: quic_header_def)

lemma length_quic_body: "n \<notin> {2, 3, 4} \<Longrightarrow> length (quic_body rand n) = max n 1"
  by (auto simp: quic_body_def)

lemma quic_payload_built:
  assumes "length h = 28"
  shows "quic_payload rand 28 n (h @ replicate (max n 1) 0) =
    (if n \<in> {2, 3, 4} then None else Some (h @ quic_body rand n))"
proof -
  consider "n \<le> 1" | "n = 2 \<or> n = 3 \<or> n = 4" | "n = 5" | "6 \<le> n" by linarith
  then show ?thesis
  proof cases
    case 1
    then have "max n 1 = 1" by simp
    with 1 assms show ?thesis by (simp add: quic_payload_def store_def quic_body_def list_update_append)
  next
    case 2
    with assms show ?thesis
      by (auto simp: quic_payload_def store_def copy_at_def list_update_append)
  next
    case 3
    then have "replicate (max n 1) (0 :: u8) = [0, 0, 0, 0, 0]" by (simp add: numeral_eq_Suc)
    with 3 assms show ?thesis
      by (simp add: quic_payload_def store_def copy_at_def overwrite_def quic_body_def list_update_append)
  next
    case 4
    then obtain k where k: "n = 6 + k" by (metis le_Suc_ex)
    then have "replicate (max n 1) (0 :: u8) = [0, 0, 0, 0, 0, 0] @ replicate k 0"
      by (simp add: numeral_eq_Suc)
    with k assms show ?thesis
      by (simp add: quic_payload_def store_def copy_at_def overwrite_def quic_body_def list_update_append
          u32_to_be_def)
  qed
qed

lemma build_fake_quic_eq:
  assumes "length src = 4" and "length dst = 4"
  shows "build_fake_quic_packet rand src dst src_port dst_port n =
    (if n \<in> {2, 3, 4} then None
     else Some (with_udp_checksum (quic_header src dst src_port dst_port (max n 1) 0 @ quic_body rand n)
       20 (8 + max n 1)))"
proof -
  obtain m where m: "max n 1 = Suc m" by (metis Suc_pred' less_max_iff_disj zero_less_one)
  let ?h = "quic_header src dst src_port dst_port (Suc m) 0"
  have pl: "quic_payload rand 28 n (?h @ replicate (Suc m) 0) =
      (if n \<in> {2, 3, 4} then None else Some (?h @ quic_body rand n))"
    using quic_payload_built [of ?h rand n] assms m by simp
  have ip: "\<exists>t. fix_ipv4_checksum \<lparr>tp_raw = raw, tp_ip_header_len = 20, tp_ip_total_len = a, tp_tcp_offset = 20,
      tp_tcp_header_len = 8, tp_tcp_doff_field = 0, tp_checksum_offsets = (10, 26)\<rparr> = Some t"
    if "20 \<le> length raw" for raw a
    using that by (simp add: fix_ipv4_checksum_eq)
  have "build_fake_quic_packet rand src dst src_port dst_port n =
      Some (?h @ replicate (Suc m) 0) \<bind> (\<lambda>pkt. do {
        pkt \<leftarrow> quic_payload rand 28 n pkt;
        tmp \<leftarrow> fix_ipv4_checksum
          \<lparr>tp_raw = pkt, tp_ip_header_len = 20, tp_ip_total_len = 20 + 8 + Suc m, tp_tcp_offset = 20,
           tp_tcp_header_len = 8, tp_tcp_doff_field = 0, tp_checksum_offsets = (10, 26)\<rparr>;
        fix_udp_checksum pkt src dst 20 (8 + Suc m) })"
    unfolding quic_header_built [OF assms, symmetric]
    using m by (simp add: build_fake_quic_packet_def Let_def Option.bind_assoc del: of_nat_add of_nat_Suc replicate_Suc)
  moreover have "fix_udp_checksum (?h @ quic_body rand n) src dst 20 (8 + Suc m) =
      Some (with_udp_checksum (?h @ quic_body rand n) 20 (8 + Suc m))" if "n \<notin> {2, 3, 4}"
    using assms length_quic_body [OF that, of rand] m
    by (intro fix_udp_checksum_eq) (simp_all add: quic_header_def)
  ultimately show ?thesis unfolding m
    using pl ip [of "?h @ quic_body rand n" "20 + 8 + Suc m"] assms by (auto simp: m)
qed

lemma with_udp_checksum_quic:
  assumes "length src = 4" and "length dst = 4"
  shows "\<exists>c. with_udp_checksum (quic_header src dst sp dp m 0 @ body) 20 len = quic_header src dst sp dp m c @ body"
proof -
  obtain a b c d where src: "src = [a, b, c, d]" using length_4_cases [OF assms(1)] by blast
  obtain a' b' c' d' where dst: "dst = [a', b', c', d']" using length_4_cases [OF assms(2)] by blast
  have "overwrite (overwrite (quic_header src dst sp dp m 0 @ body) 26 [0, 0]) 26 (u16_to_be x) =
      quic_header src dst sp dp m x @ body" for x
    by (simp add: overwrite_def quic_header_def u16_to_be_def src dst)
  then show ?thesis by (auto simp: with_udp_checksum_def Let_def)
qed

text \<open>
  The fake QUIC packet. The builder panics exactly for payload lengths 2, 3 and 4. Otherwise the
  result parses as a UDP packet with the given addresses, ports and body and its UDP checksum is
  right, but its IPv4 header checksum is left zero: it is computed on a copy that is dropped.
\<close>

theorem fake_quic_packet_spec:
  assumes "length src = 4" and "length dst = 4" and "n \<le> 65507"
  shows "(build_fake_quic_packet rand src dst src_port dst_port n = None \<longleftrightarrow> n \<in> {2, 3, 4}) \<and>
    (\<forall>pkt. build_fake_quic_packet rand src dst src_port dst_port n = Some pkt \<longrightarrow>
      field_at pkt 10 = 0 \<and> udp_checksum_ok pkt 20 (8 + max n 1) \<and>
      (\<exists>u. UdpPacket_parse pkt = Some (Some u) \<and> udp_src_ip u = Some src \<and> udp_dst_ip u = Some dst \<and>
        udp_src_port u = Some src_port \<and> udp_dst_port u = Some dst_port \<and>
        udp_payload u = Some (quic_body rand n)))"
proof (cases "n \<in> {2, 3, 4}")
  case True
  then show ?thesis by (simp add: build_fake_quic_eq [OF assms(1,2)])
next
  case False
  define m where "m = max n 1"
  have m: "1 \<le> m" "m \<le> 65507" using assms(3) by (simp_all add: m_def)
  obtain c where pkt: "with_udp_checksum (quic_header src dst src_port dst_port m 0 @ quic_body rand n) 20 (8 + m) =
      quic_header src dst src_port dst_port m c @ quic_body rand n"
    using with_udp_checksum_quic [OF assms(1,2)] by blast
  let ?pkt = "quic_header src dst src_port dst_port m c @ quic_body rand n"
  have ok: "udp_checksum_ok ?pkt 20 (8 + m)"
    unfolding pkt [symmetric] using assms length_quic_body [OF False, of rand]
    using m by (intro udp_checksum_correct) (simp_all add: m_def)
  have len: "length (quic_body rand n) = m" unfolding m_def by (rule length_quic_body [OF False])
  obtain s0 s1 s2 s3 where src: "src = [s0, s1, s2, s3]" using length_4_cases [OF assms(1)] by blast
  obtain d0 d1 d2 d3 where dst: "dst = [d0, d1, d2, d3]" using length_4_cases [OF assms(2)] by blast
  have "unat (of_nat (28 + m) :: u16) = 28 + m" "unat (of_nat (8 + m) :: u16) = 8 + m"
    using m by (simp_all add: unat_of_nat del: of_nat_add)
  note lens = this
  have f: "field_at ?pkt 2 = of_nat (28 + m)" "field_at ?pkt 24 = of_nat (8 + m)" "field_at ?pkt 10 = 0"
      "field_at ?pkt 20 = src_port" "field_at ?pkt 22 = dst_port"
    by (simp_all add: field_at_def quic_header_def nth_append src dst u16_from_be_def [of 0 0] del: of_nat_add)
  have b: "?pkt ! 0 = 0x45" "?pkt ! 9 = 17" by (simp_all add: quic_header_def nth_append)
  have "UdpPacket_parse ?pkt = Some (Some \<lparr>up_raw = ?pkt, up_ip_header_len = 20, up_udp_offset = 20, up_udp_len = 8 + m\<rparr>)"
    using assms len lens b m by (simp add: UdpPacket_parse_flat f del: of_nat_add)
  moreover have "ip_at ?pkt 12 = Some src" "ip_at ?pkt 16 = Some dst"
    using assms by (simp_all add: ip_at_Some) (simp_all add: quic_header_def)
  moreover have "drop 28 ?pkt = quic_body rand n" using assms by simp
  moreover have "build_fake_quic_packet rand src dst src_port dst_port n = Some ?pkt"
    using False by (simp only: build_fake_quic_eq [OF assms(1,2)] if_False m_def [symmetric] pkt)
  ultimately show ?thesis unfolding m_def [symmetric]
    using False assms ok f len m by (simp add: udp_src_ip_def udp_dst_ip_def
        udp_src_port_def udp_dst_port_def udp_payload_def be16_at_Some slice_def)
qed

theorem fake_quic_packet_spec_witness:
  "\<exists>pkt. build_fake_quic_packet (\<lambda>_. 7) [10, 0, 0, 1] [10, 0, 0, 2] 12345 443 64 = Some pkt \<and>
     field_at pkt 10 = 0 \<and> udp_checksum_ok pkt 20 72"
proof -
  have l: "length [10, 0, 0, 1 :: u8] = 4" "length [10, 0, 0, 2 :: u8] = 4" "(64 :: nat) \<le> 65507"
    by simp_all
  show ?thesis using fake_quic_packet_spec [OF l, of "\<lambda>_. 7" 12345 443] by auto
qed

end
