(* ===== verification/Text.thy ===== *)
theory Text
  imports Prelude "HOL-Library.Sublist"
begin

text \<open>
  The operations of \<open>str\<close> that the sources use on host names and on line-oriented files, on strings as
  lists of UTF-8 bytes, and domain-name matching: several crates test whether a host is a domain or a
  subdomain of it by comparing strings, which is shown to be the comparison of label lists.
\<close>

subsection \<open>Operations on strings\<close>

definition dot :: char where
  "dot = CHR ''.''"

definition strip_prefix :: "string \<Rightarrow> string \<Rightarrow> string option" where
  "strip_prefix p s = (if prefix p s then Some (drop (length p) s) else None)"

text \<open>\<open>trim_end_matches('.')\<close>.\<close>

definition trim_end_dots :: "string \<Rightarrow> string" where
  "trim_end_dots s = rev (dropWhile (\<lambda>c. c = dot) (rev s))"

text \<open>The UTF-8 encodings of the characters \<open>char::is_whitespace\<close> accepts, which \<open>str::trim\<close> removes.\<close>

definition whitespace :: "string list" where
  "whitespace = map (map (\<lambda>n. char_of (n :: nat)))
     ([[9], [10], [11], [12], [13], [32], [0xC2, 0x85], [0xC2, 0xA0], [0xE1, 0x9A, 0x80]]
      @ map (\<lambda>n. [0xE2, 0x80, n]) [0x80..<0x8B]
      @ [[0xE2, 0x80, 0xA8], [0xE2, 0x80, 0xA9], [0xE2, 0x80, 0xAF], [0xE2, 0x81, 0x9F], [0xE3, 0x80, 0x80]])"

function trim_start :: "string \<Rightarrow> string" where
  "trim_start s =
     (case find (\<lambda>w. w \<noteq> [] \<and> prefix w s) whitespace of
        None \<Rightarrow> s
      | Some w \<Rightarrow> trim_start (drop (length w) s))"
  by auto
termination
  by (relation "measure length") (auto simp: find_Some_iff prefix_def)

declare trim_start.simps [simp del]

function trim_end :: "string \<Rightarrow> string" where
  "trim_end s =
     (case find (\<lambda>w. w \<noteq> [] \<and> suffix w s) whitespace of
        None \<Rightarrow> s
      | Some w \<Rightarrow> trim_end (take (length s - length w) s))"
  by auto
termination
  by (relation "measure length") (auto simp: find_Some_iff suffix_def)

declare trim_end.simps [simp del]

definition trim :: "string \<Rightarrow> string" where
  "trim s = trim_end (trim_start s)"

text \<open>A string that begins and ends with a visible ASCII character is trimmed already.\<close>

definition graphic :: "char \<Rightarrow> bool" where
  "graphic c \<longleftrightarrow> 33 \<le> (of_char c :: nat) \<and> (of_char c :: nat) < 127"

lemma whitespace_not_graphic:
  "w \<in> set whitespace \<Longrightarrow> w \<noteq> [] \<and> \<not> graphic (hd w) \<and> \<not> graphic (last w)"
proof -
  have "list_all (\<lambda>w. w \<noteq> [] \<and> \<not> graphic (hd w) \<and> \<not> graphic (last w)) whitespace" by code_simp
  then show "w \<in> set whitespace \<Longrightarrow> w \<noteq> [] \<and> \<not> graphic (hd w) \<and> \<not> graphic (last w)"
    by (simp add: list_all_iff)
qed

lemma trim_start_graphic:
  assumes "s = [] \<or> graphic (hd s)"
  shows "trim_start s = s"
proof -
  have "\<not> prefix w s" if "w \<in> set whitespace" for w
    using that assms whitespace_not_graphic [of w] by (auto simp: prefix_def)
  then have "find (\<lambda>w. w \<noteq> [] \<and> prefix w s) whitespace = None" by (auto simp: find_None_iff)
  then show ?thesis by (simp add: trim_start.simps)
qed

lemma trim_end_graphic:
  assumes "s = [] \<or> graphic (last s)"
  shows "trim_end s = s"
proof -
  have "\<not> suffix w s" if "w \<in> set whitespace" for w
    using that assms whitespace_not_graphic [of w] by (auto simp: suffix_def)
  then have "find (\<lambda>w. w \<noteq> [] \<and> suffix w s) whitespace = None" by (auto simp: find_None_iff)
  then show ?thesis by (simp add: trim_end.simps)
qed

lemma trim_graphic: "s = [] \<or> graphic (hd s) \<and> graphic (last s) \<Longrightarrow> trim s = s"
  by (auto simp: trim_def trim_start_graphic trim_end_graphic)

text \<open>\<open>str::lines\<close>: a line ends at a line feed, which is dropped together with a carriage return
  before it; the text after the last line feed is a line when it is not empty.\<close>

definition strip_cr :: "string \<Rightarrow> string" where
  "strip_cr s = (if s \<noteq> [] \<and> last s = char_of (13 :: nat) then butlast s else s)"

fun split_lines :: "string \<Rightarrow> string \<Rightarrow> string list" where
  "split_lines acc [] = (if acc = [] then [] else [acc])"
| "split_lines acc (c # s) =
     (if c = char_of (10 :: nat) then strip_cr acc # split_lines [] s else split_lines (acc @ [c]) s)"

definition str_lines :: "string \<Rightarrow> string list" where
  "str_lines s = split_lines [] s"

subsection \<open>Domain names\<close>

definition norm_host :: "string \<Rightarrow> string" where
  "norm_host s = to_ascii_lowercase (trim_end_dots s)"

text \<open>\<open>h == d || h.ends_with(&format!(".{d}"))\<close>.\<close>

definition domain_covers :: "string \<Rightarrow> string \<Rightarrow> bool" where
  "domain_covers d h \<longleftrightarrow> h = d \<or> suffix (dot # d) h"

fun labels :: "string \<Rightarrow> string list" where
  "labels [] = [[]]"
| "labels (c # s) = (if c = dot then [] # labels s else (c # hd (labels s)) # tl (labels s))"

fun join :: "string list \<Rightarrow> string" where
  "join [] = []"
| "join [l] = l"
| "join (l # ls) = l @ dot # join ls"

lemma labels_not_Nil [simp]: "labels s \<noteq> []"
  by (cases s) auto

lemma join_labels [simp]: "join (labels s) = s"
proof (induction s)
  case (Cons c s)
  then show ?case by (cases "labels s"; cases "tl (labels s)") auto
qed simp

lemma join_append: "xs \<noteq> [] \<Longrightarrow> ys \<noteq> [] \<Longrightarrow> join (xs @ ys) = join xs @ dot # join ys"
  by (induction xs rule: join.induct) (cases ys; auto)+

lemma labels_append: "labels (a @ dot # b) = labels a @ labels b"
  by (induction a) auto

text \<open>Covering is the suffix order on label lists: \<open>example.com\<close> covers its subdomains, not
  \<open>notexample.com\<close>.\<close>

lemma domain_covers_labels: "domain_covers d h \<longleftrightarrow> suffix (labels d) (labels h)"
proof
  assume "domain_covers d h"
  then show "suffix (labels d) (labels h)"
    by (auto simp: domain_covers_def suffix_def labels_append)
next
  assume "suffix (labels d) (labels h)"
  then obtain ls where ls: "labels h = ls @ labels d" by (auto simp: suffix_def)
  show "domain_covers d h"
  proof (cases "ls = []")
    case True
    then have "join (labels h) = join (labels d)" using ls by simp
    then show ?thesis by (simp add: domain_covers_def)
  next
    case False
    then have "join (labels h) = join ls @ dot # join (labels d)" using ls by (simp add: join_append)
    then show ?thesis by (auto simp: domain_covers_def suffix_def)
  qed
qed

lemma domain_covers_refl: "domain_covers d d"
  by (simp add: domain_covers_def)

lemma domain_covers_trans: "domain_covers a b \<Longrightarrow> domain_covers b c \<Longrightarrow> domain_covers a c"
  using suffix_order.trans by (auto simp: domain_covers_labels)

end
