(* ===== verification/B4Geosite.thy ===== *)
theory B4Geosite
  imports Text "HOL-Library.Char_ord" "HOL-Library.List_Lexorder"
begin

text \<open>
  The geosite categories of \<open>src/crates/balansir-b4/src/geosite.rs\<close>. The sets of rules are HOL sets and
  the store is a map from category names. The directory is a parameter: \<open>files\<close> gives the contents of
  \<open><dir>/<name>.txt\<close> for the finitely many names that can be read. Parsing follows \<open>include:\<close> lines, so
  it recurses through the file system; its depth is bounded by fuel, and enough fuel is shown to
  exist for every directory.
\<close>

subsection \<open>Definitions\<close>

record GeositeCategory =
  gc_name :: string
  gc_exact :: "string set"
  gc_suffixes :: "string set"
  gc_keywords :: "string set"
  gc_loaded :: bool

definition category_matches :: "GeositeCategory \<Rightarrow> string \<Rightarrow> bool" where
  "category_matches c host =
     (let h = norm_host host
      in if h \<in> gc_exact c then True
         else if \<exists>s \<in> gc_suffixes c. domain_covers s h then True
         else if \<exists>k \<in> gc_keywords c. sublist k h then True
         else False)"

definition domain_count :: "GeositeCategory \<Rightarrow> usize" where
  "domain_count c = card (gc_exact c) + card (gc_suffixes c)"

record GeositeStore =
  gs_categories :: "string \<rightharpoonup> GeositeCategory"
  gs_dir :: string

definition store_empty :: GeositeStore where
  "store_empty = \<lparr>gs_categories = Map.empty, gs_dir = []\<rparr>"

definition new_category :: "string \<Rightarrow> GeositeCategory" where
  "new_category name =
     \<lparr>gc_name = name, gc_exact = {}, gc_suffixes = {}, gc_keywords = {}, gc_loaded = True\<rparr>"

definition builtin_rules :: "string \<Rightarrow> string list option" where
  "builtin_rules name =
     (if name = ''youtube'' then Some [''youtube.com'', ''youtube-nocookie.com'', ''googlevideo.com'',
        ''ytimg.com'', ''youtu.be'', ''ggpht.com'', ''youtubei.googleapis.com'',
        ''youtube.googleapis.com'', ''googlesyndication.com'']
      else if name = ''discord'' then Some [''discord.com'', ''discordapp.com'', ''discord.gg'',
        ''discord.media'', ''discordapp.net'', ''discordstatus.com'', ''discord.co'',
        ''discord.gifts'', ''discordmerch.com'']
      else if name = ''google'' then Some [''google.com'', ''googleapis.com'', ''googleusercontent.com'',
        ''gstatic.com'', ''google.ru'', ''google.de'', ''ggpht.com'', ''google-analytics.com'',
        ''googletagmanager.com'', ''1e100.net'']
      else if name = ''cloudflare'' then Some [''cloudflare.com'', ''cloudflare-dns.com'',
        ''cloudflareclient.com'', ''cloudflareinsights.com'', ''workers.dev'', ''cf-ipfs.com'']
      else if name = ''twitter'' then Some [''twitter.com'', ''x.com'', ''twimg.com'', ''t.co'',
        ''twittervid.com'']
      else None)"

definition add_builtin :: "string \<Rightarrow> GeositeStore \<Rightarrow> GeositeStore" where
  "add_builtin name store =
     (case builtin_rules name of
        None \<Rightarrow> store
      | Some rules \<Rightarrow>
          store\<lparr>gs_categories := (gs_categories store)
            (name \<mapsto> (new_category name)\<lparr>gc_suffixes := set rules\<rparr>)\<rparr>)"

text \<open>One line of a category file that is not an include.\<close>

definition add_rule_line :: "string \<Rightarrow> GeositeCategory \<Rightarrow> GeositeCategory" where
  "add_rule_line line cat =
     (case strip_prefix ''+.'' line of
        Some s \<Rightarrow> cat\<lparr>gc_suffixes := insert (to_ascii_lowercase s) (gc_suffixes cat)\<rparr>
      | None \<Rightarrow> (case strip_prefix ''full:'' line of
        Some s \<Rightarrow> cat\<lparr>gc_exact := insert (to_ascii_lowercase s) (gc_exact cat)\<rparr>
      | None \<Rightarrow> (case strip_prefix ''keyword:'' line of
        Some s \<Rightarrow> cat\<lparr>gc_keywords := insert (to_ascii_lowercase s) (gc_keywords cat)\<rparr>
      | None \<Rightarrow>
          if prefix ''regexp:'' line \<or> prefix ''domain:'' line then
            (case strip_prefix ''domain:'' line of
               Some s \<Rightarrow> cat\<lparr>gc_suffixes := insert (to_ascii_lowercase s) (gc_suffixes cat)\<rparr>
             | None \<Rightarrow> cat)
          else if \<not> prefix ''+'' line then cat\<lparr>gc_exact := insert (to_ascii_lowercase line) (gc_exact cat)\<rparr>
          else cat)))"

function parse_category_source ::
    "nat \<Rightarrow> (string \<times> string) list \<Rightarrow> string \<Rightarrow> string \<Rightarrow> string set \<Rightarrow> GeositeStore \<Rightarrow> GeositeStore option"
  and parse_lines ::
    "nat \<Rightarrow> (string \<times> string) list \<Rightarrow> string list \<Rightarrow> string set \<Rightarrow> GeositeCategory \<Rightarrow> GeositeStore \<Rightarrow>
     (GeositeCategory \<times> GeositeStore) option" where
  "parse_category_source 0 files name source seen store = None"
| "parse_category_source (Suc fuel) files name source seen store =
     (if name \<in> seen then Some store
      else
        let seen = insert name seen;
            cat = (case gs_categories store name of Some c \<Rightarrow> c | None \<Rightarrow> new_category name)
        in case parse_lines fuel files (str_lines source) seen cat store of
             None \<Rightarrow> None
           | Some (cat, store) \<Rightarrow> Some (store\<lparr>gs_categories := (gs_categories store)(name \<mapsto> cat)\<rparr>))"
| "parse_lines fuel files [] seen cat store = Some (cat, store)"
| "parse_lines fuel files (line # rest) seen cat store =
     (let line = trim line
      in if line = [] \<or> prefix ''#'' line then parse_lines fuel files rest seen cat store
         else case strip_prefix ''include:'' line of
           Some included \<Rightarrow>
             (case map_of files included of
                None \<Rightarrow> parse_lines fuel files rest seen cat store
              | Some raw \<Rightarrow>
                  (case parse_category_source fuel files included raw seen store of
                     None \<Rightarrow> None
                   | Some store \<Rightarrow> parse_lines fuel files rest seen cat store))
         | None \<Rightarrow> parse_lines fuel files rest seen (add_rule_line line cat) store)"
  by pat_completeness auto
termination
  by (relation "measures [case_sum (\<lambda>(n, _). n) (\<lambda>(n, _). n),
      case_sum (\<lambda>_. 0) (\<lambda>(_, _, ls, _). Suc (length ls))]") auto

declare parse_category_source.simps [simp del] parse_lines.simps [simp del]

text \<open>The readable files bound the depth of the includes.\<close>

definition include_fuel :: "(string \<times> string) list \<Rightarrow> nat" where
  "include_fuel files = length files + 2"

definition load_category ::
    "(string \<times> string) list \<Rightarrow> string \<Rightarrow> string \<Rightarrow> GeositeStore \<Rightarrow> GeositeStore option" where
  "load_category files name raw store =
     parse_category_source (include_fuel files) files name raw {} store"

text \<open>\<open>entries\<close> lists the \<open>.txt\<close> files of the directory in the order the system returns them, with the
  contents of the readable ones.\<close>

fun load_dir ::
    "(string \<times> string) list \<Rightarrow> (string \<times> string option) list \<Rightarrow> GeositeStore \<Rightarrow> GeositeStore option" where
  "load_dir files [] store = Some store"
| "load_dir files ((name, contents) # rest) store =
     (case contents of
        None \<Rightarrow> load_dir files rest store
      | Some raw \<Rightarrow>
          (case load_category files name raw store of
             None \<Rightarrow> None
           | Some store \<Rightarrow> load_dir files rest store))"

definition store_load ::
    "string \<Rightarrow> (string \<times> string) list \<Rightarrow> (string \<times> string option) list \<Rightarrow> GeositeStore option" where
  "store_load dir files entries =
     (let store = store_empty\<lparr>gs_dir := dir\<rparr>;
          store = add_builtin ''youtube'' store;
          store = add_builtin ''discord'' store;
          store = add_builtin ''google'' store;
          store = add_builtin ''cloudflare'' store;
          store = add_builtin ''twitter'' store
      in load_dir files entries store)"

definition store_get :: "GeositeStore \<Rightarrow> string \<Rightarrow> GeositeCategory option" where
  "store_get store name = gs_categories store name"

definition store_has :: "GeositeStore \<Rightarrow> string \<Rightarrow> bool" where
  "store_has store name \<longleftrightarrow> gs_categories store name \<noteq> None"

fun expand_sets :: "GeositeStore \<Rightarrow> string list \<Rightarrow> string set \<Rightarrow> string set \<Rightarrow> string set \<times> string set" where
  "expand_sets store [] exact sufs = (exact, sufs)"
| "expand_sets store (cat # cats) exact sufs =
     (case store_get store cat of
        Some c \<Rightarrow> expand_sets store cats (exact \<union> gc_exact c) (sufs \<union> gc_suffixes c)
      | None \<Rightarrow> expand_sets store cats exact sufs)"

definition expand :: "GeositeStore \<Rightarrow> string list \<Rightarrow> string list \<times> string list" where
  "expand store categories =
     (case expand_sets store categories {} {} of
        (exact, sufs) \<Rightarrow> (sorted_list_of_set exact, sorted_list_of_set sufs))"

definition category_breakdown :: "GeositeStore \<Rightarrow> string list \<Rightarrow> string \<rightharpoonup> usize" where
  "category_breakdown store categories =
     map_of (rev (map (\<lambda>c. (c, case store_get store c of Some c \<Rightarrow> domain_count c | None \<Rightarrow> 0)) categories))"

subsection \<open>The includes end\<close>

text \<open>
  Fuel is needed only for names not seen yet, and each recursion sees one more: the depth is at most
  the number of readable files, whatever cycles they contain.
\<close>

definition unseen :: "(string \<times> string) list \<Rightarrow> string set \<Rightarrow> nat" where
  "unseen files seen = card (set (map fst files) - seen)"

lemma unseen_insert:
  "map_of files name \<noteq> None \<Longrightarrow> name \<notin> seen \<Longrightarrow> unseen files (insert name seen) < unseen files seen"
  unfolding unseen_def by (rule psubset_card_mono) (auto simp: map_of_eq_None_iff)

lemma parse_terminates:
  shows "(unseen files seen < fuel \<and> map_of files name \<noteq> None \<or> Suc (unseen files seen) < fuel \<Longrightarrow>
      \<exists>store'. parse_category_source fuel files name source seen store = Some store')"
    and "unseen files seen < fuel \<Longrightarrow> \<exists>res. parse_lines fuel files ls seen cat store = Some res"
proof (induction fuel files name source seen store and fuel files ls seen cat store
    rule: parse_category_source_parse_lines.induct)
  case (2 fuel files name source seen store)
  show ?case
  proof (cases "name \<in> seen")
    case False
    have "unseen files (insert name seen) < fuel"
    proof (cases "map_of files name = None")
      case True
      then have "unseen files (insert name seen) \<le> unseen files seen"
        unfolding unseen_def by (intro card_mono) auto
      with 2(2) True show ?thesis by simp
    next
      case False
      then have "unseen files (insert name seen) < unseen files seen"
        using \<open>name \<notin> seen\<close> by (rule unseen_insert)
      with 2(2) show ?thesis by linarith
    qed
    with 2(1) [OF False refl refl] False show ?thesis
      by (auto simp: parse_category_source.simps)
  qed (simp add: parse_category_source.simps)
next
  case (4 fuel files line rest seen cat store)
  note line = parse_lines.simps(2) [of fuel files line rest seen cat store, unfolded Let_def]
  show ?case
  proof (cases "trim line = [] \<or> prefix ''#'' (trim line)")
    case True
    with 4(1) [OF refl True 4(6)] line show ?thesis by auto
  next
    case no: False
    show ?thesis
    proof (cases "strip_prefix ''include:'' (trim line)")
      case None
      with 4(2) [OF refl no None 4(6)] line no show ?thesis by simp
    next
      case (Some n)
      show ?thesis
      proof (cases "map_of files n")
        case None
        with 4(3) [OF refl no Some None 4(6)] line no Some show ?thesis by simp
      next
        case raw: (Some raw)
        then obtain s where s: "parse_category_source fuel files n raw seen store = Some s"
          using 4(4) [OF refl no Some raw] 4(6) by auto
        with 4(5) [OF refl no Some raw s 4(6)] line no Some raw show ?thesis by simp
      qed
    qed
  qed
qed (simp_all add: parse_lines.simps)

lemma parse_lines_ConsE:
  assumes "parse_lines fuel files (line # rest) seen cat store = Some res"
  obtains (skip) "trim line = [] \<or> prefix ''#'' (trim line)"
      "parse_lines fuel files rest seen cat store = Some res"
    | (rule) "\<not> (trim line = [] \<or> prefix ''#'' (trim line))" "strip_prefix ''include:'' (trim line) = None"
      "parse_lines fuel files rest seen (add_rule_line (trim line) cat) store = Some res"
    | (missing) n where "\<not> (trim line = [] \<or> prefix ''#'' (trim line))"
      "strip_prefix ''include:'' (trim line) = Some n" "map_of files n = None"
      "parse_lines fuel files rest seen cat store = Some res"
    | (included) n raw s where "\<not> (trim line = [] \<or> prefix ''#'' (trim line))"
      "strip_prefix ''include:'' (trim line) = Some n" "map_of files n = Some raw"
      "parse_category_source fuel files n raw seen store = Some s"
      "parse_lines fuel files rest seen cat s = Some res"
proof (cases "trim line = [] \<or> prefix ''#'' (trim line)")
  case True
  then show ?thesis using assms by (intro skip) (auto simp: parse_lines.simps(2) Let_def)
next
  case outer: False
  show ?thesis
  proof (cases "strip_prefix ''include:'' (trim line)")
    case None
    with outer show ?thesis using assms by (intro rule) (simp_all add: parse_lines.simps(2) Let_def)
  next
    case (Some n)
    with outer assms missing included show ?thesis
      by (cases "map_of files n") (auto simp: parse_lines.simps(2) Let_def split: option.splits)
  qed
qed

lemma parse_more_fuel:
  "parse_category_source fuel files name source seen store = Some store' \<Longrightarrow>
     parse_category_source (Suc fuel) files name source seen store = Some store'"
  "parse_lines fuel files ls seen cat store = Some res \<Longrightarrow>
     parse_lines (Suc fuel) files ls seen cat store = Some res"
proof (induction fuel files name source seen store and fuel files ls seen cat store
    arbitrary: store' and res rule: parse_category_source_parse_lines.induct)
  case (2 fuel files name source seen store)
  then show ?case
    by (auto simp: parse_category_source.simps(2) Let_def split: if_splits option.splits)
next
  case (4 fuel files line rest seen cat store)
  from 4(6) show ?case
  proof (cases rule: parse_lines_ConsE)
    case skip
    then show ?thesis using 4(1) [OF refl skip] by (simp add: parse_lines.simps(2))
  next
    case rule
    then show ?thesis using 4(2) [OF refl rule] by (simp add: parse_lines.simps(2))
  next
    case (missing n)
    then show ?thesis using 4(3) [OF refl missing] by (simp add: parse_lines.simps(2))
  next
    case (included n raw s)
    then show ?thesis using 4(4) [OF refl included(1-4)] 4(5) [OF refl included] by (simp add: parse_lines.simps(2))
  qed
qed (simp_all add: parse_lines.simps(1) parse_category_source.simps(1))

lemma parse_any_fuel:
  "parse_category_source fuel files name source seen store = Some store' \<Longrightarrow>
     parse_category_source (fuel + k) files name source seen store = Some store'"
  by (induction k) (simp_all add: parse_more_fuel)

subsection \<open>What a category holds\<close>

text \<open>The lines of a file that are rules of its own category.\<close>

definition own_rules :: "string list \<Rightarrow> string list" where
  "own_rules ls =
     filter (\<lambda>l. l \<noteq> [] \<and> \<not> prefix ''#'' l \<and> strip_prefix ''include:'' l = None) (map trim ls)"

lemma parse_keeps:
  "parse_category_source fuel files name source seen store = Some store' \<Longrightarrow>
     \<forall>n \<in> seen. gs_categories store' n = gs_categories store n"
  "parse_lines fuel files ls seen cat store = Some (cat', store') \<Longrightarrow>
     cat' = fold add_rule_line (own_rules ls) cat \<and> (\<forall>n \<in> seen. gs_categories store' n = gs_categories store n)"
proof (induction fuel files name source seen store and fuel files ls seen cat store
    arbitrary: store' and cat' store' rule: parse_category_source_parse_lines.induct)
  case (2 fuel files name source seen store)
  show ?case
  proof (cases "name \<in> seen")
    case False
    then obtain cat' s where s: "parse_lines fuel files (str_lines source) (insert name seen)
        (case gs_categories store name of None \<Rightarrow> new_category name | Some c \<Rightarrow> c) store = Some (cat', s)"
        "store' = s\<lparr>gs_categories := (gs_categories s)(name \<mapsto> cat')\<rparr>"
      using 2(2) by (auto simp: parse_category_source.simps(2) Let_def split: option.splits)
    from 2(1) [OF False refl refl s(1)] s(2) False show ?thesis by auto
  qed (use 2(2) in \<open>simp add: parse_category_source.simps(2)\<close>)
next
  case (4 fuel files line rest seen cat store)
  from 4(6) show ?case
  proof (cases rule: parse_lines_ConsE)
    case skip
    then show ?thesis using 4(1) [OF refl skip] by (auto simp: own_rules_def)
  next
    case rule
    then show ?thesis using 4(2) [OF refl rule] by (auto simp: own_rules_def)
  next
    case (missing n)
    then show ?thesis using 4(3) [OF refl missing] by (auto simp: own_rules_def)
  next
    case (included n raw s)
    then show ?thesis using 4(4) [OF refl included(1-4)] 4(5) [OF refl included] by (auto simp: own_rules_def)
  qed
next
  case (1 files name source seen store)
  then show ?case by (simp add: parse_category_source.simps(1))
next
  case (3 fuel files seen cat store)
  then show ?case by (simp add: parse_lines.simps(1) own_rules_def)
qed

text \<open>
  C35. Loading a category file ends for every directory, also when the includes are cyclic: fuel for
  one recursion per readable file (and the file itself) is enough, and more fuel changes nothing. The
  category then holds what it held before and the rules written in its own file, and no others: the
  rules of an included file go to the category of that name only.
\<close>

theorem geosite_load_terminates:
  "\<exists>store'. load_category files name raw store = Some store' \<and>
     parse_category_source (include_fuel files + k) files name raw {} store = Some store' \<and>
     gs_categories store' name = Some (fold add_rule_line (own_rules (str_lines raw))
       (case gs_categories store name of Some c \<Rightarrow> c | None \<Rightarrow> new_category name))"
proof -
  have "unseen files {} \<le> length files"
    unfolding unseen_def using card_length [of "map fst files"] by simp
  then have "Suc (unseen files {}) < include_fuel files" by (simp add: include_fuel_def)
  then obtain store' where s: "parse_category_source (include_fuel files) files name raw {} store = Some store'"
    using parse_terminates(1) by blast
  then have "gs_categories store' name = Some (fold add_rule_line (own_rules (str_lines raw))
       (case gs_categories store name of Some c \<Rightarrow> c | None \<Rightarrow> new_category name))"
    by (auto simp: include_fuel_def parse_category_source.simps(2) Let_def dest: parse_keeps(2) split: option.splits)
  with s parse_any_fuel [OF s] show ?thesis by (auto simp: load_category_def)
qed

lemma store_load_total: "\<exists>store. store_load dir files entries = Some store"
proof -
  have "\<exists>store'. load_dir files entries store = Some store'" for store
  proof (induction entries arbitrary: store)
    case (Cons e entries)
    obtain name contents where e: "e = (name, contents)" by (cases e)
    have "\<exists>store'. load_category files name raw store = Some store'" for raw
      unfolding load_category_def
      by (rule parse_terminates(1)) (use card_length [of "map fst files"] in \<open>simp add: unseen_def include_fuel_def\<close>)
    then obtain next_store where "load_category files name raw store = Some (next_store raw)" for raw by metis
    then show ?case using Cons.IH by (cases contents) (auto simp: e)
  qed simp
  then show ?thesis by (simp add: store_load_def Let_def)
qed

end
