(* ===== verification/B4Sets.thy ===== *)
theory B4Sets
  imports B4Geosite
begin

text \<open>
  What the DPI-bypass engine is configured with: the strategy sets of
  \<open>src/crates/balansir-b4/src/set.rs\<close>, the legacy strategies and profiles of \<open>strategies.rs\<close>, and the
  configuration file of \<open>config.rs\<close>, whose TOML parser is a parameter.
\<close>

subsection \<open>Strategy sets\<close>

record IncomingPlane =
  in_mode :: string
  in_min :: u32
  in_max :: u32
  in_fake_ttl :: u8
  in_fake_count :: u32
  in_strategy :: string

record DesyncPlane =
  de_mode :: string
  de_ttl :: u8
  de_count :: u32
  de_post_desync :: bool

record WinPlane =
  wi_mode :: string
  wi_values :: "u32 list"

record DuplicatePlane =
  du_enabled :: bool
  du_count :: u32

record TcpPlane =
  tc_conn_bytes_limit :: u32
  tc_seg2delay :: u64
  tc_seg2delay_max :: u64
  tc_syn_fake :: bool
  tc_syn_fake_len :: u32
  tc_syn_ttl :: u8
  tc_drop_sack :: bool
  tc_incoming :: IncomingPlane
  tc_desync :: DesyncPlane
  tc_win :: WinPlane
  tc_duplicate :: DuplicatePlane

record UdpPlane =
  ud_mode :: string
  ud_fake_seq_length :: u32
  ud_fake_len :: u32
  ud_faking_strategy :: string
  ud_dport_filter :: string
  ud_filter_quic :: string
  ud_filter_stun :: bool
  ud_conn_bytes_limit :: u32
  ud_seg2delay :: u64
  ud_seg2delay_max :: u64

record ComboPlane =
  co_first_byte_split :: bool
  co_extension_split :: bool
  co_shuffle_mode :: string
  co_first_delay_ms :: u64
  co_jitter_max_us :: u64
  co_decoy_enabled :: bool
  co_decoy_snis :: "string list"

record DisorderPlane =
  di_shuffle_mode :: string
  di_min_jitter_us :: u64
  di_max_jitter_us :: u64

record FragmentationPlane =
  fr_strategy :: string
  fr_reverse_order :: bool
  fr_tlsrec_pos :: u32
  fr_middle_sni :: bool
  fr_sni_position :: u32
  fr_oob_position :: u32
  fr_oob_char :: u8
  fr_seq_overlap_pattern :: "u32 list"
  fr_combo :: ComboPlane
  fr_disorder :: DisorderPlane

record SniMutationPlane =
  sm_mode :: string
  sm_grease_count :: u32
  sm_padding_size :: u32
  sm_fake_ext_count :: u32
  sm_fake_snis :: "string list"

record FakingPlane =
  fa_sni :: bool
  fa_ttl :: u8
  fa_strategy :: string
  fa_seq_offset :: u32
  fa_sni_seq_length :: u32
  fa_sni_type :: u32
  fa_custom_payload :: string
  fa_payload_file :: string
  fa_tls_mod :: "u32 list"
  fa_timestamp_decrease :: u64
  fa_sni_mutation :: SniMutationPlane
  fa_tcp_md5 :: bool

record Targets =
  ta_sni_domains :: "string list"
  ta_ip :: "string list"
  ta_geosite_categories :: "string list"
  ta_geoip_categories :: "string list"

record DnsPlane =
  dn_enabled :: bool
  dn_target_dns :: string
  dn_fragment_query :: bool

record B4Set =
  bs_id :: "string option"
  bs_name :: string
  bs_tcp :: TcpPlane
  bs_udp :: UdpPlane
  bs_fragmentation :: FragmentationPlane
  bs_faking :: FakingPlane
  bs_targets :: Targets
  bs_enabled :: bool
  bs_dns :: DnsPlane

definition wants_udp :: "B4Set \<Rightarrow> bool" where
  "wants_udp s \<longleftrightarrow> bs_enabled s \<and> ud_mode (bs_udp s) = ''fake''"

definition wants_tcp :: "B4Set \<Rightarrow> bool" where
  "wants_tcp s \<longleftrightarrow> bs_enabled s"

definition literal_domains :: "B4Set \<Rightarrow> string list" where
  "literal_domains s = ta_sni_domains (bs_targets s)"

definition literal_ips :: "B4Set \<Rightarrow> string list" where
  "literal_ips s = ta_ip (bs_targets s)"

definition has_geosite :: "B4Set \<Rightarrow> bool" where
  "has_geosite s \<longleftrightarrow> ta_geosite_categories (bs_targets s) \<noteq> []"

definition has_geoip :: "B4Set \<Rightarrow> bool" where
  "has_geoip s \<longleftrightarrow> ta_geoip_categories (bs_targets s) \<noteq> []"

subsection \<open>Strategies and profiles\<close>

datatype Strategy = Mss u16 | StripSack | Ttl u8 | Noop

record Profile =
  pf_name :: string
  pf_domains :: "string list"
  pf_strategies :: "Strategy list"

definition matches_host :: "Profile \<Rightarrow> string \<Rightarrow> bool" where
  "matches_host p host =
     (let h = norm_host host in list_ex (\<lambda>d. domain_covers (norm_host d) h) (pf_domains p))"

record EngineConfig =
  ec_profiles :: "Profile list"

definition profile_for :: "EngineConfig \<Rightarrow> string \<Rightarrow> Profile option" where
  "profile_for cfg host =
     (case find (\<lambda>p. pf_domains p \<noteq> [] \<and> matches_host p host) (ec_profiles cfg) of
        Some p \<Rightarrow> Some p
      | None \<Rightarrow> find (\<lambda>p. pf_domains p = []) (ec_profiles cfg))"

subsection \<open>The configuration file\<close>

datatype StrategyToml = TMss u16 | TStripSack | TTtl u8 | TNoop

record ProfileToml =
  pt_name :: string
  pt_domains :: "string list"
  pt_strategies :: "StrategyToml list"
  pt_set :: "B4Set option"

record B4Config =
  bc_queue_num :: u16
  bc_ports :: "u16 list"
  bc_udp_ports :: "u16 list"
  bc_profiles :: "ProfileToml list"
  bc_sets :: "B4Set list"

definition mss_error :: "string \<Rightarrow> u16 \<Rightarrow> string" where
  "mss_error name mss =
     ''b4 config: profile '' @ [CHR 0x27] @ name @ [CHR 0x27] @ '': mss must be in [100, 1460), got '' @ show_u mss"

fun check_strategies :: "string \<Rightarrow> StrategyToml list \<Rightarrow> (unit, string) result" where
  "check_strategies name [] = Inr ()"
| "check_strategies name (TMss mss # rest) =
     (if mss < 100 \<or> 1460 \<le> mss then Inl (mss_error name mss) else check_strategies name rest)"
| "check_strategies name (_ # rest) = check_strategies name rest"

fun check_profiles :: "ProfileToml list \<Rightarrow> (unit, string) result" where
  "check_profiles [] = Inr ()"
| "check_profiles (p # ps) =
     (case check_strategies (pt_name p) (pt_strategies p) of
        Inl e \<Rightarrow> Inl e
      | Inr _ \<Rightarrow> check_profiles ps)"

text \<open>\<open>toml_from_str\<close> is the TOML parser of the \<open>toml\<close> crate.\<close>

definition config_parse ::
    "(string \<Rightarrow> (B4Config, string) result) \<Rightarrow> string \<Rightarrow> (B4Config, string) result" where
  "config_parse toml_from_str raw =
     (case toml_from_str raw of
        Inl e \<Rightarrow> Inl (''b4 config parse error: '' @ e)
      | Inr cfg \<Rightarrow>
          (case check_profiles (bc_profiles cfg) of Inl e \<Rightarrow> Inl e | Inr _ \<Rightarrow> Inr cfg))"

fun to_strategy :: "StrategyToml \<Rightarrow> Strategy" where
  "to_strategy (TMss mss) = Mss mss"
| "to_strategy TStripSack = StripSack"
| "to_strategy (TTtl ttl) = Ttl ttl"
| "to_strategy TNoop = Noop"

definition into_engine :: "B4Config \<Rightarrow> EngineConfig" where
  "into_engine cfg =
     \<lparr>ec_profiles = map (\<lambda>p. \<lparr>pf_name = pt_name p, pf_domains = pt_domains p,
        pf_strategies = map to_strategy (pt_strategies p)\<rparr>) (bc_profiles cfg)\<rparr>"

definition ports :: "B4Config \<Rightarrow> u16 list" where
  "ports cfg = (if bc_ports cfg = [] then [443] else bc_ports cfg)"

definition udp_ports :: "B4Config \<Rightarrow> u16 list" where
  "udp_ports cfg = (if bc_udp_ports cfg = [] then [443] else bc_udp_ports cfg)"

definition all_sets :: "B4Config \<Rightarrow> B4Set list" where
  "all_sets cfg = bc_sets cfg @ List.map_filter pt_set (bc_profiles cfg)"

definition config_wants_udp :: "B4Config \<Rightarrow> bool" where
  "config_wants_udp cfg \<longleftrightarrow> list_ex wants_udp (all_sets cfg)"

subsection \<open>What a parsed configuration guarantees\<close>

fun strategy_ok :: "Strategy \<Rightarrow> bool" where
  "strategy_ok (Mss mss) \<longleftrightarrow> 100 \<le> mss \<and> mss < 1460"
| "strategy_ok _ \<longleftrightarrow> True"

lemma check_strategies_ok:
  "check_strategies name ss = Inr () \<longleftrightarrow> list_all (\<lambda>s. strategy_ok (to_strategy s)) ss"
  by (induction name ss rule: check_strategies.induct) auto

lemma check_profiles_ok:
  "check_profiles ps = Inr () \<longleftrightarrow> list_all (\<lambda>p. list_all (\<lambda>s. strategy_ok (to_strategy s)) (pt_strategies p)) ps"
proof (induction ps)
  case (Cons p ps)
  then show ?case
    using check_strategies_ok [of "pt_name p" "pt_strategies p"]
    by (cases "check_strategies (pt_name p) (pt_strategies p)") auto
qed simp

lemma profile_for_in: "profile_for cfg host = Some p \<Longrightarrow> p \<in> set (ec_profiles cfg)"
  by (auto simp: profile_for_def find_Some_iff split: option.splits)

text \<open>
  C39. The engine configuration of an accepted file: every MSS rewrite of a profile that applies to a
  host is below the usual 1460 bytes and at least 100, and a file is refused exactly when it does not
  parse or has a profile with an MSS outside those bounds.
\<close>

theorem parsed_config_well_typed:
  "((\<exists>cfg. config_parse toml raw = Inr cfg) \<longleftrightarrow>
     (\<exists>cfg. toml raw = Inr cfg \<and> list_all (\<lambda>p. list_all strategy_ok (pf_strategies p)) (ec_profiles (into_engine cfg)))) \<and>
   (config_parse toml raw = Inr cfg \<longrightarrow> profile_for (into_engine cfg) host = Some p \<longrightarrow>
     list_all strategy_ok (pf_strategies p))"
proof -
  have ok: "check_profiles (bc_profiles cfg) = Inr () \<longleftrightarrow>
      list_all (\<lambda>p. list_all strategy_ok (pf_strategies p)) (ec_profiles (into_engine cfg))" for cfg
    by (simp add: check_profiles_ok into_engine_def list.pred_map comp_def)
  have parse: "config_parse toml raw = Inr cfg \<longleftrightarrow>
      toml raw = Inr cfg \<and> list_all (\<lambda>p. list_all strategy_ok (pf_strategies p)) (ec_profiles (into_engine cfg))" for cfg
    unfolding ok [symmetric] by (auto simp: config_parse_def split: sum.splits)
  show ?thesis
    using profile_for_in [of "into_engine cfg" host p] by (auto simp: parse list_all_iff)
qed

definition example_config :: B4Config where
  "example_config = \<lparr>bc_queue_num = 0, bc_ports = [], bc_udp_ports = [],
     bc_profiles = [\<lparr>pt_name = ''yt'', pt_domains = [''youtube.com''],
       pt_strategies = [TMss 1200, TStripSack], pt_set = None\<rparr>], bc_sets = []\<rparr>"

theorem parsed_config_well_typed_witness:
  "config_parse (\<lambda>_. Inr example_config) [] = Inr example_config \<and>
   (\<exists>p. profile_for (into_engine example_config) ''WWW.YouTube.com.'' = Some p \<and>
     pf_strategies p = [Mss 1200, StripSack] \<and> list_all strategy_ok (pf_strategies p))"
proof -
  have c: "config_parse (\<lambda>_. Inr example_config) [] = Inr example_config" by code_simp
  have "map_option pf_name (profile_for (into_engine example_config) ''WWW.YouTube.com.'') = Some ''yt''" by code_simp
  then obtain q where q: "profile_for (into_engine example_config) ''WWW.YouTube.com.'' = Some q" by auto
  then have "q \<in> set (ec_profiles (into_engine example_config))" by (rule profile_for_in)
  then have "pf_strategies q = [Mss 1200, StripSack]" by (simp add: into_engine_def example_config_def)
  with c q parsed_config_well_typed [of "\<lambda>_. Inr example_config" "[]" example_config "''WWW.YouTube.com.''" q]
  show ?thesis by blast
qed

text \<open>
  Which profile a host gets: one with a domain that is the host or one of its parent domains (as
  label lists, whatever the case and trailing dots), if there is any, even when a catch-all profile
  is listed first; otherwise a catch-all; and none only when neither exists.
\<close>

theorem profile_for_prefers_specific:
  "case profile_for cfg host of
     Some p \<Rightarrow> p \<in> set (ec_profiles cfg) \<and>
       ((\<exists>d \<in> set (pf_domains p). suffix (labels (norm_host d)) (labels (norm_host host))) \<or>
        pf_domains p = [] \<and> (\<forall>q \<in> set (ec_profiles cfg). \<forall>d \<in> set (pf_domains q).
          \<not> suffix (labels (norm_host d)) (labels (norm_host host))))
   | None \<Rightarrow> \<forall>q \<in> set (ec_profiles cfg). pf_domains q \<noteq> [] \<and> (\<forall>d \<in> set (pf_domains q).
       \<not> suffix (labels (norm_host d)) (labels (norm_host host)))"
proof -
  have m: "matches_host p host \<longleftrightarrow> (\<exists>d \<in> set (pf_domains p). suffix (labels (norm_host d)) (labels (norm_host host)))" for p
    by (simp add: matches_host_def list_ex_iff domain_covers_labels)
  show ?thesis
  proof (cases "find (\<lambda>p. pf_domains p \<noteq> [] \<and> matches_host p host) (ec_profiles cfg)")
    case (Some p)
    then show ?thesis using find_SomeD [OF Some] by (simp add: profile_for_def m)
  next
    case None
    then have none: "\<forall>q \<in> set (ec_profiles cfg). \<not> matches_host q host"
      by (auto simp: find_None_iff m)
    with None show ?thesis
      by (auto simp: profile_for_def find_None_iff m split: option.split dest: find_SomeD)
  qed
qed

theorem profile_for_prefers_specific_witness:
  "\<exists>p d. profile_for \<lparr>ec_profiles = \<lparr>pf_name = ''default'', pf_domains = [], pf_strategies = []\<rparr> #
       ec_profiles (into_engine example_config)\<rparr> ''www.youtube.com'' = Some p \<and> pf_name p = ''yt'' \<and>
     suffix (labels (norm_host d)) (labels (norm_host ''www.youtube.com''))"
proof -
  let ?cfg = "\<lparr>ec_profiles = \<lparr>pf_name = ''default'', pf_domains = [], pf_strategies = []\<rparr> #
       ec_profiles (into_engine example_config)\<rparr>"
  have "map_option (\<lambda>p. (pf_name p, pf_domains p)) (profile_for ?cfg ''www.youtube.com'') =
      Some (''yt'', [''youtube.com''])" by code_simp
  then obtain p where p: "profile_for ?cfg ''www.youtube.com'' = Some p" "pf_name p = ''yt''"
      "pf_domains p = [''youtube.com'']" by auto
  with profile_for_prefers_specific [of ?cfg "''www.youtube.com''"] show ?thesis by auto
qed

end
