(* ===== verification/B4Apply.thy ===== *)
theory B4Apply
  imports B4Fragment B4Sets
begin

text \<open>
  Packet mutation: the legacy strategies (\<open>Strategy::apply\<close> and \<open>Strategy::mutate\<close> of
  \<open>src/crates/balansir-b4/src/strategies.rs\<close>) and the strategy sets (\<open>set_apply.rs\<close>). Every mutation is
  an edit of a packet that may report a change or panic; the locale \<open>packet_edit\<close> states what all of
  them keep, and the checksums of a mutated packet follow from that contract alone.
\<close>

subsection \<open>Definitions\<close>

type_synonym edit = "TcpPacket \<Rightarrow> (bool \<times> TcpPacket) option"

definition set_ttl :: "u8 \<Rightarrow> edit" where
  "set_ttl ttl pkt = do {
     old \<leftarrow> index (tp_raw pkt) 8;
     if old \<noteq> ttl then do { raw \<leftarrow> store (tp_raw pkt) 8 ttl; Some (True, pkt\<lparr>tp_raw := raw\<rparr>) }
     else Some (False, pkt) }"

fun strategy_apply :: "Strategy \<Rightarrow> edit" where
  "strategy_apply (Mss mss) pkt = set_mss mss pkt"
| "strategy_apply StripSack pkt = strip_option SACK_PERMITTED pkt"
| "strategy_apply (Ttl ttl) pkt = set_ttl ttl pkt"
| "strategy_apply Noop pkt = Some (False, pkt)"

text \<open>Both checksum functions, as every caller applies them after a change.\<close>

definition fix_checksums :: "TcpPacket \<Rightarrow> TcpPacket option" where
  "fix_checksums pkt = do { pkt \<leftarrow> fix_ipv4_checksum pkt; fix_tcp_checksum pkt }"

definition mutate :: "Strategy \<Rightarrow> TcpPacket \<Rightarrow> u8 list option option" where
  "mutate s pkt = do {
     (changed, copy) \<leftarrow> strategy_apply s pkt;
     if changed then do { copy \<leftarrow> fix_checksums copy; Some (Some (tp_raw copy)) }
     else Some None }"

datatype ApplyOutcome =
    Pass
  | Mutated "u8 list"
  | Fragment "u8 list" "u8 list"
  | Drop

definition tcp_in_scope :: "B4Set \<Rightarrow> TcpPacket \<Rightarrow> bool" where
  "tcp_in_scope s pkt \<longleftrightarrow> wants_tcp s"

definition default_mss_for :: "FragmentationPlane \<Rightarrow> u16 option" where
  "default_mss_for plan =
     (if fr_strategy plan = [] \<or> fr_strategy plan = ''none'' then None else Some 1200)"

text \<open>The edits of \<open>apply_tcp\<close> in order; \<open>changed |= ...\<close> accumulates.\<close>

definition then_edit :: "edit \<Rightarrow> edit \<Rightarrow> edit" where
  "then_edit e1 e2 pkt = do {
     (changed1, pkt) \<leftarrow> e1 pkt;
     (changed2, pkt) \<leftarrow> e2 pkt;
     Some (changed1 \<or> changed2, pkt) }"

definition no_edit :: edit where
  "no_edit pkt = Some (False, pkt)"

definition syn_edits :: "B4Set \<Rightarrow> edit" where
  "syn_edits s =
     then_edit (case default_mss_for (bs_fragmentation s) of Some mss \<Rightarrow> set_mss mss | None \<Rightarrow> no_edit)
       (then_edit (if tc_drop_sack (bs_tcp s) then strip_option SACK_PERMITTED else no_edit)
          (if tc_syn_ttl (bs_tcp s) \<noteq> 0 then set_ttl (tc_syn_ttl (bs_tcp s)) else no_edit))"

definition seq_edit :: "B4Set \<Rightarrow> edit" where
  "seq_edit s pkt = do {
     seq \<leftarrow> tcp_seq pkt;
     let offset = fa_seq_offset (bs_faking s);
     if 0 < offset then do { pkt \<leftarrow> set_tcp_seq (seq + offset) pkt; Some (True, pkt) }
     else Some (False, pkt) }"

definition tcp_edits :: "B4Set \<Rightarrow> bool \<Rightarrow> bool \<Rightarrow> edit" where
  "tcp_edits s is_syn is_first_seg =
     then_edit (if is_syn then syn_edits s else no_edit)
       (if is_first_seg \<and> fa_sni (bs_faking s) \<and> fa_strategy (bs_faking s) = ''pastseq''
        then seq_edit s else no_edit)"

definition apply_tcp :: "B4Set \<Rightarrow> TcpPacket \<Rightarrow> bool \<Rightarrow> bool \<Rightarrow> ApplyOutcome option" where
  "apply_tcp s pkt is_syn is_first_seg =
     (if \<not> wants_tcp s then Some Pass
      else do {
        (changed, mutated) \<leftarrow> tcp_edits s is_syn is_first_seg pkt;
        if changed then do { mutated \<leftarrow> fix_checksums mutated; Some (Mutated (tp_raw mutated)) }
        else Some Pass })"

definition combo_split_point :: "ComboPlane \<Rightarrow> usize \<Rightarrow> usize" where
  "combo_split_point combo payload_len =
     (if co_first_byte_split combo then min 1 (payload_len - 1)
      else if co_extension_split combo \<and> 2 \<le> payload_len then min (max (payload_len div 3) 1) (payload_len - 1)
      else payload_len div 2)"

definition fragment_for :: "B4Set \<Rightarrow> TcpPacket \<Rightarrow> (u8 list \<times> u8 list) option option" where
  "fragment_for s pkt =
     (if \<not> wants_tcp s then Some None
      else
        let plan = bs_fragmentation s
        in if fr_strategy plan \<noteq> ''combo'' \<and> fr_strategy plan \<noteq> ''disorder'' then Some None
           else do {
             payload \<leftarrow> tcp_payload pkt;
             if payload = [] \<or> length payload < 2 then Some None
             else
               let split_at = combo_split_point (fr_combo plan) (length payload)
               in if split_at = 0 \<or> length payload \<le> split_at then Some None
                  else fragment_tcp_payload pkt split_at })"

definition apply_udp :: "B4Set \<Rightarrow> UdpPacket \<Rightarrow> ApplyOutcome option" where
  "apply_udp s pkt =
     (if \<not> wants_udp s then Some Pass
      else do {
        port \<leftarrow> udp_dst_port pkt;
        if port \<noteq> 443 then Some Pass else Some (Mutated []) })"

definition fake_quic_packet_for ::
    "(nat \<Rightarrow> u8) \<Rightarrow> B4Set \<Rightarrow> UdpPacket \<Rightarrow> u8 list option option" where
  "fake_quic_packet_for rand s pkt =
     (if \<not> wants_udp s then Some None
      else do {
        port \<leftarrow> udp_dst_port pkt;
        if port \<noteq> 443 then Some None
        else do {
          let payload_len = unat (max (ud_fake_len (bs_udp s)) 1);
          src \<leftarrow> udp_src_ip pkt; dst \<leftarrow> udp_dst_ip pkt; sport \<leftarrow> udp_src_port pkt;
          fake \<leftarrow> build_fake_quic_packet rand src dst sport port payload_len;
          Some (Some fake) } })"

subsection \<open>What every edit keeps\<close>

text \<open>The bytes that identify the flow (protocol, addresses, ports) and the TCP checksum field.\<close>

definition flow_bytes :: "TcpPacket \<Rightarrow> nat set" where
  "flow_bytes pkt = {9} \<union> {12..<20} \<union> {tp_tcp_offset pkt..<tp_tcp_offset pkt + 4} \<union>
     {tp_tcp_offset pkt + 16, tp_tcp_offset pkt + 17}"

definition same_flow :: "TcpPacket \<Rightarrow> TcpPacket \<Rightarrow> bool" where
  "same_flow pkt pkt' \<longleftrightarrow>
     tp_tcp_offset pkt' = tp_tcp_offset pkt \<and> tcp_payload pkt' = tcp_payload pkt \<and>
     (\<forall>i \<in> flow_bytes pkt. tp_raw pkt' ! i = tp_raw pkt ! i)"

lemma same_flow_refl [simp]: "same_flow pkt pkt"
  by (simp add: same_flow_def)

lemma same_flow_trans: "same_flow a b \<Longrightarrow> same_flow b c \<Longrightarrow> same_flow a c"
  by (simp add: same_flow_def flow_bytes_def)

text \<open>The checksum functions on a valid packet.\<close>

lemma payload_with_checksums:
  assumes "tcp_wf pkt"
  shows "tcp_payload (with_checksums pkt) = tcp_payload pkt"
proof -
  have "tp_tcp_offset pkt + 20 \<le> tp_tcp_offset pkt + tp_tcp_header_len pkt" "20 \<le> tp_tcp_offset pkt"
      "tp_tcp_offset pkt + tp_tcp_header_len pkt \<le> length (tp_raw pkt)"
    using assms by (auto simp: tcp_wf_def)
  then show ?thesis
    by (simp add: tcp_payload_def slice_from_def with_checksums_def with_tcp_checksum_def Let_def drop_overwrite)
qed

lemma fix_checksums_valid:
  assumes "tcp_valid pkt"
  shows "\<exists>out. fix_checksums pkt = Some out \<and> tcp_valid out \<and> tcp_payload out = tcp_payload pkt \<and>
    tp_tcp_offset out = tp_tcp_offset pkt \<and>
    (\<forall>i < length (tp_raw pkt). i \<notin> {10, 11, tp_tcp_offset pkt + 16, tp_tcp_offset pkt + 17} \<longrightarrow>
      tp_raw out ! i = tp_raw pkt ! i) \<and>
    ipv4_checksum_ok (tp_raw out) \<and>
    (tcp_checksum_ok (tp_raw out) \<longleftrightarrow> field_at (tp_raw pkt) (tp_tcp_offset pkt + 16) \<in> {0, 0xffff})"
proof -
  define p where "p = pkt\<lparr>tp_raw := overwrite (tp_raw pkt) 10 (u16_to_be (ipv4_checksum pkt))\<rparr>"
  have wf: "20 \<le> tp_ip_header_len pkt" "tp_tcp_offset pkt = tp_ip_header_len pkt"
      "tp_tcp_offset pkt + 20 \<le> length (tp_raw pkt)" "20 \<le> tp_tcp_header_len pkt"
      "tp_tcp_offset pkt + tp_tcp_header_len pkt \<le> length (tp_raw pkt)" "tp_raw pkt \<noteq> []"
    using assms by (auto simp: tcp_valid_def tcp_wf_def)
  have v: "tcp_valid p"
    unfolding p_def using wf by (intro tcp_valid_update [OF assms]) (auto simp: nth_overwrite)
  then have pwf: "tcp_wf p" by (simp add: tcp_valid_def)
  have "fix_checksums pkt = Some (with_checksums p)"
    using wf pwf by (simp add: fix_checksums_def fix_ipv4_checksum_eq fix_tcp_checksum_eq flip: p_def)
  moreover have "tcp_payload (with_checksums p) = tcp_payload pkt"
    using wf payload_with_checksums [OF pwf] by (simp add: p_def tcp_payload_def slice_from_def drop_overwrite)
  moreover have "tp_raw (with_checksums p) ! i = tp_raw pkt ! i"
    if "i < length (tp_raw pkt)" "i \<notin> {10, 11, tp_tcp_offset pkt + 16, tp_tcp_offset pkt + 17}" for i
  proof -
    have "\<not> (10 \<le> i \<and> i < 12)" using that by auto
    with that with_checksums_bytes(2) [OF pwf, of i] wf show ?thesis by (simp add: p_def nth_overwrite)
  qed
  moreover have "field_at (tp_raw p) (tp_tcp_offset p + 16) = field_at (tp_raw pkt) (tp_tcp_offset pkt + 16)"
    using wf by (simp add: p_def field_at_def nth_overwrite)
  ultimately show ?thesis
    using tcp_valid_with_checksums [OF v] ipv4_checksum_ok_with_checksums [OF v] tcp_checksum_with_checksums [OF v]
    by (simp add: p_def)
qed

locale packet_edit =
  fixes edit :: edit
  assumes kept: "tcp_valid pkt \<Longrightarrow> edit pkt = Some (changed, pkt') \<Longrightarrow> tcp_valid pkt' \<and> same_flow pkt pkt'"
    and idle: "tcp_valid pkt \<Longrightarrow> edit pkt = Some (False, pkt') \<Longrightarrow> pkt' = pkt"
begin

lemma finished:
  assumes "tcp_valid pkt" and "edit pkt = Some (changed, pkt')"
  shows "\<exists>out. fix_checksums pkt' = Some out \<and> tcp_valid out \<and> tcp_payload out = tcp_payload pkt \<and>
    tp_tcp_offset out = tp_tcp_offset pkt \<and>
    (\<forall>i \<in> flow_bytes pkt - {tp_tcp_offset pkt + 16, tp_tcp_offset pkt + 17}. tp_raw out ! i = tp_raw pkt ! i) \<and>
    ipv4_checksum_ok (tp_raw out) \<and>
    (tcp_checksum_ok (tp_raw out) \<longleftrightarrow> field_at (tp_raw pkt) (tp_tcp_offset pkt + 16) \<in> {0, 0xffff})"
proof -
  have v: "tcp_valid pkt'" and s: "same_flow pkt pkt'" using kept [OF assms] by auto
  have len: "20 \<le> tp_tcp_offset pkt'" "tp_tcp_offset pkt' + 20 \<le> length (tp_raw pkt')"
    using v by (auto simp: tcp_valid_def tcp_wf_def)
  have f: "field_at (tp_raw pkt') (tp_tcp_offset pkt + 16) = field_at (tp_raw pkt) (tp_tcp_offset pkt + 16)"
    using s by (simp add: same_flow_def field_at_def flow_bytes_def ac_simps)
  from fix_checksums_valid [OF v] obtain out where out: "fix_checksums pkt' = Some out" "tcp_valid out"
      "tcp_payload out = tcp_payload pkt'" "tp_tcp_offset out = tp_tcp_offset pkt'"
      "\<And>i. i < length (tp_raw pkt') \<Longrightarrow> i \<notin> {10, 11, tp_tcp_offset pkt' + 16, tp_tcp_offset pkt' + 17} \<Longrightarrow>
        tp_raw out ! i = tp_raw pkt' ! i"
      "ipv4_checksum_ok (tp_raw out)"
      "tcp_checksum_ok (tp_raw out) \<longleftrightarrow> field_at (tp_raw pkt') (tp_tcp_offset pkt' + 16) \<in> {0, 0xffff}"
    by blast
  have "tp_raw out ! i = tp_raw pkt ! i" if "i \<in> flow_bytes pkt - {tp_tcp_offset pkt + 16, tp_tcp_offset pkt + 17}" for i
  proof -
    have "tp_raw out ! i = tp_raw pkt' ! i"
      using that s len by (intro out(5)) (auto simp: same_flow_def flow_bytes_def)
    with that s show ?thesis by (simp add: same_flow_def)
  qed
  with out s f show ?thesis by (simp add: same_flow_def)
qed

end

text \<open>Edits compose.\<close>

lemma packet_edit_then:
  assumes "packet_edit e1" and "packet_edit e2"
  shows "packet_edit (then_edit e1 e2)"
proof
  fix pkt changed pkt'
  assume v: "tcp_valid pkt"
  {
    assume "then_edit e1 e2 pkt = Some (changed, pkt')"
    then obtain c1 p c2 where "e1 pkt = Some (c1, p)" "e2 p = Some (c2, pkt')"
      by (auto simp: then_edit_def bind_eq_Some_conv)
    with v packet_edit.kept [OF assms(1)] packet_edit.kept [OF assms(2)]
    show "tcp_valid pkt' \<and> same_flow pkt pkt'" by (meson same_flow_trans)
  next
    assume "then_edit e1 e2 pkt = Some (False, pkt')"
    then obtain p where "e1 pkt = Some (False, p)" "e2 p = Some (False, pkt')"
      by (auto simp: then_edit_def bind_eq_Some_conv)
    with v packet_edit.idle [OF assms(1)] packet_edit.idle [OF assms(2)] show "pkt' = pkt" by metis
  }
qed

interpretation none: packet_edit no_edit
  by unfold_locales (auto simp: no_edit_def)

interpretation mss: packet_edit "set_mss mss" for mss
proof
  fix pkt changed pkt'
  assume v: "tcp_valid pkt"
  obtain os rest where p: "parse_options (options_of pkt) = (os, rest)" by (cases "parse_options (options_of pkt)")
  have eq: "set_mss mss pkt = Some (list_ex is_mss os, with_mss mss pkt)"
    using set_mss_eq [OF v p] by (simp add: with_mss_def p)
  note parts = with_mss_parts [OF v p, of mss]
  have "tp_raw (with_mss mss pkt) ! i = tp_raw pkt ! i" if "i < tp_tcp_offset pkt + 20" for i
    using arg_cong [OF parts(3), of "\<lambda>xs. xs ! i"] that by simp
  moreover have "20 \<le> tp_tcp_offset pkt" using v by (auto simp: tcp_valid_def tcp_wf_def)
  ultimately have "same_flow pkt (with_mss mss pkt)"
    using parts(5) by (auto simp: same_flow_def flow_bytes_def with_mss_def)
  then show "tcp_valid pkt' \<and> same_flow pkt pkt'" if "set_mss mss pkt = Some (changed, pkt')"
    using that eq parts(1) by auto
  show "pkt' = pkt" if "set_mss mss pkt = Some (False, pkt')"
  proof -
    have "\<not> list_ex is_mss os" "pkt' = with_mss mss pkt" using that eq by auto
    moreover have "tcp_wf pkt" using v by (simp add: tcp_valid_def)
    ultimately show ?thesis
      using options_split [of pkt] show_parse_options [OF p] by (simp add: with_mss_def p update_mss_id)
  qed
qed

interpretation sack: packet_edit "strip_option kind" for kind
proof
  fix pkt changed pkt'
  assume v: "tcp_valid pkt"
  then have wf: "tcp_wf pkt" by (simp add: tcp_valid_def)
  note eq = strip_option_eq [OF wf, of kind]
  show "tcp_valid pkt' \<and> same_flow pkt pkt'" if s: "strip_option kind pkt = Some (changed, pkt')"
  proof (cases "list_ex (of_kind kind) (fst (parse_options (options_of pkt)))")
    case True
    let ?kept = "pad4 1 (kept_options kind pkt)"
    have p: "pkt' = rebuilt pkt ?kept" using s True by (auto simp: eq split: if_splits)
    have "tcp_valid (rebuilt pkt ?kept)"
      by (rule rebuilt_valid [OF v dvd_length_pad4 kept_options_fit [OF wf True]])
    moreover have "tp_raw (rebuilt pkt ?kept) ! i = tp_raw pkt ! i" if "i \<in> flow_bytes pkt" for i
    proof -
      have "20 \<le> tp_tcp_offset pkt" using wf by (auto simp: tcp_wf_def)
      then have "i < tp_tcp_offset pkt + 20" "i \<notin> {2, 3, tp_tcp_offset pkt + 12}"
        using that by (auto simp: flow_bytes_def)
      then show ?thesis using rebuilt_bytes(2) [OF wf] by (simp add: rebuilt_def)
    qed
    ultimately show ?thesis using rebuilt_parts(2,3) [OF wf, of ?kept] by (simp add: p same_flow_def)
  next
    case False
    with s v show ?thesis by (auto simp: eq split: if_splits)
  qed
  show "pkt' = pkt" if "strip_option kind pkt = Some (False, pkt')"
    using that by (auto simp: eq split: if_splits)
qed

text \<open>An edit that overwrites header bytes outside the flow's.\<close>

lemma same_flow_update:
  assumes "tcp_wf pkt" and "length raw = length (tp_raw pkt)"
    and "drop (tp_tcp_offset pkt + 20) raw = drop (tp_tcp_offset pkt + 20) (tp_raw pkt)"
    and "\<And>i. i \<in> flow_bytes pkt \<Longrightarrow> raw ! i = tp_raw pkt ! i"
  shows "same_flow pkt (pkt\<lparr>tp_raw := raw\<rparr>)"
proof -
  let ?n = "tp_tcp_header_len pkt - 20"
  have h: "tp_tcp_offset pkt + tp_tcp_header_len pkt = ?n + (tp_tcp_offset pkt + 20)"
    using assms(1) by (auto simp: tcp_wf_def)
  have "drop (tp_tcp_offset pkt + tp_tcp_header_len pkt) raw = drop (tp_tcp_offset pkt + tp_tcp_header_len pkt) (tp_raw pkt)"
    unfolding h using assms(3) by (simp flip: drop_drop)
  with assms show ?thesis by (simp add: same_flow_def tcp_payload_def slice_from_def)
qed

interpretation ttl: packet_edit "set_ttl ttl" for ttl
proof
  fix pkt changed pkt'
  assume v: "tcp_valid pkt"
  then have wf: "tcp_wf pkt" "20 \<le> tp_tcp_offset pkt" "tp_tcp_offset pkt + 20 \<le> length (tp_raw pkt)"
      "tp_raw pkt \<noteq> []"
    by (auto simp: tcp_valid_def tcp_wf_def)
  have "tcp_valid (pkt\<lparr>tp_raw := (tp_raw pkt)[8 := ttl]\<rparr>)"
    using wf by (intro tcp_valid_update [OF v]) auto
  moreover have "same_flow pkt (pkt\<lparr>tp_raw := (tp_raw pkt)[8 := ttl]\<rparr>)"
    using wf by (intro same_flow_update) (auto simp: flow_bytes_def drop_update_cancel)
  ultimately show "tcp_valid pkt' \<and> same_flow pkt pkt'" if "set_ttl ttl pkt = Some (changed, pkt')"
    using that v by (auto simp: set_ttl_def store_def bind_eq_Some_conv split: if_splits)
  show "pkt' = pkt" if "set_ttl ttl pkt = Some (False, pkt')"
    using that by (auto simp: set_ttl_def bind_eq_Some_conv split: if_splits)
qed

interpretation seq: packet_edit "seq_edit s" for s
proof
  fix pkt changed pkt'
  assume v: "tcp_valid pkt"
  then have wf: "tcp_wf pkt" "20 \<le> tp_tcp_offset pkt" "tp_tcp_offset pkt + 20 \<le> length (tp_raw pkt)"
      "tp_raw pkt \<noteq> []"
    by (auto simp: tcp_valid_def tcp_wf_def)
  let ?raw = "\<lambda>seq. overwrite (tp_raw pkt) (tp_tcp_offset pkt + 4) (u32_to_be seq)"
  have "tcp_valid (pkt\<lparr>tp_raw := ?raw seq\<rparr>)" for seq
    using wf by (intro tcp_valid_update [OF v]) (auto simp: nth_overwrite)
  moreover have "same_flow pkt (pkt\<lparr>tp_raw := ?raw seq\<rparr>)" for seq
    using wf by (intro same_flow_update) (auto simp: flow_bytes_def drop_overwrite nth_overwrite)
  ultimately show "tcp_valid pkt' \<and> same_flow pkt pkt'" if "seq_edit s pkt = Some (changed, pkt')"
    using that v wf by (auto simp: seq_edit_def set_tcp_seq_def copy_at_def bind_eq_Some_conv Let_def split: if_splits)
  show "pkt' = pkt" if "seq_edit s pkt = Some (False, pkt')"
    using that by (auto simp: seq_edit_def bind_eq_Some_conv Let_def split: if_splits)
qed

interpretation strategy: packet_edit "strategy_apply s" for s
proof (cases s)
  case (Mss mss)
  then have "strategy_apply s = set_mss mss" by auto
  then show "packet_edit (strategy_apply s)" using mss.packet_edit_axioms by simp
next
  case StripSack
  then have "strategy_apply s = strip_option SACK_PERMITTED" by auto
  then show "packet_edit (strategy_apply s)" using sack.packet_edit_axioms by simp
next
  case (Ttl ttl)
  then have "strategy_apply s = set_ttl ttl" by auto
  then show "packet_edit (strategy_apply s)" using ttl.packet_edit_axioms by simp
next
  case Noop
  then have "strategy_apply s = no_edit" by (auto simp: no_edit_def)
  then show "packet_edit (strategy_apply s)" using none.packet_edit_axioms by simp
qed

interpretation syn: packet_edit "syn_edits s" for s
  unfolding syn_edits_def
  by (intro packet_edit_then)
    (auto simp: none.packet_edit_axioms mss.packet_edit_axioms sack.packet_edit_axioms ttl.packet_edit_axioms
      split: option.split)

interpretation plane: packet_edit "tcp_edits s is_syn is_first_seg" for s is_syn is_first_seg
  unfolding tcp_edits_def
  by (intro packet_edit_then) (auto simp: none.packet_edit_axioms syn.packet_edit_axioms seq.packet_edit_axioms)

subsection \<open>What a mutation sends\<close>

text \<open>
  Strategies and sets in general: the packet sent in place of a received one.
\<close>

definition mutation_of :: "TcpPacket \<Rightarrow> u8 list \<Rightarrow> bool" where
  "mutation_of pkt bytes \<longleftrightarrow>
     (\<exists>q. TcpPacket_parse bytes = Some (Some q) \<and> tp_ip_total_len q = length bytes \<and>
        tcp_src_ip q = tcp_src_ip pkt \<and> tcp_dst_ip q = tcp_dst_ip pkt \<and>
        tcp_src_port q = tcp_src_port pkt \<and> tcp_dst_port q = tcp_dst_port pkt \<and>
        tcp_payload q = tcp_payload pkt) \<and>
     ipv4_checksum_ok bytes \<and>
     (tcp_checksum_ok bytes \<longleftrightarrow> field_at (tp_raw pkt) (tp_tcp_offset pkt + 16) \<in> {0, 0xffff})"

lemma flow_accessors:
  assumes "tcp_valid pkt" and "tcp_valid q" and "tp_tcp_offset q = tp_tcp_offset pkt"
    and "\<And>i. i \<in> {12..<20} \<union> {tp_tcp_offset pkt..<tp_tcp_offset pkt + 4} \<Longrightarrow> tp_raw q ! i = tp_raw pkt ! i"
  shows "tcp_src_ip q = tcp_src_ip pkt" "tcp_dst_ip q = tcp_dst_ip pkt"
    "tcp_src_port q = tcp_src_port pkt" "tcp_dst_port q = tcp_dst_port pkt"
proof -
  have "20 \<le> tp_tcp_offset pkt" "tp_tcp_offset pkt + 20 \<le> length (tp_raw pkt)"
      "tp_tcp_offset pkt + 20 \<le> length (tp_raw q)"
    using assms(1-3) by (auto simp: tcp_valid_def tcp_wf_def)
  then have "index (tp_raw q) i = index (tp_raw pkt) i"
    if "i \<in> {12..<20} \<union> {tp_tcp_offset pkt..<tp_tcp_offset pkt + 4}" for i
    using that assms(4) [OF that] by (auto simp: index_def)
  then show "tcp_src_ip q = tcp_src_ip pkt" "tcp_dst_ip q = tcp_dst_ip pkt"
      "tcp_src_port q = tcp_src_port pkt" "tcp_dst_port q = tcp_dst_port pkt"
    using assms(3)
    by (simp_all add: tcp_src_ip_def tcp_dst_ip_def tcp_src_port_def tcp_dst_port_def ip_at_def be16_at_def)
qed

lemma mutation_finished:
  assumes "packet_edit edit" and "tcp_valid pkt" and "edit pkt = Some (changed, pkt')"
  shows "\<exists>out. fix_checksums pkt' = Some out \<and> mutation_of pkt (tp_raw out)"
proof -
  from packet_edit.finished [OF assms] obtain out where
    out: "fix_checksums pkt' = Some out" "tcp_valid out" "tcp_payload out = tcp_payload pkt"
      "tp_tcp_offset out = tp_tcp_offset pkt"
      "\<And>i. i \<in> flow_bytes pkt - {tp_tcp_offset pkt + 16, tp_tcp_offset pkt + 17} \<Longrightarrow> tp_raw out ! i = tp_raw pkt ! i"
      "ipv4_checksum_ok (tp_raw out)"
      "tcp_checksum_ok (tp_raw out) \<longleftrightarrow> field_at (tp_raw pkt) (tp_tcp_offset pkt + 16) \<in> {0, 0xffff}"
    by blast
  let ?q = "out\<lparr>tp_ip_total_len := length (tp_raw out), tp_tcp_doff_field := tp_tcp_offset out + 12\<rparr>"
  have "20 \<le> tp_tcp_offset pkt" using assms(2) by (auto simp: tcp_valid_def tcp_wf_def)
  then have "tp_raw out ! i = tp_raw pkt ! i"
    if "i \<in> {12..<20} \<union> {tp_tcp_offset pkt..<tp_tcp_offset pkt + 4}" for i
    using that by (intro out(5)) (auto simp: flow_bytes_def)
  note acc = flow_accessors [OF assms(2) out(2,4) this]
  have "tcp_src_ip ?q = tcp_src_ip out" "tcp_dst_ip ?q = tcp_dst_ip out" "tcp_src_port ?q = tcp_src_port out"
      "tcp_dst_port ?q = tcp_dst_port out" "tcp_payload ?q = tcp_payload out"
    by (simp_all add: tcp_src_ip_def tcp_dst_ip_def tcp_src_port_def tcp_dst_port_def tcp_payload_def)
  then have "mutation_of pkt (tp_raw out)"
    using tcp_valid_parses [OF out(2)] out(3,6,7) acc unfolding mutation_of_def by auto
  with out(1) show ?thesis by blast
qed

lemma strategy_panics_iff:
  assumes "tcp_valid pkt"
  shows "strategy_apply s pkt = None \<longleftrightarrow> s = StripSack \<and> has_dangling_kind pkt"
proof -
  have wf: "tcp_wf pkt" "8 < length (tp_raw pkt)" using assms by (auto simp: tcp_valid_def tcp_wf_def)
  obtain os rest where p: "parse_options (options_of pkt) = (os, rest)" by (cases "parse_options (options_of pkt)")
  show ?thesis
  proof (cases s)
    case (Mss mss)
    then show ?thesis by (simp add: set_mss_eq [OF assms p])
  next
    case StripSack
    then show ?thesis by (auto simp: strip_option_eq [OF wf(1)])
  next
    case (Ttl ttl)
    then show ?thesis using wf(2) by (auto simp: set_ttl_def index_def store_def)
  qed simp
qed

text \<open>
  C26. What is sent in place of a received packet when a strategy or a set changes it: a packet that
  parses, of the same flow and with the same payload, and with a right IPv4 header checksum. Its TCP
  checksum is right exactly when the received packet's checksum field held \<open>0\<close> or \<open>0xffff\<close>, so for
  ordinary traffic it is wrong. A strategy panics only when it strips an option of a header that ends
  in a lone kind byte.
\<close>

theorem mutation_spec:
  assumes "TcpPacket_parse raw = Some (Some pkt)" and "tp_ip_total_len pkt = length raw"
  shows "(mutate s pkt = None \<longleftrightarrow> s = StripSack \<and> has_dangling_kind pkt) \<and>
    (\<forall>bytes. mutate s pkt = Some (Some bytes) \<longrightarrow> mutation_of pkt bytes) \<and>
    (\<forall>bytes. apply_tcp st pkt is_syn is_first_seg = Some (Mutated bytes) \<longrightarrow> mutation_of pkt bytes)"
proof -
  note v = parse_tcp_valid(1) [OF assms]
  have mutated: "(mutate s pkt = None \<longleftrightarrow> strategy_apply s pkt = None) \<and>
      (\<forall>bytes. mutate s pkt = Some (Some bytes) \<longrightarrow> mutation_of pkt bytes)"
  proof (cases "strategy_apply s pkt")
    case (Some r)
    then obtain changed pkt' where r: "strategy_apply s pkt = Some (changed, pkt')" by (cases r) auto
    then obtain out where "fix_checksums pkt' = Some out" "mutation_of pkt (tp_raw out)"
      using mutation_finished [OF strategy.packet_edit_axioms v] by blast
    with r show ?thesis by (auto simp: mutate_def)
  qed (simp add: mutate_def)
  have "mutation_of pkt bytes" if a: "apply_tcp st pkt is_syn is_first_seg = Some (Mutated bytes)" for bytes
  proof -
    obtain pkt' out where "tcp_edits st is_syn is_first_seg pkt = Some (True, pkt')"
        "fix_checksums pkt' = Some out" "bytes = tp_raw out"
      using a by (auto simp: apply_tcp_def bind_eq_Some_conv split: if_splits)
    with mutation_finished [OF plane.packet_edit_axioms v, of st is_syn is_first_seg True pkt'] show ?thesis by auto
  qed
  with mutated show ?thesis using strategy_panics_iff [OF v, of s] by simp
qed

theorem mutation_spec_witness:
  "\<exists>bytes. mutate (Ttl 63) example_packet = Some (Some bytes) \<and> mutation_of example_packet bytes \<and>
     \<not> tcp_checksum_ok bytes"
proof -
  have len: "tp_ip_total_len example_packet = length example_syn" by code_simp
  note spec = mutation_spec [OF example_parse len]
  have "\<exists>p. set_ttl 63 example_packet = Some (True, p)"
    by (simp add: set_ttl_def index_def store_def example_packet_def example_syn_def)
  then have "mutate (Ttl 63) example_packet \<noteq> Some None" by (auto simp: mutate_def bind_eq_Some_conv)
  moreover have "mutate (Ttl 63) example_packet \<noteq> None" using spec [of "Ttl 63"] by blast
  ultimately obtain bytes where "mutate (Ttl 63) example_packet = Some (Some bytes)" by auto
  moreover from this have "mutation_of example_packet bytes" using spec [of "Ttl 63"] by blast
  moreover have "field_at (tp_raw example_packet) (tp_tcp_offset example_packet + 16) \<notin> {0, 0xffff}" by code_simp
  ultimately show ?thesis by (auto simp: mutation_of_def)
qed

end
