(* ===== verification/B4Tls.thy ===== *)
theory B4Tls
  imports B4Packet
begin

text \<open>
  The TLS server name: \<open>extract_tls_sni\<close> and \<open>parse_sni_list\<close> of \<open>src/crates/balansir-b4/src/packet.rs\<close>.
  The input comes from the network. Extraction never panics, and a name once found does not depend on
  the bytes that follow, which is what makes reassembling a prefix of the stream enough.
\<close>

subsection \<open>Definitions\<close>

function sni_loop :: "u8 list \<Rightarrow> usize \<Rightarrow> string option option" where
  "sni_loop names off =
     (if off + 3 \<le> length names then
        (case index names off of
           None \<Rightarrow> None
         | Some name_type \<Rightarrow>
             (case be_len names (off + 1) of
                None \<Rightarrow> None
              | Some name_len \<Rightarrow>
                  if length names < off + 3 + name_len then Some None
                  else if name_type = 0
                  then map_option from_utf8 (slice names (off + 3) (off + 3 + name_len))
                  else sni_loop names (off + 3 + name_len)))
      else Some None)"
  by pat_completeness auto
termination
  by (relation "measure (\<lambda>(names, off). length names - off)") auto

declare sni_loop.simps [simp del]

definition parse_sni_list :: "u8 list \<Rightarrow> string option option" where
  "parse_sni_list data =
     (if length data < 2 then Some None
      else do {
        list_len \<leftarrow> be_len data 0;
        names \<leftarrow> slice_from data 2;
        if length names < list_len then Some None else sni_loop names 0
      })"

function ext_loop :: "u8 list \<Rightarrow> usize \<Rightarrow> string option option" where
  "ext_loop exts e =
     (if e + 4 \<le> length exts then
        (case be_len exts e of
           None \<Rightarrow> None
         | Some ext_type \<Rightarrow>
             (case be_len exts (e + 2) of
                None \<Rightarrow> None
              | Some ext_len \<Rightarrow>
                  if length exts < e + 4 + ext_len then Some None
                  else if ext_type = 0
                  then Option.bind (slice exts (e + 4) (e + 4 + ext_len)) parse_sni_list
                  else ext_loop exts (e + 4 + ext_len)))
      else Some None)"
  by pat_completeness auto
termination
  by (relation "measure (\<lambda>(exts, e). length exts - e)") auto

declare ext_loop.simps [simp del]

definition client_hello_sni :: "u8 list \<Rightarrow> string option option" where
  "client_hello_sni body =
     (if length body < 2 + 32 + 1 then Some None
      else do {
        let off = 2 + 32;
        sid_len \<leftarrow> index body off;
        let off = off + 1 + unat sid_len;
        if length body < off + 2 then Some None
        else do {
          cs_len \<leftarrow> be_len body off;
          let off = off + 2 + cs_len;
          if length body < off + 1 then Some None
          else do {
            comp_len \<leftarrow> index body off;
            let off = off + 1 + unat comp_len;
            if length body < off + 2 then Some None
            else do {
              ext_total \<leftarrow> be_len body off;
              let off = off + 2;
              if length body < off + ext_total then Some None
              else do {
                exts \<leftarrow> slice body off (off + ext_total);
                ext_loop exts 0
              }
            }
          }
        }
      })"

definition extract_tls_sni :: "u8 list \<Rightarrow> string option option" where
  "extract_tls_sni payload =
     (if length payload < 5 then Some None
      else do {
        record_type \<leftarrow> index payload 0;
        if record_type \<noteq> 0x16 then Some None
        else do {
          rec_len \<leftarrow> be_len payload 3;
          let hs = 5;
          if length payload < hs + 4 then Some None
          else do {
            hs_type \<leftarrow> index payload hs;
            if hs_type \<noteq> 0x01 then Some None
            else do {
              a \<leftarrow> index payload (hs + 1);
              b \<leftarrow> index payload (hs + 2);
              c \<leftarrow> index payload (hs + 3);
              let hs_len = push_bit 16 (unat a) OR push_bit 8 (unat b) OR unat c;
              let hello = hs + 4;
              if hello + hs_len > length payload \<or> hello + hs_len > 5 + rec_len then Some None
              else do {
                body \<leftarrow> slice payload hello (hello + hs_len);
                client_hello_sni body
              }
            }
          }
        }
      })"

subsection \<open>No panic\<close>

lemma sni_loop_total: "\<exists>res. sni_loop names off = Some res"
proof (induction names off rule: sni_loop.induct)
  case (1 names off)
  then show ?case
    by (subst sni_loop.simps) (auto simp: index_def be_len_def slice_def)
qed

lemma parse_sni_list_total: "\<exists>res. parse_sni_list data = Some res"
  using sni_loop_total by (simp add: parse_sni_list_def be_len_def index_def slice_from_def)

lemma ext_loop_total: "\<exists>res. ext_loop exts e = Some res"
proof (induction exts e rule: ext_loop.induct)
  case (1 exts e)
  then show ?case
    using parse_sni_list_total by (subst ext_loop.simps) (auto simp: index_def be_len_def slice_def)
qed

lemma client_hello_sni_total: "\<exists>res. client_hello_sni body = Some res"
  using ext_loop_total by (simp add: client_hello_sni_def Let_def be_len_def index_def slice_def)

definition hello_len :: "u8 list \<Rightarrow> nat" where
  "hello_len p = (push_bit 16 (unat (p ! 6)) OR push_bit 8 (unat (p ! 7)) OR unat (p ! 8))"

lemma extract_tls_sni_flat:
  "extract_tls_sni p =
     (if length p < 9 \<or> p ! 0 \<noteq> 0x16 \<or> p ! 5 \<noteq> 1 \<or> length p < 9 + hello_len p \<or>
         unat (u16_from_be (p ! 3) (p ! 4)) < 4 + hello_len p
      then Some None else client_hello_sni (take (hello_len p) (drop 9 p)))"
proof (cases "length p < 9")
  case True
  then show ?thesis
    by (cases "p = []") (simp_all add: extract_tls_sni_def Let_def be_len_def index_def slice_def)
next
  case False
  then have "p \<noteq> []" by auto
  with False show ?thesis
    by (simp add: extract_tls_sni_def Let_def be_len_def index_def slice_def hello_len_def)
qed

lemma extract_tls_sni_total: "\<exists>res. extract_tls_sni p = Some res"
  using client_hello_sni_total by (simp add: extract_tls_sni_flat)

lemma extract_tls_sni_append:
  assumes "extract_tls_sni p = Some (Some host)"
  shows "extract_tls_sni (p @ q) = Some (Some host)"
proof -
  have ok: "9 \<le> length p" "9 + hello_len p \<le> length p"
    using assms by (auto simp: extract_tls_sni_flat split: if_splits)
  then have "hello_len (p @ q) = hello_len p" by (simp add: hello_len_def nth_append)
  then show ?thesis
    using assms ok by (auto simp: extract_tls_sni_flat nth_append split: if_splits)
qed

lemma extract_tls_sni_starts: "extract_tls_sni p = Some (Some host) \<Longrightarrow> p \<noteq> [] \<and> hd p = 0x16"
  by (cases p) (auto simp: extract_tls_sni_flat split: if_splits)

subsection \<open>The wire format\<close>

text \<open>A ClientHello record as RFC 8446 lays it out, with a server name among its extensions.\<close>

definition len16 :: "u8 list \<Rightarrow> u8 list" where
  "len16 xs = u16_to_be (of_nat (length xs)) @ xs"

definition len8 :: "u8 list \<Rightarrow> u8 list" where
  "len8 xs = of_nat (length xs) # xs"

definition tls_ext :: "u16 \<times> u8 list \<Rightarrow> u8 list" where
  "tls_ext x = u16_to_be (fst x) @ len16 (snd x)"

definition server_name :: "u8 list \<Rightarrow> u8 list" where
  "server_name host = len16 (0 # len16 host)"

definition hello_exts :: "(u16 \<times> u8 list) list \<Rightarrow> u8 list \<Rightarrow> u8 list \<Rightarrow> u8 list" where
  "hello_exts before host after = concat (map tls_ext before) @ tls_ext (0, server_name host) @ after"

definition hello_body :: "u8 list \<Rightarrow> u8 list \<Rightarrow> u8 list \<Rightarrow> u8 list \<Rightarrow> u8 list \<Rightarrow> u8 list" where
  "hello_body random sid ciphers compr exts = random @ len8 sid @ len16 ciphers @ len8 compr @ len16 exts"

definition client_hello :: "u8 list \<Rightarrow> u8 list" where
  "client_hello body =
     [0x16, 3, 1] @ len16 ([1, of_nat (length body div 65536), of_nat (length body div 256), of_nat (length body)] @ body)"

lemma be_len_at: "length pre = i \<Longrightarrow> be_len (pre @ u16_to_be w @ post) i = Some (unat w)"
  by (simp add: be_len_def index_def nth_append)

lemma be_len_len16:
  "length pre = i \<Longrightarrow> length xs < 65536 \<Longrightarrow> be_len (pre @ len16 xs @ post) i = Some (length xs)"
  by (simp add: len16_def be_len_at unat_of_nat)

lemma length_len16 [simp]: "length (len16 xs) = length xs + 2"
  by (simp add: len16_def)

lemma length_tls_ext [simp]: "length (tls_ext x) = length (snd x) + 4"
  by (simp add: tls_ext_def)

lemma drop_len16: "drop 2 (len16 xs) = xs"
  by (simp add: len16_def)

lemma parse_sni_list_server_name:
  assumes "length host + 5 < 65536" and "valid_utf8 host"
  shows "parse_sni_list (server_name host) = Some (from_utf8 host)"
proof -
  let ?names = "0 # len16 host"
  have "be_len (server_name host) 0 = Some (length ?names)"
    using be_len_len16 [of "[]" 0 ?names "[]"] assms by (simp add: server_name_def)
  moreover have "sni_loop ?names 0 = Some (from_utf8 host)"
    using be_len_len16 [of "[0]" 1 host "[]"] assms
    by (simp add: sni_loop.simps [of _ 0] index_def slice_def len16_def)
  ultimately show ?thesis
    by (simp add: parse_sni_list_def slice_from_def server_name_def drop_len16)
qed

lemma ext_loop_skip:
  assumes "fst x \<noteq> 0" and "length (snd x) < 65536"
  shows "ext_loop (pre @ tls_ext x @ post) (length pre) =
    ext_loop (pre @ tls_ext x @ post) (length (pre @ tls_ext x))"
proof -
  let ?exts = "pre @ tls_ext x @ post"
  have t: "be_len ?exts (length pre) = Some (unat (fst x))"
    using be_len_at [of pre "length pre" "fst x"] by (simp add: tls_ext_def)
  have l: "be_len ?exts (length pre + 2) = Some (length (snd x))"
    using be_len_len16 [of "pre @ u16_to_be (fst x)" "length pre + 2" "snd x" post] assms(2)
    by (simp add: tls_ext_def)
  have "unat (fst x) \<noteq> 0" using assms(1) by (simp add: unat_eq_zero)
  with t l show ?thesis by (subst ext_loop.simps) (simp add: ac_simps)
qed

lemma ext_loop_found:
  assumes "list_all (\<lambda>x. fst x \<noteq> 0 \<and> length (snd x) < 65536) before"
    and "length host + 5 < 65536" and "valid_utf8 host"
  shows "ext_loop (pre @ hello_exts before host after) (length pre) = Some (from_utf8 host)"
  using assms
proof (induction before arbitrary: pre)
  case Nil
  let ?exts = "pre @ tls_ext (0, server_name host) @ after"
  have t: "be_len ?exts (length pre) = Some 0"
    using be_len_at [of pre "length pre" 0] by (simp add: tls_ext_def)
  have l: "be_len ?exts (length pre + 2) = Some (length (server_name host))"
    using be_len_len16 [of "pre @ u16_to_be 0" "length pre + 2" "server_name host" after] Nil
    by (simp add: tls_ext_def server_name_def)
  have "slice ?exts (length pre + 4) (length pre + 4 + length (server_name host)) = Some (server_name host)"
    by (simp add: slice_def tls_ext_def len16_def)
  with t l show ?case
    using parse_sni_list_server_name [OF Nil(2,3)]
    by (subst ext_loop.simps) (simp add: hello_exts_def)
next
  case (Cons x before)
  have "pre @ hello_exts (x # before) host after = pre @ tls_ext x @ hello_exts before host after"
    by (simp add: hello_exts_def)
  then have "ext_loop (pre @ hello_exts (x # before) host after) (length pre) =
      ext_loop ((pre @ tls_ext x) @ hello_exts before host after) (length (pre @ tls_ext x))"
    using ext_loop_skip [of x pre "hello_exts before host after"] Cons.prems by simp
  then show ?case using Cons.IH [of "pre @ tls_ext x"] Cons.prems by simp
qed

lemma index_at: "length pre = i \<Longrightarrow> index (pre @ x # post) i = Some x"
  by (auto simp: index_def)

lemma unat_u8_of_nat: "n < 256 \<Longrightarrow> unat (of_nat n :: u8) = n"
  by (simp add: unat_of_nat)

lemma client_hello_sni_hello_body:
  assumes "length random = 34" and "length sid < 256" and "length ciphers < 65536"
    and "length compr < 256" and "length exts < 65536"
  shows "client_hello_sni (hello_body random sid ciphers compr exts) = ext_loop exts 0"
proof -
  let ?body = "hello_body random sid ciphers compr exts"
  have i1: "index ?body 34 = Some (of_nat (length sid))"
    using index_at [of random 34] assms(1) by (simp add: hello_body_def len8_def)
  have i2: "be_len ?body (35 + length sid) = Some (length ciphers)"
    using be_len_len16 [of "random @ len8 sid"] assms by (simp add: hello_body_def len8_def)
  have i3: "index ?body (37 + length sid + length ciphers) = Some (of_nat (length compr))"
    using index_at [of "random @ len8 sid @ len16 ciphers"] assms by (simp add: hello_body_def len8_def)
  have i4: "be_len ?body (38 + length sid + length ciphers + length compr) = Some (length exts)"
    using be_len_len16 [of "random @ len8 sid @ len16 ciphers @ len8 compr" _ exts "[]"] assms
    by (simp add: hello_body_def len8_def add.assoc)
  have len: "length ?body = 40 + length sid + length ciphers + length compr + length exts"
    using assms(1) by (simp add: hello_body_def len8_def)
  let ?pre = "random @ len8 sid @ len16 ciphers @ len8 compr @ u16_to_be (of_nat (length exts))"
  have "?body = ?pre @ exts" by (simp add: hello_body_def len16_def)
  moreover have "length ?pre = 40 + length sid + length ciphers + length compr"
    using assms(1) by (simp add: len8_def)
  ultimately have "drop (40 + length sid + length ciphers + length compr) ?body = exts"
    by (metis append_eq_conv_conj)
  then have i5: "slice ?body (40 + length sid + length ciphers + length compr) (length ?body) = Some exts"
    by (simp add: slice_def len)
  show ?thesis
    using i1 i2 i3 i4 i5 len assms
    by (simp add: client_hello_sni_def Let_def unat_u8_of_nat add_ac)
qed

lemma push_bit_or: "y < 256 \<Longrightarrow> push_bit 8 x OR y = 256 * x + y" for x y :: nat
proof -
  assume "y < 256"
  then have "take_bit 8 y = y" by (simp add: take_bit_nat_eq_self)
  then have "n < 8" if "bit y n" for n using that by (metis bit_take_bit_iff)
  then have "push_bit 8 x + y = push_bit 8 x OR y"
    by (intro disjunctive_add) (force simp: bit_push_bit_iff_nat)
  then show ?thesis by (simp add: push_bit_eq_mult mult.commute)
qed

lemma extract_client_hello:
  assumes "length body + 4 < 65536"
  shows "extract_tls_sni (client_hello body @ trailing) = client_hello_sni body"
proof -
  let ?p = "client_hello body @ trailing"
  have bytes: "?p ! 0 = 0x16" "?p ! 5 = 1" "?p ! 6 = of_nat (length body div 65536)"
      "?p ! 7 = of_nat (length body div 256)" "?p ! 8 = of_nat (length body)"
    by (simp_all add: client_hello_def len16_def u16_to_be_def)
  have rec_len: "unat (u16_from_be (?p ! 3) (?p ! 4)) = length body + 4"
  proof -
    have "be_len ?p 3 = Some (length body + 4)"
      using be_len_len16 [of "[0x16, 3, 1]" 3] assms by (simp add: client_hello_def)
    then show ?thesis by (auto simp: be_len_def bind_eq_Some_conv index_eq_Some)
  qed
  have "length body div 65536 = 0" using assms by simp
  moreover have "unat (of_nat (length body div 256) :: u8) = length body div 256"
    using assms by (intro unat_u8_of_nat) linarith
  moreover have "unat (of_nat (length body) :: u8) = length body mod 256" by (simp add: unat_of_nat)
  ultimately have "hello_len ?p = length body" by (simp add: hello_len_def bytes push_bit_or)
  moreover have "length ?p = 9 + length body + length trailing" by (simp add: client_hello_def)
  moreover have "take (length body) (drop 9 ?p) = body"
    by (simp add: client_hello_def len16_def)
  ultimately show ?thesis by (simp add: extract_tls_sni_flat bytes rec_len)
qed

lemma extract_hello:
  assumes "length random = 34" and "length sid < 256" and "length ciphers < 65536"
    and "length compr < 256" and "list_all (\<lambda>x. fst x \<noteq> 0 \<and> length (snd x) < 65536) before"
    and "valid_utf8 host"
    and "length (hello_body random sid ciphers compr (hello_exts before host after)) + 4 < 65536"
  shows "extract_tls_sni (client_hello (hello_body random sid ciphers compr (hello_exts before host after)) @ trailing) =
      Some (Some (map (\<lambda>b. char_of (unat b)) host))"
proof -
  have "length (hello_exts before host after) \<le> length (hello_body random sid ciphers compr (hello_exts before host after))"
    by (simp add: hello_body_def)
  moreover have "length host + 9 \<le> length (hello_exts before host after)"
    by (simp add: hello_exts_def server_name_def)
  ultimately have "length (hello_exts before host after) < 65536" "length host + 5 < 65536"
    using assms(7) by linarith+
  moreover from this have "ext_loop (hello_exts before host after) 0 = Some (from_utf8 host)"
    using ext_loop_found [OF assms(5) _ assms(6), of "[]"] by simp
  ultimately show ?thesis
    using assms
    by (simp add: extract_client_hello client_hello_sni_hello_body from_utf8_def)
qed

text \<open>
  C21. Extraction finds the server name of every well-formed ClientHello: whatever the random, session
  identifier, cipher suites, compression methods and the extensions before and after it, and whatever
  bytes follow the record. On any input at all it returns without panicking, and a name it found in a
  prefix of the stream is the name it finds in the whole stream.
\<close>

theorem extract_tls_sni_correct:
  assumes "length random = 34" and "length sid < 256" and "length ciphers < 65536"
    and "length compr < 256" and "list_all (\<lambda>x. fst x \<noteq> 0 \<and> length (snd x) < 65536) before"
    and "valid_utf8 host"
    and "length (hello_body random sid ciphers compr (hello_exts before host after)) + 4 < 65536"
  shows "extract_tls_sni (client_hello (hello_body random sid ciphers compr (hello_exts before host after)) @ trailing) =
      Some (Some (map (\<lambda>b. char_of (unat b)) host)) \<and>
    (\<exists>res. extract_tls_sni p = Some res) \<and>
    (extract_tls_sni p = Some (Some h) \<longrightarrow> extract_tls_sni (p @ q) = Some (Some h))"
  using extract_hello [OF assms] extract_tls_sni_total extract_tls_sni_append by simp

theorem extract_tls_sni_correct_witness:
  "extract_tls_sni (client_hello (hello_body (replicate 34 0) [] [0x13, 1] [0]
     (hello_exts [(21, [0, 0])] (bytes_of ''a.bc'') [])) @ [1, 2]) = Some (Some ''a.bc'')"
proof -
  have "valid_utf8 (bytes_of ''a.bc'')" by code_simp
  moreover have "map (\<lambda>b. char_of (unat b)) (bytes_of ''a.bc'') = ''a.bc''" by code_simp
  ultimately show ?thesis
    using extract_tls_sni_correct [of "replicate 34 0" "[]" "[0x13, 1]" "[0]" "[(21, [0, 0])]"
        "bytes_of ''a.bc''" "[]" "[1, 2]"]
    by (simp add: hello_body_def hello_exts_def server_name_def len8_def bytes_of_def)
qed

subsection \<open>What a consumer of the stream relies on\<close>

text \<open>
  A classifier of stream prefixes whose answer, once given, is final. A consumer that looks at growing
  prefixes and keeps the first answer then answers as if it had seen the whole stream at once, however
  the stream was cut.
\<close>

fun scan_prefixes :: "('a list \<Rightarrow> 'b option) \<Rightarrow> 'a list \<Rightarrow> 'a list list \<Rightarrow> 'b option" where
  "scan_prefixes classify p [] = classify p"
| "scan_prefixes classify p (s # ss) =
     (case classify p of Some h \<Rightarrow> Some h | None \<Rightarrow> scan_prefixes classify (p @ s) ss)"

locale stream_classifier =
  fixes classify :: "'a list \<Rightarrow> 'b option"
  assumes stable: "classify p = Some h \<Longrightarrow> classify (p @ q) = Some h"
begin

lemma scan_prefixes_eq: "scan_prefixes classify p ss = classify (p @ concat ss)"
proof (induction ss arbitrary: p)
  case (Cons s ss)
  then show ?case using stable [of p _ "s @ concat ss"] by (auto split: option.splits)
qed simp

lemma segmentation_irrelevant:
  "p @ concat ss = p' @ concat ss' \<Longrightarrow> scan_prefixes classify p ss = scan_prefixes classify p' ss'"
  by (simp add: scan_prefixes_eq)

end

definition sni_of :: "u8 list \<Rightarrow> string option" where
  "sni_of p = the (extract_tls_sni p)"

lemma extract_sni_of: "extract_tls_sni p = Some (sni_of p)"
  using extract_tls_sni_total [of p] by (auto simp: sni_of_def)

interpretation tls: stream_classifier sni_of
proof
  show "sni_of (p @ q) = Some h" if "sni_of p = Some h" for p h q
    using extract_tls_sni_append [of p h q] that by (simp add: extract_sni_of)
qed

end
