(* ===== verification/B4Reassembly.thy ===== *)
theory B4Reassembly
  imports B4Tls
begin

text \<open>
  The per-connection reassembler of \<open>src/crates/balansir-b4/src/reassembly.rs\<close>. The hash map of flows
  is an association list with one entry per key, whose order is not observed. A call of \<open>feed\<close> reads
  the clock up to three times: before each of its two eviction passes and when it stamps the flow; the
  readings are its first argument. (The stamp given to a new flow is overwritten at once.)
\<close>

subsection \<open>Definitions\<close>

record FlowKey =
  fk_src_ip :: "u8 list"
  fk_dst_ip :: "u8 list"
  fk_src_port :: u16
  fk_dst_port :: u16

definition for_packet :: "TcpPacket \<Rightarrow> FlowKey option" where
  "for_packet pkt = do {
     src \<leftarrow> tcp_src_ip pkt; dst \<leftarrow> tcp_dst_ip pkt; sport \<leftarrow> tcp_src_port pkt; dport \<leftarrow> tcp_dst_port pkt;
     Some \<lparr>fk_src_ip = src, fk_dst_ip = dst, fk_src_port = sport, fk_dst_port = dport\<rparr> }"

record Flow =
  fl_base_seq :: u32
  fl_buffer :: "u8 list"
  fl_decided :: "string option"
  fl_last_seen :: nat

definition Flow_new :: "u32 \<Rightarrow> nat \<Rightarrow> Flow" where
  "Flow_new base_seq now =
     \<lparr>fl_base_seq = base_seq, fl_buffer = [], fl_decided = None, fl_last_seen = now\<rparr>"

record TcpReassembler =
  ra_flows :: "(FlowKey \<times> Flow) list"
  ra_max_bytes :: usize
  ra_max_flows :: usize
  ra_idle_timeout :: nat
  ra_since_evict :: u64
  ra_evict_every :: u64

definition TcpReassembler_new :: TcpReassembler where
  "TcpReassembler_new =
     \<lparr>ra_flows = [], ra_max_bytes = 16 * 1024, ra_max_flows = 4096,
      ra_idle_timeout = 30 * 1000000000, ra_since_evict = 0, ra_evict_every = 256\<rparr>"

definition evict_expired :: "nat \<Rightarrow> TcpReassembler \<Rightarrow> TcpReassembler" where
  "evict_expired now r =
     (let cutoff = now - ra_idle_timeout r
      in r\<lparr>ra_flows := filter (\<lambda>(_, f). cutoff \<le> fl_last_seen f) (ra_flows r)\<rparr>)"

definition remove_flow :: "FlowKey \<Rightarrow> TcpReassembler \<Rightarrow> TcpReassembler" where
  "remove_flow key r = r\<lparr>ra_flows := filter (\<lambda>(k, _). k \<noteq> key) (ra_flows r)\<rparr>"

definition insert_flow :: "FlowKey \<Rightarrow> Flow \<Rightarrow> TcpReassembler \<Rightarrow> TcpReassembler" where
  "insert_flow key f r = r\<lparr>ra_flows := (key, f) # filter (\<lambda>(k, _). k \<noteq> key) (ra_flows r)\<rparr>"

text \<open>\<open>u64::is_multiple_of\<close>.\<close>

definition is_multiple_of :: "u64 \<Rightarrow> u64 \<Rightarrow> bool" where
  "is_multiple_of a b = (if b = 0 then a = 0 else a mod b = 0)"

text \<open>Appending a segment: \<open>Inl\<close> is an early return (result and whether to drop the flow).\<close>

definition append_segment ::
    "usize \<Rightarrow> u32 \<Rightarrow> u8 list \<Rightarrow> Flow \<Rightarrow> ((string option \<times> bool) + u8 list) option" where
  "append_segment max_bytes seq payload flow =
     (if fl_buffer flow = [] then do {
        first \<leftarrow> index payload 0;
        if first \<noteq> 0x16 then Some (Inl (None, True)) else Some (Inr (fl_buffer flow @ payload))
      } else
        (let expected_seq = fl_base_seq flow + of_nat (length (fl_buffer flow));
             room = max_bytes - length (fl_buffer flow)
         in if seq \<noteq> expected_seq then
              if seq < expected_seq \<and> expected_seq < seq + of_nat (length payload) then do {
                new_tail \<leftarrow> slice_from payload (unat (expected_seq - seq));
                if room < length new_tail then Some (Inl (None, True))
                else Some (Inr (fl_buffer flow @ new_tail))
              }
              else if seq < expected_seq then Some (Inl (fl_decided flow, False))
              else Some (Inl (None, True))
            else if room < length payload then Some (Inl (None, True))
            else Some (Inr (fl_buffer flow @ payload))))"

definition process_segment ::
    "usize \<Rightarrow> u32 \<Rightarrow> u8 list \<Rightarrow> Flow \<Rightarrow> (string option \<times> bool \<times> Flow) option" where
  "process_segment max_bytes seq payload flow =
     (case fl_decided flow of
        Some decided \<Rightarrow> Some (Some decided, False, flow)
      | None \<Rightarrow> do {
          appended \<leftarrow> append_segment max_bytes seq payload flow;
          case appended of
            Inl (result, drop_flow) \<Rightarrow> Some (result, drop_flow, flow)
          | Inr buffer \<Rightarrow>
              if max_bytes < length buffer then Some (None, True, flow\<lparr>fl_buffer := buffer\<rparr>)
              else do {
                decided \<leftarrow> extract_tls_sni buffer;
                case decided of
                  Some host \<Rightarrow>
                    Some (Some host, False, flow\<lparr>fl_decided := Some host, fl_buffer := []\<rparr>)
                | None \<Rightarrow> Some (None, False, flow\<lparr>fl_buffer := buffer\<rparr>)
              }
        })"

definition tick :: "nat \<Rightarrow> TcpReassembler \<Rightarrow> TcpReassembler" where
  "tick now r =
     (let r = r\<lparr>ra_since_evict := ra_since_evict r + 1\<rparr>
      in if is_multiple_of (ra_since_evict r) (ra_evict_every r) then evict_expired now r else r)"

text \<open>Make sure the flow exists; \<open>False\<close> when the table stays full.\<close>

definition ensure_flow :: "nat \<Rightarrow> FlowKey \<Rightarrow> u32 \<Rightarrow> TcpReassembler \<Rightarrow> bool \<times> TcpReassembler" where
  "ensure_flow now key seq r =
     (if map_of (ra_flows r) key \<noteq> None then (True, r)
      else
        (let r = (if ra_max_flows r \<le> length (ra_flows r) then evict_expired now r else r)
         in if ra_max_flows r \<le> length (ra_flows r) then (False, r)
            else (True, insert_flow key (Flow_new seq now) r)))"

definition feed ::
    "nat \<times> nat \<times> nat \<Rightarrow> FlowKey \<Rightarrow> u32 \<Rightarrow> u8 list \<Rightarrow> bool \<Rightarrow> TcpReassembler \<Rightarrow>
     (string option \<times> TcpReassembler) option" where
  "feed clock key seq payload fin_rst r =
     (case clock of (now1, now2, now3) \<Rightarrow>
       let r = tick now1 r
       in if payload = [] then Some (None, r)
          else if fin_rst then Some (None, remove_flow key r)
          else
            (case ensure_flow now2 key seq r of
               (False, r) \<Rightarrow> Some (None, r)
             | (True, r) \<Rightarrow>
                 (case map_of (ra_flows r) key of
                    None \<Rightarrow> None
                  | Some flow \<Rightarrow> do {
                      (result, drop_flow, flow) \<leftarrow>
                        process_segment (ra_max_bytes r) seq payload (flow\<lparr>fl_last_seen := now3\<rparr>);
                      Some (result, if drop_flow then remove_flow key r else insert_flow key flow r)
                    })))"

subsection \<open>Totality and the memory bound\<close>

lemma overlap_bound:
  fixes seq expected :: u32
  assumes "seq < expected" and "expected < seq + of_nat n" and "n < 2 ^ 32"
  shows "unat (expected - seq) < n"
proof -
  have lt: "unat seq < unat expected" "unat expected < unat (seq + of_nat n)"
    using assms(1,2) by (simp_all add: word_less_nat_alt)
  have "unat (seq + of_nat n) = (unat seq + n) mod 2 ^ 32"
    using assms(3) by (simp add: unat_word_ariths unat_of_nat)
  then have "unat expected < unat seq + n"
    using lt(2) mod_less_eq_dividend [of "unat seq + n" "2 ^ 32"] by linarith
  moreover have "unat (expected - seq) = unat expected - unat seq"
    using assms(1) by (intro unat_sub) simp
  ultimately show ?thesis using lt(1) by simp
qed

lemma append_segment_total:
  assumes "payload \<noteq> []" and "length payload < 2 ^ 32"
  shows "\<exists>x. append_segment max_bytes seq payload flow = Some x"
proof -
  have "slice_from payload (unat (e - seq)) = Some (drop (unat (e - seq)) payload)" if "seq < e" "e < seq + of_nat (length payload)" for e
    using overlap_bound [OF that assms(2)] by (simp add: slice_from_def)
  then show ?thesis
    using assms(1) by (auto simp: append_segment_def index_def Let_def)
qed

lemma append_segment_bound:
  assumes "append_segment max_bytes seq payload flow = Some (Inr buffer)" and "fl_buffer flow \<noteq> []"
    and "length (fl_buffer flow) \<le> max_bytes"
  shows "length buffer \<le> max_bytes"
  using assms by (auto simp: append_segment_def Let_def split: if_splits bind_splits)

lemma process_segment_total:
  assumes "payload \<noteq> []" and "length payload < 2 ^ 32"
  shows "\<exists>res drp f. process_segment max_bytes seq payload flow = Some (res, drp, f) \<and>
    (\<not> drp \<longrightarrow> length (fl_buffer flow) \<le> max_bytes \<longrightarrow> length (fl_buffer f) \<le> max_bytes)"
proof (cases "fl_decided flow")
  case None
  obtain x where x: "append_segment max_bytes seq payload flow = Some x"
    using append_segment_total [OF assms] by blast
  show ?thesis
  proof (cases x)
    case (Inl early)
    with None x show ?thesis by (cases early) (simp add: process_segment_def)
  next
    case (Inr buffer)
    obtain d where "extract_tls_sni buffer = Some d" using extract_tls_sni_total by blast
    with None x Inr show ?thesis by (cases d) (auto simp: process_segment_def)
  qed
qed (auto simp: process_segment_def intro: exI [of _ False])

definition bounded :: "TcpReassembler \<Rightarrow> bool" where
  "bounded r \<longleftrightarrow> distinct (map fst (ra_flows r)) \<and> length (ra_flows r) \<le> ra_max_flows r \<and>
     (\<forall>(k, f) \<in> set (ra_flows r). length (fl_buffer f) \<le> ra_max_bytes r)"

lemma bounded_filter: "bounded r \<Longrightarrow> bounded (r\<lparr>ra_flows := filter P (ra_flows r)\<rparr>)"
  by (auto simp: bounded_def distinct_map_filter intro: order_trans [OF length_filter_le])

lemma bounded_tick: "bounded r \<Longrightarrow> bounded (tick now r)"
  using bounded_filter [of "r\<lparr>ra_since_evict := ra_since_evict r + 1\<rparr>"]
  by (simp add: tick_def Let_def evict_expired_def) (simp add: bounded_def)

lemma tick_limits [simp]:
  "ra_max_bytes (tick now r) = ra_max_bytes r" "ra_max_flows (tick now r) = ra_max_flows r"
  "ra_idle_timeout (tick now r) = ra_idle_timeout r"
  by (simp_all add: tick_def Let_def evict_expired_def)

lemma bounded_insert:
  assumes "bounded r" and "map_of (ra_flows r) key \<noteq> None \<or> length (ra_flows r) < ra_max_flows r"
    and "length (fl_buffer f) \<le> ra_max_bytes r"
  shows "bounded (insert_flow key f r)"
proof -
  have "Suc (length (filter (\<lambda>(k, _). k \<noteq> key) (ra_flows r))) \<le> ra_max_flows r"
  proof (cases "map_of (ra_flows r) key")
    case None
    then show ?thesis using assms(2) length_filter_le [of _ "ra_flows r"]
      by (metis Suc_leI le_less_trans)
  next
    case (Some f')
    then have "(key, f') \<in> set (ra_flows r)" by (rule map_of_SomeD)
    then have "length (filter (\<lambda>(k, _). k \<noteq> key) (ra_flows r)) < length (ra_flows r)"
      by (intro length_filter_less [where x = "(key, f')"]) auto
    with assms(1) show ?thesis by (simp add: bounded_def)
  qed
  with assms(1,3) show ?thesis
    by (auto simp: bounded_def insert_flow_def distinct_map_filter)
qed

lemma insert_flow_simps [simp]:
  "map_of (ra_flows (insert_flow key f r)) key = Some f"
  "ra_max_bytes (insert_flow key f r) = ra_max_bytes r"
  "ra_max_flows (insert_flow key f r) = ra_max_flows r"
  "ra_idle_timeout (insert_flow key f r) = ra_idle_timeout r"
  by (simp_all add: insert_flow_def)

lemma ensure_flow_bounded:
  assumes "bounded r"
  shows "bounded (snd (ensure_flow now key seq r))"
    and "fst (ensure_flow now key seq r) \<Longrightarrow> map_of (ra_flows (snd (ensure_flow now key seq r))) key \<noteq> None"
  using assms bounded_filter [OF assms]
  by (auto simp: ensure_flow_def Let_def evict_expired_def Flow_new_def intro!: bounded_insert)

lemma feed_bounded:
  assumes "bounded r" and "length payload < 2 ^ 32"
  shows "\<exists>res r'. feed clock key seq payload fin_rst r = Some (res, r') \<and> bounded r'"
proof -
  obtain now1 now2 now3 where clock: "clock = (now1, now2, now3)" by (cases clock)
  have b: "bounded (tick now1 r)" using assms(1) by (rule bounded_tick)
  show ?thesis
  proof (cases "payload = [] \<or> fin_rst")
    case True
    with b show ?thesis
      using bounded_filter [OF b] by (auto simp: feed_def clock Let_def remove_flow_def)
  next
    case False
    obtain found r1 where e: "ensure_flow now2 key seq (tick now1 r) = (found, r1)" by fastforce
    then have b1: "bounded r1" and f1: "found \<Longrightarrow> \<exists>f. map_of (ra_flows r1) key = Some f"
      using ensure_flow_bounded [OF b, of now2 key seq] by auto
    show ?thesis
    proof (cases found)
      case True
      then obtain f where f: "map_of (ra_flows r1) key = Some f" using f1 by blast
      then have buf: "length (fl_buffer (f\<lparr>fl_last_seen := now3\<rparr>)) \<le> ra_max_bytes r1"
        using b1 by (auto simp: bounded_def dest!: map_of_SomeD)
      obtain res drp f' where p: "process_segment (ra_max_bytes r1) seq payload (f\<lparr>fl_last_seen := now3\<rparr>) = Some (res, drp, f')"
          "\<not> drp \<Longrightarrow> length (fl_buffer f') \<le> ra_max_bytes r1"
        using process_segment_total [of payload "ra_max_bytes r1" seq "f\<lparr>fl_last_seen := now3\<rparr>"] assms(2) False buf
        by blast
      have "bounded (if drp then remove_flow key r1 else insert_flow key f' r1)"
        using b1 f p(2) bounded_filter [OF b1] by (auto simp: remove_flow_def intro!: bounded_insert)
      with False True e f p(1) show ?thesis by (simp add: feed_def clock Let_def)
    next
      case notfound: False
      with False e b1 show ?thesis by (simp add: feed_def clock Let_def)
    qed
  qed
qed

fun feed_all ::
    "((nat \<times> nat \<times> nat) \<times> FlowKey \<times> u32 \<times> u8 list \<times> bool) list \<Rightarrow> TcpReassembler \<Rightarrow> TcpReassembler option" where
  "feed_all [] r = Some r"
| "feed_all ((clock, key, seq, payload, fin_rst) # calls) r =
     (case feed clock key seq payload fin_rst r of
        None \<Rightarrow> None
      | Some (_, r') \<Rightarrow> feed_all calls r')"

text \<open>
  C27. Whatever segments arrive, of whatever flows and in whatever order, the reassembler never panics
  and stays within its bounds: one entry per flow, at most \<open>max_flows\<close> of them, and at most \<open>max_bytes\<close>
  bytes buffered for each.
\<close>

theorem reassembler_bounded:
  assumes "\<forall>(clock, key, seq, payload, fin_rst) \<in> set calls. length payload < 2 ^ 32"
  shows "\<exists>r. feed_all calls TcpReassembler_new = Some r \<and> bounded r"
proof -
  have "\<exists>r'. feed_all calls r = Some r' \<and> bounded r'" if "bounded r" for r
    using assms that
  proof (induction calls arbitrary: r)
    case (Cons c calls)
    obtain clock key seq payload fin_rst where c: "c = (clock, key, seq, payload, fin_rst)" by (cases c)
    then obtain res r1 where "feed clock key seq payload fin_rst r = Some (res, r1)" "bounded r1"
      using feed_bounded [of r payload clock key seq fin_rst] Cons.prems by auto
    then show ?case using c Cons.IH [of r1] Cons.prems(1) by simp
  qed simp
  moreover have "bounded TcpReassembler_new" by (simp add: bounded_def TcpReassembler_new_def)
  ultimately show ?thesis by blast
qed

lemma reassembler_bounded_witness:
  "\<exists>r. feed_all [((5, 5, 5), \<lparr>fk_src_ip = [10, 0, 0, 1], fk_dst_ip = [10, 0, 0, 2], fk_src_port = 1, fk_dst_port = 443\<rparr>,
        4294967295, [0x16, 3, 1], False)] TcpReassembler_new = Some r \<and> bounded r"
  by (rule reassembler_bounded) simp

subsection \<open>A segmented stream is classified like the whole stream\<close>

text \<open>
  The segments of one flow, in order, with the clock readings of each call; the answer is that of the
  last call.
\<close>

fun feed_stream ::
    "FlowKey \<Rightarrow> u32 \<Rightarrow> ((nat \<times> nat \<times> nat) \<times> u8 list) list \<Rightarrow> TcpReassembler \<Rightarrow>
     (string option \<times> TcpReassembler) option" where
  "feed_stream key seq [] r = Some (None, r)"
| "feed_stream key seq ((clock, payload) # rest) r = do {
     (res, r) \<leftarrow> feed clock key seq payload False r;
     if rest = [] then Some (res, r) else feed_stream key (seq + of_nat (length payload)) rest r }"

definition in_window :: "nat \<Rightarrow> nat \<Rightarrow> nat \<times> nat \<times> nat \<Rightarrow> bool" where
  "in_window start idle clock =
     (case clock of (a, b, c) \<Rightarrow> a \<le> start + idle \<and> b \<le> start + idle \<and> start \<le> c)"

text \<open>The flow's entry has either decided on the prefix \<open>p\<close> or holds exactly \<open>p\<close>, undecided.\<close>

definition tracks :: "nat \<Rightarrow> FlowKey \<Rightarrow> u32 \<Rightarrow> u8 list \<Rightarrow> TcpReassembler \<Rightarrow> bool" where
  "tracks start key base p r =
     (\<exists>f. map_of (ra_flows r) key = Some f \<and> start \<le> fl_last_seen f \<and> fl_decided f = sni_of p
        \<and> (sni_of p = None \<longrightarrow> fl_buffer f = p \<and> fl_base_seq f = base \<and> p \<noteq> []))"

lemma map_of_evict:
  assumes "map_of flows key = Some f" and "P f" and "distinct (map fst flows)"
  shows "map_of (filter (\<lambda>(_, f). P f) flows) key = Some f"
  using assms by (intro map_of_is_SomeI) (auto dest: map_of_SomeD simp: distinct_map_filter)

lemma tracks_tick:
  assumes "tracks start key base p r" and "bounded r" and "now \<le> start + ra_idle_timeout r"
  shows "tracks start key base p (tick now r)"
proof -
  obtain f where f: "map_of (ra_flows r) key = Some f" "start \<le> fl_last_seen f"
    "fl_decided f = sni_of p" "sni_of p = None \<longrightarrow> fl_buffer f = p \<and> fl_base_seq f = base \<and> p \<noteq> []"
    using assms(1) by (auto simp: tracks_def)
  have "map_of (ra_flows (tick now r)) key = Some f"
    using f(1,2) assms(2,3)
    by (auto simp: tick_def evict_expired_def Let_def bounded_def intro!: map_of_evict)
  with f show ?thesis by (auto simp: tracks_def)
qed

lemma feed_tracked:
  assumes "tracks start key base p r" and "bounded r" and "in_window start (ra_idle_timeout r) clock"
    and "sni_of p = None \<Longrightarrow> seq = base + of_nat (length p) \<and> length (p @ s) \<le> ra_max_bytes r"
    and "s \<noteq> []"
  defines "p' \<equiv> if sni_of p = None then p @ s else p"
  shows "\<exists>r'. feed clock key seq s False r = Some (sni_of p', r') \<and> tracks start key base p' r'
    \<and> ra_max_bytes r' = ra_max_bytes r \<and> ra_idle_timeout r' = ra_idle_timeout r"
proof -
  obtain a b c where clock: "clock = (a, b, c)" by (cases clock)
  define r1 where "r1 = tick a r"
  have lim: "ra_max_bytes r1 = ra_max_bytes r" "ra_idle_timeout r1 = ra_idle_timeout r"
    by (simp_all add: r1_def tick_limits)
  have "tracks start key base p r1"
    using assms(1-3) by (auto simp: r1_def in_window_def clock intro!: tracks_tick)
  then obtain f where f: "map_of (ra_flows r1) key = Some f" "start \<le> fl_last_seen f"
    "fl_decided f = sni_of p" "sni_of p = None \<Longrightarrow> fl_buffer f = p \<and> fl_base_seq f = base \<and> p \<noteq> []"
    by (auto simp: tracks_def)
  define f' where "f' = (case sni_of p' of None \<Rightarrow> f\<lparr>fl_last_seen := c, fl_buffer := p'\<rparr>
    | Some h \<Rightarrow> if sni_of p = None then f\<lparr>fl_last_seen := c, fl_decided := Some h, fl_buffer := []\<rparr>
                else f\<lparr>fl_last_seen := c\<rparr>)"
  have ps: "process_segment (ra_max_bytes r1) seq s (f\<lparr>fl_last_seen := c\<rparr>) = Some (sni_of p', False, f')"
  proof (cases "sni_of p")
    case None
    with f(3) f(4) assms(4,5) lim show ?thesis
      by (auto simp: process_segment_def append_segment_def p'_def f'_def extract_sni_of split: option.split)
  qed (use f(3) in \<open>simp add: process_segment_def p'_def f'_def\<close>)
  have "tracks start key base p' (insert_flow key f' r1)"
    using f assms(3) by (auto simp: tracks_def f'_def p'_def in_window_def clock split: option.split)
  moreover have "feed clock key seq s False r = Some (sni_of p', insert_flow key f' r1)"
    using f(1) ps assms(5) by (simp add: feed_def clock Let_def ensure_flow_def flip: r1_def)
  ultimately show ?thesis using lim by simp
qed

lemma feed_stream_tracked:
  assumes "tracks start key base p r" and "bounded r" and "segs \<noteq> []"
    and "\<forall>(clock, s) \<in> set segs. s \<noteq> [] \<and> in_window start (ra_idle_timeout r) clock"
    and "length (p @ concat (map snd segs)) \<le> ra_max_bytes r" and "ra_max_bytes r < 2 ^ 32"
    and "sni_of p = None \<Longrightarrow> seq = base + of_nat (length p)"
  shows "\<exists>r'. feed_stream key seq segs r = Some (scan_prefixes sni_of p (map snd segs), r')"
  using assms
proof (induction segs arbitrary: p r seq)
  case (Cons cs segs)
  obtain clock s where cs: "cs = (clock, s)" by (cases cs)
  define p' where "p' = (if sni_of p = None then p @ s else p)"
  obtain r' where r': "feed clock key seq s False r = Some (sni_of p', r')" "tracks start key base p' r'"
      "ra_max_bytes r' = ra_max_bytes r" "ra_idle_timeout r' = ra_idle_timeout r"
    using feed_tracked [of start key base p r clock seq s] Cons.prems cs by (auto simp: p'_def)
  have b: "bounded r'"
    using feed_bounded [of r s clock key seq False] Cons.prems cs r'(1) by auto
  have scan: "scan_prefixes sni_of p (map snd (cs # segs)) = scan_prefixes sni_of p' (map snd segs)"
    by (cases "sni_of p") (simp_all add: p'_def cs tls.scan_prefixes_eq tls.stable)
  show ?case
  proof (cases "segs = []")
    case True
    with r'(1) scan cs show ?thesis by simp
  next
    case False
    have "\<exists>r''. feed_stream key (seq + of_nat (length s)) segs r' = Some (scan_prefixes sni_of p' (map snd segs), r'')"
      using Cons.prems cs r' b False
      by (intro Cons.IH) (auto simp: p'_def split: if_splits)
    with r'(1) scan cs False show ?thesis by simp
  qed
qed simp

text \<open>
  C9. However a TLS stream is cut into in-order segments (sequence numbers wrapping included), the
  last call of \<open>feed\<close> answers what the parser answers on the whole stream, provided the stream fits
  the per-flow limit, the table has room for the flow, and the segments arrive within the idle
  timeout of the first.
\<close>

theorem feed_stream_is_extract:
  assumes "bounded r" and "map_of (ra_flows r) key = None" and "length (ra_flows r) < ra_max_flows r"
    and "ra_max_bytes r < 2 ^ 32" and "segs \<noteq> []"
    and "\<forall>(clock, s) \<in> set segs. s \<noteq> [] \<and> in_window start (ra_idle_timeout r) clock"
    and "stream = concat (map snd segs)" and "hd stream = 0x16" and "length stream \<le> ra_max_bytes r"
  shows "\<exists>r'. feed_stream key seq segs r = map_option (\<lambda>sni. (sni, r')) (extract_tls_sni stream)"
proof -
  obtain clock s rest where segs: "segs = (clock, s) # rest" using assms(5) by (cases segs) auto
  obtain a b c where clock: "clock = (a, b, c)" by (cases clock)
  have hd: "s \<noteq> []" "index s 0 = Some 0x16" "length s \<le> ra_max_bytes r" "start \<le> c"
    using assms(6-9) by (auto simp: segs clock index_def in_window_def hd_append hd_conv_nth)
  define r1 where "r1 = tick a r"
  have r1: "map_of (ra_flows r1) key = None" "\<not> ra_max_flows r1 \<le> length (ra_flows r1)"
      "ra_max_bytes r1 = ra_max_bytes r" "ra_idle_timeout r1 = ra_idle_timeout r"
    using assms(2,3)
    by (auto simp: r1_def tick_def evict_expired_def Let_def map_of_eq_None_iff not_le
        intro: le_less_trans [OF length_filter_le])
  obtain r2 where r2: "feed clock key seq s False r = Some (sni_of s, r2)" "tracks start key seq s r2"
      "ra_max_bytes r2 = ra_max_bytes r" "ra_idle_timeout r2 = ra_idle_timeout r"
    using hd r1
    by (cases "sni_of s")
      (auto simp: feed_def clock Let_def ensure_flow_def process_segment_def append_segment_def Flow_new_def
        extract_sni_of tracks_def simp flip: r1_def)
  have b2: "bounded r2"
    using feed_bounded [OF assms(1), of s clock key seq False] hd(3) assms(4) r2(1) by auto
  have "\<exists>r'. feed_stream key seq segs r = Some (scan_prefixes sni_of s (map snd rest), r')"
  proof (cases "rest = []")
    case False
    have "\<exists>r'. feed_stream key (seq + of_nat (length s)) rest r2 = Some (scan_prefixes sni_of s (map snd rest), r')"
      using r2 b2 False assms(4,6,7,9) by (intro feed_stream_tracked) (auto simp: segs)
    with r2(1) False show ?thesis by (simp add: segs)
  qed (use r2(1) in \<open>simp add: segs\<close>)
  then show ?thesis by (simp add: assms(7) segs tls.scan_prefixes_eq extract_sni_of)
qed

definition example_key :: FlowKey where
  "example_key = \<lparr>fk_src_ip = [10, 0, 0, 2], fk_dst_ip = [1, 1, 1, 1], fk_src_port = 5000, fk_dst_port = 443\<rparr>"

definition example_hello :: "u8 list" where
  "example_hello = client_hello (hello_body (replicate 34 0) [] [0x13, 1] [0] (hello_exts [] (bytes_of ''a.bc'') []))"

theorem feed_stream_is_extract_witness:
  "\<exists>r'. feed_stream example_key 0xFFFFFFF0
      [((0, 0, 0), take 20 example_hello), ((7, 7, 7), drop 20 example_hello)] TcpReassembler_new =
    Some (Some ''a.bc'', r')"
proof -
  have "valid_utf8 (bytes_of ''a.bc'')" by code_simp
  then have "extract_tls_sni example_hello = Some (Some (map (\<lambda>b. char_of (unat b)) (bytes_of ''a.bc'')))"
    using extract_hello [of "replicate 34 0" "[]" "[0x13, 1]" "[0]" "[]" "bytes_of ''a.bc''" "[]" "[]"]
    by (simp add: example_hello_def hello_body_def hello_exts_def server_name_def len8_def bytes_of_def)
  moreover have "map (\<lambda>b. char_of (unat b)) (bytes_of ''a.bc'') = ''a.bc''" by code_simp
  moreover have "hd example_hello = 0x16" "length example_hello = 65" "example_hello \<noteq> []"
    by (simp_all add: example_hello_def client_hello_def hello_body_def hello_exts_def tls_ext_def server_name_def
        len16_def len8_def bytes_of_def)
  moreover have "bounded TcpReassembler_new" "map_of (ra_flows TcpReassembler_new) example_key = None"
      "length (ra_flows TcpReassembler_new) < ra_max_flows TcpReassembler_new"
      "ra_max_bytes TcpReassembler_new < 2 ^ 32" "65 \<le> ra_max_bytes TcpReassembler_new"
    by (simp_all add: bounded_def TcpReassembler_new_def)
  ultimately show ?thesis
    using feed_stream_is_extract [of TcpReassembler_new example_key
        "[((0, 0, 0), take 20 example_hello), ((7, 7, 7), drop 20 example_hello)]" 0 example_hello "0xFFFFFFF0"]
    by (simp add: in_window_def TcpReassembler_new_def del: feed_stream.simps)
qed

end
