(* ===== verification/B4Queue.thy ===== *)
theory B4Queue
  imports Bytes
begin

text \<open>
  The netlink messages of \<open>src/crates/balansir-b4/src/nfqueue.rs\<close> and \<open>nfq.rs\<close>: attributes, the
  configuration and verdict messages sent to the kernel, and the parser of received messages. Netlink
  headers are in host byte order, which is little endian on every target the project builds for. The
  socket itself is not modelled; a panic is \<open>None\<close>.
\<close>

subsection \<open>Constants and byte order\<close>

definition NFNL_SUBSYS_QUEUE :: u8 where "NFNL_SUBSYS_QUEUE = 3"
definition NFQNL_MSG_PACKET :: u8 where "NFQNL_MSG_PACKET = 0"
definition NFQNL_MSG_VERDICT :: u8 where "NFQNL_MSG_VERDICT = 1"
definition NFQNL_MSG_CONFIG :: u8 where "NFQNL_MSG_CONFIG = 2"
definition NFPROTO_UNSPEC :: u8 where "NFPROTO_UNSPEC = 0"
definition NFNETLINK_V0 :: u8 where "NFNETLINK_V0 = 0"
definition NFQA_PACKET_HDR :: u16 where "NFQA_PACKET_HDR = 1"
definition NFQA_VERDICT_HDR :: u16 where "NFQA_VERDICT_HDR = 2"
definition NFQA_IFINDEX_INDEV :: u16 where "NFQA_IFINDEX_INDEV = 5"
definition NFQA_IFINDEX_OUTDEV :: u16 where "NFQA_IFINDEX_OUTDEV = 6"
definition NFQA_PAYLOAD :: u16 where "NFQA_PAYLOAD = 10"
definition NFQA_CAP_LEN :: u16 where "NFQA_CAP_LEN = 13"
definition NFQA_CFG_CMD :: u16 where "NFQA_CFG_CMD = 1"
definition NFQA_CFG_PARAMS :: u16 where "NFQA_CFG_PARAMS = 2"
definition NFQA_CFG_QUEUE_MAXLEN :: u16 where "NFQA_CFG_QUEUE_MAXLEN = 3"
definition NFQA_CFG_MASK :: u16 where "NFQA_CFG_MASK = 4"
definition NFQA_CFG_FLAGS :: u16 where "NFQA_CFG_FLAGS = 5"
definition NFQNL_CFG_F_FAIL_OPEN :: u32 where "NFQNL_CFG_F_FAIL_OPEN = push_bit 0 1"
definition NFQNL_COPY_PACKET :: u8 where "NFQNL_COPY_PACKET = 2"
definition NF_ACCEPT :: u8 where "NF_ACCEPT = 1"
definition NF_DROP :: u8 where "NF_DROP = 0"
definition NLM_F_REQUEST :: u16 where "NLM_F_REQUEST = 1"

definition u16_to_ne :: "u16 \<Rightarrow> u8 list" where
  "u16_to_ne w = rev (u16_to_be w)"

definition u32_to_ne :: "u32 \<Rightarrow> u8 list" where
  "u32_to_ne w = rev (u32_to_be w)"

definition u16_from_ne :: "u8 \<Rightarrow> u8 \<Rightarrow> u16" where
  "u16_from_ne a b = u16_from_be b a"

definition u32_from_ne :: "u8 \<Rightarrow> u8 \<Rightarrow> u8 \<Rightarrow> u8 \<Rightarrow> u32" where
  "u32_from_ne a b c d = u32_from_be d c b a"

definition nfgenmsg_type :: "u8 \<Rightarrow> u8 \<Rightarrow> u16" where
  "nfgenmsg_type subsys msg_type = push_bit 8 (ucast subsys) OR ucast msg_type"

subsection \<open>Messages to the kernel\<close>

definition align4 :: "usize \<Rightarrow> usize" where
  "align4 n = (n + 3) div 4 * 4"

definition push_nla :: "u8 list \<Rightarrow> u16 \<Rightarrow> u8 list \<Rightarrow> u8 list" where
  "push_nla buf nla_type data =
     pad4 0 (buf @ u16_to_ne (of_nat (length data + 4)) @ u16_to_ne nla_type @ data)"

definition build_netlink_msg :: "u8 \<Rightarrow> u8 list \<Rightarrow> u16 \<Rightarrow> u8 list" where
  "build_netlink_msg msg_type attrs queue_num =
     (let payload = [NFPROTO_UNSPEC, NFNETLINK_V0] @ u16_to_be queue_num @ attrs
      in u32_to_ne (of_nat (16 + length payload)) @ u16_to_ne (nfgenmsg_type NFNL_SUBSYS_QUEUE msg_type) @
         u16_to_ne NLM_F_REQUEST @ u32_to_ne 0 @ u32_to_ne 0 @ payload)"

definition config_msg :: "u8 \<Rightarrow> u8 option \<Rightarrow> u16 \<Rightarrow> u8 list" where
  "config_msg cmd pf res_id =
     (let cmd_struct = [cmd, 0] @ u16_to_be (ucast (case pf of Some f \<Rightarrow> f | None \<Rightarrow> 0))
      in build_netlink_msg NFQNL_MSG_CONFIG (push_nla [] NFQA_CFG_CMD cmd_struct) res_id)"

definition build_config_params :: "u32 \<Rightarrow> u16 \<Rightarrow> u8 list" where
  "build_config_params copy_range queue_num =
     (let params = u32_to_be copy_range @ [NFQNL_COPY_PACKET] @ [0, 0, 0];
          attrs = push_nla [] NFQA_CFG_PARAMS params;
          flags = NFQNL_CFG_F_FAIL_OPEN;
          attrs = push_nla attrs NFQA_CFG_FLAGS (u32_to_be flags);
          attrs = push_nla attrs NFQA_CFG_MASK (u32_to_be flags);
          attrs = push_nla attrs NFQA_CFG_QUEUE_MAXLEN (u32_to_be 4096)
      in build_netlink_msg NFQNL_MSG_CONFIG attrs queue_num)"

definition verdict_msg :: "u16 \<Rightarrow> u32 \<Rightarrow> u8 \<Rightarrow> u8 list option \<Rightarrow> u8 list" where
  "verdict_msg queue_num packet_id verdict payload =
     (let vhdr = u32_to_be (ucast verdict) @ u32_to_be packet_id;
          attrs = push_nla [] NFQA_VERDICT_HDR vhdr;
          attrs = (case payload of Some p \<Rightarrow> push_nla attrs NFQA_PAYLOAD p | None \<Rightarrow> attrs)
      in build_netlink_msg NFQNL_MSG_VERDICT attrs queue_num)"

subsection \<open>Messages from the kernel\<close>

record QueuedPacket =
  qp_packet_id :: u32
  qp_indev :: "u32 option"
  qp_outdev :: "u32 option"
  qp_payload :: "u8 list option"
  qp_cap_len :: "u32 option"

datatype NfMessage = Packet QueuedPacket | Other

definition u32_be_at :: "u8 list \<Rightarrow> u32 option" where
  "u32_be_at data = do {
     a \<leftarrow> index data 0; b \<leftarrow> index data 1; c \<leftarrow> index data 2; d \<leftarrow> index data 3;
     Some (u32_from_be a b c d) }"

definition u32_ne_at :: "u8 list \<Rightarrow> u32 option" where
  "u32_ne_at data = do {
     a \<leftarrow> index data 0; b \<leftarrow> index data 1; c \<leftarrow> index data 2; d \<leftarrow> index data 3;
     Some (u32_from_ne a b c d) }"

definition read_attr :: "u16 \<Rightarrow> u8 list \<Rightarrow> QueuedPacket \<Rightarrow> QueuedPacket option" where
  "read_attr ntype data packet =
     (if ntype = NFQA_PACKET_HDR \<and> 4 \<le> length data then do {
        n \<leftarrow> u32_be_at data; Some (packet\<lparr>qp_packet_id := n\<rparr>) }
      else if ntype = NFQA_IFINDEX_INDEV \<and> 4 \<le> length data then do {
        n \<leftarrow> u32_ne_at data; Some (packet\<lparr>qp_indev := Some n\<rparr>) }
      else if ntype = NFQA_IFINDEX_OUTDEV \<and> 4 \<le> length data then do {
        n \<leftarrow> u32_ne_at data; Some (packet\<lparr>qp_outdev := Some n\<rparr>) }
      else if ntype = NFQA_PAYLOAD then Some (packet\<lparr>qp_payload := Some data\<rparr>)
      else if ntype = NFQA_CAP_LEN \<and> 4 \<le> length data then do {
        n \<leftarrow> u32_ne_at data; Some (packet\<lparr>qp_cap_len := Some n\<rparr>) }
      else Some packet)"

function parse_attrs :: "u8 list \<Rightarrow> usize \<Rightarrow> QueuedPacket \<Rightarrow> QueuedPacket option" where
  "parse_attrs attrs pos packet =
     (if pos + 4 \<le> length attrs then do {
        a \<leftarrow> index attrs pos; b \<leftarrow> index attrs (pos + 1);
        c \<leftarrow> index attrs (pos + 2); d \<leftarrow> index attrs (pos + 3);
        let len = unat (u16_from_ne a b);
        let ntype = u16_from_ne c d;
        if len < 4 \<or> length attrs < pos + len then Some packet
        else do {
          data \<leftarrow> slice attrs (pos + 4) (pos + len);
          packet \<leftarrow> read_attr ntype data packet;
          parse_attrs attrs (pos + align4 len) packet
        }
      } else Some packet)"
  by auto
termination
  by (relation "measure (\<lambda>(attrs, pos, _). length attrs - pos)") (auto simp: align4_def)

declare parse_attrs.simps [simp del]

definition empty_packet :: QueuedPacket where
  "empty_packet =
     \<lparr>qp_packet_id = 0, qp_indev = None, qp_outdev = None, qp_payload = None, qp_cap_len = None\<rparr>"

definition parse_netfilter_message :: "u8 list \<Rightarrow> NfMessage option" where
  "parse_netfilter_message buf =
     (if length buf < 16 then Some Other
      else do {
        header \<leftarrow> slice buf 0 16;
        a \<leftarrow> index header 0; b \<leftarrow> index header 1; c \<leftarrow> index header 2; d \<leftarrow> index header 3;
        let len = unat (u32_from_ne a b c d);
        e \<leftarrow> index header 4; f \<leftarrow> index header 5;
        let msg_type = u16_from_ne e f;
        if len < 16 \<or> length buf < len then Some Other
        else do {
          body \<leftarrow> slice buf 16 len;
          if length body < 4 then Some Other
          else if ucast (msg_type AND 0xff) \<noteq> NFQNL_MSG_PACKET then Some Other
          else do {
            attrs \<leftarrow> slice_from body 4;
            packet \<leftarrow> parse_attrs attrs 0 empty_packet;
            Some (Packet packet)
          }
        }
      })"

subsection \<open>Attributes round trip\<close>

lemma length_ne [simp]: "length (u16_to_ne w) = 2" "length (u32_to_ne v) = 4"
  by (simp_all add: u16_to_ne_def u32_to_ne_def)

lemma u16_ne_roundtrip [simp]: "u16_from_ne (u16_to_ne w ! 0) (u16_to_ne w ! Suc 0) = w"
  using u16_be_roundtrip [of w] by (simp add: u16_from_ne_def u16_to_ne_def rev_nth)

lemma u32_ne_roundtrip [simp]:
  "u32_from_ne (u32_to_ne w ! 0) (u32_to_ne w ! Suc 0) (u32_to_ne w ! 2) (u32_to_ne w ! 3) = w"
  using u32_be_roundtrip [of w] by (simp add: u32_from_ne_def u32_to_ne_def rev_nth)

lemma u32_at: "u32_be_at (u32_to_be w @ xs) = Some w" "u32_ne_at (u32_to_ne w @ xs) = Some w"
  by (simp_all add: u32_be_at_def u32_ne_at_def index_def nth_append)

text \<open>One attribute on the wire.\<close>

definition nla :: "u16 \<times> u8 list \<Rightarrow> u8 list" where
  "nla a = pad4 0 (u16_to_ne (of_nat (length (snd a) + 4)) @ u16_to_ne (fst a) @ snd a)"

lemma length_nla: "length (nla a) = align4 (length (snd a) + 4)"
proof -
  have "n + (4 - n mod 4) mod 4 = (n + 3) div 4 * 4" for n :: nat
  proof -
    define q r where "q = n div 4" and "r = n mod 4"
    then have n: "n = 4 * q + r" "r < 4" by simp_all
    then have "r = 0 \<or> r = 1 \<or> r = 2 \<or> r = 3" by linarith
    with n(1) show ?thesis by auto
  qed
  from this [of "length (snd a) + 4"] show ?thesis by (simp add: nla_def pad4_eq align4_def)
qed

lemma push_nla_eq: "4 dvd length buf \<Longrightarrow> push_nla buf t d = buf @ nla (t, d)"
proof -
  assume "4 dvd length buf"
  then have "(length buf + n) mod 4 = n mod 4" for n :: nat by (auto elim!: dvdE)
  from this [of "length d + 4"] show ?thesis by (simp add: push_nla_def nla_def pad4_eq ac_simps)
qed

lemma dvd_length_nla: "4 dvd length (nla a)"
  by (simp add: nla_def dvd_length_pad4)

lemma align4_ge: "n \<le> align4 n"
  unfolding align4_def by presburger

fun read_attrs :: "(u16 \<times> u8 list) list \<Rightarrow> QueuedPacket \<Rightarrow> QueuedPacket option" where
  "read_attrs [] packet = Some packet"
| "read_attrs (a # as) packet = do { packet \<leftarrow> read_attr (fst a) (snd a) packet; read_attrs as packet }"

lemma parse_attrs_nla:
  assumes "length (snd a) + 4 < 65536"
  shows "parse_attrs (pre @ nla a @ post) (length pre) packet = do {
    packet \<leftarrow> read_attr (fst a) (snd a) packet;
    parse_attrs (pre @ nla a @ post) (length pre + length (nla a)) packet }"
proof -
  obtain pad where n: "nla a = u16_to_ne (of_nat (length (snd a) + 4)) @ u16_to_ne (fst a) @ snd a @ pad"
    by (simp add: nla_def pad4_eq)
  let ?as = "pre @ nla a @ post"
  have len: "unat (of_nat (length (snd a) + 4) :: u16) = length (snd a) + 4"
    using assms by (simp add: unat_of_nat del: of_nat_add of_nat_Suc)
  have idx: "index ?as (length pre) = Some (u16_to_ne (of_nat (length (snd a) + 4)) ! 0)"
    "index ?as (length pre + 1) = Some (u16_to_ne (of_nat (length (snd a) + 4)) ! Suc 0)"
    "index ?as (length pre + 2) = Some (u16_to_ne (fst a) ! 0)"
    "index ?as (length pre + 3) = Some (u16_to_ne (fst a) ! Suc 0)"
    by (simp_all add: n index_def nth_append)
  have "slice ?as (length pre + 4) (length pre + (length (snd a) + 4)) = Some (snd a)"
    by (simp add: n slice_def)
  with idx len show ?thesis
    using align4_ge [of "length (snd a) + 4"]
    by (simp add: parse_attrs.simps [of ?as "length pre" packet] length_nla Let_def del: of_nat_add of_nat_Suc)
qed

lemma parse_attrs_encoded:
  assumes "list_all (\<lambda>a. length (snd a) + 4 < 65536) as"
  shows "parse_attrs (pre @ concat (map nla as)) (length pre) packet = read_attrs as packet"
  using assms
proof (induction as arbitrary: pre packet)
  case Nil
  then show ?case by (simp add: parse_attrs.simps)
next
  case (Cons a as)
  then show ?case
    using Cons.IH [of "pre @ nla a"] by (simp add: parse_attrs_nla)
qed

lemma read_attr_total: "\<exists>p. read_attr t d packet = Some p"
  by (auto simp: read_attr_def u32_be_at_def u32_ne_at_def index_def)

lemma parse_attrs_total: "\<exists>p. parse_attrs attrs pos packet = Some p"
proof (induction "length attrs - pos" arbitrary: pos packet rule: less_induct)
  case less
  show ?case
  proof (cases "pos + 4 \<le> length attrs")
    case True
    define len where "len = unat (u16_from_ne (attrs ! pos) (attrs ! Suc pos))"
    show ?thesis
    proof (cases "len < 4 \<or> length attrs < pos + len")
      case True
      with \<open>pos + 4 \<le> length attrs\<close> show ?thesis
        by (simp add: parse_attrs.simps [of attrs pos packet] index_def Let_def flip: len_def)
    next
      case False
      obtain p where "read_attr (u16_from_ne (attrs ! Suc (Suc pos)) (attrs ! (pos + 3)))
          (take (len - 4) (drop (pos + 4) attrs)) packet = Some p"
        using read_attr_total by blast
      moreover have "\<exists>q. parse_attrs attrs (pos + align4 len) p = Some q"
        using True False by (intro less) (auto simp: align4_def)
      ultimately show ?thesis
        using True False
        by (simp add: parse_attrs.simps [of attrs pos packet] index_def slice_def Let_def flip: len_def)
    qed
  qed (simp add: parse_attrs.simps [of attrs pos packet])
qed

text \<open>The attributes the kernel sends for a packet.\<close>

definition packet_attrs :: "u8 list \<Rightarrow> QueuedPacket \<Rightarrow> (u16 \<times> u8 list) list" where
  "packet_attrs hw p =
     [(NFQA_PACKET_HDR, u32_to_be (qp_packet_id p) @ hw)] @
     (case qp_indev p of Some n \<Rightarrow> [(NFQA_IFINDEX_INDEV, u32_to_ne n)] | None \<Rightarrow> []) @
     (case qp_outdev p of Some n \<Rightarrow> [(NFQA_IFINDEX_OUTDEV, u32_to_ne n)] | None \<Rightarrow> []) @
     (case qp_cap_len p of Some n \<Rightarrow> [(NFQA_CAP_LEN, u32_to_ne n)] | None \<Rightarrow> []) @
     (case qp_payload p of Some d \<Rightarrow> [(NFQA_PAYLOAD, d)] | None \<Rightarrow> [])"

lemmas nfqa_defs = NFQA_PACKET_HDR_def NFQA_IFINDEX_INDEV_def NFQA_IFINDEX_OUTDEV_def NFQA_CAP_LEN_def NFQA_PAYLOAD_def

lemma read_packet_attrs: "read_attrs (packet_attrs hw p) empty_packet = Some p"
  using u32_at(2) [of _ "[]"]
  by (cases p) (auto simp: packet_attrs_def read_attr_def empty_packet_def u32_at nfqa_defs split: option.split)

lemma parse_built:
  assumes "length attrs + 20 < 2 ^ 32"
  shows "parse_netfilter_message (build_netlink_msg NFQNL_MSG_PACKET attrs queue_num) =
    map_option Packet (parse_attrs attrs 0 empty_packet)"
proof -
  define total where "total = u32_to_ne (of_nat (20 + length attrs))"
  define kind where "kind = u16_to_ne (nfgenmsg_type NFNL_SUBSYS_QUEUE NFQNL_MSG_PACKET)"
  define rest where "rest = u16_to_ne NLM_F_REQUEST @ u32_to_ne 0 @ u32_to_ne 0"
  define body where "body = [NFPROTO_UNSPEC, NFNETLINK_V0] @ u16_to_be queue_num @ attrs"
  let ?buf = "total @ kind @ rest @ body"
  have buf: "build_netlink_msg NFQNL_MSG_PACKET attrs queue_num = ?buf"
    by (simp add: build_netlink_msg_def total_def kind_def rest_def body_def)
  have len: "length total = 4" "length kind = 2" "length rest = 10" "length body = length attrs + 4"
    by (simp_all add: total_def kind_def rest_def body_def)
  have hdr: "slice ?buf 0 16 = Some (total @ kind @ rest)" "slice ?buf 16 (20 + length attrs) = Some body"
    using len by (simp_all add: slice_def)
  have "unat (u32_from_ne (total ! 0) (total ! Suc 0) (total ! 2) (total ! 3)) = 20 + length attrs"
    using assms unfolding total_def by (simp add: unat_of_nat del: of_nat_add)
  moreover have "ucast (u16_from_ne (kind ! 0) (kind ! Suc 0) AND 0xff) = NFQNL_MSG_PACKET"
    unfolding kind_def by (simp add: nfgenmsg_type_def NFNL_SUBSYS_QUEUE_def NFQNL_MSG_PACKET_def push_bit_eq_mult)
  moreover have "total \<noteq> []" using len(1) by auto
  moreover have "slice_from body 4 = Some attrs" by (simp add: slice_from_def body_def)
  ultimately show ?thesis
    unfolding buf parse_netfilter_message_def using len hdr
    by (cases "parse_attrs attrs 0 empty_packet") (simp_all add: index_def nth_append Let_def)
qed

lemma parse_total: "\<exists>m. parse_netfilter_message buf = Some m"
proof (cases "length buf < 16")
  case False
  then show ?thesis
    by (auto simp: parse_netfilter_message_def Let_def index_def slice_def slice_from_def bind_eq_Some_conv
        parse_attrs_total)
qed (simp add: parse_netfilter_message_def)



end
