(* ===== verification/B4Engine.thy ===== *)
theory B4Engine
  imports B4Apply B4Reassembly B4Queue
begin

text \<open>
  The interception engine of \<open>src/crates/balansir-b4/src/engine.rs\<close>: what is done with one message of
  the kernel queue, the loop over messages, and the start and end of the interception thread. The
  state is the counters, the reassembler and the list of verdicts given to the queue. Parameters are
  the outcome of each verdict (\<open>fails\<close>: the socket reports an error) and, per message, the strategy
  sets read from the shared list and the clock readings of the reassembler. A panic is \<open>None\<close>.
\<close>

subsection \<open>State\<close>

record B4Stats =
  st_packets_seen :: u64
  st_tls_packets :: u64
  st_mutated :: u64
  st_dropped :: u64
  st_accepted :: u64
  st_errors :: u64

record Verdict =
  vd_packet_id :: u32
  vd_verdict :: u8
  vd_payload :: "u8 list option"

record EngineState =
  es_stats :: B4Stats
  es_reassembler :: TcpReassembler
  es_verdicts :: "Verdict list"

definition count_seen :: "EngineState \<Rightarrow> EngineState" where
  "count_seen s = s\<lparr>es_stats := (es_stats s)\<lparr>st_packets_seen := st_packets_seen (es_stats s) + 1\<rparr>\<rparr>"

definition count_tls :: "EngineState \<Rightarrow> EngineState" where
  "count_tls s = s\<lparr>es_stats := (es_stats s)\<lparr>st_tls_packets := st_tls_packets (es_stats s) + 1\<rparr>\<rparr>"

definition count_mutated :: "EngineState \<Rightarrow> EngineState" where
  "count_mutated s = s\<lparr>es_stats := (es_stats s)\<lparr>st_mutated := st_mutated (es_stats s) + 1\<rparr>\<rparr>"

definition count_dropped :: "EngineState \<Rightarrow> EngineState" where
  "count_dropped s = s\<lparr>es_stats := (es_stats s)\<lparr>st_dropped := st_dropped (es_stats s) + 1\<rparr>\<rparr>"

definition count_accepted :: "EngineState \<Rightarrow> EngineState" where
  "count_accepted s = s\<lparr>es_stats := (es_stats s)\<lparr>st_accepted := st_accepted (es_stats s) + 1\<rparr>\<rparr>"

definition count_error :: "EngineState \<Rightarrow> EngineState" where
  "count_error s = s\<lparr>es_stats := (es_stats s)\<lparr>st_errors := st_errors (es_stats s) + 1\<rparr>\<rparr>"

text \<open>\<open>let _ = queue.verdict(...)\<close>, and the call whose error is counted.\<close>

definition give_verdict :: "u32 \<Rightarrow> u8 \<Rightarrow> u8 list option \<Rightarrow> EngineState \<Rightarrow> EngineState" where
  "give_verdict packet_id verdict payload s =
     s\<lparr>es_verdicts := es_verdicts s @ [\<lparr>vd_packet_id = packet_id, vd_verdict = verdict, vd_payload = payload\<rparr>]\<rparr>"

definition verdict_counted :: "(Verdict \<Rightarrow> bool) \<Rightarrow> u32 \<Rightarrow> u8 list option \<Rightarrow> EngineState \<Rightarrow> EngineState" where
  "verdict_counted fails packet_id payload s =
     (let s = give_verdict packet_id NF_ACCEPT payload s
      in if fails \<lparr>vd_packet_id = packet_id, vd_verdict = NF_ACCEPT, vd_payload = payload\<rparr>
         then count_error s else s)"

definition pass_through :: "(Verdict \<Rightarrow> bool) \<Rightarrow> u32 \<Rightarrow> EngineState \<Rightarrow> EngineState" where
  "pass_through fails packet_id s = verdict_counted fails packet_id None (count_accepted s)"

subsection \<open>One message\<close>

definition set_matches_host :: "GeositeStore \<Rightarrow> B4Set \<Rightarrow> string \<Rightarrow> bool" where
  "set_matches_host geo st host =
     (if \<not> bs_enabled st then False
      else
        let h = norm_host host
        in if list_ex (\<lambda>d. domain_covers (norm_host d) h) (ta_sni_domains (bs_targets st)) then True
           else if has_geosite st then
             list_ex (\<lambda>cat. case store_get geo cat of Some c \<Rightarrow> category_matches c h | None \<Rightarrow> False)
               (ta_geosite_categories (bs_targets st))
           else False)"

text \<open>\<open>True\<close> stands for \<open>Some(())\<close>: a verdict was given.\<close>

definition apply_set_to_tcp ::
    "(Verdict \<Rightarrow> bool) \<Rightarrow> B4Set \<Rightarrow> TcpPacket \<Rightarrow> u32 \<Rightarrow> EngineState \<Rightarrow> (bool \<times> EngineState) option" where
  "apply_set_to_tcp fails st tcp packet_id s = do {
     frags \<leftarrow> fragment_for st tcp;
     case frags of
       Some (first_frag, second_frag) \<Rightarrow> Some (True, verdict_counted fails packet_id (Some first_frag) (count_mutated s))
     | None \<Rightarrow> do {
         flags \<leftarrow> tcp_flags tcp;
         payload \<leftarrow> tcp_payload tcp;
         outcome \<leftarrow> apply_tcp st tcp (flags AND 0x02 \<noteq> 0) (0 < length payload);
         case outcome of
           Mutated bytes \<Rightarrow> Some (True, verdict_counted fails packet_id (Some bytes) (count_mutated s))
         | Drop \<Rightarrow> Some (True, give_verdict packet_id NF_DROP None (count_dropped s))
         | _ \<Rightarrow> Some (False, s)
       }
   }"

definition handle_udp_packet ::
    "B4Set list \<Rightarrow> u16 list \<Rightarrow> u32 \<Rightarrow> u8 list \<Rightarrow> EngineState \<Rightarrow> EngineState option" where
  "handle_udp_packet sets uports packet_id payload s = do {
     parsed \<leftarrow> UdpPacket_parse payload;
     case parsed of
       None \<Rightarrow> Some (give_verdict packet_id NF_ACCEPT None (count_accepted s))
     | Some udp \<Rightarrow> do {
         port \<leftarrow> udp_dst_port udp;
         if port \<notin> set uports then Some (give_verdict packet_id NF_ACCEPT None (count_accepted s))
         else
           let interested = list_ex (\<lambda>st. bs_enabled st \<and> ud_mode (bs_udp st) = ''fake'' \<and> ud_dport_filter (bs_udp st) = []) sets;
               s = (if interested then count_mutated s else s)
           in Some (give_verdict packet_id NF_ACCEPT None (count_accepted s))
       }
   }"

fun apply_to :: "Strategy \<Rightarrow> edit" where
  "apply_to (Mss mss) pkt = set_mss mss pkt"
| "apply_to StripSack pkt = strip_option SACK_PERMITTED pkt"
| "apply_to (Ttl ttl) pkt = do {
     old \<leftarrow> index (tp_raw pkt) 8;
     if old \<noteq> ttl then do { raw \<leftarrow> store (tp_raw pkt) 8 ttl; Some (True, pkt\<lparr>tp_raw := raw\<rparr>) }
     else Some (False, pkt) }"
| "apply_to Noop pkt = Some (False, pkt)"

fun apply_strategies :: "Strategy list \<Rightarrow> edit" where
  "apply_strategies [] pkt = Some (False, pkt)"
| "apply_strategies (s # ss) pkt = do {
     (changed, pkt) \<leftarrow> apply_to s pkt;
     (more_changed, pkt) \<leftarrow> apply_strategies ss pkt;
     Some (changed \<or> more_changed, pkt) }"

definition inspect_host ::
    "nat \<times> nat \<times> nat \<Rightarrow> TcpPacket \<Rightarrow> TcpReassembler \<Rightarrow> (string option \<times> TcpReassembler) option" where
  "inspect_host clock tcp r = do {
     payload \<leftarrow> tcp_payload tcp;
     key \<leftarrow> for_packet tcp;
     seq \<leftarrow> tcp_seq tcp;
     flags \<leftarrow> tcp_flags tcp;
     (reassembled, r) \<leftarrow> feed clock key seq payload (flags AND 0x11 \<noteq> 0) r;
     case reassembled of
       Some host \<Rightarrow> Some (Some host, r)
     | None \<Rightarrow> do { host \<leftarrow> extract_tls_sni payload; Some (host, r) } }"

definition select_profile :: "EngineConfig \<Rightarrow> TcpPacket \<Rightarrow> string option \<Rightarrow> Profile option option" where
  "select_profile cfg tcp host =
     (case (case host of Some h \<Rightarrow> profile_for cfg h | None \<Rightarrow> None) of
        Some p \<Rightarrow> Some (Some p)
      | None \<Rightarrow> do {
          flags \<leftarrow> tcp_flags tcp;
          if flags AND 0x02 \<noteq> 0
          then Some (find (\<lambda>p. pf_domains p = [] \<and> pf_strategies p \<noteq> []) (ec_profiles cfg))
          else Some None })"

definition apply_profile ::
    "(Verdict \<Rightarrow> bool) \<Rightarrow> Profile \<Rightarrow> TcpPacket \<Rightarrow> u32 \<Rightarrow> EngineState \<Rightarrow> EngineState option" where
  "apply_profile fails p tcp packet_id s = do {
     (changed, mutated_pkt) \<leftarrow> apply_strategies (pf_strategies p) tcp;
     if changed then do {
       mutated_pkt \<leftarrow> fix_checksums mutated_pkt;
       Some (verdict_counted fails packet_id (Some (tp_raw mutated_pkt)) (count_mutated s))
     } else Some (pass_through fails packet_id s) }"

definition dispatch_tcp ::
    "EngineConfig \<Rightarrow> GeositeStore \<Rightarrow> (Verdict \<Rightarrow> bool) \<Rightarrow> B4Set list \<Rightarrow> TcpPacket \<Rightarrow> u32 \<Rightarrow>
     string option \<Rightarrow> EngineState \<Rightarrow> EngineState option" where
  "dispatch_tcp cfg geo fails sets tcp packet_id host s =
     (case (case host of Some h \<Rightarrow> find (\<lambda>st. set_matches_host geo st h) sets | None \<Rightarrow> None) of
        Some st \<Rightarrow> do {
          (handled, s) \<leftarrow> apply_set_to_tcp fails st tcp packet_id s;
          Some (if handled then s else pass_through fails packet_id s)
        }
      | None \<Rightarrow> do {
          profile \<leftarrow> select_profile cfg tcp host;
          case profile of
            None \<Rightarrow> Some (pass_through fails packet_id s)
          | Some p \<Rightarrow> apply_profile fails p tcp packet_id s
        })"

definition handle_tcp_packet ::
    "EngineConfig \<Rightarrow> GeositeStore \<Rightarrow> (Verdict \<Rightarrow> bool) \<Rightarrow> B4Set list \<Rightarrow> nat \<times> nat \<times> nat \<Rightarrow>
     TcpPacket \<Rightarrow> u32 \<Rightarrow> EngineState \<Rightarrow> EngineState option" where
  "handle_tcp_packet cfg geo fails sets clock tcp packet_id s = do {
     (host, r) \<leftarrow> inspect_host clock tcp (es_reassembler s);
     let s = s\<lparr>es_reassembler := r\<rparr>;
     let s = (if host \<noteq> None then count_tls s else s);
     dispatch_tcp cfg geo fails sets tcp packet_id host s }"

definition protocol_of :: "u8 list \<Rightarrow> u8 option" where
  "protocol_of payload =
     (if 9 \<le> length payload \<and> drop_bit 4 (payload ! 0) = 4 then index payload 9
      else if 8 \<le> length payload \<and> drop_bit 4 (payload ! 0) = 6 then index payload 7
      else Some 0)"

datatype Recv = RecvPacket QueuedPacket | RecvUnrecognised | RecvError

definition interception_step ::
    "EngineConfig \<Rightarrow> GeositeStore \<Rightarrow> u16 list \<Rightarrow> u16 list \<Rightarrow> (Verdict \<Rightarrow> bool) \<Rightarrow>
     B4Set list \<Rightarrow> nat \<times> nat \<times> nat \<Rightarrow> Recv \<Rightarrow> EngineState \<Rightarrow> EngineState option" where
  "interception_step cfg geo tports uports fails sets clock message s =
     (case message of
        RecvUnrecognised \<Rightarrow> Some (count_error s)
      | RecvError \<Rightarrow> Some (count_error s)
      | RecvPacket packet \<Rightarrow>
          let s = count_seen s
          in (case qp_payload packet of
                None \<Rightarrow> Some (pass_through fails (qp_packet_id packet) s)
              | Some payload \<Rightarrow> do {
                  proto \<leftarrow> protocol_of payload;
                  if proto = 17 then handle_udp_packet sets uports (qp_packet_id packet) payload s
                  else do {
                    parsed \<leftarrow> TcpPacket_parse payload;
                    case parsed of
                      None \<Rightarrow> Some (pass_through fails (qp_packet_id packet) s)
                    | Some tcp \<Rightarrow> do {
                        port \<leftarrow> tcp_dst_port tcp;
                        if port \<notin> set tports then Some (pass_through fails (qp_packet_id packet) s)
                        else handle_tcp_packet cfg geo fails sets clock tcp (qp_packet_id packet) s
                      }
                  }
                }))"

text \<open>The messages received while \<open>running\<close> holds, each with the sets and clock readings it meets.\<close>

fun interception_loop ::
    "EngineConfig \<Rightarrow> GeositeStore \<Rightarrow> u16 list \<Rightarrow> u16 list \<Rightarrow> (Verdict \<Rightarrow> bool) \<Rightarrow>
     (B4Set list \<times> (nat \<times> nat \<times> nat) \<times> Recv) list \<Rightarrow> EngineState \<Rightarrow> EngineState option" where
  "interception_loop cfg geo tports uports fails [] s = Some s"
| "interception_loop cfg geo tports uports fails ((sets, clock, message) # messages) s = do {
     s \<leftarrow> interception_step cfg geo tports uports fails sets clock message s;
     interception_loop cfg geo tports uports fails messages s }"

subsection \<open>The engine handle\<close>

record B4Engine =
  be_queue_num :: u16
  be_config :: EngineConfig
  be_sets :: "B4Set list"
  be_ports :: "u16 list"
  be_udp_ports :: "u16 list"
  be_running :: bool
  be_dead :: bool
  be_stats :: B4Stats

definition engine_with_sets ::
    "u16 \<Rightarrow> EngineConfig \<Rightarrow> B4Set list \<Rightarrow> u16 list \<Rightarrow> u16 list \<Rightarrow> B4Engine" where
  "engine_with_sets queue_num config sets tports uports =
     \<lparr>be_queue_num = queue_num, be_config = config, be_sets = sets,
      be_ports = (if tports = [] then [443] else tports),
      be_udp_ports = (if uports = [] then [443] else uports),
      be_running = False, be_dead = False,
      be_stats = \<lparr>st_packets_seen = 0, st_tls_packets = 0, st_mutated = 0, st_dropped = 0,
        st_accepted = 0, st_errors = 0\<rparr>\<rparr>"

definition engine_new :: "u16 \<Rightarrow> EngineConfig \<Rightarrow> u16 list \<Rightarrow> B4Engine" where
  "engine_new queue_num config tports = engine_with_sets queue_num config [] tports [443]"

definition set_sets :: "B4Set list \<Rightarrow> B4Engine \<Rightarrow> B4Engine" where
  "set_sets sets e = e\<lparr>be_sets := sets\<rparr>"

definition engine_stop :: "B4Engine \<Rightarrow> B4Engine" where
  "engine_stop e = e\<lparr>be_running := False\<rparr>"

text \<open>\<open>bound\<close> is the result of opening the kernel queue.\<close>

definition engine_run :: "(unit, string) result \<Rightarrow> B4Engine \<Rightarrow> (unit, string) result \<times> B4Engine" where
  "engine_run bound e =
     (if be_running e then (Inl ''b4 engine already running'', e)
      else
        let e = e\<lparr>be_dead := False\<rparr>
        in case bound of
             Inl err \<Rightarrow> (Inl (''NFQUEUE bind failed: '' @ err), e)
           | Inr _ \<Rightarrow> (Inr (), e\<lparr>be_running := True\<rparr>))"

text \<open>What the interception thread does once its loop has returned or panicked.\<close>

definition engine_exit :: "B4Engine \<Rightarrow> B4Engine" where
  "engine_exit e =
     (let e = (if be_running e then e\<lparr>be_dead := True\<rparr> else e)
      in e\<lparr>be_running := False\<rparr>)"

subsection \<open>One verdict per packet\<close>

named_theorems engine_simps

lemma counters [engine_simps]:
  "es_verdicts (count_seen s) = es_verdicts s" "es_verdicts (count_tls s) = es_verdicts s"
  "es_verdicts (count_mutated s) = es_verdicts s" "es_verdicts (count_accepted s) = es_verdicts s"
  "es_verdicts (count_error s) = es_verdicts s"
  "st_dropped (es_stats (count_seen s)) = st_dropped (es_stats s)"
  "st_dropped (es_stats (count_tls s)) = st_dropped (es_stats s)"
  "st_dropped (es_stats (count_mutated s)) = st_dropped (es_stats s)"
  "st_dropped (es_stats (count_accepted s)) = st_dropped (es_stats s)"
  "st_dropped (es_stats (count_error s)) = st_dropped (es_stats s)"
  "st_packets_seen (es_stats (count_seen s)) = st_packets_seen (es_stats s) + 1"
  "st_packets_seen (es_stats (count_tls s)) = st_packets_seen (es_stats s)"
  "st_packets_seen (es_stats (count_mutated s)) = st_packets_seen (es_stats s)"
  "st_packets_seen (es_stats (count_accepted s)) = st_packets_seen (es_stats s)"
  "st_packets_seen (es_stats (count_error s)) = st_packets_seen (es_stats s)"
  "es_reassembler (count_seen s) = es_reassembler s" "es_reassembler (count_tls s) = es_reassembler s"
  "es_reassembler (count_mutated s) = es_reassembler s" "es_reassembler (count_accepted s) = es_reassembler s"
  "es_reassembler (count_error s) = es_reassembler s"
  by (simp_all add: count_seen_def count_tls_def count_mutated_def count_accepted_def count_error_def)

text \<open>The packet is accepted with exactly one verdict.\<close>

definition accepts :: "u32 \<Rightarrow> EngineState \<Rightarrow> EngineState \<Rightarrow> bool" where
  "accepts packet_id s s' \<longleftrightarrow>
     (\<exists>payload. es_verdicts s' =
        es_verdicts s @ [\<lparr>vd_packet_id = packet_id, vd_verdict = NF_ACCEPT, vd_payload = payload\<rparr>]) \<and>
     st_dropped (es_stats s') = st_dropped (es_stats s) \<and>
     st_packets_seen (es_stats s') = st_packets_seen (es_stats s) \<and>
     es_reassembler s' = es_reassembler s"

lemma accepts_verdict:
  "accepts packet_id s (give_verdict packet_id NF_ACCEPT payload s)"
  "accepts packet_id s (verdict_counted fails packet_id payload s)"
  by (auto simp: accepts_def give_verdict_def verdict_counted_def Let_def engine_simps)

lemma accepts_counted:
  "accepts packet_id (count_mutated s) s' \<longleftrightarrow> accepts packet_id s s'"
  "accepts packet_id (count_accepted s) s' \<longleftrightarrow> accepts packet_id s s'"
  "accepts packet_id (count_tls s) s' \<longleftrightarrow> accepts packet_id s s'"
  by (simp_all add: accepts_def engine_simps)

lemma accepts_pass: "accepts packet_id s (pass_through fails packet_id s)"
  unfolding pass_through_def using accepts_verdict(2) [of packet_id "count_accepted s"] by (simp add: accepts_counted)

lemma apply_tcp_not_Drop: "apply_tcp st pkt is_syn is_first_seg \<noteq> Some Drop"
  by (auto simp: apply_tcp_def bind_eq_Some_conv split: if_splits)

lemma apply_set_accepts:
  assumes "apply_set_to_tcp fails st tcp packet_id s = Some (handled, s')"
  shows "if handled then accepts packet_id s s' else s' = s"
proof -
  note ok = accepts_verdict(2) [of packet_id "count_mutated s", unfolded accepts_counted]
  obtain frags where frags: "fragment_for st tcp = Some frags"
    using assms by (auto simp: apply_set_to_tcp_def bind_eq_Some_conv)
  show ?thesis
  proof (cases frags)
    case None
    then obtain flags payload outcome where "tcp_flags tcp = Some flags" "tcp_payload tcp = Some payload"
        "apply_tcp st tcp (flags AND 2 \<noteq> 0) (0 < length payload) = Some outcome"
      using assms frags by (auto simp: apply_set_to_tcp_def bind_eq_Some_conv)
    with None assms frags ok apply_tcp_not_Drop [of st tcp "flags AND 2 \<noteq> 0" "0 < length payload"]
    show ?thesis by (cases outcome) (auto simp: apply_set_to_tcp_def)
  next
    case (Some ab)
    with assms frags ok show ?thesis by (cases ab) (auto simp: apply_set_to_tcp_def)
  qed
qed

lemma handle_udp_accepts:
  assumes "handle_udp_packet sets uports packet_id payload s = Some s'"
  shows "accepts packet_id s s'"
  using assms accepts_verdict(1) [of packet_id "count_accepted s"] accepts_verdict(1) [of packet_id "count_accepted (count_mutated s)"]
  by (auto simp: handle_udp_packet_def accepts_counted bind_eq_Some_conv Let_def split: option.splits if_splits)

lemma apply_profile_accepts:
  assumes "apply_profile fails p tcp packet_id s = Some s'"
  shows "accepts packet_id s s'"
  using assms accepts_verdict(2) [of packet_id "count_mutated s"] accepts_pass [of packet_id s]
  by (auto simp: apply_profile_def accepts_counted bind_eq_Some_conv split: if_splits)

lemma dispatch_accepts:
  assumes "dispatch_tcp cfg geo fails sets tcp packet_id host s = Some s'"
  shows "accepts packet_id s s'"
proof (cases "case host of Some h \<Rightarrow> find (\<lambda>st. set_matches_host geo st h) sets | None \<Rightarrow> None")
  case None
  with assms accepts_pass [of packet_id s fails] show ?thesis
    by (auto simp: dispatch_tcp_def bind_eq_Some_conv dest: apply_profile_accepts split: option.splits)
next
  case (Some st)
  with assms obtain handled s2 where "apply_set_to_tcp fails st tcp packet_id s = Some (handled, s2)"
      "s' = (if handled then s2 else pass_through fails packet_id s2)"
    by (auto simp: dispatch_tcp_def bind_eq_Some_conv)
  with accepts_pass [of packet_id s fails] apply_set_accepts [of fails st tcp packet_id s handled s2]
  show ?thesis by (cases handled) auto
qed

lemma handle_tcp_accepts:
  assumes "handle_tcp_packet cfg geo fails sets clock tcp packet_id s = Some s'"
  shows "\<exists>host r. inspect_host clock tcp (es_reassembler s) = Some (host, r) \<and>
    accepts packet_id (s\<lparr>es_reassembler := r\<rparr>) s'"
  using assms
  by (auto simp: handle_tcp_packet_def Let_def bind_eq_Some_conv accepts_counted dest!: dispatch_accepts split: if_splits)

lemma step_verdict:
  assumes "interception_step cfg geo tports uports fails sets clock message s = Some s'"
  shows "case message of
      RecvPacket p \<Rightarrow> \<exists>r. accepts (qp_packet_id p) (count_seen s\<lparr>es_reassembler := r\<rparr>) s'
    | _ \<Rightarrow> s' = count_error s"
proof (cases message)
  case (RecvPacket p)
  have frame: "\<exists>r. accepts i (count_seen s\<lparr>es_reassembler := r\<rparr>) s'" if "accepts i (count_seen s) s'" for i
    using that by (intro exI [of _ "es_reassembler s"]) (simp add: accepts_def engine_simps)
  have "accepts (qp_packet_id p) (count_seen s) s' \<or>
      (\<exists>r. accepts (qp_packet_id p) (count_seen s\<lparr>es_reassembler := r\<rparr>) s')"
    using assms RecvPacket
    by (auto simp: interception_step_def Let_def bind_eq_Some_conv accepts_pass
        dest!: handle_udp_accepts handle_tcp_accepts split: option.splits if_splits)
  then show ?thesis using frame RecvPacket by auto
qed (use assms in \<open>simp_all add: interception_step_def\<close>)

text \<open>The packets among the received messages.\<close>

fun packet_ids :: "(B4Set list \<times> (nat \<times> nat \<times> nat) \<times> Recv) list \<Rightarrow> u32 list" where
  "packet_ids [] = []"
| "packet_ids ((sets, clock, RecvPacket p) # ms) = qp_packet_id p # packet_ids ms"
| "packet_ids (_ # ms) = packet_ids ms"

text \<open>
  C13. The engine never drops a packet: as long as it does not panic, every packet of the queue gets
  exactly one verdict, in order of arrival, which is to accept it; nothing else gets a verdict, the
  drop counter stays where it is and every packet is counted.
\<close>

theorem every_packet_accepted_once:
  assumes "interception_loop cfg geo tports uports fails messages s = Some s'"
  shows "\<exists>vs. es_verdicts s' = es_verdicts s @ vs \<and> map vd_packet_id vs = packet_ids messages \<and>
    list_all (\<lambda>v. vd_verdict v = NF_ACCEPT) vs \<and>
    st_dropped (es_stats s') = st_dropped (es_stats s) \<and>
    st_packets_seen (es_stats s') = st_packets_seen (es_stats s) + of_nat (length vs)"
  using assms
proof (induction messages arbitrary: s)
  case (Cons m messages)
  obtain sets clock message where m: "m = (sets, clock, message)" by (cases m)
  then obtain s1 where s1: "interception_step cfg geo tports uports fails sets clock message s = Some s1"
      "interception_loop cfg geo tports uports fails messages s1 = Some s'"
    using Cons.prems by (auto simp: bind_eq_Some_conv)
  from Cons.IH [OF s1(2)] obtain vs where vs: "es_verdicts s' = es_verdicts s1 @ vs"
      "map vd_packet_id vs = packet_ids messages" "list_all (\<lambda>v. vd_verdict v = NF_ACCEPT) vs"
      "st_dropped (es_stats s') = st_dropped (es_stats s1)"
      "st_packets_seen (es_stats s') = st_packets_seen (es_stats s1) + of_nat (length vs)"
    by blast
  show ?case
  proof (cases message)
    case (RecvPacket p)
    then obtain r where "accepts (qp_packet_id p) (count_seen s\<lparr>es_reassembler := r\<rparr>) s1"
      using step_verdict [OF s1(1)] by auto
    then obtain payload where "es_verdicts s1 = es_verdicts s @
          [\<lparr>vd_packet_id = qp_packet_id p, vd_verdict = NF_ACCEPT, vd_payload = payload\<rparr>]"
        "st_dropped (es_stats s1) = st_dropped (es_stats s)"
        "st_packets_seen (es_stats s1) = st_packets_seen (es_stats s) + 1"
      by (auto simp: accepts_def engine_simps)
    with vs m RecvPacket show ?thesis
      by (intro exI [of _ "\<lparr>vd_packet_id = qp_packet_id p, vd_verdict = NF_ACCEPT, vd_payload = payload\<rparr> # vs"]) simp
  qed (use vs m step_verdict [OF s1(1)] in \<open>auto simp: engine_simps\<close>)
qed simp

definition start_state :: EngineState where
  "start_state = \<lparr>es_stats = be_stats (engine_new 0 \<lparr>ec_profiles = []\<rparr> []),
     es_reassembler = TcpReassembler_new, es_verdicts = []\<rparr>"

theorem every_packet_accepted_once_witness:
  "\<exists>s' v. interception_loop \<lparr>ec_profiles = []\<rparr> store_empty [443] [443] (\<lambda>_. True)
      [([], (0, 0, 0), RecvPacket (empty_packet\<lparr>qp_packet_id := 7\<rparr>)), ([], (0, 0, 0), RecvError)] start_state = Some s' \<and>
     es_verdicts s' = [v] \<and> vd_packet_id v = 7 \<and> vd_verdict v = NF_ACCEPT"
proof -
  let ?ms = "[([], (0, 0, 0), RecvPacket (empty_packet\<lparr>qp_packet_id := 7\<rparr>)), ([], (0, 0, 0), RecvError)]
    :: (B4Set list \<times> (nat \<times> nat \<times> nat) \<times> Recv) list"
  have "\<exists>s'. interception_loop \<lparr>ec_profiles = []\<rparr> store_empty [443] [443] (\<lambda>_. True) ?ms start_state = Some s'"
    by (simp add: interception_step_def empty_packet_def Let_def)
  then obtain s' where s': "interception_loop \<lparr>ec_profiles = []\<rparr> store_empty [443] [443] (\<lambda>_. True) ?ms start_state = Some s'"
    by blast
  from every_packet_accepted_once [OF s'] obtain vs where "es_verdicts s' = vs" "map vd_packet_id vs = [7]"
      "list_all (\<lambda>v. vd_verdict v = NF_ACCEPT) vs"
    by (auto simp: start_state_def empty_packet_def)
  with s' show ?thesis by (cases vs) auto
qed

subsection \<open>When the engine panics\<close>

lemma protocol_of_None:
  "protocol_of payload = None \<longleftrightarrow> length payload = 9 \<and> drop_bit 4 (payload ! 0) = 4"
  by (auto simp: protocol_of_def index_def)

lemma tcp_wf_accessors:
  assumes "tcp_wf pkt"
  shows "\<exists>x. tcp_flags pkt = Some x" "\<exists>x. tcp_seq pkt = Some x" "\<exists>x. tcp_dst_port pkt = Some x"
    "\<exists>x. for_packet pkt = Some x" "\<exists>x. tcp_payload pkt = Some x \<and> length x \<le> length (tp_raw pkt)"
proof -
  have "20 \<le> tp_tcp_offset pkt" "tp_tcp_offset pkt + 20 \<le> length (tp_raw pkt)"
    "tp_tcp_offset pkt + tp_tcp_header_len pkt \<le> length (tp_raw pkt)"
    using assms by (auto simp: tcp_wf_def)
  then show "\<exists>x. tcp_flags pkt = Some x" "\<exists>x. tcp_seq pkt = Some x" "\<exists>x. tcp_dst_port pkt = Some x"
      "\<exists>x. for_packet pkt = Some x" "\<exists>x. tcp_payload pkt = Some x \<and> length x \<le> length (tp_raw pkt)"
    by (simp_all add: tcp_flags_def tcp_seq_def tcp_dst_port_def for_packet_def tcp_src_ip_def tcp_dst_ip_def
        tcp_src_port_def ip_at_Some be16_at_Some index_def tcp_payload_def slice_from_def)
qed

lemma inspect_total:
  assumes "tcp_wf tcp" and "length (tp_raw tcp) < 2 ^ 32" and "bounded r"
  shows "\<exists>host r'. inspect_host clock tcp r = Some (host, r') \<and> bounded r'"
proof -
  obtain flags seq key payload where a: "tcp_flags tcp = Some flags" "tcp_seq tcp = Some seq"
      "for_packet tcp = Some key" "tcp_payload tcp = Some payload" "length payload \<le> length (tp_raw tcp)"
    using tcp_wf_accessors [OF assms(1)] by blast
  moreover obtain res r' where "feed clock key seq payload (flags AND 0x11 \<noteq> 0) r = Some (res, r')" "bounded r'"
    using feed_bounded [OF assms(3), of payload clock key seq "flags AND 0x11 \<noteq> 0"] a(5) assms(2) by auto
  ultimately show ?thesis by (cases res) (simp_all add: inspect_host_def extract_sni_of)
qed

lemma apply_to_eq: "apply_to s = strategy_apply s"
  by (cases s) (auto simp: set_ttl_def fun_eq_iff)

lemma apply_strategies_Cons: "apply_strategies (s # ss) = then_edit (strategy_apply s) (apply_strategies ss)"
  by (auto simp: fun_eq_iff then_edit_def apply_to_eq)

interpretation profile: packet_edit "apply_strategies ss" for ss
proof (induction ss)
  case Nil
  have "apply_strategies [] = no_edit" by (auto simp: fun_eq_iff no_edit_def)
  then show "packet_edit (apply_strategies [])" using none.packet_edit_axioms by simp
next
  case (Cons s ss)
  then show "packet_edit (apply_strategies (s # ss))"
    unfolding apply_strategies_Cons by (intro packet_edit_then strategy.packet_edit_axioms)
qed

lemma apply_strategies_total:
  assumes "tcp_valid pkt" and "StripSack \<notin> set ss"
  shows "\<exists>changed pkt'. apply_strategies ss pkt = Some (changed, pkt')"
  using assms
proof (induction ss arbitrary: pkt)
  case (Cons s ss)
  then obtain c p where p: "strategy_apply s pkt = Some (c, p)"
    using strategy_panics_iff [of pkt s] by (cases "strategy_apply s pkt") auto
  then have "tcp_valid p" using Cons.prems(1) strategy.kept by blast
  then obtain c' p' where "apply_strategies ss p = Some (c', p')" using Cons.IH Cons.prems(2) by force
  with p show ?case by (simp add: apply_to_eq)
qed (auto intro: exI [of _ False])

lemma apply_profile_total:
  assumes "tcp_valid tcp" and "StripSack \<notin> set (pf_strategies p)"
  shows "\<exists>s'. apply_profile fails p tcp packet_id s = Some s'"
proof -
  obtain changed pkt' where e: "apply_strategies (pf_strategies p) tcp = Some (changed, pkt')"
    using apply_strategies_total [OF assms] by blast
  with mutation_finished [OF profile.packet_edit_axioms assms(1) e] show ?thesis
    by (auto simp: apply_profile_def)
qed

lemma tcp_edits_total:
  assumes "tcp_valid pkt" and "\<not> tc_drop_sack (bs_tcp st)"
  shows "\<exists>changed pkt'. tcp_edits st is_syn is_first_seg pkt = Some (changed, pkt')"
proof -
  have mss: "\<exists>c p. set_mss m pkt = Some (c, p)" if "tcp_valid pkt" for m pkt
    using set_mss_eq [OF that] by (metis prod.collapse)
  have ttl: "\<exists>c p. set_ttl n pkt = Some (c, p)" if "tcp_valid pkt" for n pkt
    using strategy_panics_iff [OF that, of "Ttl n"] by (cases "set_ttl n pkt") auto
  have seq: "\<exists>c p. seq_edit st pkt = Some (c, p)" if "tcp_valid pkt" for pkt
  proof -
    have "tcp_wf pkt" using that by (simp add: tcp_valid_def)
    moreover from this have "tp_tcp_offset pkt + 8 \<le> length (tp_raw pkt)" by (auto simp: tcp_wf_def)
    ultimately show ?thesis
      using tcp_wf_accessors(2) [of pkt] by (auto simp: seq_edit_def set_tcp_seq_def copy_at_def Let_def)
  qed
  have comp: "\<exists>c p. then_edit e1 e2 pkt = Some (c, p)"
    if v: "tcp_valid pkt" and e: "packet_edit e1" and e1: "\<And>q. tcp_valid q \<Longrightarrow> \<exists>c p. e1 q = Some (c, p)"
      and e2: "\<And>q. tcp_valid q \<Longrightarrow> \<exists>c p. e2 q = Some (c, p)" for e1 e2 pkt
  proof -
    obtain c p where p: "e1 pkt = Some (c, p)" using e1 [OF v] by blast
    then have "tcp_valid p" using packet_edit.kept [OF e v] by blast
    then obtain c' p' where "e2 p = Some (c', p')" using e2 by blast
    with p show ?thesis by (simp add: then_edit_def)
  qed
  have none: "\<exists>c p. no_edit pkt = Some (c, p)" for pkt by (intro exI) (rule no_edit_def)
  have "\<exists>c p. syn_edits st pkt = Some (c, p)" if "tcp_valid pkt" for pkt
    unfolding syn_edits_def using assms(2)
    by (intro comp that) (auto simp: none mss ttl mss.packet_edit_axioms none.packet_edit_axioms split: option.split)
  moreover have "packet_edit (if is_syn then syn_edits st else no_edit)"
    by (simp add: syn.packet_edit_axioms none.packet_edit_axioms)
  ultimately show ?thesis
    unfolding tcp_edits_def by (intro comp assms) (auto simp: none seq)
qed

lemma apply_tcp_total:
  assumes "tcp_valid pkt" and "\<not> tc_drop_sack (bs_tcp st)"
  shows "\<exists>outcome. apply_tcp st pkt is_syn is_first_seg = Some outcome"
proof -
  obtain changed pkt' where e: "tcp_edits st is_syn is_first_seg pkt = Some (changed, pkt')"
    using tcp_edits_total [OF assms] by blast
  with mutation_finished [OF plane.packet_edit_axioms assms(1) e] show ?thesis
    by (auto simp: apply_tcp_def)
qed

lemma fragment_for_total:
  assumes "tcp_wf pkt"
  shows "\<exists>frags. fragment_for st pkt = Some frags"
proof -
  let ?payload = "drop (tp_tcp_offset pkt + tp_tcp_header_len pkt) (tp_raw pkt)"
  have "\<exists>frags. fragment_tcp_payload pkt n = Some frags" if "n \<noteq> 0" "n < length ?payload" for n
    using fragment_eq [OF assms, of n] that by auto
  then show ?thesis
    by (auto simp: fragment_for_def Let_def tcp_payload_valid [OF assms])
qed

lemma apply_set_total:
  assumes "tcp_valid tcp" and "\<not> tc_drop_sack (bs_tcp st)"
  shows "\<exists>handled s'. apply_set_to_tcp fails st tcp packet_id s = Some (handled, s')"
proof -
  have wf: "tcp_wf tcp" using assms(1) by (simp add: tcp_valid_def)
  obtain flags payload frags where a: "tcp_flags tcp = Some flags" "tcp_payload tcp = Some payload"
      "fragment_for st tcp = Some frags"
    using tcp_wf_accessors [OF wf] fragment_for_total [OF wf] by blast
  obtain outcome where "apply_tcp st tcp (flags AND 2 \<noteq> 0) (0 < length payload) = Some outcome"
    using apply_tcp_total [OF assms] by blast
  with a show ?thesis
    by (cases frags; cases outcome) (auto simp: apply_set_to_tcp_def)
qed

lemma dispatch_total:
  assumes "tcp_valid tcp" and "\<forall>st \<in> set sets. \<not> tc_drop_sack (bs_tcp st)"
    and "\<forall>p \<in> set (ec_profiles cfg). StripSack \<notin> set (pf_strategies p)"
  shows "\<exists>s'. dispatch_tcp cfg geo fails sets tcp packet_id host s = Some s'"
proof (cases "case host of Some h \<Rightarrow> find (\<lambda>st. set_matches_host geo st h) sets | None \<Rightarrow> None")
  case None
  obtain flags where "tcp_flags tcp = Some flags"
    using tcp_wf_accessors(1) assms(1) by (auto simp: tcp_valid_def)
  then have "\<exists>profile. select_profile cfg tcp host = Some profile"
    by (auto simp: select_profile_def split: option.split)
  then obtain profile where p: "select_profile cfg tcp host = Some profile" by blast
  then have "StripSack \<notin> set (pf_strategies q)" if "profile = Some q" for q
    using that assms(3)
    by (auto simp: select_profile_def bind_eq_Some_conv dest: find_SomeD profile_for_in split: option.splits if_splits)
  with None p apply_profile_total [OF assms(1)] show ?thesis
    by (cases profile) (auto simp: dispatch_tcp_def)
next
  case (Some st)
  then have "st \<in> set sets" by (auto dest: find_SomeD split: option.splits)
  then obtain handled s' where "apply_set_to_tcp fails st tcp packet_id s = Some (handled, s')"
    using apply_set_total [OF assms(1)] assms(2) by blast
  with Some show ?thesis by (simp add: dispatch_tcp_def)
qed

lemma handle_udp_total: "\<exists>s'. handle_udp_packet sets uports packet_id payload s = Some s'"
proof (cases "UdpPacket_parse payload")
  case (Some parsed)
  show ?thesis
  proof (cases parsed)
    case (Some udp)
    then have "\<exists>x. udp_dst_port udp = Some x"
      using \<open>UdpPacket_parse payload = Some parsed\<close>
      by (auto simp: UdpPacket_parse_flat udp_dst_port_def be16_at_Some split: if_splits)
    with Some \<open>UdpPacket_parse payload = Some parsed\<close> show ?thesis by (auto simp: handle_udp_packet_def Let_def)
  qed (use Some in \<open>simp add: handle_udp_packet_def\<close>)
qed (simp add: UdpPacket_parse_flat)

text \<open>
  C22. Which packets make the interception thread panic, for a configuration that strips no TCP option
  and packets that arrive whole: only 9-byte packets with IP version 4, whose protocol byte is read
  past the end. Otherwise the message is handled, and the reassembler stays within its bounds.
\<close>

theorem engine_panics_iff:
  assumes "\<forall>st \<in> set sets. \<not> tc_drop_sack (bs_tcp st)"
    and "\<forall>p \<in> set (ec_profiles cfg). StripSack \<notin> set (pf_strategies p)"
    and "bounded (es_reassembler s)"
    and "qp_payload p = Some payload" and "length payload < 2 ^ 32"
    and "\<forall>tcp. TcpPacket_parse payload = Some (Some tcp) \<longrightarrow> tp_ip_total_len tcp = length payload"
  shows "(interception_step cfg geo tports uports fails sets clock (RecvPacket p) s = None \<longleftrightarrow>
      length payload = 9 \<and> drop_bit 4 (payload ! 0) = 4) \<and>
    (\<forall>s'. interception_step cfg geo tports uports fails sets clock (RecvPacket p) s = Some s' \<longrightarrow>
      bounded (es_reassembler s'))"
proof (cases "protocol_of payload")
  case None
  then show ?thesis using assms(4) protocol_of_None [of payload] by (simp add: interception_step_def Let_def)
next
  case (Some proto)
  let ?step = "interception_step cfg geo tports uports fails sets clock (RecvPacket p) s"
  have "\<exists>s'. ?step = Some s' \<and> bounded (es_reassembler s')"
  proof (cases "proto = 17")
    case True
    obtain s' where s': "handle_udp_packet sets uports (qp_packet_id p) payload (count_seen s) = Some s'"
      using handle_udp_total by blast
    then have "es_reassembler s' = es_reassembler s"
      using handle_udp_accepts by (fastforce simp: accepts_def engine_simps)
    with s' True Some assms(3,4) show ?thesis by (simp add: interception_step_def Let_def)
  next
    case tcp: False
    obtain parsed where parsed: "TcpPacket_parse payload = Some parsed" by (simp add: TcpPacket_parse_flat)
    show ?thesis
    proof (cases parsed)
      case None
      with tcp Some parsed assms(3,4) show ?thesis
        by (simp add: interception_step_def Let_def pass_through_def verdict_counted_def give_verdict_def engine_simps)
    next
      case pkt: (Some pkt)
      then have v: "tcp_valid pkt" "tp_raw pkt = payload"
        using parse_tcp_valid [of payload pkt] parsed assms(6) by auto
      then have wf: "tcp_wf pkt" by (simp add: tcp_valid_def)
      obtain port where port: "tcp_dst_port pkt = Some port" using tcp_wf_accessors(3) [OF wf] by blast
      obtain host r where i: "inspect_host clock pkt (es_reassembler s) = Some (host, r)" "bounded r"
        using inspect_total [OF wf _ assms(3), of clock] v(2) assms(5) by blast
      define s1 where "s1 = (if host \<noteq> None then count_tls (count_seen s\<lparr>es_reassembler := r\<rparr>)
        else count_seen s\<lparr>es_reassembler := r\<rparr>)"
      obtain s' where s': "dispatch_tcp cfg geo fails sets pkt (qp_packet_id p) host s1 = Some s'"
        using dispatch_total [OF v(1) assms(1,2)] by blast
      then have "es_reassembler s' = r"
        using dispatch_accepts [OF s'] by (simp add: accepts_def s1_def engine_simps split: if_splits)
      moreover have "handle_tcp_packet cfg geo fails sets clock pkt (qp_packet_id p) (count_seen s) = Some s'"
        using i(1) s' by (simp add: handle_tcp_packet_def Let_def engine_simps s1_def split: if_splits)
      ultimately show ?thesis
        using tcp Some parsed pkt port i(2) assms(3,4)
        by (cases "port \<in> set tports")
          (simp_all add: interception_step_def Let_def pass_through_def verdict_counted_def give_verdict_def engine_simps)
    qed
  qed
  with Some protocol_of_None [of payload] show ?thesis by auto
qed

theorem engine_panics_iff_witness:
  "interception_step \<lparr>ec_profiles = []\<rparr> store_empty [443] [443] (\<lambda>_. False) [] (0, 0, 0)
     (RecvPacket (empty_packet\<lparr>qp_payload := Some (0x45 # replicate 8 0)\<rparr>)) start_state = None"
proof -
  have "TcpPacket_parse (0x45 # replicate 8 0) = Some None" by (simp add: TcpPacket_parse_flat)
  moreover have "bounded (es_reassembler start_state)"
    by (simp add: start_state_def bounded_def TcpReassembler_new_def)
  moreover have "drop_bit 4 (0x45 :: u8) = 4" by (simp add: drop_bit_eq_div)
  ultimately show ?thesis
    using engine_panics_iff [of "[]" "\<lparr>ec_profiles = []\<rparr>" start_state
        "empty_packet\<lparr>qp_payload := Some (0x45 # replicate 8 0)\<rparr>" "0x45 # replicate 8 0"]
    by simp
qed

subsection \<open>Segments with ACK set are not reassembled\<close>

text \<open>
  The engine passes \<open>flags & 0x11 != 0\<close> as the end-of-stream indication of the reassembler. That
  mask is FIN and ACK, so every segment of an established connection counts as the last one: the
  reassembler forgets the flow, and the host is what the segment shows on its own.
\<close>

theorem acknowledged_segments_not_reassembled:
  assumes "tcp_wf tcp" and "tcp_flags tcp = Some flags" and "flags AND 0x10 \<noteq> 0"
    and "tcp_payload tcp = Some payload" and "payload \<noteq> []" and "for_packet tcp = Some key"
    and "inspect_host clock tcp r = Some (host, r')"
  shows "extract_tls_sni payload = Some host \<and> map_of (ra_flows r') key = None"
proof -
  obtain seq where seq: "tcp_seq tcp = Some seq" using tcp_wf_accessors(2) [OF assms(1)] by blast
  obtain a b c where clock: "clock = (a, b, c)" by (cases clock)
  have "flags AND 0x11 \<noteq> 0"
  proof
    assume "flags AND 0x11 = 0"
    then have "(flags AND 0x11) AND 0x10 = 0" by simp
    then have "flags AND (0x11 AND 0x10) = 0" by (simp add: and.assoc)
    with assms(3) show False by simp
  qed
  then have "feed clock key seq payload (flags AND 0x11 \<noteq> 0) r = Some (None, remove_flow key (tick a r))"
    using assms(5) by (simp add: feed_def clock Let_def)
  with assms seq have "extract_tls_sni payload = Some host" "r' = remove_flow key (tick a r)"
    by (auto simp: inspect_host_def bind_eq_Some_conv)
  then show ?thesis by (auto simp: remove_flow_def map_of_eq_None_iff)
qed

definition example_ack :: TcpPacket where
  "example_ack = example_packet\<lparr>tp_raw := take 33 example_syn @ [0x10] @ drop 34 example_syn @ [0x16, 3],
     tp_ip_total_len := 46\<rparr>"

theorem acknowledged_segments_not_reassembled_witness:
  "\<exists>host r' key. inspect_host (0, 0, 0) example_ack TcpReassembler_new = Some (host, r') \<and>
     for_packet example_ack = Some key \<and> extract_tls_sni [0x16, 3] = Some host \<and> map_of (ra_flows r') key = None"
proof -
  have wf: "tcp_wf example_ack"
    by (simp add: tcp_wf_def example_ack_def example_packet_def example_syn_def)
  have "tcp_flags example_ack = Some 0x10" "tcp_payload example_ack = Some [0x16, 3]"
    by (simp_all add: tcp_flags_def tcp_payload_def slice_from_def index_def example_ack_def example_packet_def example_syn_def)
  moreover obtain key where "for_packet example_ack = Some key" using tcp_wf_accessors(4) [OF wf] by blast
  moreover have "length (tp_raw example_ack) < 2 ^ 32"
    by (simp add: example_ack_def example_packet_def example_syn_def)
  then obtain host r' where "inspect_host (0, 0, 0) example_ack TcpReassembler_new = Some (host, r')"
    using inspect_total [OF wf, of TcpReassembler_new "(0, 0, 0)"]
    by (auto simp: bounded_def TcpReassembler_new_def)
  ultimately show ?thesis
    using acknowledged_segments_not_reassembled [OF wf, of "0x10" "[0x16, 3]" key "(0, 0, 0)" TcpReassembler_new host r']
    by simp
qed

end
