(* ===== verification/Disk.thy ===== *)
theory Disk
  imports Text
begin

text \<open>
  The error type of \<open>balansir_common::error\<close> and the file system as the installer, the state files and
  the configuration writers use it. A disk is a map from paths to contents together with the block
  devices. Every call that changes the disk is one numbered step, and a parameter decides the fate of
  each step: it completes, it fails with an I/O error, or the power is lost there; an interrupted write
  leaves any prefix of its content behind. So a theorem about all fates covers a failure and a loss of
  power at every point of a command.
\<close>

subsection \<open>Errors\<close>

datatype DriverError =
    ConfigInvalid string
  | StartFailed string
  | StopFailed string
  | BinaryNotFound string
  | InterfaceError string

datatype Error =
    E_Temporary string
  | E_Fatal string
  | E_Misconfiguration string
  | E_Unsupported string
  | E_IpcViolation string
  | E_Unauthorized u32 "u32 list"
  | E_VersionMismatch u8 u8
  | E_Io string
  | E_Serialization string
  | E_PayloadTooLarge usize usize
  | E_Driver DriverError

fun show_driver_error :: "DriverError \<Rightarrow> string" where
  "show_driver_error (ConfigInvalid s) = ''Config invalid: '' @ s"
| "show_driver_error (StartFailed s) = ''Start failed: '' @ s"
| "show_driver_error (StopFailed s) = ''Stop failed: '' @ s"
| "show_driver_error (BinaryNotFound s) = ''Binary not found: '' @ s"
| "show_driver_error (InterfaceError s) = ''Interface error: '' @ s"

text \<open>The \<open>Debug\<close> form of a vector, \<open>[1, 2]\<close>.\<close>

fun commas :: "string list \<Rightarrow> string" where
  "commas [] = []"
| "commas [x] = x"
| "commas (x # xs) = x @ '', '' @ commas xs"

fun show_error :: "Error \<Rightarrow> string" where
  "show_error (E_Temporary s) = ''Temporary failure: '' @ s"
| "show_error (E_Fatal s) = ''Fatal error: '' @ s"
| "show_error (E_Misconfiguration s) = ''Invalid configuration: '' @ s"
| "show_error (E_Unsupported s) = ''Unsupported on this hardware: '' @ s"
| "show_error (E_IpcViolation s) = ''IPC violation: '' @ s"
| "show_error (E_Unauthorized uid allowed) =
     ''Unauthorized: UID '' @ show_u uid @ '' not in allowed list ['' @ commas (map show_u allowed) @ '']''"
| "show_error (E_VersionMismatch rem loc) =
     ''IPC version mismatch: remote='' @ show_u rem @ '', local='' @ show_u loc"
| "show_error (E_Io s) = ''IO error: '' @ s"
| "show_error (E_Serialization s) = ''Serialization error: '' @ s"
| "show_error (E_PayloadTooLarge sz mx) =
     ''Payload too large: '' @ show_nat sz @ '' bytes (max '' @ show_nat mx @ '')''"
| "show_error (E_Driver e) = ''Driver error: '' @ show_driver_error e"

subsection \<open>Outcomes\<close>

type_synonym path = string

datatype fate = Completes | Fails "nat option" | PowerLoss "nat option"

record disk =
  dk_files :: "path \<Rightarrow> string option"
  dk_devs :: "path \<Rightarrow> u8 list option"
  dk_steps :: nat

text \<open>What a command comes to: the power was lost, or it returned an error or a value.\<close>

datatype ('a, 'e) outcome = PowerLost | Err 'e | Ok 'a

type_synonym ('a, 'e) io = "disk \<Rightarrow> ('a, 'e) outcome \<times> disk"

text \<open>\<open>m?\<close> followed by the rest, and \<open>map_err\<close>.\<close>

definition and_then :: "('a, 'e) io \<Rightarrow> ('a \<Rightarrow> ('b, 'e) io) \<Rightarrow> ('b, 'e) io" where
  "and_then m f d =
     (case m d of
        (PowerLost, d) \<Rightarrow> (PowerLost, d)
      | (Err e, d) \<Rightarrow> (Err e, d)
      | (Ok x, d) \<Rightarrow> f x d)"

definition io_map_err :: "('e \<Rightarrow> 'g) \<Rightarrow> ('a, 'e) io \<Rightarrow> ('a, 'g) io" where
  "io_map_err f m d =
     (case m d of
        (PowerLost, d) \<Rightarrow> (PowerLost, d)
      | (Err e, d) \<Rightarrow> (Err (f e), d)
      | (Ok x, d) \<Rightarrow> (Ok x, d))"

definition io_return :: "'a \<Rightarrow> ('a, 'e) io" where
  "io_return x d = (Ok x, d)"

definition io_fail :: "'e \<Rightarrow> ('a, 'e) io" where
  "io_fail e d = (Err e, d)"

lemma and_thenE:
  assumes "and_then m f d = (r, d')"
  obtains (fails) r' where "m d = (r', d')" and "\<And>x. r' \<noteq> Ok x" and "\<And>x. r \<noteq> Ok x"
  | (ok) x d2 where "m d = (Ok x, d2)" and "f x d2 = (r, d')"
  using assms by (cases "m d"; cases "fst (m d)") (auto simp: and_then_def)

lemma io_map_errE:
  assumes "io_map_err f m d = (r, d')"
  obtains (lost) "m d = (PowerLost, d')" and "r = PowerLost"
  | (err) e where "m d = (Err e, d')" and "r = Err (f e)"
  | (ok) x where "m d = (Ok x, d')" and "r = Ok x"
  using assms by (cases "m d"; cases "fst (m d)") (auto simp: io_map_err_def)

subsection \<open>Calls of \<open>std::fs\<close>\<close>

definition tick_disk :: "disk \<Rightarrow> disk" where
  "tick_disk d = d\<lparr>dk_steps := Suc (dk_steps d)\<rparr>"

definition put_file :: "path \<Rightarrow> string \<Rightarrow> disk \<Rightarrow> disk" where
  "put_file p c d = d\<lparr>dk_files := (dk_files d)(p \<mapsto> c)\<rparr>"

definition torn_write :: "path \<Rightarrow> string \<Rightarrow> nat option \<Rightarrow> disk \<Rightarrow> disk" where
  "torn_write p c n d = (case n of None \<Rightarrow> d | Some k \<Rightarrow> put_file p (take k c) d)"

definition fs_exists :: "path \<Rightarrow> disk \<Rightarrow> bool" where
  "fs_exists p d \<longleftrightarrow> dk_files d p \<noteq> None"

definition fs_read_to_string :: "path \<Rightarrow> (string, Error) io" where
  "fs_read_to_string p d =
     (case dk_files d p of
        None \<Rightarrow> (Err (E_Io ''No such file or directory''), d)
      | Some c \<Rightarrow> (Ok c, d))"

definition fs_write :: "(nat \<Rightarrow> fate) \<Rightarrow> path \<Rightarrow> string \<Rightarrow> (unit, Error) io" where
  "fs_write fates p c d =
     (case fates (dk_steps d) of
        Completes \<Rightarrow> (Ok (), put_file p c (tick_disk d))
      | Fails n \<Rightarrow> (Err (E_Io ''write failed''), torn_write p c n (tick_disk d))
      | PowerLoss n \<Rightarrow> (PowerLost, torn_write p c n (tick_disk d)))"

definition fs_rename :: "(nat \<Rightarrow> fate) \<Rightarrow> path \<Rightarrow> path \<Rightarrow> (unit, Error) io" where
  "fs_rename fates p q d =
     (case fates (dk_steps d) of
        Completes \<Rightarrow>
          (case dk_files d p of
             None \<Rightarrow> (Err (E_Io ''No such file or directory''), tick_disk d)
           | Some c \<Rightarrow> (Ok (), (tick_disk d)\<lparr>dk_files := (dk_files d)(p := None, q \<mapsto> c)\<rparr>))
      | Fails n \<Rightarrow> (Err (E_Io ''rename failed''), tick_disk d)
      | PowerLoss n \<Rightarrow> (PowerLost, tick_disk d))"

text \<open>\<open>create_dir_all\<close>: directories are not part of the map, so only its failures show.\<close>

definition fs_create_dir_all :: "(nat \<Rightarrow> fate) \<Rightarrow> path \<Rightarrow> (unit, Error) io" where
  "fs_create_dir_all fates p d =
     (case fates (dk_steps d) of
        Completes \<Rightarrow> (Ok (), tick_disk d)
      | Fails n \<Rightarrow> (Err (E_Io ''mkdir failed''), tick_disk d)
      | PowerLoss n \<Rightarrow> (PowerLost, tick_disk d))"

lemmas fs_defs = fs_write_def fs_rename_def fs_create_dir_all_def put_file_def torn_write_def tick_disk_def

subsection \<open>Atomic replacement\<close>

text \<open>\<open>fs::write(&tmp, content)?; fs::rename(&tmp, path)?\<close>, the idiom of every state file of the sources.\<close>

definition replace_file :: "(nat \<Rightarrow> fate) \<Rightarrow> path \<Rightarrow> path \<Rightarrow> string \<Rightarrow> (unit, Error) io" where
  "replace_file fates tmp p c = and_then (fs_write fates tmp c) (\<lambda>_. fs_rename fates tmp p)"

text \<open>Whatever the fates, the file holds the old or the new content afterwards, the new one when the
  call succeeded, and only the file and its temporary are touched.\<close>

definition replaced :: "path \<Rightarrow> path \<Rightarrow> string \<Rightarrow> disk \<Rightarrow> ('a, 'e) outcome \<Rightarrow> disk \<Rightarrow> bool" where
  "replaced tmp p c d r d' \<longleftrightarrow>
     dk_devs d' = dk_devs d \<and>
     (\<forall>q. q \<noteq> p \<longrightarrow> q \<noteq> tmp \<longrightarrow> dk_files d' q = dk_files d q) \<and>
     dk_files d' p \<in> {dk_files d p, Some c} \<and>
     (\<forall>x. r = Ok x \<longrightarrow> dk_files d' p = Some c)"

lemma replace_file_atomic:
  assumes "tmp \<noteq> p" and "replace_file fates tmp p c d = (r, d')"
  shows "replaced tmp p c d r d'"
  using assms
  by (auto simp: replace_file_def and_then_def fs_defs replaced_def
           split: fate.splits option.splits prod.splits outcome.splits if_splits)

lemma replaced_err: "replaced tmp p c d (Err e :: ('a, 'e) outcome) d' \<Longrightarrow>
    replaced tmp p c d (Err g :: ('b, 'g) outcome) d'"
  by (simp add: replaced_def)

lemma replaced_tick:
  assumes "replaced tmp p c d2 r d'" and "dk_files d2 = dk_files d" and "dk_devs d2 = dk_devs d"
  shows "replaced tmp p c d r d'"
  using assms by (simp add: replaced_def)

lemma unchanged_replaced:
  "dk_files d' = dk_files d \<Longrightarrow> dk_devs d' = dk_devs d \<Longrightarrow> (\<And>x. r \<noteq> Ok x) \<Longrightarrow> replaced tmp p c d r d'"
  by (simp add: replaced_def)

lemma replaced_id: "dk_files d p = Some c \<Longrightarrow> replaced tmp p c d r d"
  by (simp add: replaced_def)

subsection \<open>Paths\<close>

text \<open>\<open>Path::join\<close> with a relative name and \<open>Path::with_extension\<close> on a name that has an extension.\<close>

definition path_join :: "path \<Rightarrow> string \<Rightarrow> path" where
  "path_join m n = (if m = [] \<or> last m = CHR ''/'' then m @ n else m @ CHR ''/'' # n)"

definition with_extension :: "path \<Rightarrow> string \<Rightarrow> path" where
  "with_extension p e = rev (dropWhile (\<lambda>c. c \<noteq> dot) (rev p)) @ e"

lemma path_join_inject [simp]: "path_join m a = path_join m b \<longleftrightarrow> a = b"
  by (simp add: path_join_def)

lemma suffix_path_join: "suffix n (path_join m n)"
  by (auto simp: path_join_def suffix_def)

lemma path_join_neq: "\<not> suffix n x \<Longrightarrow> path_join m n \<noteq> x"
  using suffix_path_join by metis

lemma with_extension_join:
  "with_extension (path_join m (b @ dot # e)) x = path_join m (b @ dot # x)" if "dot \<notin> set e"
proof -
  have "dropWhile (\<lambda>c. c \<noteq> dot) (rev e @ dot # r) = dot # r" for r
    using that by (induction e rule: rev_induct) auto
  then show ?thesis by (auto simp: with_extension_def path_join_def)
qed

end
