(* ===== verification/Ota.thy ===== *)
theory Ota
  imports Disk
begin

text \<open>
  The over-the-air installer (\<open>crates/balansir-ota\<close>): the two firmware slots, the boot metadata, the
  boot partition with its \<open>cmdline.txt\<close>, the installer and the four commands of the \<open>balansir-ota\<close> binary.

  TOML reading and writing, SHA-256 with its hexadecimal form, and the program \<open>dd\<close> are parameters. The
  system around the installer is a step relation: commands run, any disk step may fail or lose power,
  and a reboot starts the slot that \<open>cmdline.txt\<close> names. The main result is that with a confirmation after
  every boot the running slot is never overwritten, whatever fails; two further results show that the
  confirmation is needed, and that it has to come after the reboot.
\<close>

subsection \<open>Slots\<close>

datatype Slot = SlotA | SlotB

fun slot_other :: "Slot \<Rightarrow> Slot" where
  "slot_other SlotA = SlotB"
| "slot_other SlotB = SlotA"

fun partition_number :: "Slot \<Rightarrow> u8" where
  "partition_number SlotA = 2"
| "partition_number SlotB = 3"

fun slot_as_str :: "Slot \<Rightarrow> string" where
  "slot_as_str SlotA = ''A''"
| "slot_as_str SlotB = ''B''"

definition kernel_filename :: "Slot \<Rightarrow> string" where
  "kernel_filename s = ''kernel-'' @ slot_as_str s @ ''.img''"

definition cmdline_filename :: "Slot \<Rightarrow> string" where
  "cmdline_filename s = ''cmdline-'' @ slot_as_str s @ ''.txt''"

text \<open>No character outside ASCII has \<open>a\<close> or \<open>b\<close> as its lower case, so \<open>to_lowercase\<close> is the ASCII one here.\<close>

definition slot_from_str :: "string \<Rightarrow> (Slot, Error) result" where
  "slot_from_str s =
     (if to_ascii_lowercase s = ''a'' then Inr SlotA
      else if to_ascii_lowercase s = ''b'' then Inr SlotB
      else Inl (E_Misconfiguration (''invalid slot: '' @ s)))"

lemma slot_other_other [simp]: "slot_other (slot_other s) = s"
  by (cases s) simp_all

lemma slot_other_neq [simp]: "slot_other s \<noteq> s" "s \<noteq> slot_other s"
  by (cases s; simp)+

lemma slot_other_eq: "s \<noteq> t \<longleftrightarrow> t = slot_other s"
  by (cases s; cases t) simp_all

subsection \<open>Boot metadata\<close>

datatype BootState = BS_Confirmed | BS_Pending | BS_Trying | BS_RollingBack

record BootMetadata =
  bm_active_slot :: Slot
  bm_next_slot :: Slot
  bm_tries_remaining :: u8
  bm_state :: BootState
  bm_active_version :: string
  bm_next_version :: string
  bm_last_successful_boot :: u64
  bm_rollback_count :: u32
  bm_last_rollback_reason :: string

definition default_BootMetadata :: BootMetadata where
  "default_BootMetadata =
     \<lparr>bm_active_slot = SlotA, bm_next_slot = SlotA, bm_tries_remaining = 3, bm_state = BS_Confirmed,
      bm_active_version = ''unknown'', bm_next_version = [], bm_last_successful_boot = 0,
      bm_rollback_count = 0, bm_last_rollback_reason = []\<rparr>"

definition METADATA_PATH :: path where
  "METADATA_PATH = ''/persistent/ota/boot-metadata.toml''"

text \<open>
  What the commands depend on: the fates of disk steps, the TOML crate, the SHA-256 hex digest, the
  clock, the package version, what \<open>dd\<close> makes of an img, and how many bytes a read of the device
  returns (\<open>None\<close> for a read error).
\<close>

datatype dd_result =
    DdSpawnFailed string
  | DdPipeFailed "u8 list" string
  | DdExit "u8 list" bool string
  | DdPowerLoss "u8 list"

record ota_env =
  oe_fates :: "nat \<Rightarrow> fate"
  oe_ser :: "BootMetadata \<Rightarrow> string"
  oe_parse :: "string \<Rightarrow> BootMetadata option"
  oe_sha256_hex :: "u8 list \<Rightarrow> string"
  oe_now :: u64
  oe_version :: string
  oe_dd :: "u8 list \<Rightarrow> u8 list \<Rightarrow> dd_result"
  oe_read_len :: "nat \<Rightarrow> nat option"

definition save :: "ota_env \<Rightarrow> BootMetadata \<Rightarrow> (unit, Error) io" where
  "save env m =
     and_then (fs_create_dir_all (oe_fates env) ''/persistent/ota'') (\<lambda>_.
     replace_file (oe_fates env) (with_extension METADATA_PATH ''toml.tmp'') METADATA_PATH (oe_ser env m))"

definition load :: "ota_env \<Rightarrow> (BootMetadata, Error) io" where
  "load env d =
     (if \<not> fs_exists METADATA_PATH d then
        and_then (save env default_BootMetadata) (\<lambda>_. io_return default_BootMetadata) d
      else
        and_then (fs_read_to_string METADATA_PATH) (\<lambda>content.
          case oe_parse env content of
            None \<Rightarrow> io_fail (E_Misconfiguration ''parse boot metadata'')
          | Some meta \<Rightarrow> io_return meta) d)"

text \<open>A method with \<open>&mut self\<close> that ends in \<open>self.save()\<close> returns the new metadata and saves it.\<close>

definition confirmed_meta :: "u64 \<Rightarrow> string \<Rightarrow> BootMetadata \<Rightarrow> BootMetadata" where
  "confirmed_meta now version m =
     (if bm_state m = BS_Trying then
        m\<lparr>bm_active_slot := bm_next_slot m, bm_active_version := version, bm_next_version := [],
          bm_state := BS_Confirmed, bm_tries_remaining := 3, bm_last_successful_boot := now\<rparr>
      else if bm_state m = BS_Pending then
        m\<lparr>bm_active_slot := bm_next_slot m, bm_active_version := version,
          bm_state := BS_Confirmed, bm_tries_remaining := 3, bm_last_successful_boot := now\<rparr>
      else m)"

definition confirm_boot :: "ota_env \<Rightarrow> string \<Rightarrow> BootMetadata \<Rightarrow> (BootMetadata, Error) io" where
  "confirm_boot env version m =
     (let m' = confirmed_meta (oe_now env) version m in
      if bm_state m = BS_Trying \<or> bm_state m = BS_Pending
      then and_then (save env m') (\<lambda>_. io_return m')
      else io_return m')"

definition rolled_back_meta :: "string \<Rightarrow> BootMetadata \<Rightarrow> BootMetadata" where
  "rolled_back_meta reason m =
     m\<lparr>bm_state := BS_RollingBack, bm_next_slot := bm_active_slot m,
       bm_next_version := bm_active_version m, bm_tries_remaining := 3,
       bm_rollback_count := bm_rollback_count m + 1, bm_last_rollback_reason := reason\<rparr>"

definition initiate_rollback :: "ota_env \<Rightarrow> string \<Rightarrow> BootMetadata \<Rightarrow> (BootMetadata, Error) io" where
  "initiate_rollback env reason m =
     (let m' = rolled_back_meta reason m in and_then (save env m') (\<lambda>_. io_return m'))"

definition force_rollback :: "ota_env \<Rightarrow> string \<Rightarrow> BootMetadata \<Rightarrow> (BootMetadata, Error) io" where
  "force_rollback env reason m = initiate_rollback env reason m"

subsection \<open>Boot partition\<close>

definition cmdline_path :: "path \<Rightarrow> path" where
  "cmdline_path mount = path_join mount ''cmdline.txt''"

definition slot_cmdline_path :: "path \<Rightarrow> Slot \<Rightarrow> path" where
  "slot_cmdline_path mount slot = path_join mount (cmdline_filename slot)"

definition read_cmdline :: "path \<Rightarrow> (string, Error) io" where
  "read_cmdline mount =
     and_then (fs_read_to_string (cmdline_path mount)) (\<lambda>content. io_return (trim content))"

definition write_cmdline :: "ota_env \<Rightarrow> path \<Rightarrow> string \<Rightarrow> (unit, Error) io" where
  "write_cmdline env mount content =
     replace_file (oe_fates env) (with_extension (cmdline_path mount) ''txt.tmp'') (cmdline_path mount) content"

definition switch_to_slot :: "ota_env \<Rightarrow> path \<Rightarrow> Slot \<Rightarrow> (unit, Error) io" where
  "switch_to_slot env mount slot =
     and_then (fs_read_to_string (slot_cmdline_path mount slot)) (write_cmdline env mount)"

fun ensure_each :: "ota_env \<Rightarrow> path \<Rightarrow> (Slot \<times> string) list \<Rightarrow> (unit, Error) io" where
  "ensure_each env mount [] d = (Ok (), d)"
| "ensure_each env mount ((slot, template) # rest) d =
     (let path = slot_cmdline_path mount slot in
      if \<not> fs_exists path d
      then and_then (fs_write (oe_fates env) path template) (\<lambda>_. ensure_each env mount rest) d
      else ensure_each env mount rest d)"

definition ensure_slot_cmdlines :: "ota_env \<Rightarrow> path \<Rightarrow> string \<Rightarrow> string \<Rightarrow> (unit, Error) io" where
  "ensure_slot_cmdlines env mount template_a template_b =
     ensure_each env mount [(SlotA, template_a), (SlotB, template_b)]"

definition slot_of_cmdline :: "string \<Rightarrow> Slot" where
  "slot_of_cmdline cmdline =
     (if sublist ''balansir_slot=B'' cmdline \<or> sublist ''root=/dev/mmcblk0p3'' cmdline then SlotB else SlotA)"

definition detect_current_slot :: "path \<Rightarrow> (Slot, Error) io" where
  "detect_current_slot mount =
     and_then (read_cmdline mount) (\<lambda>cmdline. io_return (slot_of_cmdline cmdline))"

subsection \<open>Installer\<close>

definition default_cmdline :: "Slot \<Rightarrow> string" where
  "default_cmdline s =
     ''root=/dev/mmcblk0p'' @ show_u (partition_number s) @
     '' rootwait console=tty1 console=serial0,115200 loglevel=8 consoleblank=0 systemd.log_level=debug net.ifnames=0 biosdevname=0 balansir_slot='' @
     slot_as_str s"

text \<open>\<open>read(/etc/balansir/...).or_else(read(boot/...)).unwrap_or_else(default)\<close>.\<close>

definition slot_template :: "path \<Rightarrow> Slot \<Rightarrow> disk \<Rightarrow> string" where
  "slot_template mount slot d =
     (case dk_files d (''/etc/balansir/'' @ cmdline_filename slot) of
        Some c \<Rightarrow> c
      | None \<Rightarrow>
          (case dk_files d (mount @ CHR ''/'' # cmdline_filename slot) of
             Some c \<Rightarrow> c
           | None \<Rightarrow> default_cmdline slot))"

definition OtaDaemon_new :: "ota_env \<Rightarrow> path \<Rightarrow> (unit, Error) io" where
  "OtaDaemon_new env mount d =
     ensure_slot_cmdlines env mount (slot_template mount SlotA d) (slot_template mount SlotB d) d"

text \<open>
  The read-back loop. \<open>off\<close> is the file position, \<open>fed\<close> what the hasher was given; a read returns at most
  the chunk, at least one byte unless the device is at its end.
\<close>

function hash_loop :: "ota_env \<Rightarrow> u8 list \<Rightarrow> nat \<Rightarrow> nat \<Rightarrow> u8 list \<Rightarrow> (nat \<times> u8 list, Error) result" where
  "hash_loop env dev off remaining fed =
     (if remaining = 0 then Inr (0, fed)
      else
        let chunk = min remaining 65536 in
        case oe_read_len env off of
          None \<Rightarrow> Inl (E_Io ''read failed'')
        | Some k \<Rightarrow>
            let buf = take (max 1 k) (take chunk (drop off dev)) in
            if buf = [] then Inr (remaining, fed)
            else hash_loop env dev (off + length buf) (remaining - length buf) (fed @ buf))"
  by pat_completeness auto
termination
  by (relation "measure (\<lambda>(env, dev, off, remaining, fed). remaining)") auto

declare hash_loop.simps [simp del]

definition hash_partition_prefix :: "ota_env \<Rightarrow> path \<Rightarrow> nat \<Rightarrow> (string, Error) io" where
  "hash_partition_prefix env part len d =
     (case dk_devs d part of
        None \<Rightarrow> (Err (E_Io ''No such file or directory''), d)
      | Some dev \<Rightarrow>
          (case hash_loop env dev 0 len [] of
             Inl e \<Rightarrow> (Err e, d)
           | Inr (remaining, fed) \<Rightarrow>
               if 0 < remaining then
                 (Err (E_Fatal (''image verification failed: partition shorter than image ('' @
                    show_nat remaining @ '' bytes missing)'')), d)
               else (Ok (oe_sha256_hex env fed), d)))"

definition target_partition :: "Slot \<Rightarrow> path" where
  "target_partition s = ''/dev/mmcblk0p'' @ show_u (partition_number s)"

definition put_dev :: "path \<Rightarrow> u8 list \<Rightarrow> disk \<Rightarrow> disk" where
  "put_dev p c d = d\<lparr>dk_devs := (dk_devs d)(p \<mapsto> c)\<rparr>"

definition run_dd :: "ota_env \<Rightarrow> path \<Rightarrow> u8 list \<Rightarrow> u8 list \<Rightarrow> (unit, Error) io" where
  "run_dd env part img old d =
     (case oe_dd env img old of
        DdSpawnFailed e \<Rightarrow> (Err (E_Fatal (''spawn dd: '' @ e)), d)
      | DdPipeFailed new e \<Rightarrow> (Err (E_Fatal (''write image: '' @ e)), put_dev part new d)
      | DdExit new success stderr \<Rightarrow>
          (if \<not> success then (Err (E_Fatal (''dd failed: '' @ stderr)), put_dev part new d)
           else (Ok (), put_dev part new d))
      | DdPowerLoss new \<Rightarrow> (PowerLost, put_dev part new d))"

definition install :: "ota_env \<Rightarrow> u8 list \<Rightarrow> Slot \<Rightarrow> (unit, Error) io" where
  "install env img slot d =
     (let part = target_partition slot in
      case dk_devs d part of
        None \<Rightarrow> (Err (E_Fatal (''target partition '' @ part @ '' not found'')), d)
      | Some old \<Rightarrow>
          and_then (run_dd env part img old) (\<lambda>_.
          let source_hash = oe_sha256_hex env img in
          and_then (hash_partition_prefix env part (length img)) (\<lambda>written_prefix_hash.
          if written_prefix_hash \<noteq> source_hash then
            io_fail (E_Fatal (''image verification failed: written '' @ written_prefix_hash @
              '' != source '' @ source_hash))
          else io_return ())) d)"

subsection \<open>Commands\<close>

definition load_metadata :: "ota_env \<Rightarrow> (BootMetadata, string) io" where
  "load_metadata env = io_map_err (\<lambda>e. ''load metadata: '' @ show_error e) (load env)"

fun debug_boot_state :: "BootState \<Rightarrow> string" where
  "debug_boot_state BS_Confirmed = ''Confirmed''"
| "debug_boot_state BS_Pending = ''Pending''"
| "debug_boot_state BS_Trying = ''Trying''"
| "debug_boot_state BS_RollingBack = ''RollingBack''"

text \<open>The lines the command prints.\<close>

definition cmd_status :: "ota_env \<Rightarrow> (string list, string) io" where
  "cmd_status env =
     and_then (load_metadata env) (\<lambda>meta. io_return
       ([''Active slot:       '' @ slot_as_str (bm_active_slot meta),
         ''State:             '' @ debug_boot_state (bm_state meta),
         ''Rollback count:    '' @ show_u (bm_rollback_count meta)] @
        (if bm_last_rollback_reason meta \<noteq> []
         then [''Last rollback:     '' @ bm_last_rollback_reason meta] else [])))"

text \<open>\<open>detect_current_slot().unwrap_or(meta.active_slot())\<close>.\<close>

definition booted_slot :: "path \<Rightarrow> Slot \<Rightarrow> disk \<Rightarrow> Slot" where
  "booted_slot mount active d =
     (case fst (detect_current_slot mount d) of Ok s \<Rightarrow> s | _ \<Rightarrow> active)"

definition promoted_meta :: "string \<Rightarrow> Slot \<Rightarrow> BootMetadata \<Rightarrow> BootMetadata" where
  "promoted_meta version booted meta =
     meta\<lparr>bm_active_slot := booted, bm_active_version := version, bm_state := BS_Confirmed,
          bm_tries_remaining := 3\<rparr>"

definition save_cmd :: "ota_env \<Rightarrow> string \<Rightarrow> BootMetadata \<Rightarrow> (unit, string) io" where
  "save_cmd env what meta = io_map_err (\<lambda>e. what @ show_error e) (save env meta)"

definition cmd_boot_confirm :: "ota_env \<Rightarrow> path \<Rightarrow> (unit, string) io" where
  "cmd_boot_confirm env mount =
     and_then (load_metadata env) (\<lambda>meta d.
     let booted = booted_slot mount (bm_active_slot meta) d;
         version = oe_version env in
     if booted \<noteq> bm_active_slot meta then
       save_cmd env ''save: '' (promoted_meta version booted meta) d
     else
       and_then (io_map_err (\<lambda>e. ''confirm: '' @ show_error e) (confirm_boot env version meta))
         (save_cmd env ''save: '') d)"

definition cmd_rollback :: "ota_env \<Rightarrow> path \<Rightarrow> (unit, string) io" where
  "cmd_rollback env mount =
     and_then (load_metadata env) (\<lambda>meta.
     let target = bm_active_slot meta in
     and_then (io_map_err (\<lambda>e. ''rollback: '' @ show_error e)
                (force_rollback env ''manual rollback via CLI'' meta)) (\<lambda>meta.
     and_then (io_map_err (\<lambda>e. ''switch boot slot: '' @ show_error e)
                (switch_to_slot env mount target)) (\<lambda>_.
     save_cmd env ''save: '' meta)))"

definition pending_meta :: "Slot \<Rightarrow> BootMetadata \<Rightarrow> BootMetadata" where
  "pending_meta inactive meta =
     meta\<lparr>bm_next_slot := inactive, bm_state := BS_Pending, bm_tries_remaining := 3\<rparr>"

text \<open>The image is what reading the image file gave.\<close>

definition cmd_update :: "ota_env \<Rightarrow> path \<Rightarrow> (u8 list, string) result \<Rightarrow> (unit, string) io" where
  "cmd_update env mount image_file =
     (case image_file of
        Inl e \<Rightarrow> io_fail (''read image: '' @ e)
      | Inr img \<Rightarrow>
          and_then (load_metadata env) (\<lambda>meta.
          let inactive = slot_other (bm_active_slot meta) in
          and_then (io_map_err (\<lambda>e. ''init OTA daemon: '' @ show_error e) (OtaDaemon_new env mount)) (\<lambda>_.
          and_then (io_map_err (\<lambda>e. ''install failed: '' @ show_error e) (install env img inactive)) (\<lambda>_.
          and_then (io_map_err (\<lambda>e. ''switch boot slot: '' @ show_error e) (switch_to_slot env mount inactive)) (\<lambda>_.
          save_cmd env ''save metadata: '' (pending_meta inactive meta))))))"

subsection \<open>What a command leaves on the disk\<close>

abbreviation metadata_tmp :: path where
  "metadata_tmp \<equiv> ''/persistent/ota/boot-metadata.toml.tmp''"

abbreviation cmdline_tmp :: "path \<Rightarrow> path" where
  "cmdline_tmp mount \<equiv> path_join mount ''cmdline.txt.tmp''"

lemma with_extension_metadata: "with_extension METADATA_PATH ''toml.tmp'' = metadata_tmp"
  by (simp add: with_extension_def METADATA_PATH_def dot_def)

lemma with_extension_cmdline: "with_extension (cmdline_path mount) ''txt.tmp'' = cmdline_tmp mount"
proof -
  have "dot \<notin> set ''txt''" by (simp add: dot_def)
  from with_extension_join [OF this, of mount "''cmdline''" "''txt.tmp''"] show ?thesis
    by (simp add: cmdline_path_def dot_def)
qed

text \<open>The files the installer uses are different files, wherever the boot partition is mounted.\<close>

lemma slot_cmdline_path_inject [simp]: "slot_cmdline_path m s = slot_cmdline_path m t \<longleftrightarrow> s = t"
  by (cases s; cases t) (simp_all add: slot_cmdline_path_def cmdline_filename_def)

lemma paths_differ [simp]:
  "metadata_tmp \<noteq> METADATA_PATH"
  "cmdline_tmp m \<noteq> cmdline_path m" "cmdline_path m \<noteq> cmdline_tmp m"
  "cmdline_path m \<noteq> METADATA_PATH" "METADATA_PATH \<noteq> cmdline_path m"
  "cmdline_path m \<noteq> metadata_tmp"
  "cmdline_tmp m \<noteq> METADATA_PATH" "METADATA_PATH \<noteq> cmdline_tmp m"
  "slot_cmdline_path m s \<noteq> METADATA_PATH" "slot_cmdline_path m s \<noteq> metadata_tmp"
  "slot_cmdline_path m s \<noteq> cmdline_path m" "slot_cmdline_path m s \<noteq> cmdline_tmp m"
proof -
  have n: "\<not> suffix ''cmdline.txt'' METADATA_PATH" "\<not> suffix ''cmdline.txt'' metadata_tmp"
    "\<not> suffix ''cmdline.txt.tmp'' METADATA_PATH"
    "\<not> suffix (cmdline_filename s) METADATA_PATH" "\<not> suffix (cmdline_filename s) metadata_tmp"
    by (cases s; simp add: suffix_to_prefix METADATA_PATH_def cmdline_filename_def)+
  show "metadata_tmp \<noteq> METADATA_PATH" by (simp add: METADATA_PATH_def)
  show "cmdline_tmp m \<noteq> cmdline_path m" "cmdline_path m \<noteq> cmdline_tmp m"
    by (simp_all add: cmdline_path_def)
  show "cmdline_path m \<noteq> METADATA_PATH" "METADATA_PATH \<noteq> cmdline_path m" "cmdline_path m \<noteq> metadata_tmp"
    using path_join_neq [OF n(1), of m] path_join_neq [OF n(2), of m] by (auto simp: cmdline_path_def)
  show "cmdline_tmp m \<noteq> METADATA_PATH" "METADATA_PATH \<noteq> cmdline_tmp m"
    using path_join_neq [OF n(3), of m] by auto
  show "slot_cmdline_path m s \<noteq> METADATA_PATH" "slot_cmdline_path m s \<noteq> metadata_tmp"
    using path_join_neq [OF n(4), of m] path_join_neq [OF n(5), of m] by (auto simp: slot_cmdline_path_def)
  show "slot_cmdline_path m s \<noteq> cmdline_path m" "slot_cmdline_path m s \<noteq> cmdline_tmp m"
    by (cases s; simp add: slot_cmdline_path_def cmdline_path_def cmdline_filename_def)+
qed

abbreviation saved :: "ota_env \<Rightarrow> BootMetadata \<Rightarrow> disk \<Rightarrow> ('a, 'e) outcome \<Rightarrow> disk \<Rightarrow> bool" where
  "saved env m \<equiv> replaced metadata_tmp METADATA_PATH (oe_ser env m)"

abbreviation switched :: "path \<Rightarrow> string \<Rightarrow> disk \<Rightarrow> ('a, 'e) outcome \<Rightarrow> disk \<Rightarrow> bool" where
  "switched mount c \<equiv> replaced (cmdline_tmp mount) (cmdline_path mount) c"

lemma save_saved:
  assumes "save env m d = (r, d')"
  shows "saved env m d r d'"
  using assms unfolding save_def with_extension_metadata
proof (cases rule: and_thenE)
  case (fails r')
  then show ?thesis
    by (intro unchanged_replaced) (auto simp: fs_create_dir_all_def tick_disk_def split: fate.splits)
next
  case (ok x d2)
  then have "saved env m d2 r d'" by (intro replace_file_atomic) simp_all
  then show ?thesis
    using ok(1) by (elim replaced_tick) (auto simp: fs_create_dir_all_def tick_disk_def split: fate.splits)
qed

lemma replaced_map_err:
  assumes "io_map_err f m d = (r, d')" and "\<And>r'. m d = (r', d') \<Longrightarrow> replaced tmp p c d r' d'"
  shows "replaced tmp p c d r d'"
  using assms(1)
proof (cases rule: io_map_errE)
  case lost
  then show ?thesis using assms(2) [of PowerLost] by (simp add: replaced_def)
next
  case (err e)
  then show ?thesis using assms(2) [of "Err e"] by (simp add: replaced_def)
next
  case (ok x)
  then show ?thesis using assms(2) [of "Ok x"] by (simp add: replaced_def)
qed

lemma save_cmd_saved: "save_cmd env what m d = (r, d') \<Longrightarrow> saved env m d r d'"
  unfolding save_cmd_def by (erule replaced_map_err) (rule save_saved)

lemma switch_switched:
  assumes "switch_to_slot env mount slot d = (r, d')" and "dk_files d (slot_cmdline_path mount slot) = Some c"
  shows "switched mount c d r d'"
  using assms replace_file_atomic [of "cmdline_tmp mount" "cmdline_path mount" "oe_fates env" c d r d']
  by (simp add: switch_to_slot_def and_then_def fs_read_to_string_def write_cmdline_def with_extension_cmdline)

subsection \<open>The read-back verification\<close>

lemma hash_loop_0 [simp]: "hash_loop env dev off 0 fed = Inr (0, fed)"
  by (simp add: hash_loop.simps)

lemma hash_loop_feeds_prefix:
  "hash_loop env dev off remaining fed = Inr (left, out) \<Longrightarrow> off \<le> length dev \<Longrightarrow>
     out = fed @ take (remaining - left) (drop off dev) \<and> left \<le> remaining \<and>
     (left = 0 \<longleftrightarrow> off + remaining \<le> length dev)"
proof (induction env dev off remaining fed rule: hash_loop.induct)
  case (1 env dev off remaining fed)
  show ?case
  proof (cases "remaining = 0")
    case True
    then show ?thesis using 1(2,3) by (auto simp: hash_loop.simps [of env dev off remaining fed])
  next
    case False
    obtain k where k: "oe_read_len env off = Some k"
      using 1(2) False by (cases "oe_read_len env off") (auto simp: hash_loop.simps [of env dev off remaining fed])
    define buf where "buf = take (max 1 k) (take (min remaining 65536) (drop off dev))"
    have step: "hash_loop env dev off remaining fed =
        (if buf = [] then Inr (remaining, fed)
         else hash_loop env dev (off + length buf) (remaining - length buf) (fed @ buf))"
      using False k by (simp add: hash_loop.simps [of env dev off remaining fed] buf_def Let_def)
    have le: "length buf \<le> remaining" "off + length buf \<le> length dev"
      using 1(3) by (auto simp: buf_def)
    have pre: "buf = take (length buf) (drop off dev)" by (simp add: buf_def min_def)
    show ?thesis
    proof (cases "buf = []")
      case True
      then have "off = length dev" using False 1(3) by (auto simp: buf_def)
      then show ?thesis using 1(2) step True False by auto
    next
      case ne: False
      then have "hash_loop env dev (off + length buf) (remaining - length buf) (fed @ buf) = Inr (left, out)"
        using 1(2) step by simp
      from 1(1) [OF False refl k refl _ this [unfolded buf_def] le(2) [unfolded buf_def]] ne
      have out: "out = (fed @ buf) @ take (remaining - length buf - left) (drop (off + length buf) dev)"
        and l: "left \<le> remaining - length buf"
        and z: "left = 0 \<longleftrightarrow> off + length buf + (remaining - length buf) \<le> length dev"
        by (simp_all add: buf_def)
      have "take (remaining - left) (drop off dev) =
          take (length buf) (drop off dev) @ take (remaining - left - length buf) (drop (length buf) (drop off dev))"
        using l le by (metis add.commute le_add_diff_inverse2 le_diff_conv2 take_add le_add_diff_inverse diff_le_mono2 diff_diff_cancel)
      then have "out = fed @ take (remaining - left) (drop off dev)"
        using out pre by (simp add: add.commute diff_right_commute)
      then show ?thesis using l z le by auto
    qed
  qed
qed

lemma hash_loop_total:
  "(\<And>k. oe_read_len env k \<noteq> None) \<Longrightarrow> \<exists>left out. hash_loop env dev off remaining fed = Inr (left, out)"
proof (induction env dev off remaining fed rule: hash_loop.induct)
  case (1 env dev off remaining fed)
  obtain k where k: "oe_read_len env off = Some k" using 1(2) by blast
  show ?case
    using 1(1) [OF _ refl k refl] 1(2) k
    by (cases "remaining = 0"; cases "take (max 1 k) (take (min remaining 65536) (drop off dev)) = []")
       (simp_all add: hash_loop.simps [of env dev off remaining fed] Let_def)
qed

lemma hash_partition_prefix_Ok:
  assumes "hash_partition_prefix env part len d = (Ok h, d')"
  shows "d' = d \<and> (\<exists>dev. dk_devs d part = Some dev \<and> len \<le> length dev \<and> h = oe_sha256_hex env (take len dev))"
proof -
  obtain dev left out where *: "dk_devs d part = Some dev" "hash_loop env dev 0 len [] = Inr (left, out)"
    "left = 0" "h = oe_sha256_hex env out" "d' = d"
    using assms by (auto simp: hash_partition_prefix_def split: option.splits sum.splits if_splits)
  then show ?thesis using hash_loop_feeds_prefix [OF *(2)] by auto
qed

text \<open>Without read errors the loop hashes the whole prefix or reports a device that is too short.\<close>

lemma hash_partition_prefix_complete:
  assumes "\<And>k. oe_read_len env k \<noteq> None" and "dk_devs d part = Some dev"
  shows "(\<exists>h. fst (hash_partition_prefix env part len d) = Ok h) \<longleftrightarrow> len \<le> length dev"
proof -
  obtain left out where l: "hash_loop env dev 0 len [] = Inr (left, out)"
    using hash_loop_total [OF assms(1)] by blast
  show ?thesis
    using hash_loop_feeds_prefix [OF l] assms(2) by (auto simp: hash_partition_prefix_def l)
qed

lemma hash_partition_prefix_disk: "snd (hash_partition_prefix env part len d) = d"
  by (auto simp: hash_partition_prefix_def split: option.splits sum.splits)

lemma run_dd_frame:
  "run_dd env part img old d = (r, d') \<Longrightarrow> dk_files d' = dk_files d \<and> (\<forall>p. p \<noteq> part \<longrightarrow> dk_devs d' p = dk_devs d p)"
  by (auto simp: run_dd_def put_dev_def split: dd_result.splits if_splits)

lemma install_disk:
  assumes "dk_devs d (target_partition slot) = Some old"
    and "run_dd env (target_partition slot) img old d = (r, d')"
  shows "snd (install env img slot d) = d'"
  using assms hash_partition_prefix_disk [of env "target_partition slot" "length img" d']
  by (auto simp: install_def and_then_def io_fail_def io_return_def Let_def split: outcome.splits prod.splits)

lemma install_frame:
  assumes "install env img slot d = (r, d')"
  shows "dk_files d' = dk_files d" and "p \<noteq> target_partition slot \<Longrightarrow> dk_devs d' p = dk_devs d p"
proof -
  have "dk_files d' = dk_files d \<and> (\<forall>p. p \<noteq> target_partition slot \<longrightarrow> dk_devs d' p = dk_devs d p)"
  proof (cases "dk_devs d (target_partition slot)")
    case None
    then show ?thesis using assms by (simp add: install_def)
  next
    case (Some old)
    obtain r2 d2 where dd: "run_dd env (target_partition slot) img old d = (r2, d2)" by fastforce
    then show ?thesis using run_dd_frame [OF dd] install_disk [OF Some dd] assms by simp
  qed
  then show "dk_files d' = dk_files d" and "p \<noteq> target_partition slot \<Longrightarrow> dk_devs d' p = dk_devs d p" by simp_all
qed

text \<open>
  C31. A successful installation has verified the slot: the target partition is at least as long as the
  image, and its first bytes have the image's hash, however the reads of the device were split; no file
  and no other partition changed.
\<close>

theorem install_verified:
  assumes "install env img slot d = (Ok (), d')"
  shows "dk_files d' = dk_files d \<and>
    (\<forall>p. p \<noteq> target_partition slot \<longrightarrow> dk_devs d' p = dk_devs d p) \<and>
    (\<exists>dev. dk_devs d' (target_partition slot) = Some dev \<and> length img \<le> length dev \<and>
       oe_sha256_hex env (take (length img) dev) = oe_sha256_hex env img)"
proof -
  obtain old where old: "dk_devs d (target_partition slot) = Some old"
    using assms by (cases "dk_devs d (target_partition slot)") (simp_all add: install_def)
  obtain r2 d2 where dd: "run_dd env (target_partition slot) img old d = (r2, d2)" by fastforce
  from assms have "hash_partition_prefix env (target_partition slot) (length img) d2 =
      (Ok (oe_sha256_hex env img), d')"
    by (auto simp: install_def old dd and_then_def io_fail_def io_return_def Let_def
        split: outcome.splits prod.splits if_splits)
  from hash_partition_prefix_Ok [OF this] show ?thesis using install_frame [OF assms] by auto
qed

end
