(* ===== verification/OtaSystem.thy ===== *)
theory OtaSystem
  imports Ota
begin

text \<open>
  The installer inside the machine it updates: commands of \<open>balansir-ota\<close> run in any order the protocol
  of the binary allows, every disk step may fail or lose power, and a reboot starts the slot that
  \<open>cmdline.txt\<close> names.
\<close>

subsection \<open>The state a command starts from\<close>

text \<open>Reading back what was written gives the value (the documented behaviour of the TOML crate on a
  type that derives both directions).\<close>

definition toml_roundtrip :: "ota_env \<Rightarrow> bool" where
  "toml_roundtrip env \<longleftrightarrow> (\<forall>m. oe_parse env (oe_ser env m) = Some m)"

text \<open>
  \<open>slots_named boots cl\<close>: \<open>cl s\<close> is the content of the command line file of slot \<open>s\<close>; the firmware, given
  that line, boots slot \<open>s\<close>, and the line carries the marks the installer looks for.
\<close>

definition slots_named :: "(string \<Rightarrow> Slot) \<Rightarrow> (Slot \<Rightarrow> string) \<Rightarrow> bool" where
  "slots_named boots cl \<longleftrightarrow> (\<forall>s. boots (cl s) = s \<and> slot_of_cmdline (trim (cl s)) = s)"

text \<open>
  The disk holds both slot files, \<open>cmdline.txt\<close> is the one of slot \<open>s\<close>, and the metadata file holds \<open>m\<close> or
  does not exist yet, when \<open>m\<close> is the default; \<open>w\<close> says that it exists.
\<close>

definition boot_disk :: "ota_env \<Rightarrow> path \<Rightarrow> (Slot \<Rightarrow> string) \<Rightarrow> bool \<Rightarrow> disk \<Rightarrow> Slot \<Rightarrow> BootMetadata \<Rightarrow> bool" where
  "boot_disk env mount cl w d s m \<longleftrightarrow>
     (\<forall>t. dk_files d (slot_cmdline_path mount t) = Some (cl t)) \<and>
     dk_files d (cmdline_path mount) = Some (cl s) \<and>
     (dk_files d METADATA_PATH = Some (oe_ser env m) \<or>
      \<not> w \<and> dk_files d METADATA_PATH = None \<and> m = default_BootMetadata)"

lemma boot_disk_weaken: "boot_disk env mount cl True d s m \<Longrightarrow> boot_disk env mount cl w d s m"
  by (simp add: boot_disk_def)

lemma boot_disk_saved:
  assumes "boot_disk env mount cl w d s m" and "saved env m' d r d'"
  obtains m2 where "m2 = m \<or> m2 = m'" and "boot_disk env mount cl w d' s m2"
    and "\<And>x. r = Ok x \<Longrightarrow> m2 = m' \<and> boot_disk env mount cl True d' s m2"
    and "dk_devs d' = dk_devs d"
proof -
  have f: "dk_files d' (slot_cmdline_path mount t) = dk_files d (slot_cmdline_path mount t)"
    "dk_files d' (cmdline_path mount) = dk_files d (cmdline_path mount)" for t
    using assms(2) by (simp_all add: replaced_def)
  show thesis
  proof (cases "dk_files d' METADATA_PATH = Some (oe_ser env m')")
    case True
    then show thesis using that [of m'] assms f by (auto simp: boot_disk_def replaced_def)
  next
    case False
    then show thesis using that [of m] assms f by (auto simp: boot_disk_def replaced_def)
  qed
qed

lemma boot_disk_switched:
  assumes "boot_disk env mount cl w d s m" and "io_map_err f (switch_to_slot e mount t) d = (r, d')"
  obtains s2 where "s2 = s \<or> s2 = t" and "boot_disk env mount cl w d' s2 m"
    and "\<And>x. r = Ok x \<Longrightarrow> s2 = t" and "dk_devs d' = dk_devs d"
proof -
  have sw: "switched mount (cl t) d r d'"
    by (rule replaced_map_err [OF assms(2) switch_switched]) (use assms(1) in \<open>auto simp: boot_disk_def\<close>)
  then have f: "dk_files d' (slot_cmdline_path mount u) = dk_files d (slot_cmdline_path mount u)"
    "dk_files d' METADATA_PATH = dk_files d METADATA_PATH" for u
    by (simp_all add: replaced_def)
  show thesis
  proof (cases "dk_files d' (cmdline_path mount) = Some (cl t)")
    case True
    then show thesis using that [of t] assms(1) f sw by (auto simp: boot_disk_def replaced_def)
  next
    case False
    then show thesis using that [of s] assms(1) f sw by (auto simp: boot_disk_def replaced_def)
  qed
qed

lemma boot_disk_load:
  assumes "toml_roundtrip env" and "boot_disk env mount cl w d s m" and "load_metadata env d = (r, d')"
  shows "boot_disk env mount cl w d' s m \<and> dk_devs d' = dk_devs d \<and>
    (\<forall>x. r = Ok x \<longrightarrow> x = m \<and> boot_disk env mount cl True d' s m)"
proof (cases "dk_files d METADATA_PATH")
  case None
  then have m: "m = default_BootMetadata" using assms(2) by (simp add: boot_disk_def)
  obtain r2 d2 where sv: "save env default_BootMetadata d = (r2, d2)" by fastforce
  have "d' = d2" "\<And>x. r = Ok x \<Longrightarrow> x = m \<and> (\<exists>y. r2 = Ok y)"
    using assms(3) None sv m
    by (auto simp: load_metadata_def io_map_err_def load_def fs_exists_def and_then_def io_return_def
        split: outcome.splits)
  with boot_disk_saved [OF assms(2) save_saved [OF sv]] m show ?thesis by (metis (full_types))
next
  case (Some c)
  then have c: "c = oe_ser env m" using assms(2) by (simp add: boot_disk_def)
  then have "r = Ok m \<and> d' = d"
    using assms(1,3) Some
    by (simp add: load_metadata_def io_map_err_def load_def fs_exists_def and_then_def io_return_def
        fs_read_to_string_def toml_roundtrip_def)
  then show ?thesis using assms(2) Some c by (auto simp: boot_disk_def)
qed

lemma booted_slot_selected:
  "slots_named boots cl \<Longrightarrow> boot_disk env mount cl w d s m \<Longrightarrow> booted_slot mount a d = s"
  by (simp add: booted_slot_def detect_current_slot_def read_cmdline_def and_then_def io_return_def
      fs_read_to_string_def boot_disk_def slots_named_def)

subsection \<open>What each command keeps\<close>

text \<open>The metadata agrees with \<open>cmdline.txt\<close>: a pending slot is the inactive one and is selected.\<close>

definition meta_ok :: "Slot \<Rightarrow> BootMetadata \<Rightarrow> bool" where
  "meta_ok s m \<longleftrightarrow> bm_state m \<noteq> BS_Trying \<and>
     (bm_state m = BS_Pending \<longrightarrow> bm_next_slot m = s \<and> s = slot_other (bm_active_slot m))"

lemma meta_ok_simps [simp]:
  "meta_ok s default_BootMetadata"
  "meta_ok s (promoted_meta v b m)"
  "meta_ok s (rolled_back_meta reason m)"
  "bm_active_slot (promoted_meta v b m) = b"
  "bm_active_slot (rolled_back_meta reason m) = bm_active_slot m"
  "bm_active_slot (pending_meta t m) = bm_active_slot m"
  "bm_state (pending_meta t m) = BS_Pending"
  "meta_ok s (pending_meta t m) \<longleftrightarrow> s = t \<and> s = slot_other (bm_active_slot m)"
  by (auto simp: meta_ok_def default_BootMetadata_def promoted_meta_def rolled_back_meta_def pending_meta_def)

lemma cmd_boot_confirm_keeps:
  assumes "toml_roundtrip env" and "slots_named boots cl" and "boot_disk env mount cl w d s m"
    and "meta_ok s m" and "cmd_boot_confirm env mount d = (r, d')"
  shows "\<exists>m'. boot_disk env mount cl w d' s m' \<and> meta_ok s m' \<and> dk_devs d' = dk_devs d \<and>
    (r = Ok () \<longrightarrow> boot_disk env mount cl True d' s m' \<and> bm_active_slot m' = s)"
  using assms(5) unfolding cmd_boot_confirm_def
proof (cases rule: and_thenE)
  case (fails r')
  then show ?thesis using boot_disk_load [OF assms(1,3) fails(1)] assms(4) by blast
next
  case (ok x d1)
  then have x: "x = m" and d1: "boot_disk env mount cl True d1 s m" "dk_devs d1 = dk_devs d"
    using boot_disk_load [OF assms(1,3)] by blast+
  have b: "booted_slot mount a d1 = s" for a by (rule booted_slot_selected [OF assms(2) d1(1)])
  show ?thesis
  proof (cases "s = bm_active_slot m")
    case True
    then have "bm_state m \<noteq> BS_Trying \<and> bm_state m \<noteq> BS_Pending"
      using assms(4) by (auto simp: meta_ok_def)
    then have "save_cmd env ''save: '' m d1 = (r, d')"
      using ok(2) x b True
      by (simp add: Let_def and_then_def io_map_err_def confirm_boot_def confirmed_meta_def io_return_def)
    from boot_disk_saved [OF d1(1) save_cmd_saved [OF this]]
    have "boot_disk env mount cl True d' s m" "dk_devs d' = dk_devs d" using d1(2) by auto
    then show ?thesis using assms(4) True boot_disk_weaken by blast
  next
    case False
    then have "save_cmd env ''save: '' (promoted_meta (oe_version env) s m) d1 = (r, d')"
      using ok(2) x b by (simp add: Let_def)
    from boot_disk_saved [OF d1(1) save_cmd_saved [OF this]]
    obtain m2 where "m2 = m \<or> m2 = promoted_meta (oe_version env) s m" "boot_disk env mount cl True d' s m2"
      "\<And>x. r = Ok x \<Longrightarrow> m2 = promoted_meta (oe_version env) s m" "dk_devs d' = dk_devs d" using d1(2) by auto
    then show ?thesis using assms(4) by (intro exI [of _ m2]) (auto intro: boot_disk_weaken)
  qed
qed

lemma force_rollback_saved:
  assumes "io_map_err f (force_rollback env reason m) d = (r, d')"
  shows "saved env (rolled_back_meta reason m) d r d' \<and> (\<forall>x. r = Ok x \<longrightarrow> x = rolled_back_meta reason m)"
proof -
  obtain r2 d2 where sv: "save env (rolled_back_meta reason m) d = (r2, d2)" by fastforce
  have "saved env (rolled_back_meta reason m) d r2 d2" by (rule save_saved [OF sv])
  then show ?thesis
    using assms sv
    by (cases r2)
       (auto simp: io_map_err_def force_rollback_def initiate_rollback_def Let_def and_then_def io_return_def replaced_def)
qed

lemma cmd_rollback_keeps:
  assumes "toml_roundtrip env" and "boot_disk env mount cl w d s m"
    and "meta_ok s m" and "cmd_rollback env mount d = (r, d')"
  shows "\<exists>s' m'. boot_disk env mount cl w d' s' m' \<and> meta_ok s' m' \<and> dk_devs d' = dk_devs d \<and>
    bm_active_slot m' = bm_active_slot m \<and> (r = Ok () \<longrightarrow> s' = bm_active_slot m)"
  using assms(4) unfolding cmd_rollback_def
proof (cases rule: and_thenE)
  case (fails r')
  then show ?thesis using boot_disk_load [OF assms(1,2) fails(1)] assms(3) by blast
next
  case (ok x d1)
  let ?m = "rolled_back_meta ''manual rollback via CLI'' m"
  have x: "x = m" and d1: "boot_disk env mount cl w d1 s m" "dk_devs d1 = dk_devs d"
    using ok(1) boot_disk_load [OF assms(1,2)] by blast+
  from ok(2) [unfolded Let_def x] show ?thesis
  proof (cases rule: and_thenE)
    case (fails r')
    from boot_disk_saved [OF d1(1) force_rollback_saved [OF fails(1), THEN conjunct1]] obtain m2
      where "m2 = m \<or> m2 = ?m" "boot_disk env mount cl w d' s m2" "dk_devs d' = dk_devs d1" by metis
    then show ?thesis using assms(3) d1(2) fails by (intro exI [of _ s] exI [of _ m2]) auto
  next
    case (ok y d2)
    from boot_disk_saved [OF d1(1) force_rollback_saved [OF ok(1), THEN conjunct1]]
    have d2: "boot_disk env mount cl w d2 s ?m" "dk_devs d2 = dk_devs d"
      using d1(2) by (metis boot_disk_weaken)+
    have y: "y = ?m" using force_rollback_saved [OF ok(1)] by simp
    from ok(2) [unfolded y] show ?thesis
    proof (cases rule: and_thenE)
      case (fails r')
      from boot_disk_switched [OF d2(1) fails(1)] obtain s2
        where "boot_disk env mount cl w d' s2 ?m" "dk_devs d' = dk_devs d2" by metis
      then show ?thesis using d2(2) fails by (intro exI [of _ s2] exI [of _ ?m]) auto
    next
      case (ok z d3)
      from boot_disk_switched [OF d2(1) ok(1)]
      have d3: "boot_disk env mount cl w d3 (bm_active_slot m) ?m" "dk_devs d3 = dk_devs d"
        using d2(2) by metis+
      from boot_disk_saved [OF d3(1) save_cmd_saved [OF ok(2)]]
      have "boot_disk env mount cl w d' (bm_active_slot m) ?m" "dk_devs d' = dk_devs d" using d3(2) by metis+
      then show ?thesis by (intro exI [of _ "bm_active_slot m"] exI [of _ ?m]) auto
    qed
  qed
qed

lemma OtaDaemon_new_keeps:
  "boot_disk env mount cl w d s m \<Longrightarrow> OtaDaemon_new e mount d = (Ok (), d)"
  by (simp add: OtaDaemon_new_def ensure_slot_cmdlines_def boot_disk_def fs_exists_def Let_def)

lemma install_keeps:
  assumes "boot_disk env mount cl w d s m" and "io_map_err f (install e img slot) d = (r, d')"
  shows "boot_disk env mount cl w d' s m" and "p \<noteq> target_partition slot \<Longrightarrow> dk_devs d' p = dk_devs d p"
proof -
  obtain r2 where i: "install e img slot d = (r2, d')"
    using assms(2) by (cases rule: io_map_errE) auto
  show "boot_disk env mount cl w d' s m"
    using assms(1) install_frame(1) [OF i] by (simp add: boot_disk_def)
  show "p \<noteq> target_partition slot \<Longrightarrow> dk_devs d' p = dk_devs d p"
    by (rule install_frame(2) [OF i])
qed

text \<open>The last part of an update, from the verified slot on.\<close>

lemma cmd_update_boot:
  fixes f what m
  defines "t \<equiv> slot_other (bm_active_slot m)"
  assumes "boot_disk env mount cl w d s m" and "meta_ok s m"
    and "and_then (io_map_err f (switch_to_slot env mount t)) (\<lambda>_. save_cmd env what (pending_meta t m)) d = (r, d')"
  shows "\<exists>s' m'. boot_disk env mount cl w d' s' m' \<and> meta_ok s' m' \<and>
    bm_active_slot m' = bm_active_slot m \<and>
    (r = Ok () \<longrightarrow> s' = t \<and> bm_state m' = BS_Pending) \<and> dk_devs d' = dk_devs d"
proof -
  have ok_t: "meta_ok t m" using assms(3) by (auto simp: meta_ok_def t_def)
  from assms(4) show ?thesis
  proof (cases rule: and_thenE)
    case (fails r')
    from boot_disk_switched [OF assms(2) fails(1)] obtain s2
      where "s2 = s \<or> s2 = t" "boot_disk env mount cl w d' s2 m" "dk_devs d' = dk_devs d" by metis
    then show ?thesis using fails assms(3) ok_t by (intro exI [of _ s2] exI [of _ m]) auto
  next
    case (ok x d2)
    from boot_disk_switched [OF assms(2) ok(1)]
    have d2: "boot_disk env mount cl w d2 t m" "dk_devs d2 = dk_devs d" by metis+
    from boot_disk_saved [OF d2(1) save_cmd_saved [OF ok(2)]] obtain m2
      where "m2 = m \<or> m2 = pending_meta t m" "boot_disk env mount cl w d' t m2"
        "\<And>x. r = Ok x \<Longrightarrow> m2 = pending_meta t m" "dk_devs d' = dk_devs d2" by metis
    then show ?thesis
      using d2(2) ok_t by (intro exI [of _ t] exI [of _ m2]) (auto simp: t_def)
  qed
qed

lemma cmd_update_keeps:
  assumes "toml_roundtrip env" and "boot_disk env mount cl w d s m"
    and "meta_ok s m" and "cmd_update env mount img d = (r, d')"
  shows "\<exists>s' m'. boot_disk env mount cl w d' s' m' \<and> meta_ok s' m' \<and>
    bm_active_slot m' = bm_active_slot m \<and>
    (r = Ok () \<longrightarrow> s' = slot_other (bm_active_slot m) \<and> bm_state m' = BS_Pending) \<and>
    (\<forall>p. p \<noteq> target_partition (slot_other (bm_active_slot m)) \<longrightarrow> dk_devs d' p = dk_devs d p)"
proof (cases img)
  case (Inl e)
  then show ?thesis using assms by (auto simp: cmd_update_def io_fail_def)
next
  case (Inr im)
  let ?t = "slot_other (bm_active_slot m)"
  have "and_then (load_metadata env) (\<lambda>meta.
      let inactive = slot_other (bm_active_slot meta) in
      and_then (io_map_err (\<lambda>e. ''init OTA daemon: '' @ show_error e) (OtaDaemon_new env mount)) (\<lambda>_.
      and_then (io_map_err (\<lambda>e. ''install failed: '' @ show_error e) (install env im inactive)) (\<lambda>_.
      and_then (io_map_err (\<lambda>e. ''switch boot slot: '' @ show_error e) (switch_to_slot env mount inactive)) (\<lambda>_.
      save_cmd env ''save metadata: '' (pending_meta inactive meta))))) d = (r, d')"
    using assms(4) Inr by (simp add: cmd_update_def)
  then show ?thesis
  proof (cases rule: and_thenE)
    case (fails r')
    then show ?thesis using boot_disk_load [OF assms(1,2) fails(1)] assms(3) by auto
  next
    case (ok x d1)
    have x: "x = m" and d1: "boot_disk env mount cl w d1 s m" "dk_devs d1 = dk_devs d"
      using boot_disk_load [OF assms(1,2) ok(1)] by blast+
    have "and_then (io_map_err (\<lambda>e. ''install failed: '' @ show_error e) (install env im ?t)) (\<lambda>_.
      and_then (io_map_err (\<lambda>e. ''switch boot slot: '' @ show_error e) (switch_to_slot env mount ?t)) (\<lambda>_.
      save_cmd env ''save metadata: '' (pending_meta ?t m))) d1 = (r, d')"
      using ok(2) x OtaDaemon_new_keeps [OF d1(1)]
      by (simp add: Let_def and_then_def [of "io_map_err _ (OtaDaemon_new env mount)"] io_map_err_def [of _ "OtaDaemon_new env mount"])
    then show ?thesis
    proof (cases rule: and_thenE)
      case (fails r')
      then show ?thesis using install_keeps [OF d1(1) fails(1)] assms(3) d1(2) by auto
    next
      case (ok y d2)
      have d2: "boot_disk env mount cl w d2 s m" "\<And>p. p \<noteq> target_partition ?t \<Longrightarrow> dk_devs d2 p = dk_devs d p"
        using install_keeps [OF d1(1) ok(1)] d1(2) by auto
      from cmd_update_boot [OF d2(1) assms(3) ok(2)] obtain s' m'
        where "boot_disk env mount cl w d' s' m'" "meta_ok s' m'" "bm_active_slot m' = bm_active_slot m"
          "r = Ok () \<longrightarrow> s' = ?t \<and> bm_state m' = BS_Pending" "dk_devs d' = dk_devs d2" by blast
      then show ?thesis using d2(2) by (intro exI [of _ s'] exI [of _ m']) auto
    qed
  qed
qed

subsection \<open>The machine\<close>

text \<open>
  The phase says what the operator has done since the last boot: nothing yet, a confirmation, or a
  rollback without one. The protocol the binary prints (\<open>reboot required\<close>, \<open>after boot, run boot-confirm\<close>)
  confirms first after a boot and installs only after that.
\<close>

datatype phase = Fresh | Settled | Stale

record machine =
  mc_disk :: disk
  mc_running :: Slot
  mc_phase :: phase

definition selected :: "(string \<Rightarrow> Slot) \<Rightarrow> path \<Rightarrow> disk \<Rightarrow> Slot" where
  "selected boots mount d =
     (case dk_files d (cmdline_path mount) of Some c \<Rightarrow> boots c | None \<Rightarrow> SlotA)"

definition reboot :: "(string \<Rightarrow> Slot) \<Rightarrow> path \<Rightarrow> disk \<Rightarrow> machine" where
  "reboot boots mount d = \<lparr>mc_disk = d, mc_running = selected boots mount d, mc_phase = Fresh\<rparr>"

definition after_cmd :: "(string \<Rightarrow> Slot) \<Rightarrow> path \<Rightarrow> Slot \<Rightarrow> phase \<Rightarrow> (unit, string) outcome \<times> disk \<Rightarrow> machine" where
  "after_cmd boots mount running ph res =
     (case fst res of
        PowerLost \<Rightarrow> reboot boots mount (snd res)
      | _ \<Rightarrow> \<lparr>mc_disk = snd res, mc_running = running, mc_phase = ph\<rparr>)"

text \<open>Every command may meet other fates, another \<open>dd\<close>, another clock; only the TOML crate stays.\<close>

definition same_codec :: "ota_env \<Rightarrow> ota_env \<Rightarrow> bool" where
  "same_codec env e \<longleftrightarrow> oe_ser e = oe_ser env \<and> oe_parse e = oe_parse env"

inductive ota_step :: "ota_env \<Rightarrow> (string \<Rightarrow> Slot) \<Rightarrow> path \<Rightarrow> machine \<Rightarrow> machine \<Rightarrow> bool"
  for env boots mount where
  update: "mc_phase s = Settled \<Longrightarrow> same_codec env e \<Longrightarrow>
     ota_step env boots mount s (after_cmd boots mount (mc_running s) Settled (cmd_update e mount img (mc_disk s)))"
| confirm: "mc_phase s = Fresh \<Longrightarrow> same_codec env e \<Longrightarrow>
     cmd_boot_confirm e mount (mc_disk s) = res \<Longrightarrow>
     ota_step env boots mount s
       (after_cmd boots mount (mc_running s) (if fst res = Ok () then Settled else Fresh) res)"
| rollback: "same_codec env e \<Longrightarrow>
     ota_step env boots mount s
       (after_cmd boots mount (mc_running s) (if mc_phase s = Settled then Settled else Stale)
          (cmd_rollback e mount (mc_disk s)))"
| restart: "ota_step env boots mount s (reboot boots mount (mc_disk s))"

inductive ota_reach :: "ota_env \<Rightarrow> (string \<Rightarrow> Slot) \<Rightarrow> path \<Rightarrow> machine \<Rightarrow> machine \<Rightarrow> bool"
  for env boots mount s0 where
  start: "ota_reach env boots mount s0 s0"
| next_cmd: "ota_reach env boots mount s0 s \<Longrightarrow> ota_step env boots mount s s' \<Longrightarrow> ota_reach env boots mount s0 s'"

definition machine_ok :: "ota_env \<Rightarrow> path \<Rightarrow> (Slot \<Rightarrow> string) \<Rightarrow> machine \<Rightarrow> bool" where
  "machine_ok env mount cl s \<longleftrightarrow>
     (\<exists>sel m. boot_disk env mount cl (mc_phase s = Settled) (mc_disk s) sel m \<and> meta_ok sel m \<and>
        (mc_phase s = Fresh \<longrightarrow> sel = mc_running s) \<and>
        (mc_phase s = Settled \<longrightarrow> bm_active_slot m = mc_running s))"

lemma boot_disk_codec: "same_codec env e \<Longrightarrow> boot_disk e mount cl w d s m = boot_disk env mount cl w d s m"
  by (simp add: boot_disk_def same_codec_def)

lemma toml_roundtrip_codec: "same_codec env e \<Longrightarrow> toml_roundtrip e = toml_roundtrip env"
  by (simp add: toml_roundtrip_def same_codec_def)

lemma boot_disk_unwritten: "boot_disk env mount cl w d s m \<Longrightarrow> boot_disk env mount cl False d s m"
  by (auto simp: boot_disk_def)

lemma selected_boot_disk: "slots_named boots cl \<Longrightarrow> boot_disk env mount cl w d s m \<Longrightarrow> selected boots mount d = s"
  by (simp add: selected_def boot_disk_def slots_named_def)

lemma machine_ok_reboot:
  "slots_named boots cl \<Longrightarrow> boot_disk env mount cl w d s m \<Longrightarrow> meta_ok s m \<Longrightarrow>
   machine_ok env mount cl (reboot boots mount d)"
  by (auto simp: machine_ok_def reboot_def selected_boot_disk intro: boot_disk_unwritten)

lemma machine_ok_after:
  assumes "slots_named boots cl" and "boot_disk env mount cl w (snd res) s m" and "meta_ok s m"
    and "fst res \<noteq> PowerLost \<Longrightarrow> (ph = Settled \<longrightarrow> w \<and> bm_active_slot m = running) \<and> (ph = Fresh \<longrightarrow> s = running)"
  shows "machine_ok env mount cl (after_cmd boots mount running ph res)"
proof (cases "fst res = PowerLost")
  case True
  then show ?thesis using machine_ok_reboot [OF assms(1-3)] by (simp add: after_cmd_def)
next
  case False
  then have "after_cmd boots mount running ph res = \<lparr>mc_disk = snd res, mc_running = running, mc_phase = ph\<rparr>"
    by (cases "fst res") (simp_all add: after_cmd_def)
  moreover have "boot_disk env mount cl (ph = Settled) (snd res) s m"
    using assms(2,4) False boot_disk_unwritten by (cases "ph = Settled") auto
  ultimately show ?thesis
    using assms(3,4) False unfolding machine_ok_def by (cases ph; intro exI [of _ s] exI [of _ m]; simp)
qed

lemma ota_step_keeps_ok:
  assumes "toml_roundtrip env" and "slots_named boots cl" and "ota_step env boots mount s s'"
    and "machine_ok env mount cl s"
  shows "machine_ok env mount cl s'"
proof -
  from assms(4) obtain sel m where d: "boot_disk env mount cl (mc_phase s = Settled) (mc_disk s) sel m"
    and m: "meta_ok sel m" and f: "mc_phase s = Fresh \<longrightarrow> sel = mc_running s"
    and a: "mc_phase s = Settled \<longrightarrow> bm_active_slot m = mc_running s"
    unfolding machine_ok_def by blast
  from assms(3) show ?thesis
  proof cases
    case (update e img)
    have "toml_roundtrip e" "boot_disk e mount cl True (mc_disk s) sel m"
      using assms(1) d update by (simp_all add: toml_roundtrip_codec boot_disk_codec)
    from cmd_update_keeps [OF this m prod.collapse [symmetric]] obtain s2 m2
      where "boot_disk e mount cl True (snd (cmd_update e mount img (mc_disk s))) s2 m2" "meta_ok s2 m2"
        "bm_active_slot m2 = bm_active_slot m" by blast
    then show ?thesis
      using update a assms(2) by (auto intro!: machine_ok_after simp: boot_disk_codec)
  next
    case (confirm e res)
    have "toml_roundtrip e" "boot_disk e mount cl False (mc_disk s) sel m"
      using assms(1) d confirm by (simp_all add: toml_roundtrip_codec boot_disk_codec)
    from cmd_boot_confirm_keeps [OF this(1) assms(2) this(2) m, of "fst res" "snd res"] confirm obtain m2
      where "boot_disk e mount cl False (snd res) sel m2" "meta_ok sel m2"
        "fst res = Ok () \<longrightarrow> boot_disk e mount cl True (snd res) sel m2 \<and> bm_active_slot m2 = sel" by auto
    then have "boot_disk env mount cl (fst res = Ok ()) (snd res) sel m2" "meta_ok sel m2"
      "fst res = Ok () \<longrightarrow> bm_active_slot m2 = sel"
      using confirm by (cases "fst res = Ok ()"; simp add: boot_disk_codec)+
    then show ?thesis
      using confirm f assms(2) unfolding confirm(1) by (elim machine_ok_after [rotated]) auto
  next
    case (rollback e)
    have "toml_roundtrip e" "boot_disk e mount cl (mc_phase s = Settled) (mc_disk s) sel m"
      using assms(1) d rollback by (simp_all add: toml_roundtrip_codec boot_disk_codec)
    from cmd_rollback_keeps [OF this m prod.collapse [symmetric]] obtain s2 m2
      where "boot_disk e mount cl (mc_phase s = Settled) (snd (cmd_rollback e mount (mc_disk s))) s2 m2"
        "meta_ok s2 m2" "bm_active_slot m2 = bm_active_slot m" by blast
    then show ?thesis
      using rollback a assms(2) unfolding rollback(1) boot_disk_codec [OF rollback(2)]
      by (elim machine_ok_after [rotated]) auto
  next
    case restart
    then show ?thesis using machine_ok_reboot [OF assms(2) d m] by simp
  qed
qed

lemma ota_reach_ok:
  "ota_reach env boots mount s0 s \<Longrightarrow> toml_roundtrip env \<Longrightarrow> slots_named boots cl \<Longrightarrow>
   machine_ok env mount cl s0 \<Longrightarrow> machine_ok env mount cl s"
  by (induction rule: ota_reach.induct) (auto intro: ota_step_keeps_ok)

subsection \<open>Properties\<close>

lemma target_partition_inject [simp]: "target_partition s = target_partition t \<longleftrightarrow> s = t"
  by (cases s; cases t) (simp_all add: target_partition_def show_u_def show_nat.simps)

text \<open>
  C2. The running slot is never overwritten. From a machine whose disk is in order, run any sequence of
  commands that confirms after each boot before it installs, with any failures and losses of power in
  between: an update started then leaves the partition of the running slot as it was.
\<close>

theorem running_slot_not_overwritten:
  assumes "toml_roundtrip env" and "slots_named boots cl" and "machine_ok env mount cl s0"
    and "ota_reach env boots mount s0 s" and "mc_phase s = Settled" and "same_codec env e"
  shows "dk_devs (snd (cmd_update e mount img (mc_disk s))) (target_partition (mc_running s)) =
    dk_devs (mc_disk s) (target_partition (mc_running s))"
proof -
  from ota_reach_ok [OF assms(4,1,2,3)] assms(5) obtain sel m
    where d: "boot_disk env mount cl True (mc_disk s) sel m" and m: "meta_ok sel m"
      and a: "bm_active_slot m = mc_running s"
    unfolding machine_ok_def by auto
  have "toml_roundtrip e" "boot_disk e mount cl True (mc_disk s) sel m"
    using assms(1,6) d by (simp_all add: toml_roundtrip_codec boot_disk_codec)
  moreover obtain r d' where u: "cmd_update e mount img (mc_disk s) = (r, d')" by fastforce
  ultimately have "\<forall>p. p \<noteq> target_partition (slot_other (mc_running s)) \<longrightarrow> dk_devs d' p = dk_devs (mc_disk s) p"
    using cmd_update_keeps [OF _ _ m u] a by metis
  then show ?thesis using u by simp
qed


text \<open>Without failures a confirmation returns normally.\<close>

lemma save_completes: "(\<And>n. oe_fates env n = Completes) \<Longrightarrow> \<exists>d'. save env m d = (Ok (), d')"
  by (simp add: save_def replace_file_def and_then_def fs_defs)

lemma save_cmd_completes: "(\<And>n. oe_fates env n = Completes) \<Longrightarrow> fst (save_cmd env what m d) = Ok ()"
  using save_completes [of env m d] by (auto simp: save_cmd_def io_map_err_def)

lemma load_completes:
  assumes "toml_roundtrip env" and "boot_disk env mount cl w d s m" and "\<And>n. oe_fates env n = Completes"
  shows "\<exists>d'. load_metadata env d = (Ok m, d')"
proof (cases "dk_files d METADATA_PATH")
  case None
  then show ?thesis
    using assms(2) save_completes [OF assms(3), of default_BootMetadata d]
    by (auto simp: boot_disk_def load_metadata_def io_map_err_def load_def fs_exists_def and_then_def io_return_def)
next
  case (Some c)
  then show ?thesis
    using assms(1,2)
    by (auto simp: boot_disk_def load_metadata_def io_map_err_def load_def fs_exists_def and_then_def io_return_def
        fs_read_to_string_def toml_roundtrip_def)
qed

lemma confirm_completes:
  assumes "toml_roundtrip env" and "boot_disk env mount cl w d s m" and "\<And>n. oe_fates env n = Completes"
  shows "fst (cmd_boot_confirm env mount d) = Ok ()"
proof -
  obtain d' where "load_metadata env d = (Ok m, d')" using load_completes [OF assms] by blast
  moreover obtain x d2 where "confirm_boot env (oe_version env) m d' = (Ok x, d2)"
    using save_completes [OF assms(3), of "confirmed_meta (oe_now env) (oe_version env) m" d']
    by (cases "bm_state m = BS_Trying \<or> bm_state m = BS_Pending")
       (auto simp: confirm_boot_def Let_def and_then_def io_return_def)
  ultimately show ?thesis
    using save_cmd_completes [OF assms(3)] by (simp add: cmd_boot_confirm_def and_then_def Let_def io_map_err_def)
qed

text \<open>
  C28. An update takes effect. After a successful update the next boot starts the other slot; a
  confirmation there, which returns normally when no disk step fails, makes that slot the active one,
  and a successful rollback instead selects the old slot again.
\<close>

theorem update_then_confirm_or_rollback:
  assumes "toml_roundtrip env" and "slots_named boots cl" and "machine_ok env mount cl s"
    and "mc_phase s = Settled" and "cmd_update env mount img (mc_disk s) = (Ok (), d)"
    and "same_codec env e"
  shows "mc_running (reboot boots mount d) = slot_other (mc_running s) \<and>
    ((\<forall>n. oe_fates e n = Completes) \<longrightarrow> fst (cmd_boot_confirm e mount d) = Ok ()) \<and>
    (\<forall>d'. cmd_boot_confirm e mount d = (Ok (), d') \<longrightarrow>
       (\<exists>m. dk_files d' METADATA_PATH = Some (oe_ser env m) \<and> bm_active_slot m = slot_other (mc_running s))) \<and>
    (\<forall>d'. cmd_rollback e mount d = (Ok (), d') \<longrightarrow> selected boots mount d' = mc_running s)"
proof -
  from assms(3,4) obtain sel m
    where "boot_disk env mount cl True (mc_disk s) sel m" and m: "meta_ok sel m"
      and a: "bm_active_slot m = mc_running s"
    unfolding machine_ok_def by auto
  from cmd_update_keeps [OF assms(1) this(1) m assms(5)] obtain m'
    where d: "boot_disk env mount cl True d (slot_other (mc_running s)) m'"
      and m': "meta_ok (slot_other (mc_running s)) m'" and a': "bm_active_slot m' = mc_running s"
    unfolding a by auto
  have e: "toml_roundtrip e" "boot_disk e mount cl True d (slot_other (mc_running s)) m'"
    using assms(1,6) d by (simp_all add: toml_roundtrip_codec boot_disk_codec)
  have ser: "oe_ser e = oe_ser env" using assms(6) by (simp add: same_codec_def)
  have "mc_running (reboot boots mount d) = slot_other (mc_running s)"
    using selected_boot_disk [OF assms(2) d] by (simp add: reboot_def)
  moreover have "\<exists>m. dk_files d' METADATA_PATH = Some (oe_ser env m) \<and> bm_active_slot m = slot_other (mc_running s)"
    if "cmd_boot_confirm e mount d = (Ok (), d')" for d'
    using cmd_boot_confirm_keeps [OF e(1) assms(2) e(2) m' that] ser by (auto simp: boot_disk_def)
  moreover have "selected boots mount d' = mc_running s" if "cmd_rollback e mount d = (Ok (), d')" for d'
    using cmd_rollback_keeps [OF e m' that] selected_boot_disk [OF assms(2)] a' by auto
  ultimately show ?thesis using confirm_completes [OF e] by auto
qed

text \<open>What an update does to the partition it targets, before anything else can stop it.\<close>

lemma cmd_update_writes:
  assumes "toml_roundtrip env" and "boot_disk env mount cl True d s m"
    and "dk_devs d (target_partition (slot_other (bm_active_slot m))) = Some old"
    and "oe_dd env img old = DdExit new success err"
  shows "dk_devs (snd (cmd_update env mount (Inr img) d)) (target_partition (slot_other (bm_active_slot m))) = Some new"
proof -
  let ?t = "slot_other (bm_active_slot m)"
  let ?p = "target_partition ?t"
  have l: "load_metadata env d = (Ok m, d)"
    using assms(1,2)
    by (simp add: boot_disk_def load_metadata_def io_map_err_def load_def fs_exists_def and_then_def io_return_def
        fs_read_to_string_def toml_roundtrip_def)
  have "run_dd env ?p img old d = (if success then Ok () else Err (E_Fatal (''dd failed: '' @ err)), put_dev ?p new d)"
    using assms(4) by (simp add: run_dd_def)
  then obtain r2 where i: "install env img ?t d = (r2, put_dev ?p new d)"
    using install_disk [OF assms(3)] by (metis surjective_pairing)
  obtain r3 d3 where b: "and_then (io_map_err (\<lambda>e. ''switch boot slot: '' @ show_error e) (switch_to_slot env mount ?t))
      (\<lambda>_. save_cmd env ''save metadata: '' (pending_meta ?t m)) (put_dev ?p new d) = (r3, d3)" by fastforce
  have bd: "boot_disk env mount cl True (put_dev ?p new d) s m"
    using assms(2) by (simp add: boot_disk_def put_dev_def)
  have "dk_devs d3 = dk_devs (put_dev ?p new d)"
    using b
  proof (cases rule: and_thenE)
    case (fails r')
    show ?thesis by (rule boot_disk_switched [OF bd fails(1)])
  next
    case (ok x d4)
    obtain s2 where "boot_disk env mount cl True d4 s2 m" and d4: "dk_devs d4 = dk_devs (put_dev ?p new d)"
      by (rule boot_disk_switched [OF bd ok(1)]) blast
    from this(1) show ?thesis
      by (rule boot_disk_saved [OF _ save_cmd_saved [OF ok(2)]]) (simp add: d4)
  qed
  then show ?thesis
    using l i b OtaDaemon_new_keeps [OF assms(2), of env]
    by (cases r2) (auto simp: cmd_update_def and_then_def io_map_err_def Let_def put_dev_def)
qed

text \<open>Without failures, and with a \<open>dd\<close> that writes the image, an update returns normally.\<close>

lemma switch_completes:
  assumes "boot_disk env mount cl w d s m" and "\<And>n. oe_fates env n = Completes"
  shows "\<exists>d'. switch_to_slot env mount t d = (Ok (), d')"
  using assms
  by (simp add: switch_to_slot_def write_cmdline_def replace_file_def and_then_def fs_read_to_string_def boot_disk_def fs_defs)

lemma update_completes:
  assumes "toml_roundtrip env" and "boot_disk env mount cl True d s m"
    and "dk_devs d (target_partition (slot_other (bm_active_slot m))) = Some old"
    and "oe_dd env img old = DdExit (img @ rest) True err"
    and "\<And>k. oe_read_len env k \<noteq> None" and "\<And>n. oe_fates env n = Completes"
  shows "fst (cmd_update env mount (Inr img) d) = Ok ()"
proof -
  let ?t = "slot_other (bm_active_slot m)"
  let ?d = "put_dev (target_partition ?t) (img @ rest) d"
  have "load_metadata env d = (Ok m, d)"
    using assms(1,2)
    by (simp add: boot_disk_def load_metadata_def io_map_err_def load_def fs_exists_def and_then_def io_return_def
        fs_read_to_string_def toml_roundtrip_def)
  moreover have dev: "dk_devs ?d (target_partition ?t) = Some (img @ rest)" by (simp add: put_dev_def)
  obtain h where h: "hash_partition_prefix env (target_partition ?t) (length img) ?d = (Ok h, ?d)"
    using hash_partition_prefix_complete [OF assms(5) dev, of "length img"]
      hash_partition_prefix_disk [of env "target_partition ?t" "length img" ?d] by (metis length_append le_add1 prod.collapse)
  have "h = oe_sha256_hex env img" using hash_partition_prefix_Ok [OF h] dev by simp
  then have "install env img ?t d = (Ok (), ?d)"
    using assms(3,4) h by (simp add: install_def run_dd_def and_then_def io_return_def Let_def)
  moreover obtain d3 where "switch_to_slot env mount ?t ?d = (Ok (), d3)"
    using switch_completes [OF _ assms(6), of mount cl True ?d s m ?t] assms(2) by (auto simp: boot_disk_def put_dev_def)
  ultimately show ?thesis
    using OtaDaemon_new_keeps [OF assms(2), of env] save_cmd_completes [OF assms(6)]
    by (simp add: cmd_update_def and_then_def io_map_err_def Let_def)
qed

text \<open>
  C32. The confirmation has to come after the reboot, because it reads the slot from \<open>cmdline.txt\<close> and not
  from the running kernel. A confirmation between a successful update and the reboot marks the slot that
  has not booted as active, and the next update writes its image over the running slot.
\<close>

theorem early_confirm_endangers_running_slot:
  assumes "toml_roundtrip env" and "slots_named boots cl" and "machine_ok env mount cl s"
    and "mc_phase s = Settled" and "cmd_update env mount img (mc_disk s) = (Ok (), d)"
    and "cmd_boot_confirm env mount d = (Ok (), d')"
    and "dk_devs d' (target_partition (mc_running s)) = Some old"
    and "oe_dd env img' old = DdExit new success err"
  shows "dk_devs (snd (cmd_update env mount (Inr img') d')) (target_partition (mc_running s)) = Some new"
proof -
  from assms(3,4) obtain sel m
    where "boot_disk env mount cl True (mc_disk s) sel m" and m: "meta_ok sel m"
      and a: "bm_active_slot m = mc_running s"
    unfolding machine_ok_def by auto
  from cmd_update_keeps [OF assms(1) this(1) m assms(5)] obtain m'
    where "boot_disk env mount cl True d (slot_other (mc_running s)) m'"
      and "meta_ok (slot_other (mc_running s)) m'"
    unfolding a by auto
  from cmd_boot_confirm_keeps [OF assms(1,2) this assms(6)] obtain m2
    where "boot_disk env mount cl True d' (slot_other (mc_running s)) m2"
      and "bm_active_slot m2 = slot_other (mc_running s)" by auto
  with cmd_update_writes [OF assms(1) this(1) _ assms(8)] assms(7) show ?thesis by simp
qed

subsection \<open>A concrete machine\<close>

text \<open>A codec for the metadata, a \<open>dd\<close> that copies the image to the start of the device, and a machine
  that runs slot A with both slots installed.\<close>

definition mark :: "string \<Rightarrow> string" where
  "mark s = concat (map (\<lambda>c. [CHR ''c'', c]) s) @ ''.''"

fun unmark :: "string \<Rightarrow> (string \<times> string) option" where
  "unmark (x # y # r) =
     (if x = CHR ''c'' then map_option (\<lambda>(s, t). (y # s, t)) (unmark r)
      else if x = CHR ''.'' then Some ([], y # r) else None)"
| "unmark [x] = (if x = CHR ''.'' then Some ([], []) else None)"
| "unmark [] = None"

lemma unmark_mark [simp]: "unmark (mark s @ r) = Some (s, r)"
  by (induction s) (cases r; simp add: mark_def)+

lemma unmark_mark_end [simp]: "unmark (mark s) = Some (s, [])"
  using unmark_mark [of s "[]"] by simp

definition demo_fields :: "BootMetadata \<Rightarrow> string list" where
  "demo_fields m =
     [slot_as_str (bm_active_slot m), slot_as_str (bm_next_slot m), debug_boot_state (bm_state m),
      replicate (unat (bm_tries_remaining m)) (CHR ''x''), bm_active_version m, bm_next_version m,
      replicate (unat (bm_last_successful_boot m)) (CHR ''x''),
      replicate (unat (bm_rollback_count m)) (CHR ''x''), bm_last_rollback_reason m]"

definition demo_ser :: "BootMetadata \<Rightarrow> string" where
  "demo_ser m = concat (map mark (demo_fields m))"

definition demo_slot :: "string \<Rightarrow> Slot" where
  "demo_slot s = (if s = ''A'' then SlotA else SlotB)"

definition demo_state :: "string \<Rightarrow> BootState" where
  "demo_state s =
     (if s = ''Confirmed'' then BS_Confirmed else if s = ''Pending'' then BS_Pending
      else if s = ''Trying'' then BS_Trying else BS_RollingBack)"

definition demo_parse :: "string \<Rightarrow> BootMetadata option" where
  "demo_parse t0 =
     Option.bind (unmark t0) (\<lambda>(a, t1). Option.bind (unmark t1) (\<lambda>(n, t2).
     Option.bind (unmark t2) (\<lambda>(st, t3). Option.bind (unmark t3) (\<lambda>(tr, t4).
     Option.bind (unmark t4) (\<lambda>(av, t5). Option.bind (unmark t5) (\<lambda>(nv, t6).
     Option.bind (unmark t6) (\<lambda>(ls, t7). Option.bind (unmark t7) (\<lambda>(rc, t8).
     Option.bind (unmark t8) (\<lambda>(rr, t9). Some
       \<lparr>bm_active_slot = demo_slot a, bm_next_slot = demo_slot n, bm_tries_remaining = of_nat (length tr),
        bm_state = demo_state st, bm_active_version = av, bm_next_version = nv,
        bm_last_successful_boot = of_nat (length ls), bm_rollback_count = of_nat (length rc),
        bm_last_rollback_reason = rr\<rparr>)))))))))"

lemma demo_slot_as_str [simp]: "demo_slot (slot_as_str s) = s"
  by (cases s) (simp_all add: demo_slot_def)

lemma demo_state_debug [simp]: "demo_state (debug_boot_state s) = s"
  by (cases s) (simp_all add: demo_state_def)

lemma demo_parse_ser: "demo_parse (demo_ser m) = Some m"
  by (simp add: demo_parse_def demo_ser_def demo_fields_def)

definition demo_env :: ota_env where
  "demo_env =
     \<lparr>oe_fates = (\<lambda>_. Completes), oe_ser = demo_ser, oe_parse = demo_parse,
      oe_sha256_hex = map (\<lambda>b. char_of (unat b)), oe_now = 7, oe_version = ''2'',
      oe_dd = (\<lambda>img old. DdExit (img @ drop (length img) old) True []),
      oe_read_len = (\<lambda>_. Some 1)\<rparr>"

definition demo_cl :: "Slot \<Rightarrow> string" where
  "demo_cl s = ''balansir_slot='' @ slot_as_str s"

definition demo_boots :: "string \<Rightarrow> Slot" where
  "demo_boots c = (if last c = CHR ''B'' then SlotB else SlotA)"

definition demo_disk :: disk where
  "demo_disk =
     \<lparr>dk_files = [slot_cmdline_path ''/boot'' SlotA \<mapsto> demo_cl SlotA, slot_cmdline_path ''/boot'' SlotB \<mapsto> demo_cl SlotB,
        cmdline_path ''/boot'' \<mapsto> demo_cl SlotA, METADATA_PATH \<mapsto> demo_ser default_BootMetadata],
      dk_devs = [target_partition SlotA \<mapsto> [1, 1], target_partition SlotB \<mapsto> [2, 2]], dk_steps = 0\<rparr>"

definition demo_machine :: machine where
  "demo_machine = \<lparr>mc_disk = demo_disk, mc_running = SlotA, mc_phase = Settled\<rparr>"

lemma demo_env_simps [simp]:
  "oe_fates demo_env n = Completes" "oe_ser demo_env = demo_ser" "oe_parse demo_env = demo_parse"
  "oe_sha256_hex demo_env = map (\<lambda>b. char_of (unat b))"
  "oe_read_len demo_env n = Some 1" "oe_dd demo_env img old = DdExit (img @ drop (length img) old) True []"
  by (simp_all add: demo_env_def)

lemma demo_roundtrip: "toml_roundtrip demo_env"
  by (simp add: toml_roundtrip_def demo_parse_ser)

lemma demo_named: "slots_named demo_boots demo_cl"
proof -
  have "trim (demo_cl s) = demo_cl s" for s
    by (cases s) (simp_all add: trim_graphic graphic_def demo_cl_def)
  moreover have "demo_boots (demo_cl s) = s \<and> slot_of_cmdline (demo_cl s) = s" for s
    by (cases s) (simp_all add: demo_cl_def demo_boots_def slot_of_cmdline_def sublist_code)
  ultimately show ?thesis by (simp add: slots_named_def)
qed

lemma demo_boot_disk: "boot_disk demo_env ''/boot'' demo_cl True demo_disk SlotA default_BootMetadata"
  unfolding boot_disk_def
proof (intro conjI allI)
  fix t show "dk_files demo_disk (slot_cmdline_path ''/boot'' t) = Some (demo_cl t)"
    by (cases t) (simp_all add: demo_disk_def)
qed (simp_all add: demo_disk_def)

lemma demo_ok: "machine_ok demo_env ''/boot'' demo_cl demo_machine"
proof -
  have "bm_active_slot default_BootMetadata = SlotA" by (simp add: default_BootMetadata_def)
  then show ?thesis
    using demo_boot_disk unfolding machine_ok_def
    by (intro exI [of _ SlotA] exI [of _ default_BootMetadata]) (simp add: demo_machine_def)
qed

lemma demo_update: "\<exists>d. cmd_update demo_env ''/boot'' (Inr [9]) demo_disk = (Ok (), d)"
proof -
  have d: "boot_disk demo_env ''/boot'' demo_cl True demo_disk SlotA default_BootMetadata"
    by (rule demo_boot_disk)
  have "fst (cmd_update demo_env ''/boot'' (Inr [9]) demo_disk) = Ok ()"
    by (rule update_completes [OF demo_roundtrip d, of "[2, 2]" _ "[2]" "[]"])
       (simp_all add: demo_disk_def default_BootMetadata_def)
  then show ?thesis by (metis prod.collapse)
qed

text \<open>Witnesses: the first two properties after an update and a restart of the concrete machine, the third
  and the fourth on its first update.\<close>

theorem running_slot_not_overwritten_witness:
  "dk_devs (snd (cmd_update demo_env ''/boot'' (Inr [9]) demo_disk)) (target_partition SlotA) = Some [1, 1]"
  using running_slot_not_overwritten [OF demo_roundtrip demo_named demo_ok ota_reach.start, of demo_env "Inr [9]"]
  by (simp add: demo_machine_def demo_disk_def same_codec_def)


theorem update_then_confirm_or_rollback_witness:
  "\<exists>d. cmd_update demo_env ''/boot'' (Inr [9]) demo_disk = (Ok (), d) \<and>
     mc_running (reboot demo_boots ''/boot'' d) = SlotB \<and>
     fst (cmd_boot_confirm demo_env ''/boot'' d) = Ok ()"
proof -
  obtain d where d: "cmd_update demo_env ''/boot'' (Inr [9]) (mc_disk demo_machine) = (Ok (), d)"
    using demo_update by (auto simp: demo_machine_def)
  moreover have "mc_phase demo_machine = Settled" "same_codec demo_env demo_env"
    by (simp_all add: demo_machine_def same_codec_def)
  ultimately show ?thesis
    using update_then_confirm_or_rollback [OF demo_roundtrip demo_named demo_ok, of "Inr [9]" d demo_env]
    by (auto simp: demo_machine_def)
qed

theorem early_confirm_endangers_running_slot_witness:
  "\<exists>d d'. cmd_update demo_env ''/boot'' (Inr [9]) demo_disk = (Ok (), d) \<and>
     cmd_boot_confirm demo_env ''/boot'' d = (Ok (), d') \<and>
     dk_devs (snd (cmd_update demo_env ''/boot'' (Inr [8]) d')) (target_partition SlotA) = Some [8, 1]"
proof -
  have ph: "mc_phase demo_machine = Settled" by (simp add: demo_machine_def)
  obtain d where d: "cmd_update demo_env ''/boot'' (Inr [9]) demo_disk = (Ok (), d)" using demo_update by blast
  have act: "bm_active_slot default_BootMetadata = SlotA" by (simp add: default_BootMetadata_def)
  from cmd_update_keeps [OF demo_roundtrip demo_boot_disk meta_ok_simps(1) d] obtain s m
    where b: "boot_disk demo_env ''/boot'' demo_cl True d s m" "meta_ok s m"
      "dk_devs d (target_partition SlotA) = dk_devs demo_disk (target_partition SlotA)"
    by (auto simp: act)
  obtain d' where d': "cmd_boot_confirm demo_env ''/boot'' d = (Ok (), d')"
    using confirm_completes [OF demo_roundtrip b(1)] by (metis demo_env_simps(1) prod.collapse)
  have "dk_devs d' (target_partition SlotA) = Some [1, 1]"
    using cmd_boot_confirm_keeps [OF demo_roundtrip demo_named b(1,2) d'] b(3) by (auto simp: demo_disk_def)
  then have "dk_devs (snd (cmd_update demo_env ''/boot'' (Inr [8]) d')) (target_partition SlotA) = Some [8, 1]"
    using early_confirm_endangers_running_slot
      [OF demo_roundtrip demo_named demo_ok ph _ d', of "Inr [9]" "[1, 1]" "[8]" "[8, 1]" True "[]"] d
    by (simp add: demo_machine_def)
  then show ?thesis using d d' by blast
qed

theorem install_verified_witness:
  "fst (install demo_env [9] SlotB demo_disk) = Ok () \<and>
   (\<exists>dev. dk_devs (snd (install demo_env [9] SlotB demo_disk)) (target_partition SlotB) = Some dev \<and>
      map (\<lambda>b. char_of (unat b)) (take 1 dev) = [char_of (9 :: nat)])"
proof -
  have "hash_loop demo_env [9, 2] 0 (Suc 0) [] = Inr (0, [9])"
    by (simp add: hash_loop.simps [of demo_env "[9, 2]" 0 "Suc 0" "[]"])
  then have i: "fst (install demo_env [9] SlotB demo_disk) = Ok ()"
    by (simp add: install_def run_dd_def and_then_def hash_partition_prefix_def io_return_def put_dev_def
        demo_disk_def Let_def)
  then have "install demo_env [9] SlotB demo_disk = (Ok (), snd (install demo_env [9] SlotB demo_disk))"
    by (metis prod.collapse)
  from install_verified [OF this] i show ?thesis by auto
qed

end
