(* ===== verification/Adapt.thy ===== *)
theory Adapt
  imports Text
begin

text \<open>
  The connectivity adaptation engine of the daemon (\<open>crates/balansir-daemon/src/b4_engine\<close>: \<open>observe.rs\<close>,
  \<open>policy.rs\<close>, \<open>classify.rs\<close>, \<open>config.rs\<close>, \<open>state.rs\<close>). For every flow it observes host-stack signals, classifies
  them and picks an adaptation the policy allows. What a cycle observes is an argument of the step. Shown
  are that a decision never goes beyond the policy of the flow, that the MTU it asks for stays between
  1280 and 1480, and that adaptation gives way to fallback or strict failure after the configured
  number of attempts.
\<close>

subsection \<open>Observations (\<open>observe.rs\<close>)\<close>

text \<open>Durations in nanoseconds; an absent signal is \<open>None\<close>.\<close>

record B4Observation =
  ob_connect_latency :: "nat option"
  ob_rtt :: "nat option"
  ob_rtt_var :: "nat option"
  ob_retransmissions :: "u32 option"
  ob_throughput_bps :: "u64 option"
  ob_dns_ok :: "bool option"
  ob_reset_or_timeout :: "bool option"
  ob_mtu_symptom :: "bool option"

definition default_B4Observation :: B4Observation where
  "default_B4Observation =
     \<lparr>ob_connect_latency = None, ob_rtt = None, ob_rtt_var = None, ob_retransmissions = None,
      ob_throughput_bps = None, ob_dns_ok = None, ob_reset_or_timeout = None, ob_mtu_symptom = None\<rparr>"

definition any_signal :: "B4Observation \<Rightarrow> bool" where
  "any_signal obs \<longleftrightarrow>
     ob_connect_latency obs \<noteq> None \<or> ob_rtt obs \<noteq> None \<or> ob_rtt_var obs \<noteq> None \<or>
     ob_retransmissions obs \<noteq> None \<or> ob_throughput_bps obs \<noteq> None \<or> ob_dns_ok obs \<noteq> None \<or>
     ob_reset_or_timeout obs \<noteq> None \<or> ob_mtu_symptom obs \<noteq> None"

definition noop_observe :: "string \<Rightarrow> B4Observation" where
  "noop_observe flow = default_B4Observation"

subsection \<open>Policy (\<open>policy.rs\<close>)\<close>

datatype B4FailSemantic = FS_Strict | FS_Safe | FS_Default

datatype B4Capability = Cap_Mtu | Cap_DnsPath

record B4Profile =
  bp_capabilities :: "B4Capability list"
  bp_fail :: B4FailSemantic
  bp_allow_direct :: bool
  bp_allow_tunnel :: bool

definition default_B4Profile :: B4Profile where
  "default_B4Profile =
     \<lparr>bp_capabilities = [], bp_fail = FS_Strict, bp_allow_direct = True, bp_allow_tunnel = False\<rparr>"

record B4FlowRule =
  fr_domain :: string
  fr_profile :: B4Profile

type_synonym B4Policy = "B4FlowRule list"

definition flow_domains :: "B4Policy \<Rightarrow> string list" where
  "flow_domains p = map fr_domain p"

definition policy_profile_for :: "B4Policy \<Rightarrow> string \<Rightarrow> B4Profile" where
  "policy_profile_for p domain =
     (let lower = to_ascii_lowercase domain in
      case find (\<lambda>r. domain_covers (to_ascii_lowercase (fr_domain r)) lower) p of
        Some r \<Rightarrow> fr_profile r
      | None \<Rightarrow> default_B4Profile)"

subsection \<open>Configuration file (\<open>config.rs\<close>)\<close>

text \<open>The file after the TOML crate has read it.\<close>

record B4FlowToml =
  ft_domain :: string
  ft_capabilities :: "string list"
  ft_fail :: string
  ft_allow_direct :: bool
  ft_allow_tunnel :: bool

record B4EngineToml =
  et_enabled :: bool
  et_max_attempts :: u32

definition default_B4EngineToml :: B4EngineToml where
  "default_B4EngineToml = \<lparr>et_enabled = True, et_max_attempts = 3\<rparr>"

record B4Toml =
  bt_engine :: B4EngineToml
  bt_flows :: "B4FlowToml list"

definition to_ascii_uppercase_char :: "char \<Rightarrow> char" where
  "to_ascii_uppercase_char c =
     (let n = of_char c :: nat in if 97 \<le> n \<and> n \<le> 122 then char_of (n - 32) else c)"

definition to_ascii_uppercase :: "string \<Rightarrow> string" where
  "to_ascii_uppercase s = map to_ascii_uppercase_char s"

fun parse_capabilities :: "string list \<Rightarrow> (B4Capability list, string) result" where
  "parse_capabilities [] = Inr []"
| "parse_capabilities (c # cs) =
     (let l = to_ascii_lowercase c in
      if l = ''mtu'' then map_sum id ((#) Cap_Mtu) (parse_capabilities cs)
      else if l = ''dns_path'' \<or> l = ''dnspath'' then map_sum id ((#) Cap_DnsPath) (parse_capabilities cs)
      else Inl (''unknown b4 capability: '' @ l))"

definition parse_fail :: "string \<Rightarrow> (B4FailSemantic, string) result" where
  "parse_fail s =
     (let u = to_ascii_uppercase s in
      if u = '''' \<or> u = ''STRICT'' then Inr FS_Strict
      else if u = ''SAFE'' then Inr FS_Safe
      else if u = ''DEFAULT'' then Inr FS_Default
      else Inl (''unknown b4 fail semantic: '' @ u))"

definition to_rule :: "B4FlowToml \<Rightarrow> (B4FlowRule, string) result" where
  "to_rule f =
     (case parse_capabilities (ft_capabilities f) of
        Inl e \<Rightarrow> Inl e
      | Inr capabilities \<Rightarrow>
          (case parse_fail (ft_fail f) of
             Inl e \<Rightarrow> Inl e
           | Inr fail \<Rightarrow>
               Inr \<lparr>fr_domain = ft_domain f,
                    fr_profile = \<lparr>bp_capabilities = capabilities, bp_fail = fail,
                                  bp_allow_direct = ft_allow_direct f, bp_allow_tunnel = ft_allow_tunnel f\<rparr>\<rparr>))"

fun toml_policy :: "B4FlowToml list \<Rightarrow> (B4Policy, string) result" where
  "toml_policy [] = Inr []"
| "toml_policy (f # fs) =
     (case to_rule f of
        Inl e \<Rightarrow> Inl e
      | Inr r \<Rightarrow> map_sum id ((#) r) (toml_policy fs))"

subsection \<open>Classification (\<open>classify.rs\<close>)\<close>

datatype B4Class = CL_Direct | CL_Degraded | CL_Interfered | CL_Blocked | CL_Unknown

definition opt_holds :: "('a \<Rightarrow> bool) \<Rightarrow> 'a option \<Rightarrow> bool" where
  "opt_holds P x = (case x of None \<Rightarrow> False | Some v \<Rightarrow> P v)"

definition classify :: "B4Observation \<Rightarrow> B4Class" where
  "classify obs =
     (if \<not> any_signal obs then CL_Unknown
      else if ob_mtu_symptom obs = Some True \<and> ob_reset_or_timeout obs \<noteq> Some True then CL_Interfered
      else if ob_reset_or_timeout obs = Some True then CL_Interfered
      else if ob_dns_ok obs = Some False then CL_Interfered
      else
        let retrans_heavy = opt_holds (\<lambda>r. 3 \<le> r) (ob_retransmissions obs);
            high_rtt = opt_holds (\<lambda>rtt. 400 * 10 ^ 6 \<le> rtt) (ob_rtt obs);
            low_throughput = opt_holds (\<lambda>b. b < 1000) (ob_throughput_bps obs)
        in if retrans_heavy \<or> high_rtt \<or> low_throughput then CL_Degraded else CL_Direct)"

subsection \<open>Engine (\<open>state.rs\<close>)\<close>

datatype B4State = ST_Idle | ST_Observing | ST_Adapting | ST_Monitoring | ST_Recovered | ST_Fallback | ST_StrictFail

datatype B4Decision = D_Noop | D_AdaptMtu u16 | D_SwitchDnsPath | D_UseFallback | D_FailStrict | D_Recovered

datatype B4Event =
    EV_Classified string B4Class
  | EV_Adapted string B4Capability
  | EV_Recovered string
  | EV_StrictFailed string

record FlowContext =
  fc_state :: B4State
  fc_mtu :: "u16 option"
  fc_attempts :: u32

definition default_FlowContext :: FlowContext where
  "default_FlowContext = \<lparr>fc_state = ST_Idle, fc_mtu = None, fc_attempts = 0\<rparr>"

record B4EngineConfig =
  ec_max_attempts :: u32
  ec_enabled :: bool

definition default_B4EngineConfig :: B4EngineConfig where
  "default_B4EngineConfig = \<lparr>ec_max_attempts = 3, ec_enabled = True\<rparr>"

definition toml_engine_config :: "B4Toml \<Rightarrow> B4EngineConfig" where
  "toml_engine_config t =
     \<lparr>ec_max_attempts = et_max_attempts (bt_engine t), ec_enabled = et_enabled (bt_engine t)\<rparr>"

record AdaptEngine =
  ae_policy :: B4Policy
  ae_config :: B4EngineConfig
  ae_flows :: "string \<rightharpoonup> FlowContext"
  ae_last_decisions :: "string \<rightharpoonup> B4Decision"
  ae_last_observations :: "string \<rightharpoonup> B4Observation"

definition AdaptEngine_with_config :: "B4Policy \<Rightarrow> B4EngineConfig \<Rightarrow> AdaptEngine" where
  "AdaptEngine_with_config policy config =
     \<lparr>ae_policy = policy, ae_config = config, ae_flows = Map.empty, ae_last_decisions = Map.empty,
      ae_last_observations = Map.empty\<rparr>"

definition state_of :: "AdaptEngine \<Rightarrow> string \<Rightarrow> B4State" where
  "state_of en flow = (case ae_flows en flow of None \<Rightarrow> ST_Idle | Some c \<Rightarrow> fc_state c)"

definition mark_adapting :: "string \<Rightarrow> AdaptEngine \<Rightarrow> AdaptEngine" where
  "mark_adapting flow en =
     (case ae_flows en flow of
        None \<Rightarrow> en
      | Some ctx \<Rightarrow> en\<lparr>ae_flows := (ae_flows en)(flow \<mapsto> ctx\<lparr>fc_state := ST_Adapting\<rparr>)\<rparr>)"

definition recover :: "FlowContext \<Rightarrow> B4Profile \<Rightarrow> FlowContext \<times> B4Decision \<times> B4Event list" where
  "recover ctx profile =
     (if bp_allow_tunnel profile then (ctx\<lparr>fc_state := ST_Fallback\<rparr>, D_UseFallback, [])
      else if bp_allow_direct profile \<and> bp_fail profile \<noteq> FS_Strict then
        (ctx\<lparr>fc_state := ST_Fallback\<rparr>, D_UseFallback, [])
      else (ctx\<lparr>fc_state := ST_StrictFail\<rparr>, D_FailStrict, [EV_StrictFailed []]))"

definition lowered_mtu :: "u16 option \<Rightarrow> u16" where
  "lowered_mtu m =
     (let current = (case m of None \<Rightarrow> 1500 | Some v \<Rightarrow> v)
      in if 1280 < current then current - 20 else current)"

definition adapt ::
    "FlowContext \<Rightarrow> B4Profile \<Rightarrow> B4Observation \<Rightarrow> u32 \<Rightarrow> FlowContext \<times> B4Decision \<times> B4Event list" where
  "adapt ctx0 profile obs max_attempts =
     (let ctx = ctx0\<lparr>fc_state := ST_Adapting, fc_attempts := fc_attempts ctx0 + 1\<rparr> in
      if max_attempts < fc_attempts ctx then recover ctx profile
      else if ob_mtu_symptom obs = Some True \<and> Cap_Mtu \<in> set (bp_capabilities profile) then
        let new_mtu = lowered_mtu (fc_mtu ctx)
        in (ctx\<lparr>fc_mtu := Some new_mtu, fc_state := ST_Monitoring\<rparr>, D_AdaptMtu new_mtu, [EV_Adapted [] Cap_Mtu])
      else if ob_dns_ok obs = Some False \<and> Cap_DnsPath \<in> set (bp_capabilities profile) then
        (ctx\<lparr>fc_state := ST_Monitoring\<rparr>, D_SwitchDnsPath, [EV_Adapted [] Cap_DnsPath])
      else recover ctx profile)"

definition decide_flow ::
    "FlowContext \<Rightarrow> B4Profile \<Rightarrow> B4Class \<Rightarrow> B4Observation \<Rightarrow> u32 \<Rightarrow> FlowContext \<times> B4Decision \<times> B4Event list" where
  "decide_flow ctx profile class obs max_attempts =
     (case class of
        CL_Direct \<Rightarrow> (ctx\<lparr>fc_state := ST_Recovered, fc_attempts := 0\<rparr>, D_Recovered, [])
      | CL_Unknown \<Rightarrow> (ctx\<lparr>fc_state := ST_Observing\<rparr>, D_Noop, [])
      | CL_Degraded \<Rightarrow> adapt ctx profile obs max_attempts
      | CL_Interfered \<Rightarrow> adapt ctx profile obs max_attempts
      | CL_Blocked \<Rightarrow> recover ctx profile)"

text \<open>\<open>self.flows.entry(flow).or_default()\<close>.\<close>

definition context_of :: "AdaptEngine \<Rightarrow> string \<Rightarrow> FlowContext" where
  "context_of en flow = (case ae_flows en flow of None \<Rightarrow> default_FlowContext | Some c \<Rightarrow> c)"

fun name_flow :: "string \<Rightarrow> B4Event \<Rightarrow> B4Event" where
  "name_flow flow (EV_Adapted f c) = EV_Adapted (if f = [] then flow else f) c"
| "name_flow flow (EV_StrictFailed f) = EV_StrictFailed (if f = [] then flow else f)"
| "name_flow flow e = e"

definition evaluate :: "string \<Rightarrow> B4Observation \<Rightarrow> AdaptEngine \<Rightarrow> B4Decision \<times> B4Event list \<times> AdaptEngine" where
  "evaluate flow obs en =
     (let profile = policy_profile_for (ae_policy en) flow;
          class = classify obs in
      if \<not> ec_enabled (ae_config en) then (D_Noop, [EV_Classified flow class], en)
      else
        case decide_flow (context_of en flow) profile class obs (ec_max_attempts (ae_config en)) of
          (ctx, decision, evs) \<Rightarrow>
            (decision, EV_Classified flow class # map (name_flow flow) evs,
             en\<lparr>ae_flows := (ae_flows en)(flow \<mapsto> ctx),
                ae_last_decisions := (ae_last_decisions en)(flow \<mapsto> decision),
                ae_last_observations := (ae_last_observations en)(flow \<mapsto> obs)\<rparr>))"

text \<open>One round of \<open>run_loop\<close> over the given keys: the decisions handed to the executor, in order.\<close>

fun evaluate_each :: "(string \<Rightarrow> B4Observation) \<Rightarrow> string list \<Rightarrow> AdaptEngine \<Rightarrow> (string \<times> B4Decision) list \<times> AdaptEngine" where
  "evaluate_each observer [] en = ([], en)"
| "evaluate_each observer (flow # flows) en =
     (case evaluate flow (observer flow) en of
        (decision, evs, en) \<Rightarrow>
          (case evaluate_each observer flows en of
             (ds, en) \<Rightarrow> ((flow, decision) # ds, en)))"

definition seed_flows :: "AdaptEngine \<Rightarrow> AdaptEngine" where
  "seed_flows en =
     en\<lparr>ae_flows := foldl (\<lambda>m f. case m f of None \<Rightarrow> m(f \<mapsto> default_FlowContext) | Some _ \<Rightarrow> m)
          (ae_flows en) (flow_domains (ae_policy en))\<rparr>"

text \<open>\<open>keys\<close> is the order in which the hash map lists its keys.\<close>

definition loop_round ::
    "((string \<rightharpoonup> FlowContext) \<Rightarrow> string list) \<Rightarrow> (string \<Rightarrow> B4Observation) \<Rightarrow> AdaptEngine \<Rightarrow>
     (string \<times> B4Decision) list \<times> AdaptEngine" where
  "loop_round keys observer en =
     (let en = seed_flows en in evaluate_each observer (keys (ae_flows en)) en)"

subsection \<open>Decisions stay within the policy\<close>

definition fallback_allowed :: "B4Profile \<Rightarrow> bool" where
  "fallback_allowed p \<longleftrightarrow> bp_allow_tunnel p \<or> bp_allow_direct p \<and> bp_fail p \<noteq> FS_Strict"

lemma recover_decision: "fst (snd (recover ctx p)) = (if fallback_allowed p then D_UseFallback else D_FailStrict)"
  by (simp add: recover_def fallback_allowed_def)

lemma recover_keeps [simp]:
  "fc_mtu (fst (recover ctx p)) = fc_mtu ctx" "fc_attempts (fst (recover ctx p)) = fc_attempts ctx"
  by (simp_all add: recover_def)

lemma classify_not_blocked: "classify obs \<noteq> CL_Blocked"
  by (simp add: classify_def Let_def)

definition bad_class :: "B4Class \<Rightarrow> bool" where
  "bad_class c \<longleftrightarrow> c = CL_Degraded \<or> c = CL_Interfered"

lemma evaluate_enabled:
  assumes "ec_enabled (ae_config en)"
  shows "evaluate flow obs en =
    (let r = decide_flow (context_of en flow) (policy_profile_for (ae_policy en) flow) (classify obs) obs
               (ec_max_attempts (ae_config en))
     in (fst (snd r), EV_Classified flow (classify obs) # map (name_flow flow) (snd (snd r)),
         en\<lparr>ae_flows := (ae_flows en)(flow \<mapsto> fst r),
            ae_last_decisions := (ae_last_decisions en)(flow \<mapsto> fst (snd r)),
            ae_last_observations := (ae_last_observations en)(flow \<mapsto> obs)\<rparr>))"
  using assms by (simp add: evaluate_def Let_def split: prod.split)

lemma adapt_decision:
  "fst (snd (adapt ctx p obs k)) =
     (if k < fc_attempts ctx + 1 then fst (snd (recover ctx p))
      else if ob_mtu_symptom obs = Some True \<and> Cap_Mtu \<in> set (bp_capabilities p) then D_AdaptMtu (lowered_mtu (fc_mtu ctx))
      else if ob_dns_ok obs = Some False \<and> Cap_DnsPath \<in> set (bp_capabilities p) then D_SwitchDnsPath
      else fst (snd (recover ctx p)))"
  by (simp add: adapt_def Let_def recover_decision)

lemma decide_flow_decision:
  "fst (snd (decide_flow ctx p (classify obs) obs k)) =
     (if classify obs = CL_Direct then D_Recovered
      else if classify obs = CL_Unknown then D_Noop
      else fst (snd (adapt ctx p obs k)))"
  using classify_not_blocked [of obs] by (cases "classify obs") (simp_all add: decide_flow_def)

text \<open>
  C19. No decision goes beyond the policy. An enabled engine decides to lower the MTU only for a flow whose
  profile has that capability and on an MTU symptom, to switch the DNS path only with that capability and
  on a failed resolution, to fall back only where the profile allows it, and fails strictly only where it
  does not; a disabled engine decides nothing and changes nothing.
\<close>

theorem decision_within_policy:
  "case evaluate flow obs en of (decision, evs, en') \<Rightarrow>
     let p = policy_profile_for (ae_policy en) flow in
     (\<not> ec_enabled (ae_config en) \<longrightarrow> decision = D_Noop \<and> en' = en) \<and>
     (\<forall>mtu. decision = D_AdaptMtu mtu \<longrightarrow> Cap_Mtu \<in> set (bp_capabilities p) \<and> ob_mtu_symptom obs = Some True) \<and>
     (decision = D_SwitchDnsPath \<longrightarrow> Cap_DnsPath \<in> set (bp_capabilities p) \<and> ob_dns_ok obs = Some False) \<and>
     (decision = D_UseFallback \<longrightarrow> fallback_allowed p \<and> bad_class (classify obs)) \<and>
     (decision = D_FailStrict \<longrightarrow> \<not> fallback_allowed p \<and> bad_class (classify obs)) \<and>
     (decision = D_Recovered \<longrightarrow> classify obs = CL_Direct)"
proof (cases "ec_enabled (ae_config en)")
  case True
  have "classify obs \<notin> {CL_Direct, CL_Unknown} \<Longrightarrow> bad_class (classify obs)"
    using classify_not_blocked [of obs] by (cases "classify obs") (simp_all add: bad_class_def)
  then show ?thesis
    using True by (auto simp: evaluate_enabled Let_def decide_flow_decision adapt_decision recover_decision split: if_splits)
next
  case False
  then show ?thesis by (simp add: evaluate_def Let_def)
qed

theorem decision_within_policy_witness:
  "fst (evaluate ''a.org'' (default_B4Observation\<lparr>ob_dns_ok := Some False\<rparr>)
     (AdaptEngine_with_config [] default_B4EngineConfig)) = D_FailStrict \<and>
   \<not> fallback_allowed (policy_profile_for [] ''a.org'')"
proof -
  have "fst (evaluate ''a.org'' (default_B4Observation\<lparr>ob_dns_ok := Some False\<rparr>)
     (AdaptEngine_with_config [] default_B4EngineConfig)) = D_FailStrict" by code_simp
  then show ?thesis
    using decision_within_policy [where flow = "''a.org''" and obs = "default_B4Observation\<lparr>ob_dns_ok := Some False\<rparr>"
        and en = "AdaptEngine_with_config [] default_B4EngineConfig"]
    by (auto simp: Let_def AdaptEngine_with_config_def split: prod.splits)
qed

subsection \<open>The MTU stays in bounds\<close>

definition mtu_in_bounds :: "u16 \<Rightarrow> bool" where
  "mtu_in_bounds m \<longleftrightarrow> 1280 \<le> m \<and> m \<le> 1480 \<and> unat m mod 20 = 0"

definition engine_bounded :: "AdaptEngine \<Rightarrow> bool" where
  "engine_bounded en \<longleftrightarrow>
     (\<forall>f c m. ae_flows en f = Some c \<longrightarrow> fc_mtu c = Some m \<longrightarrow> mtu_in_bounds m)"

lemma lowered_mtu_bounds:
  assumes "\<And>v. m = Some v \<Longrightarrow> mtu_in_bounds v"
  shows "mtu_in_bounds (lowered_mtu m) \<and> (\<forall>v. m = Some v \<longrightarrow> lowered_mtu m \<le> v)"
proof (cases m)
  case None
  then show ?thesis by (simp add: lowered_mtu_def mtu_in_bounds_def)
next
  case (Some v)
  then have v: "1280 \<le> unat v" "unat v \<le> 1480" "unat v mod 20 = 0"
    using assms [OF Some] by (simp_all add: mtu_in_bounds_def word_le_nat_alt)
  show ?thesis
  proof (cases "1280 < v")
    case True
    then have "1300 \<le> unat v" using v by (simp add: word_less_nat_alt) presburger
    then have "20 \<le> v" by (simp add: word_le_nat_alt)
    then have "unat (v - 20) = unat v - 20" by (simp add: unat_sub)
    then show ?thesis
      using True Some v \<open>1300 \<le> unat v\<close>
      by (auto simp: lowered_mtu_def mtu_in_bounds_def word_le_nat_alt le_mod_geq)
  next
    case False
    then show ?thesis using Some v by (simp add: lowered_mtu_def mtu_in_bounds_def word_le_nat_alt)
  qed
qed

lemma decide_flow_mtu:
  "fc_mtu (fst (decide_flow ctx p (classify obs) obs k)) =
     (case fst (snd (decide_flow ctx p (classify obs) obs k)) of D_AdaptMtu m \<Rightarrow> Some m | _ \<Rightarrow> fc_mtu ctx)"
  using classify_not_blocked [of obs]
  by (cases "classify obs")
     (simp_all add: decide_flow_def adapt_def Let_def recover_decision)

lemma decide_flow_adapts:
  "fst (snd (decide_flow ctx p (classify obs) obs k)) = D_AdaptMtu m \<Longrightarrow> m = lowered_mtu (fc_mtu ctx)"
  by (simp add: decide_flow_decision adapt_decision recover_decision split: if_splits)

lemma evaluate_bounded:
  assumes "engine_bounded en" and "evaluate flow obs en = (decision, evs, en')"
  shows "engine_bounded en' \<and> (\<forall>m. decision = D_AdaptMtu m \<longrightarrow> mtu_in_bounds m \<and>
    (\<forall>c v. ae_flows en flow = Some c \<longrightarrow> fc_mtu c = Some v \<longrightarrow> m \<le> v))"
proof (cases "ec_enabled (ae_config en)")
  case True
  let ?r = "decide_flow (context_of en flow) (policy_profile_for (ae_policy en) flow) (classify obs) obs
     (ec_max_attempts (ae_config en))"
  have b: "mtu_in_bounds v" if "fc_mtu (context_of en flow) = Some v" for v
    using assms(1) that by (auto simp: engine_bounded_def context_of_def default_FlowContext_def split: option.splits)
  have d: "decision = fst (snd ?r)" and f: "ae_flows en' = (ae_flows en)(flow \<mapsto> fst ?r)"
    using assms(2) True by (auto simp: evaluate_enabled Let_def)
  have m: "mtu_in_bounds m" "m \<le> v" if "fst (snd ?r) = D_AdaptMtu m" "fc_mtu (context_of en flow) = Some v" for m v
    using lowered_mtu_bounds [OF b] decide_flow_adapts [OF that(1)] that(2) by auto
  have m0: "mtu_in_bounds m" if "fst (snd ?r) = D_AdaptMtu m" for m
    using lowered_mtu_bounds [OF b] decide_flow_adapts [OF that] by auto
  have "mtu_in_bounds v" if "fc_mtu (fst ?r) = Some v" for v
    using that b m0 by (auto simp: decide_flow_mtu split: B4Decision.splits)
  then have "engine_bounded en'" using assms(1) f by (auto simp: engine_bounded_def)
  then show ?thesis using m m0 d by (auto simp: context_of_def)
next
  case False
  then show ?thesis using assms by (auto simp: evaluate_def Let_def)
qed

fun evaluate_seq :: "(string \<times> B4Observation) list \<Rightarrow> AdaptEngine \<Rightarrow> B4Decision list \<times> AdaptEngine" where
  "evaluate_seq [] en = ([], en)"
| "evaluate_seq ((flow, obs) # rest) en =
     (case evaluate flow obs en of
        (decision, evs, en) \<Rightarrow> (case evaluate_seq rest en of (ds, en) \<Rightarrow> (decision # ds, en)))"

lemma evaluate_seq_bounded:
  "engine_bounded en \<Longrightarrow>
   engine_bounded (snd (evaluate_seq xs en)) \<and>
   (\<forall>m. D_AdaptMtu m \<in> set (fst (evaluate_seq xs en)) \<longrightarrow> mtu_in_bounds m)"
proof (induction xs arbitrary: en)
  case (Cons x xs)
  obtain flow obs where x: "x = (flow, obs)" by fastforce
  obtain d evs en2 where e: "evaluate flow obs en = (d, evs, en2)" by (cases "evaluate flow obs en") auto
  from evaluate_bounded [OF Cons.prems e] have b: "engine_bounded en2" "\<And>m. d = D_AdaptMtu m \<Longrightarrow> mtu_in_bounds m"
    by auto
  from Cons.IH [OF b(1)] b(2) show ?case
    by (cases "evaluate_seq xs en2") (auto simp: x e)
qed simp

text \<open>
  C33. Whatever is observed, in whatever order flows are evaluated, every MTU the engine asks for is between
  1280 and 1480.
\<close>

theorem adapted_mtu_bounds:
  "D_AdaptMtu m \<in> set (fst (evaluate_seq xs (AdaptEngine_with_config policy config))) \<Longrightarrow>
   1280 \<le> m \<and> m \<le> 1480"
  using evaluate_seq_bounded [of "AdaptEngine_with_config policy config" xs]
  by (auto simp: engine_bounded_def AdaptEngine_with_config_def mtu_in_bounds_def)

subsection \<open>Adaptation gives up\<close>

lemma decide_flow_attempts:
  "bad_class (classify obs) \<Longrightarrow>
   fc_attempts (fst (decide_flow ctx p (classify obs) obs k)) = fc_attempts ctx + 1"
  by (auto simp: bad_class_def decide_flow_def adapt_def Let_def)

lemma bad_class_decision:
  "bad_class (classify obs) \<Longrightarrow> k < fc_attempts ctx + 1 \<Longrightarrow>
   fst (snd (decide_flow ctx p (classify obs) obs k)) = (if fallback_allowed p then D_UseFallback else D_FailStrict)"
  by (auto simp: decide_flow_decision adapt_decision recover_decision bad_class_def)

lemma evaluate_bad:
  assumes "ec_enabled (ae_config en)" and "bad_class (classify obs)" and "evaluate flow obs en = (d, evs, en')"
  shows "ae_config en' = ae_config en \<and> ae_policy en' = ae_policy en \<and>
    fc_attempts (context_of en' flow) = fc_attempts (context_of en flow) + 1 \<and>
    (ec_max_attempts (ae_config en) < fc_attempts (context_of en flow) + 1 \<longrightarrow>
       d = (if fallback_allowed (policy_profile_for (ae_policy en) flow) then D_UseFallback else D_FailStrict))"
  using assms(3) bad_class_decision [OF assms(2)]
  by (auto simp: evaluate_enabled [OF assms(1)] Let_def context_of_def [of en'] decide_flow_attempts [OF assms(2)])

lemma unat_attempts: "unat (a + 1 :: u32) = unat a + 1" if "unat a + 1 < 2 ^ 32"
  using that by (simp add: unat_word_ariths)

lemma evaluate_seq_gives_up:
  assumes "ec_enabled (ae_config en)" and "\<forall>x \<in> set xs. fst x = flow \<and> bad_class (classify (snd x))"
    and "unat (fc_attempts (context_of en flow)) + length xs < 2 ^ 32"
    and "i < length xs" and "unat (ec_max_attempts (ae_config en)) \<le> unat (fc_attempts (context_of en flow)) + i"
  shows "fst (evaluate_seq xs en) ! i =
    (if fallback_allowed (policy_profile_for (ae_policy en) flow) then D_UseFallback else D_FailStrict)"
  using assms
proof (induction xs arbitrary: en i)
  case (Cons x xs)
  obtain obs where x: "x = (flow, obs)" and bad: "bad_class (classify obs)" using Cons.prems(2) by (cases x) auto
  obtain d evs en2 where e: "evaluate flow obs en = (d, evs, en2)" by (cases "evaluate flow obs en") auto
  note en2 = evaluate_bad [OF Cons.prems(1) bad e]
  have a: "unat (fc_attempts (context_of en flow) + 1) = unat (fc_attempts (context_of en flow)) + 1"
    using Cons.prems(3) by (intro unat_attempts) simp
  show ?case
  proof (cases i)
    case 0
    then show ?thesis
      using Cons.prems(5) en2 a by (cases "evaluate_seq xs en2") (simp add: x e word_less_nat_alt)
  next
    case (Suc j)
    have "fst (evaluate_seq xs en2) ! j =
        (if fallback_allowed (policy_profile_for (ae_policy en2) flow) then D_UseFallback else D_FailStrict)"
      using Cons.prems en2 a Suc by (intro Cons.IH) auto
    then show ?thesis using en2 Suc by (cases "evaluate_seq xs en2") (simp add: x e)
  qed
qed simp

text \<open>
  Adaptation is bounded. When a fresh engine sees a flow degraded or interfered time after time, then
  from the attempt after \<open>max_attempts\<close> on every decision is the fallback, where the policy allows one,
  and strict failure otherwise (as long as the attempt counter does not wrap).
\<close>

theorem adaptation_gives_up:
  assumes "ec_enabled config" and "\<forall>obs \<in> set obss. bad_class (classify obs)" and "length obss < 2 ^ 32"
    and "unat (ec_max_attempts config) \<le> i" and "i < length obss"
  shows "fst (evaluate_seq (map (Pair flow) obss) (AdaptEngine_with_config policy config)) ! i =
    (if fallback_allowed (policy_profile_for policy flow) then D_UseFallback else D_FailStrict)"
  using evaluate_seq_gives_up [of "AdaptEngine_with_config policy config" "map (Pair flow) obss" flow i] assms
  by (simp add: AdaptEngine_with_config_def context_of_def default_FlowContext_def)

definition demo_mtu_policy :: B4Policy where
  "demo_mtu_policy = [\<lparr>fr_domain = ''org'', fr_profile = default_B4Profile\<lparr>bp_capabilities := [Cap_Mtu]\<rparr>\<rparr>]"

definition demo_symptom :: B4Observation where
  "demo_symptom = default_B4Observation\<lparr>ob_mtu_symptom := Some True\<rparr>"

theorem adapted_mtu_bounds_witness:
  "D_AdaptMtu 1460 \<in> set (fst (evaluate_seq [(''a.org'', demo_symptom), (''a.org'', demo_symptom)]
     (AdaptEngine_with_config demo_mtu_policy default_B4EngineConfig))) \<and> (1280 :: u16) \<le> 1460 \<and> (1460 :: u16) \<le> 1480"
proof -
  have "D_AdaptMtu 1460 \<in> set (fst (evaluate_seq [(''a.org'', demo_symptom), (''a.org'', demo_symptom)]
     (AdaptEngine_with_config demo_mtu_policy default_B4EngineConfig)))" by code_simp
  with adapted_mtu_bounds [OF this] show ?thesis by simp
qed

theorem adaptation_gives_up_witness:
  "fst (evaluate_seq (map (Pair ''a.org'') [demo_symptom, demo_symptom, demo_symptom, demo_symptom])
     (AdaptEngine_with_config demo_mtu_policy default_B4EngineConfig)) ! 3 = D_FailStrict"
proof -
  have "bad_class (classify demo_symptom)" "\<not> fallback_allowed (policy_profile_for demo_mtu_policy ''a.org'')"
    by code_simp+
  then show ?thesis
    using adaptation_gives_up [of default_B4EngineConfig "[demo_symptom, demo_symptom, demo_symptom, demo_symptom]" 3
        "''a.org''" demo_mtu_policy]
    by (simp add: default_B4EngineConfig_def)
qed

end
