(* ===== verification/Parse.thy ===== *)
theory Parse
  imports Text
begin

text \<open>
  Reading numbers and words out of text, as \<open>str::parse\<close>, \<open>from_str_radix\<close>, \<open>split\<close>, \<open>split_once\<close> and
  \<open>split_whitespace\<close> do, for the parsers of the daemon, the executor and the VPN crate; decimal parsing
  inverts decimal printing.
\<close>

subsection \<open>Numbers\<close>

definition to_digit :: "nat \<Rightarrow> char \<Rightarrow> nat option" where
  "to_digit radix c =
     (let n = of_char c :: nat;
          v = if 48 \<le> n \<and> n \<le> 57 then n - 48
              else if 97 \<le> n \<and> n \<le> 122 then n - 87
              else if 65 \<le> n \<and> n \<le> 90 then n - 55 else 36
      in if v < radix then Some v else None)"

fun digits_value :: "nat \<Rightarrow> nat \<Rightarrow> string \<Rightarrow> nat option" where
  "digits_value radix acc [] = Some acc"
| "digits_value radix acc (c # s) =
     (case to_digit radix c of
        None \<Rightarrow> None
      | Some d \<Rightarrow> digits_value radix (acc * radix + d) s)"

text \<open>\<open>from_str_radix\<close> of an unsigned type of \<open>w\<close> bits: an optional plus sign, at least one digit, no overflow.\<close>

definition parse_unsigned :: "nat \<Rightarrow> nat \<Rightarrow> string \<Rightarrow> nat option" where
  "parse_unsigned radix w s =
     (let ds = (case s of [] \<Rightarrow> [] | c # r \<Rightarrow> if c = CHR ''+'' then r else s) in
      if ds = [] then None
      else case digits_value radix 0 ds of
             None \<Rightarrow> None
           | Some v \<Rightarrow> if v < 2 ^ w then Some v else None)"

definition parse_word :: "nat \<Rightarrow> string \<Rightarrow> 'a::len word option" where
  "parse_word radix s = map_option of_nat (parse_unsigned radix LENGTH('a) s)"

lemma to_digit_char [simp]: "d < 10 \<Longrightarrow> to_digit 10 (char_of (48 + d)) = Some d"
  by (simp add: to_digit_def of_char_of Let_def)

lemma digits_value_append:
  "digits_value r acc (s @ t) = Option.bind (digits_value r acc s) (\<lambda>v. digits_value r v t)"
  by (induction s arbitrary: acc) (auto split: option.splits)

lemma digits_value_show_nat: "digits_value 10 0 (show_nat n) = Some n"
proof (induction n rule: less_induct)
  case (less n)
  show ?case
  proof (cases "n < 10")
    case True
    then show ?thesis by (simp add: show_nat.simps [of n])
  next
    case False
    then show ?thesis
      using less [of "n div 10"] by (simp add: show_nat.simps [of n] digits_value_append mult.commute)
  qed
qed

lemma show_nat_not_Nil [simp]: "show_nat n \<noteq> []"
  by (simp add: show_nat.simps [of n])

lemma hd_show_nat: "hd (show_nat n) \<noteq> CHR ''+''"
proof (induction n rule: less_induct)
  case (less n)
  show ?case
  proof (cases "n < 10")
    case True
    then have "of_char (char_of (48 + n) :: char) = 48 + n" by (simp add: of_char_of)
    moreover have "of_char (CHR ''+'') = (43 :: nat)" by simp
    ultimately have "char_of (48 + n) \<noteq> CHR ''+''" by fastforce
    then show ?thesis using True by (simp add: show_nat.simps [of n])
  next
    case False
    then show ?thesis using less [of "n div 10"] by (simp add: show_nat.simps [of n])
  qed
qed

lemma parse_show_nat: "n < 2 ^ w \<Longrightarrow> parse_unsigned 10 w (show_nat n) = Some n"
  using hd_show_nat [of n] digits_value_show_nat [of n]
  by (cases "show_nat n") (simp_all add: parse_unsigned_def)

lemma parse_word_show [simp]: "parse_word 10 (show_u x) = Some (x :: 'a::len word)"
  using parse_show_nat [of "unat x" "LENGTH('a)"] by (simp add: parse_word_def show_u_def unsigned_less)

definition ascii_digit :: "char \<Rightarrow> bool" where
  "ascii_digit c \<longleftrightarrow> (let n = of_char c :: nat in 48 \<le> n \<and> n \<le> 57)"

lemma show_nat_digits: "list_all ascii_digit (show_nat n)"
proof (induction n rule: show_nat.induct)
  case (1 n)
  have d: "ascii_digit (char_of (48 + m))" if "m < 10" for m :: nat
    using that by (simp add: ascii_digit_def Let_def)
  show ?case
    using 1 d [of n] d [of "n mod 10"] by (subst show_nat.simps) auto
qed

subsection \<open>Splitting\<close>

text \<open>\<open>split(c)\<close>, and \<open>split_once(c)\<close> at the first occurrence.\<close>

fun split_on :: "char \<Rightarrow> string \<Rightarrow> string list" where
  "split_on c [] = [[]]"
| "split_on c (x # s) =
     (if x = c then [] # split_on c s else (x # hd (split_on c s)) # tl (split_on c s))"

fun split_once :: "char \<Rightarrow> string \<Rightarrow> (string \<times> string) option" where
  "split_once c [] = None"
| "split_once c (x # s) =
     (if x = c then Some ([], s) else map_option (\<lambda>(a, b). (x # a, b)) (split_once c s))"

lemma split_on_not_Nil [simp]: "split_on c s \<noteq> []"
  by (cases s) auto

lemma split_on_none: "c \<notin> set s \<Longrightarrow> split_on c s = [s]"
  by (induction s) auto

lemma split_on_append: "c \<notin> set a \<Longrightarrow> split_on c (a @ c # s) = a # split_on c s"
  by (induction a) auto

lemma split_once_append: "c \<notin> set a \<Longrightarrow> split_once c (a @ c # s) = Some (a, s)"
  by (induction a) auto

lemma split_once_Some: "split_once c s = Some (a, b) \<longleftrightarrow> s = a @ c # b \<and> c \<notin> set a"
proof
  show "split_once c s = Some (a, b) \<Longrightarrow> s = a @ c # b \<and> c \<notin> set a"
    by (induction s arbitrary: a) (auto split: if_splits)
qed (auto simp: split_once_append)

lemma split_once_None: "split_once c s = None \<longleftrightarrow> c \<notin> set s"
  by (induction s) auto

definition starts_ws :: "string \<Rightarrow> bool" where
  "starts_ws s \<longleftrightarrow> list_ex (\<lambda>w. prefix w s) whitespace"

fun break_ws :: "string \<Rightarrow> string \<times> string" where
  "break_ws [] = ([], [])"
| "break_ws (c # s) =
     (if starts_ws (c # s) then ([], c # s) else (case break_ws s of (a, b) \<Rightarrow> (c # a, b)))"

lemma length_trim_start: "length (trim_start s) \<le> length s"
proof (induction s rule: trim_start.induct)
  case (1 s)
  then show ?case
    by (subst trim_start.simps) (auto split: option.splits intro: le_trans)
qed

lemma trim_start_not_ws: "t = trim_start s \<Longrightarrow> \<not> starts_ws t"
proof (induction s rule: trim_start.induct)
  case (1 s)
  show ?case
  proof (cases "find (\<lambda>w. w \<noteq> [] \<and> prefix w s) whitespace")
    case None
    then have "trim_start s = s" by (simp add: trim_start.simps)
    then show ?thesis
      using 1(2) None whitespace_not_graphic by (auto simp: starts_ws_def find_None_iff list_ex_iff)
  next
    case (Some w)
    then show ?thesis using 1 by (simp add: trim_start.simps [of s])
  qed
qed

lemma length_break_ws: "length (fst (break_ws s)) + length (snd (break_ws s)) = length s"
  by (induction s) (auto split: prod.splits)

lemma break_ws_progress: "s \<noteq> [] \<Longrightarrow> \<not> starts_ws s \<Longrightarrow> length (snd (break_ws s)) < length s"
  using length_break_ws [of "tl s"] by (cases s) (auto split: prod.splits)

function split_whitespace :: "string \<Rightarrow> string list" where
  "split_whitespace s =
     (let t = trim_start s in
      if t = [] then [] else fst (break_ws t) # split_whitespace (snd (break_ws t)))"
  by pat_completeness auto
termination
proof (relation "measure length")
  fix s t :: string
  assume "t = trim_start s" "t \<noteq> []"
  then show "(snd (break_ws t), s) \<in> measure length"
    using break_ws_progress [of t] trim_start_not_ws [of t s] length_trim_start [of s] by simp
qed simp

declare split_whitespace.simps [simp del]

end
