(* ===== verification/MtuControl.thy ===== *)
theory MtuControl
  imports Adapt Parse PathHealth "HOL-Library.Monad_Syntax"
begin

text \<open>
  From a decision of the adaptation engine to the host: the executor's per-path MTU store with its two
  appliers (\<open>crates/balansir-executor/src/path_mtu.rs\<close>), the daemon's controller and ownership reconciler
  (\<open>b4_engine/controller.rs\<close>) and the component manager that runs them in a cycle and publishes the B4
  snapshot (\<open>b4_manager.rs\<close>). The \<open>ip\<close> command is a parameter, and so is the order in which a hash map
  lists its keys. Shown are that the controller's intent is at every moment what the executor has
  applied, whatever calls fail, that the reconciler converges and leaves a converged executor alone, and
  that the manager reports drift in every cycle with an intended MTU, although there is none.
\<close>

subsection \<open>The executor side (\<open>path_mtu.rs\<close>)\<close>

text \<open>What running \<open>ip\<close> with some arguments comes to, in a kernel state.\<close>

datatype ip_run = IpMissing | IpSpawnFailed string | IpExit bool string string

type_synonym 'k ip_cmd = "string list \<Rightarrow> 'k \<Rightarrow> ip_run \<times> 'k"

record RouteInfo =
  ri_gateway :: string
  ri_device :: string

fun route_words :: "string list \<Rightarrow> string option \<Rightarrow> string option \<Rightarrow> string option \<times> string option" where
  "route_words [] g d = (g, d)"
| "route_words [w] g d = (if w = ''via'' then (None, d) else if w = ''dev'' then (g, None) else (g, d))"
| "route_words (w # x # ws) g d =
     (if w = ''via'' then route_words ws (Some x) d
      else if w = ''dev'' then route_words ws g (Some x)
      else route_words (x # ws) g d)"

definition parse_route_line :: "string \<Rightarrow> RouteInfo option" where
  "parse_route_line text =
     (case str_lines text of
        [] \<Rightarrow> None
      | first # _ \<Rightarrow>
          (case split_whitespace first of
             [] \<Rightarrow> None
           | target # ws \<Rightarrow>
               (case route_words ws None None of
                  (gateway, device) \<Rightarrow>
                    (case device of
                       None \<Rightarrow> None
                     | Some dev \<Rightarrow>
                         Some \<lparr>ri_gateway = (case gateway of Some g \<Rightarrow> g | None \<Rightarrow> ''onlink''), ri_device = dev\<rparr>))))"

definition current_route_for :: "'k ip_cmd \<Rightarrow> string \<Rightarrow> 'k \<Rightarrow> RouteInfo option \<times> 'k" where
  "current_route_for ip path k =
     (case ip [''route'', ''get'', path] k of
        (IpExit True out err, k) \<Rightarrow> (parse_route_line out, k)
      | (_, k) \<Rightarrow> (None, k))"

definition run_ip :: "'k ip_cmd \<Rightarrow> string list \<Rightarrow> 'k \<Rightarrow> (unit, string) result \<times> 'k" where
  "run_ip ip args k =
     (case ip args k of
        (IpMissing, k) \<Rightarrow> (Inl ''ip binary not found'', k)
      | (IpSpawnFailed e, k) \<Rightarrow> (Inl (''failed to run ip: '' @ e), k)
      | (IpExit success out err, k) \<Rightarrow> (if success then Inr () else Inl err, k))"

record 'k applier =
  ap_apply :: "string \<Rightarrow> u16 \<Rightarrow> 'k \<Rightarrow> (unit, string) result \<times> 'k"
  ap_restore :: "string \<Rightarrow> 'k \<Rightarrow> (unit, string) result \<times> 'k"

definition record_only_applier :: "'k applier" where
  "record_only_applier = \<lparr>ap_apply = (\<lambda>path mtu k. (Inr (), k)), ap_restore = (\<lambda>path k. (Inr (), k))\<rparr>"

definition route_apply :: "'k ip_cmd \<Rightarrow> string \<Rightarrow> u16 \<Rightarrow> 'k \<Rightarrow> (unit, string) result \<times> 'k" where
  "route_apply ip path mtu k =
     (case current_route_for ip path k of
        (None, k) \<Rightarrow> (Inl (''no route to '' @ path @ '' (cannot pin MTU)''), k)
      | (Some route, k) \<Rightarrow>
          run_ip ip [''route'', ''replace'', path @ ''/32'', ''via'', ri_gateway route, ''dev'', ri_device route,
                     ''mtu'', show_u mtu] k)"

definition route_restore :: "'k ip_cmd \<Rightarrow> string \<Rightarrow> 'k \<Rightarrow> (unit, string) result \<times> 'k" where
  "route_restore ip path k = run_ip ip [''route'', ''del'', path @ ''/32''] k"

definition route_mtu_applier :: "'k ip_cmd \<Rightarrow> 'k applier" where
  "route_mtu_applier ip = \<lparr>ap_apply = route_apply ip, ap_restore = route_restore ip\<rparr>"

text \<open>The store: what is applied, next to the kernel it is applied to.\<close>

type_synonym 'k mtu_store = "(string \<rightharpoonup> u16) \<times> 'k"

definition store_set :: "'k applier \<Rightarrow> string \<Rightarrow> u16 \<Rightarrow> 'k mtu_store \<Rightarrow> (unit, string) result \<times> 'k mtu_store" where
  "store_set ap path mtu s =
     (case ap_apply ap path mtu (snd s) of
        (Inl e, k) \<Rightarrow> (Inl e, (fst s, k))
      | (Inr _, k) \<Rightarrow> (Inr (), ((fst s)(path \<mapsto> mtu), k)))"

definition store_restore :: "'k applier \<Rightarrow> string \<Rightarrow> 'k mtu_store \<Rightarrow> (unit, string) result \<times> 'k mtu_store" where
  "store_restore ap path s =
     (case ap_restore ap path (snd s) of
        (Inl e, k) \<Rightarrow> (Inl e, (fst s, k))
      | (Inr _, k) \<Rightarrow> (Inr (), ((fst s)(path := None), k)))"

type_synonym hash_order = "(string \<rightharpoonup> u16) \<Rightarrow> string list"

definition list_entries :: "hash_order \<Rightarrow> (string \<rightharpoonup> u16) \<Rightarrow> PathMtu list" where
  "list_entries keys m = map (\<lambda>p. \<lparr>pm_path = p, pm_mtu = the (m p)\<rparr>) (keys m)"

definition store_state :: "hash_order \<Rightarrow> 'k mtu_store \<Rightarrow> PathMtu list" where
  "store_state keys s = list_entries keys (fst s)"

subsection \<open>The daemon side (\<open>controller.rs\<close>)\<close>

text \<open>The part of \<open>ExecutorAdapter\<close> that concerns path MTUs, over the state \<open>'s\<close> of the executor.\<close>

record 's mtu_exec =
  mx_set :: "string \<Rightarrow> u16 \<Rightarrow> 's \<Rightarrow> (unit, string) result \<times> 's"
  mx_restore :: "string \<Rightarrow> 's \<Rightarrow> (unit, string) result \<times> 's"
  mx_state :: "'s \<Rightarrow> PathMtu list"

definition store_exec :: "hash_order \<Rightarrow> 'k applier \<Rightarrow> 'k mtu_store mtu_exec" where
  "store_exec keys ap = \<lparr>mx_set = store_set ap, mx_restore = store_restore ap, mx_state = store_state keys\<rparr>"

record B4Controller =
  ct_engine :: AdaptEngine
  ct_intended :: "string \<rightharpoonup> u16"
  ct_mtu_enabled :: bool

definition B4Controller_new :: "B4Policy \<Rightarrow> B4EngineConfig \<Rightarrow> B4Controller" where
  "B4Controller_new policy config =
     \<lparr>ct_engine = AdaptEngine_with_config policy config, ct_intended = Map.empty, ct_mtu_enabled = True\<rparr>"

definition execute_decision :: "'s mtu_exec \<Rightarrow> string \<Rightarrow> B4Decision \<Rightarrow> B4Controller \<times> 's \<Rightarrow> B4Controller \<times> 's" where
  "execute_decision ex flow decision cs =
     (case decision of
        D_AdaptMtu mtu \<Rightarrow>
          (if ct_mtu_enabled (fst cs) then
             case mx_set ex flow mtu (snd cs) of
               (Inl e, s) \<Rightarrow> (fst cs, s)
             | (Inr _, s) \<Rightarrow> ((fst cs)\<lparr>ct_intended := (ct_intended (fst cs))(flow \<mapsto> mtu)\<rparr>, s)
           else cs)
      | D_UseFallback \<Rightarrow> cs
      | D_FailStrict \<Rightarrow> cs
      | D_SwitchDnsPath \<Rightarrow> ((fst cs)\<lparr>ct_engine := mark_adapting flow (ct_engine (fst cs))\<rparr>, snd cs)
      | D_Recovered \<Rightarrow>
          (if ct_intended (fst cs) flow \<noteq> None then
             case mx_restore ex flow (snd cs) of
               (Inl e, s) \<Rightarrow> (fst cs, s)
             | (Inr _, s) \<Rightarrow> ((fst cs)\<lparr>ct_intended := (ct_intended (fst cs))(flow := None)\<rparr>, s)
           else cs)
      | D_Noop \<Rightarrow> cs)"

definition run_for ::
    "'s mtu_exec \<Rightarrow> string \<Rightarrow> B4Observation \<Rightarrow> B4Controller \<times> 's \<Rightarrow> B4Event list \<times> B4Controller \<times> 's" where
  "run_for ex flow obs cs =
     (case evaluate flow obs (ct_engine (fst cs)) of
        (decision, evs, en) \<Rightarrow> (evs, execute_decision ex flow decision ((fst cs)\<lparr>ct_engine := en\<rparr>, snd cs)))"

definition intended_path_mtu :: "hash_order \<Rightarrow> B4Controller \<Rightarrow> PathMtu list" where
  "intended_path_mtu keys c = list_entries keys (ct_intended c)"

text \<open>\<open>iter().map(|p| (path, mtu)).collect()\<close>.\<close>

definition collect_mtu :: "PathMtu list \<Rightarrow> (string \<rightharpoonup> u16)" where
  "collect_mtu ps = foldl (\<lambda>m p. m(pm_path p \<mapsto> pm_mtu p)) Map.empty ps"

fun apply_intended ::
    "'s mtu_exec \<Rightarrow> (string \<rightharpoonup> u16) \<Rightarrow> (string \<rightharpoonup> u16) \<Rightarrow> string list \<Rightarrow> 's \<Rightarrow> PathMtu list \<times> 's" where
  "apply_intended ex intended reported [] s = ([], s)"
| "apply_intended ex intended reported (path # paths) s =
     (let mtu = the (intended path);
          s = (if reported path \<noteq> Some mtu then snd (mx_set ex path mtu s) else s)
      in case apply_intended ex intended reported paths s of
           (after, s) \<Rightarrow> (\<lparr>pm_path = path, pm_mtu = mtu\<rparr> # after, s))"

fun restore_extra :: "'s mtu_exec \<Rightarrow> (string \<rightharpoonup> u16) \<Rightarrow> string list \<Rightarrow> 's \<Rightarrow> 's" where
  "restore_extra ex intended [] s = s"
| "restore_extra ex intended (path # paths) s =
     restore_extra ex intended paths
       (if intended path = None then snd (mx_restore ex path s) else s)"

definition reconcile_mtu :: "hash_order \<Rightarrow> 's mtu_exec \<Rightarrow> PathMtu list \<Rightarrow> 's \<Rightarrow> PathMtu list \<times> 's" where
  "reconcile_mtu keys ex intended s =
     (let intended_map = collect_mtu intended;
          reported_map = collect_mtu (mx_state ex s)
      in case apply_intended ex intended_map reported_map (keys intended_map) s of
           (after, s) \<Rightarrow> (after, restore_extra ex intended_map (keys reported_map) s))"

subsection \<open>What a client of the executor can rely on\<close>

text \<open>A hash map lists each of its keys once.\<close>

definition enumerates :: "hash_order \<Rightarrow> bool" where
  "enumerates keys \<longleftrightarrow> (\<forall>m. finite (dom m) \<longrightarrow> distinct (keys m) \<and> set (keys m) = dom m)"

lemma collect_mtu_snoc: "collect_mtu (ps @ [p]) = (collect_mtu ps)(pm_path p \<mapsto> pm_mtu p)"
  by (simp add: collect_mtu_def)

lemma finite_collect_mtu: "finite (dom (collect_mtu ps))"
proof (induction ps rule: rev_induct)
  case Nil
  then show ?case by (simp add: collect_mtu_def)
next
  case (snoc p ps)
  then show ?case unfolding collect_mtu_snoc by (simp only: dom_fun_upd) simp
qed

lemma collect_entries:
  "collect_mtu (map (\<lambda>p. \<lparr>pm_path = p, pm_mtu = the (m p)\<rparr>) ps) = (\<lambda>p. if p \<in> set ps then Some (the (m p)) else None)"
proof (induction ps rule: rev_induct)
  case Nil
  then show ?case by (auto simp: collect_mtu_def)
next
  case (snoc p ps)
  then show ?case by (auto simp: collect_mtu_snoc fun_eq_iff)
qed

lemma collect_list_entries: "enumerates keys \<Longrightarrow> finite (dom m) \<Longrightarrow> collect_mtu (list_entries keys m) = m"
  by (auto simp: list_entries_def collect_entries enumerates_def fun_eq_iff domIff)

locale mtu_executor =
  fixes ex :: "'s mtu_exec" and applied :: "'s \<Rightarrow> (string \<rightharpoonup> u16)" and keys :: hash_order
  assumes set_mtu: "mx_set ex p m s = (r, s') \<Longrightarrow>
      applied s' = (case r of Inl _ \<Rightarrow> applied s | Inr _ \<Rightarrow> (applied s)(p \<mapsto> m))"
    and restore_mtu: "mx_restore ex p s = (r, s') \<Longrightarrow>
      applied s' = (case r of Inl _ \<Rightarrow> applied s | Inr _ \<Rightarrow> (applied s)(p := None))"
    and reported: "finite (dom (applied s)) \<Longrightarrow> collect_mtu (mx_state ex s) = applied s"
    and order: "enumerates keys"
begin

lemma finite_set: "finite (dom (applied s)) \<Longrightarrow> finite (dom (applied (snd (mx_set ex p m s))))"
  using set_mtu [of p m s "fst (mx_set ex p m s)" "snd (mx_set ex p m s)"] by (auto split: sum.splits)

lemma finite_restore: "finite (dom (applied s)) \<Longrightarrow> finite (dom (applied (snd (mx_restore ex p s))))"
  using restore_mtu [of p s "fst (mx_restore ex p s)" "snd (mx_restore ex p s)"] by (auto split: sum.splits)

text \<open>Ownership: executing a decision keeps the intent equal to what is applied.\<close>

lemma execute_keeps_ownership:
  assumes "ct_intended c = applied s" and "execute_decision ex flow d (c, s) = (c', s')"
  shows "ct_intended c' = applied s'"
proof (cases d)
  case (D_AdaptMtu m)
  obtain r s2 where "mx_set ex flow m s = (r, s2)" by fastforce
  then show ?thesis
    using assms D_AdaptMtu set_mtu [of flow m s r s2]
    by (auto simp: execute_decision_def split: sum.splits if_splits)
next
  case D_Recovered
  obtain r s2 where "mx_restore ex flow s = (r, s2)" by fastforce
  then show ?thesis
    using assms D_Recovered restore_mtu [of flow s r s2]
    by (auto simp: execute_decision_def split: sum.splits if_splits)
qed (use assms in \<open>auto simp: execute_decision_def\<close>)

lemma run_for_keeps_ownership:
  "ct_intended c = applied s \<Longrightarrow> run_for ex flow obs (c, s) = (evs, c', s') \<Longrightarrow> ct_intended c' = applied s'"
  by (auto simp: run_for_def split: prod.splits elim!: execute_keeps_ownership [rotated])

lemma apply_intended_converged:
  "(\<And>p. p \<in> set ps \<Longrightarrow> reported' p = intended p \<and> intended p \<noteq> None) \<Longrightarrow>
   snd (apply_intended ex intended reported' ps s) = s"
  by (induction ps) (auto simp: Let_def split: prod.splits)

lemma restore_extra_converged:
  "\<forall>p \<in> set ps. intended p \<noteq> None \<Longrightarrow> restore_extra ex intended ps s = s"
  by (induction ps) auto

text \<open>A converged executor is left alone.\<close>

lemma reconcile_converged:
  assumes "finite (dom (applied s))" and "collect_mtu intended = applied s"
  shows "snd (reconcile_mtu keys ex intended s) = s"
proof -
  have k: "set (keys (applied s)) = dom (applied s)" using order assms(1) by (simp add: enumerates_def)
  obtain after s2 where a: "apply_intended ex (applied s) (applied s) (keys (applied s)) s = (after, s2)" by fastforce
  have "s2 = s"
    using apply_intended_converged [of "keys (applied s)" "applied s" "applied s" s] k a by (auto simp: domIff)
  moreover have "restore_extra ex (applied s) (keys (applied s)) s = s"
    using k by (intro restore_extra_converged) (auto simp: domIff)
  ultimately show ?thesis
    using assms(2) a by (simp add: reconcile_mtu_def Let_def reported [OF assms(1)])
qed

lemma apply_intended_paths: "map pm_path (fst (apply_intended ex intended reported' ps s)) = ps"
proof (induction ps arbitrary: s)
  case (Cons p ps)
  then show ?case
    by (cases "apply_intended ex intended reported' ps
          (if reported' p \<noteq> Some (the (intended p)) then snd (mx_set ex p (the (intended p)) s) else s)")
       (metis (no_types, lifting) apply_intended.simps(2) case_prod_conv fst_conv list.simps(9) PathMtu.select_convs(1))
qed simp

text \<open>The effect of the two loops on one path \<open>q\<close>: it ends with its old or its intended MTU, and with the
  intended one when no call fails.\<close>

lemma apply_intended_effect:
  assumes "distinct ps" and "\<forall>p \<in> set ps. intended p \<noteq> None \<and> applied s p = reported' p"
    and "s' = snd (apply_intended ex intended reported' ps s)"
  shows "(q \<notin> set ps \<longrightarrow> applied s' q = applied s q) \<and> applied s' q \<in> {applied s q, intended q} \<and>
    ((\<forall>p m s. \<not> isl (fst (mx_set ex p m s))) \<longrightarrow> q \<in> set ps \<longrightarrow> applied s' q = intended q)"
  using assms
proof (induction ps arbitrary: s)
  case (Cons p ps)
  define s2 where "s2 = (if reported' p \<noteq> Some (the (intended p)) then snd (mx_set ex p (the (intended p)) s) else s)"
  obtain r s3 where st: "mx_set ex p (the (intended p)) s = (r, s3)" by fastforce
  have eff: "applied s3 = (case r of Inl _ \<Rightarrow> applied s | Inr _ \<Rightarrow> (applied s)(p \<mapsto> the (intended p)))"
    by (rule set_mtu [OF st])
  have ip: "Some (the (intended p)) = intended p" "applied s p = reported' p" using Cons.prems(2) by auto
  have other: "applied s2 q = applied s q" if "q \<noteq> p" for q
    using that eff st by (auto simp: s2_def split: sum.splits)
  have own: "applied s2 p \<in> {applied s p, intended p}"
    using eff st ip by (auto simp: s2_def split: sum.splits)
  have all: "applied s2 p = intended p" if "\<forall>p m s. \<not> isl (fst (mx_set ex p m s))"
  proof -
    have "\<not> isl r" using that st by (metis fst_conv)
    then show ?thesis using eff st ip by (cases r) (auto simp: s2_def)
  qed
  have s': "s' = snd (apply_intended ex intended reported' ps s2)"
    using Cons.prems(3) by (simp add: s2_def Let_def split: prod.splits)
  have "\<forall>q \<in> set ps. intended q \<noteq> None \<and> applied s2 q = reported' q"
    using Cons.prems(1,2) other by (metis distinct.simps(2) list.set_intros(2))
  note IH = Cons.IH [OF _ this s']
  show ?case
    using IH Cons.prems(1) other [of q] own all by (cases "q = p") auto
qed simp

lemma restore_extra_effect:
  "(q \<notin> set ps \<or> intended q \<noteq> None \<longrightarrow> applied (restore_extra ex intended ps s) q = applied s q) \<and>
   applied (restore_extra ex intended ps s) q \<in> {applied s q, None} \<and>
   ((\<forall>p s. \<not> isl (fst (mx_restore ex p s))) \<longrightarrow> q \<in> set ps \<longrightarrow> intended q = None \<longrightarrow>
      applied (restore_extra ex intended ps s) q = None)"
proof (induction ps arbitrary: s)
  case (Cons p ps)
  define s2 where "s2 = (if intended p = None then snd (mx_restore ex p s) else s)"
  obtain r s3 where st: "mx_restore ex p s = (r, s3)" by fastforce
  have eff: "applied s3 = (case r of Inl _ \<Rightarrow> applied s | Inr _ \<Rightarrow> (applied s)(p := None))"
    by (rule restore_mtu [OF st])
  have other: "applied s2 q = applied s q" if "q \<noteq> p \<or> intended p \<noteq> None"
    using that eff st by (auto simp: s2_def split: sum.splits)
  have own: "applied s2 p \<in> {applied s p, None}"
    using eff st by (auto simp: s2_def split: sum.splits)
  have all: "applied s2 p = None" if "\<forall>p s. \<not> isl (fst (mx_restore ex p s))" "intended p = None"
  proof -
    have "\<not> isl r" using that(1) st by (metis fst_conv)
    then show ?thesis using eff st that(2) by (cases r) (auto simp: s2_def)
  qed
  have "restore_extra ex intended (p # ps) s = restore_extra ex intended ps s2" by (simp add: s2_def)
  then show ?case using Cons.IH [of s2] other own all by (cases "q = p") auto
qed simp

lemma reconcile_effect:
  assumes "finite (dom (applied s))" and "finite (dom (collect_mtu intended))"
    and "s' = snd (reconcile_mtu keys ex intended s)"
  shows "applied s' q \<in> {applied s q, collect_mtu intended q}"
    and "(\<forall>p m s. \<not> isl (fst (mx_set ex p m s))) \<Longrightarrow> (\<forall>p s. \<not> isl (fst (mx_restore ex p s))) \<Longrightarrow>
      applied s' q = collect_mtu intended q"
proof -
  let ?i = "collect_mtu intended"
  have ki: "distinct (keys ?i)" "set (keys ?i) = dom ?i" and kr: "set (keys (applied s)) = dom (applied s)"
    using order assms(1,2) by (simp_all add: enumerates_def)
  obtain after s2 where a: "apply_intended ex ?i (applied s) (keys ?i) s = (after, s2)" by fastforce
  have s': "s' = restore_extra ex ?i (keys (applied s)) s2"
    using assms(3) a by (simp add: reconcile_mtu_def Let_def reported [OF assms(1)])
  have "\<forall>p \<in> set (keys ?i). ?i p \<noteq> None \<and> applied s p = applied s p" using ki by (auto simp: domIff)
  note e1 = apply_intended_effect [OF ki(1) this, of s2 q, unfolded a snd_conv, OF refl]
  note e2 = restore_extra_effect [of q "keys (applied s)" ?i s2, folded s']
  show "applied s' q \<in> {applied s q, ?i q}"
    using e1 e2 ki(2) kr by (cases "?i q = None") (auto simp: domIff)
  show "applied s' q = ?i q" if "\<forall>p m s. \<not> isl (fst (mx_set ex p m s))" "\<forall>p s. \<not> isl (fst (mx_restore ex p s))"
    using e1 e2 ki(2) kr that by (cases "?i q = None"; cases "applied s q = None") (auto simp: domIff)
qed

end

text \<open>The executor's store provides that interface, with any applier.\<close>

lemma store_executor:
  assumes "enumerates keys"
  shows "mtu_executor (store_exec keys ap) fst keys"
proof
  show "fst s' = (case r of Inl _ \<Rightarrow> fst s | Inr _ \<Rightarrow> (fst s)(p \<mapsto> m))"
    if "mx_set (store_exec keys ap) p m s = (r, s')" for p m s r s'
    using that by (auto simp: store_exec_def store_set_def split: prod.splits sum.splits)
  show "fst s' = (case r of Inl _ \<Rightarrow> fst s | Inr _ \<Rightarrow> (fst s)(p := None))"
    if "mx_restore (store_exec keys ap) p s = (r, s')" for p s r s'
    using that by (auto simp: store_exec_def store_restore_def split: prod.splits sum.splits)
  show "collect_mtu (mx_state (store_exec keys ap) s) = fst s" if "finite (dom (fst s))" for s
    using that assms by (simp add: store_exec_def store_state_def collect_list_entries)
qed (rule assms)

text \<open>One order that exists: the sorted keys.\<close>

definition sorted_keys :: hash_order where
  "sorted_keys m = sorted_list_of_set (dom m)"

lemma enumerates_sorted_keys: "enumerates sorted_keys"
  by (simp add: enumerates_def sorted_keys_def)

interpretation mtu_store: mtu_executor "store_exec sorted_keys ap" fst sorted_keys for ap
  by (rule store_executor [OF enumerates_sorted_keys])

text \<open>
  C24. The ownership loop converges. Reconciling the executor's store with a list of intended path MTUs
  leaves every path with its old or its intended MTU; if no call fails the applied MTUs are exactly the
  intended ones, and a store that already agrees is not touched, down to the kernel.
\<close>

theorem mtu_reconcile_converges:
  fixes ap :: "'k applier" and s :: "'k mtu_store"
  assumes "enumerates keys" and "finite (dom (fst s))"
    and "reconcile_mtu keys (store_exec keys ap) intended s = (after, s')"
  shows "(\<forall>q. fst s' q \<in> {fst s q, collect_mtu intended q}) \<and>
    ((\<forall>p m k. \<not> isl (fst (ap_apply ap p m k))) \<and> (\<forall>p k. \<not> isl (fst (ap_restore ap p k))) \<longrightarrow>
       fst s' = collect_mtu intended) \<and>
    (collect_mtu intended = fst s \<longrightarrow> s' = s)"
proof -
  have fin: "finite (dom (collect_mtu intended))" by (rule finite_collect_mtu)
  note ex = store_executor [OF assms(1), of ap]
  have s': "s' = snd (reconcile_mtu keys (store_exec keys ap) intended s)" using assms(3) by simp
  have ok: "\<not> isl (fst (mx_set (store_exec keys ap) p m t)) \<and> \<not> isl (fst (mx_restore (store_exec keys ap) p t))"
    if "\<forall>p m k. \<not> isl (fst (ap_apply ap p m k))" "\<forall>p k. \<not> isl (fst (ap_restore ap p k))" for p m t
    using that(1) [rule_format, of p m "snd t"] that(2) [rule_format, of p "snd t"]
    by (auto simp: store_exec_def store_set_def store_restore_def split: prod.splits sum.splits)
  show ?thesis
    using mtu_executor.reconcile_effect [OF ex assms(2) fin s'] mtu_executor.reconcile_converged [OF ex assms(2), of intended]
      s' ok by auto
qed

subsection \<open>The component manager (\<open>b4_manager.rs\<close>)\<close>

datatype SubsystemEvent =
    SE_QosApplied string string
  | SE_QosRemoved string
  | SE_QosDrift string string
  | SE_QosError string
  | SE_InterfaceMacChanged string string
  | SE_InterfaceMacRestored string
  | SE_InterfaceError string
  | SE_TailscaleStatusChanged string
  | SE_TailscaleReconnected
  | SE_TailscaleError string
  | SE_B4StateChanged string string
  | SE_B4Adapted string string
  | SE_B4Recovered string
  | SE_B4Drift string
  | SE_B4Error string
  | SE_XrayStarted string
  | SE_XrayStopped
  | SE_XraySwitched "string option" string string
  | SE_XrayHealthChanged string string
  | SE_XrayError string
  | SE_VpnPoolUpdated u32 string
  | SE_VpnActiveChanged string string
  | SE_VpnPoolError string

fun subsystem_event_name :: "SubsystemEvent \<Rightarrow> string" where
  "subsystem_event_name (SE_QosApplied i k) = ''qos_applied''"
| "subsystem_event_name (SE_QosRemoved i) = ''qos_removed''"
| "subsystem_event_name (SE_QosDrift i d) = ''qos_drift''"
| "subsystem_event_name (SE_QosError d) = ''qos_error''"
| "subsystem_event_name (SE_InterfaceMacChanged i m) = ''interface_mac_changed''"
| "subsystem_event_name (SE_InterfaceMacRestored i) = ''interface_mac_restored''"
| "subsystem_event_name (SE_InterfaceError d) = ''interface_error''"
| "subsystem_event_name (SE_TailscaleStatusChanged s) = ''tailscale_status_changed''"
| "subsystem_event_name SE_TailscaleReconnected = ''tailscale_reconnected''"
| "subsystem_event_name (SE_TailscaleError d) = ''tailscale_error''"
| "subsystem_event_name (SE_B4StateChanged f s) = ''b4_state_changed''"
| "subsystem_event_name (SE_B4Adapted f c) = ''b4_adapted''"
| "subsystem_event_name (SE_B4Recovered f) = ''b4_recovered''"
| "subsystem_event_name (SE_B4Drift d) = ''b4_drift''"
| "subsystem_event_name (SE_B4Error d) = ''b4_error''"
| "subsystem_event_name (SE_XrayStarted p) = ''xray_started''"
| "subsystem_event_name SE_XrayStopped = ''xray_stopped''"
| "subsystem_event_name (SE_XraySwitched f t r) = ''xray_switched''"
| "subsystem_event_name (SE_XrayHealthChanged p h) = ''xray_health_changed''"
| "subsystem_event_name (SE_XrayError d) = ''xray_error''"
| "subsystem_event_name (SE_VpnPoolUpdated n s) = ''vpn_pool_updated''"
| "subsystem_event_name (SE_VpnActiveChanged p r) = ''vpn_active_changed''"
| "subsystem_event_name (SE_VpnPoolError d) = ''vpn_pool_error''"

record B4FlowView =
  fv_flow :: string
  fv_state :: string
  fv_profile :: string
  fv_last_decision :: "string option"
  fv_mtu :: "u16 option"
  fv_health :: string
  fv_rtt_ms :: "u64 option"
  fv_rtt_var_ms :: "u64 option"
  fv_connect_latency_ms :: "u64 option"
  fv_retransmissions :: "u32 option"
  fv_throughput_bps :: "u64 option"
  fv_dns_ok :: "bool option"
  fv_reset_or_timeout :: "bool option"
  fv_path :: PathHealthView

record B4Snapshot =
  bs_enabled :: bool
  bs_mtu_enabled :: bool
  bs_config_path :: "string option"
  bs_flows :: "B4FlowView list"
  bs_intended_mtu :: "PathMtu list"
  bs_reported_mtu :: "PathMtu list"
  bs_drift :: bool
  bs_last_error :: "string option"
  bs_paused :: bool

record B4Manager =
  mg_controller :: B4Controller
  mg_policy :: B4Policy
  mg_events :: "SubsystemEvent list"
  mg_config_path :: "string option"
  mg_enabled :: bool
  mg_paused :: bool
  mg_last_error :: "string option"
  mg_paths :: "string \<rightharpoonup> PathHealth"

definition B4Manager_from_toml :: "string \<Rightarrow> B4Toml \<Rightarrow> (B4Manager, string) result" where
  "B4Manager_from_toml config_path b4_cfg =
     (case toml_policy (bt_flows b4_cfg) of
        Inl e \<Rightarrow> Inl e
      | Inr policy \<Rightarrow>
          Inr \<lparr>mg_controller = B4Controller_new policy (toml_engine_config b4_cfg), mg_policy = policy,
               mg_events = [], mg_config_path = Some config_path, mg_enabled = et_enabled (bt_engine b4_cfg),
               mg_paused = False, mg_last_error = None, mg_paths = Map.empty\<rparr>)"

definition b4_path_config :: PathHealthConfig where
  "b4_path_config =
     default_PathHealthConfig\<lparr>pc_latency_threshold_ms := Fin 400, pc_enter_degraded := 2, pc_exit_degraded := 3,
        pc_cooldown := secs 10\<rparr>"

text \<open>\<open>d.as_secs_f64() * 1000.0\<close>, where \<open>as_secs_f64\<close> is \<open>secs as f64 + nanos as f64 / 1e9\<close>.\<close>

definition as_secs_f64 :: "Duration \<Rightarrow> f64" where
  "as_secs_f64 d =
     f64_add (f64_round (of_nat (d div 10 ^ 9))) (f64_div (f64_round (of_nat (d mod 10 ^ 9))) (Fin (10 ^ 9)))"

definition sample_for :: "B4Observation \<Rightarrow> PathSample" where
  "sample_for obs =
     \<lparr>sa_latency_ms = map_option (\<lambda>d. f64_mul (as_secs_f64 d) (Fin 1000)) (ob_rtt obs),
      sa_loss_pct = None,
      sa_reachable = (\<not> (ob_reset_or_timeout obs = Some True \<or> ob_dns_ok obs = Some False)),
      sa_degraded_evidence =
        (opt_holds (\<lambda>r. 3 \<le> r) (ob_retransmissions obs) \<or> opt_holds (\<lambda>b. b < 1000) (ob_throughput_bps obs))\<rparr>"

fun debug_capability :: "B4Capability \<Rightarrow> string" where
  "debug_capability Cap_Mtu = ''Mtu''"
| "debug_capability Cap_DnsPath = ''DnsPath''"

fun debug_state :: "B4State \<Rightarrow> string" where
  "debug_state ST_Idle = ''Idle''"
| "debug_state ST_Observing = ''Observing''"
| "debug_state ST_Adapting = ''Adapting''"
| "debug_state ST_Monitoring = ''Monitoring''"
| "debug_state ST_Recovered = ''Recovered''"
| "debug_state ST_Fallback = ''Fallback''"
| "debug_state ST_StrictFail = ''StrictFail''"

fun debug_decision :: "B4Decision \<Rightarrow> string" where
  "debug_decision D_Noop = ''Noop''"
| "debug_decision (D_AdaptMtu m) = ''AdaptMtu { mtu: '' @ show_u m @ '' }''"
| "debug_decision D_SwitchDnsPath = ''SwitchDnsPath''"
| "debug_decision D_UseFallback = ''UseFallback''"
| "debug_decision D_FailStrict = ''FailStrict''"
| "debug_decision D_Recovered = ''Recovered''"

fun debug_class :: "B4Class \<Rightarrow> string" where
  "debug_class CL_Direct = ''Direct''"
| "debug_class CL_Degraded = ''Degraded''"
| "debug_class CL_Interfered = ''Interfered''"
| "debug_class CL_Blocked = ''Blocked''"
| "debug_class CL_Unknown = ''Unknown''"

definition b4_profile_label :: "B4Policy \<Rightarrow> string \<Rightarrow> string" where
  "b4_profile_label policy flow =
     (let profile = policy_profile_for policy flow;
          label = join_with '','' (map debug_capability (bp_capabilities profile));
          label = (if label = [] then ''direct'' else label)
      in if bp_allow_tunnel profile then label @ ''+tunnel'' else label)"

definition default_PathHealthView :: PathHealthView where
  "default_PathHealthView =
     \<lparr>vw_state = [], vw_latency_ms = None, vw_variance_ms = None, vw_loss_pct = None, vw_samples = 0,
      vw_failures = 0, vw_consecutive_failures = 0, vw_reasons = []\<rparr>"

definition duration_ms :: "Duration \<Rightarrow> u64" where
  "duration_ms d = of_nat (d div 10 ^ 6)"

definition flow_view :: "PathMtu list \<Rightarrow> B4Manager \<Rightarrow> string \<Rightarrow> B4FlowView" where
  "flow_view intended mg flow =
     (let en = ct_engine (mg_controller mg);
          observation = ae_last_observations en flow
      in \<lparr>fv_flow = flow, fv_state = debug_state (state_of en flow), fv_profile = b4_profile_label (mg_policy mg) flow,
          fv_last_decision = map_option debug_decision (ae_last_decisions en flow),
          fv_mtu = map_option pm_mtu (find (\<lambda>p. pm_path p = flow) intended),
          fv_health = (case observation of None \<Rightarrow> ''Unknown'' | Some obs \<Rightarrow> debug_class (classify obs)),
          fv_rtt_ms = Option.bind observation (\<lambda>obs. map_option duration_ms (ob_rtt obs)),
          fv_rtt_var_ms = Option.bind observation (\<lambda>obs. map_option duration_ms (ob_rtt_var obs)),
          fv_connect_latency_ms = Option.bind observation (\<lambda>obs. map_option duration_ms (ob_connect_latency obs)),
          fv_retransmissions = Option.bind observation ob_retransmissions,
          fv_throughput_bps = Option.bind observation ob_throughput_bps,
          fv_dns_ok = Option.bind observation ob_dns_ok,
          fv_reset_or_timeout = Option.bind observation ob_reset_or_timeout,
          fv_path = (case mg_paths mg flow of None \<Rightarrow> default_PathHealthView | Some p \<Rightarrow> view p)\<rparr>)"

definition drift_between :: "PathMtu list \<Rightarrow> PathMtu list \<Rightarrow> bool" where
  "drift_between intended reported \<longleftrightarrow> collect_mtu intended \<noteq> collect_mtu reported"

text \<open>\<open>extra\<close> appended to \<open>keys\<close> without repeating a key.\<close>

definition push_missing :: "string list \<Rightarrow> string list \<Rightarrow> string list" where
  "push_missing keys extra = foldl (\<lambda>ks k. if k \<in> set ks then ks else ks @ [k]) keys extra"

type_synonym flow_order = "(string \<rightharpoonup> FlowContext) \<Rightarrow> string list"

definition observe_snapshot :: "hash_order \<Rightarrow> flow_order \<Rightarrow> 's mtu_exec \<Rightarrow> B4Manager \<Rightarrow> 's \<Rightarrow> B4Snapshot" where
  "observe_snapshot keys fkeys ex mg s =
     (let intended = intended_path_mtu keys (mg_controller mg);
          reported = mx_state ex s;
          en = ct_engine (mg_controller mg);
          ks = push_missing (fkeys (ae_flows en)) (flow_domains (ae_policy en))
      in \<lparr>bs_enabled = mg_enabled mg, bs_mtu_enabled = ct_mtu_enabled (mg_controller mg),
          bs_config_path = mg_config_path mg,
          bs_flows = sort_by (\<lambda>a b. fv_flow a \<le> fv_flow b) (map (flow_view intended mg) ks),
          bs_intended_mtu = intended, bs_reported_mtu = reported,
          bs_drift = drift_between intended reported, bs_last_error = mg_last_error mg, bs_paused = mg_paused mg\<rparr>)"

fun engine_event :: "string \<Rightarrow> B4Event \<Rightarrow> SubsystemEvent option" where
  "engine_event flow (EV_Classified f c) = None"
| "engine_event flow (EV_Adapted f c) = Some (SE_B4Adapted flow (debug_capability c))"
| "engine_event flow (EV_Recovered f) = Some (SE_B4Recovered flow)"
| "engine_event flow (EV_StrictFailed f) = Some (SE_B4StateChanged flow ''StrictFail'')"

definition publish_engine_events :: "string \<Rightarrow> B4Event list \<Rightarrow> B4Manager \<Rightarrow> B4Manager" where
  "publish_engine_events flow evs mg = mg\<lparr>mg_events := mg_events mg @ List.map_filter (engine_event flow) evs\<rparr>"

definition feed_path :: "Instant \<times> Instant \<Rightarrow> string \<Rightarrow> B4Manager \<Rightarrow> B4Manager" where
  "feed_path now flow mg =
     (case ae_last_observations (ct_engine (mg_controller mg)) flow of
        None \<Rightarrow> mg
      | Some obs \<Rightarrow>
          let tracker = (case mg_paths mg flow of None \<Rightarrow> PathHealth_new b4_path_config | Some p \<Rightarrow> p)
          in mg\<lparr>mg_paths := (mg_paths mg)(flow \<mapsto> snd (observe (fst now) (snd now) (sample_for obs) tracker))\<rparr>)"

fun run_flows ::
    "(string \<Rightarrow> B4Observation) \<Rightarrow> (string \<Rightarrow> Instant \<times> Instant) \<Rightarrow> 's mtu_exec \<Rightarrow> string list \<Rightarrow>
     B4Manager \<times> 's \<Rightarrow> B4Manager \<times> 's" where
  "run_flows observer clock ex [] ms = ms"
| "run_flows observer clock ex (flow # flows) ms =
     (case run_for ex flow (observer flow) (mg_controller (fst ms), snd ms) of
        (evs, c, s) \<Rightarrow>
          run_flows observer clock ex flows
            (feed_path (clock flow) flow (publish_engine_events flow evs ((fst ms)\<lparr>mg_controller := c\<rparr>)), s))"

definition report_drift :: "PathMtu list \<Rightarrow> B4Manager \<Rightarrow> B4Manager" where
  "report_drift drift mg =
     (if drift \<noteq> [] then
        let detail = ''B4 MTU ownership drift: '' @ show_nat (length drift) @ '' path(s) differ from intent''
        in mg\<lparr>mg_last_error := Some detail, mg_events := mg_events mg @ [SE_B4Drift detail]\<rparr>
      else mg)"

definition b4_cycle ::
    "hash_order \<Rightarrow> flow_order \<Rightarrow> (string \<Rightarrow> B4Observation) \<Rightarrow> (string \<Rightarrow> Instant \<times> Instant) \<Rightarrow> 's mtu_exec \<Rightarrow>
     B4Manager \<times> 's \<Rightarrow> B4Snapshot \<times> B4Manager \<times> 's" where
  "b4_cycle keys fkeys observer clock ex ms =
     (let en = ct_engine (mg_controller (fst ms));
          ks = push_missing (flow_domains (ae_policy en)) (fkeys (ae_flows en));
          ms = (if mg_paused (fst ms) then ms
                else
                  case run_flows observer clock ex ks ms of
                    (mg, s) \<Rightarrow>
                      (case reconcile_mtu keys ex (intended_path_mtu keys (mg_controller mg)) s of
                         (drift, s) \<Rightarrow> (report_drift drift mg, s)))
      in (observe_snapshot keys fkeys ex (fst ms) (snd ms), ms))"

text \<open>One round of the manager's loop: publish, then a cycle unless paused.\<close>

definition b4_loop_round ::
    "hash_order \<Rightarrow> flow_order \<Rightarrow> (string \<Rightarrow> B4Observation) \<Rightarrow> (string \<Rightarrow> Instant \<times> Instant) \<Rightarrow> 's mtu_exec \<Rightarrow>
     B4Manager \<times> 's \<Rightarrow> B4Snapshot list \<times> B4Manager \<times> 's" where
  "b4_loop_round keys fkeys observer clock ex ms =
     (let first = observe_snapshot keys fkeys ex (fst ms) (snd ms) in
      if mg_paused (fst ms) then ([first], ms)
      else case b4_cycle keys fkeys observer clock ex ms of (snap, ms) \<Rightarrow> ([first, snap], ms))"

subsection \<open>Ownership over a run of the manager\<close>

definition intent_bounded :: "B4Controller \<Rightarrow> bool" where
  "intent_bounded c \<longleftrightarrow> engine_bounded (ct_engine c) \<and> finite (dom (ct_intended c)) \<and>
     (\<forall>f m. ct_intended c f = Some m \<longrightarrow> mtu_in_bounds m)"

lemma mark_adapting_bounded: "engine_bounded en \<Longrightarrow> engine_bounded (mark_adapting flow en)"
  by (auto simp: engine_bounded_def mark_adapting_def split: option.splits if_splits)

lemma execute_decision_bounded:
  assumes "intent_bounded c" and "\<And>m. d = D_AdaptMtu m \<Longrightarrow> mtu_in_bounds m"
    and "execute_decision ex flow d (c, s) = (c', s')"
  shows "intent_bounded c'"
  using assms mark_adapting_bounded
  by (cases d) (auto simp: execute_decision_def intent_bounded_def split: if_splits prod.splits sum.splits)

lemma run_for_bounded:
  assumes "intent_bounded c" and "run_for ex flow obs (c, s) = (evs, c', s')"
  shows "intent_bounded c'"
proof -
  obtain d evs2 en where e: "evaluate flow obs (ct_engine c) = (d, evs2, en)"
    by (cases "evaluate flow obs (ct_engine c)") auto
  then have x: "execute_decision ex flow d (c\<lparr>ct_engine := en\<rparr>, s) = (c', s')"
    using assms(2) by (simp add: run_for_def)
  from evaluate_bounded [OF _ e] assms(1)
  have "intent_bounded (c\<lparr>ct_engine := en\<rparr>)" "\<And>m. d = D_AdaptMtu m \<Longrightarrow> mtu_in_bounds m"
    by (auto simp: intent_bounded_def)
  then show ?thesis using x by (rule execute_decision_bounded)
qed

definition manager_owns :: "B4Manager \<Rightarrow> 'k mtu_store \<Rightarrow> bool" where
  "manager_owns mg s \<longleftrightarrow> intent_bounded (mg_controller mg) \<and> ct_intended (mg_controller mg) = fst s"

lemma controller_unchanged [simp]:
  "mg_controller (publish_engine_events flow evs mg) = mg_controller mg"
  "mg_controller (feed_path now flow mg) = mg_controller mg"
  "mg_controller (report_drift drift mg) = mg_controller mg"
  by (simp_all add: publish_engine_events_def feed_path_def report_drift_def Let_def split: option.splits)

lemma new_manager_owns: "B4Manager_from_toml path cfg = Inr mg \<Longrightarrow> manager_owns mg (Map.empty, k)"
  by (auto simp: B4Manager_from_toml_def manager_owns_def intent_bounded_def B4Controller_new_def
      AdaptEngine_with_config_def engine_bounded_def split: sum.splits)

lemma run_flows_owns:
  assumes "enumerates keys"
  shows "manager_owns mg s \<Longrightarrow> run_flows observer clock (store_exec keys ap) fs (mg, s) = (mg', s') \<Longrightarrow> manager_owns mg' s'"
proof (induction fs arbitrary: mg s)
  case (Cons f fs)
  obtain evs c s2 where r: "run_for (store_exec keys ap) f (observer f) (mg_controller mg, s) = (evs, c, s2)"
    by (cases "run_for (store_exec keys ap) f (observer f) (mg_controller mg, s)") auto
  have "intent_bounded c" "ct_intended c = fst s2"
    using Cons.prems(1) run_for_bounded [OF _ r]
      mtu_executor.run_for_keeps_ownership [OF store_executor [OF assms] _ r]
    by (simp_all add: manager_owns_def)
  then have "manager_owns (feed_path (clock f) f (publish_engine_events f evs (mg\<lparr>mg_controller := c\<rparr>))) s2"
    by (simp add: manager_owns_def)
  from Cons.IH [OF this] Cons.prems(2) r show ?case by simp
qed simp

lemma reconcile_owned:
  assumes "enumerates keys" and "manager_owns mg s"
  shows "snd (reconcile_mtu keys (store_exec keys ap) (intended_path_mtu keys (mg_controller mg)) s) = s"
proof (rule mtu_executor.reconcile_converged [OF store_executor [OF assms(1)]])
  show "finite (dom (fst s))" using assms(2) by (auto simp: manager_owns_def intent_bounded_def)
  then show "collect_mtu (intended_path_mtu keys (mg_controller mg)) = fst s"
    using assms by (simp add: intended_path_mtu_def collect_list_entries manager_owns_def)
qed

lemma owned_no_drift:
  assumes "enumerates keys" and "manager_owns mg s"
  shows "\<not> bs_drift (observe_snapshot keys fkeys (store_exec keys ap) mg s)"
  using assms
  by (simp add: observe_snapshot_def Let_def drift_between_def intended_path_mtu_def store_exec_def store_state_def
      manager_owns_def)

text \<open>A round of the loop, with whatever is observed in it and whatever pause flag is set before it.\<close>

inductive b4_runs :: "hash_order \<Rightarrow> flow_order \<Rightarrow> 'k applier \<Rightarrow> B4Manager \<times> 'k mtu_store \<Rightarrow> B4Manager \<times> 'k mtu_store \<Rightarrow> bool"
  for keys fkeys ap ms0 where
  start: "b4_runs keys fkeys ap ms0 ms0"
| round: "b4_runs keys fkeys ap ms0 ms \<Longrightarrow>
     b4_runs keys fkeys ap ms0 (snd (b4_loop_round keys fkeys observer clock (store_exec keys ap) ms))"
| pause: "b4_runs keys fkeys ap ms0 ms \<Longrightarrow> b4_runs keys fkeys ap ms0 ((fst ms)\<lparr>mg_paused := p\<rparr>, snd ms)"

lemma b4_cycle_owns:
  assumes "enumerates keys" and "manager_owns (fst ms) (snd ms)"
    and "b4_cycle keys fkeys observer clock (store_exec keys ap) ms = (snap, ms')"
  shows "manager_owns (fst ms') (snd ms')"
proof (cases "mg_paused (fst ms)")
  case True
  then show ?thesis using assms by (auto simp: b4_cycle_def Let_def)
next
  case False
  let ?ks = "push_missing (flow_domains (ae_policy (ct_engine (mg_controller (fst ms)))))
     (fkeys (ae_flows (ct_engine (mg_controller (fst ms)))))"
  obtain mg s where r: "run_flows observer clock (store_exec keys ap) ?ks (fst ms, snd ms) = (mg, s)"
    by (metis surj_pair)
  then have own: "manager_owns mg s" by (rule run_flows_owns [OF assms(1,2)])
  then show ?thesis
    using assms(3) False r reconcile_owned [OF assms(1) own, of ap]
    by (auto simp: b4_cycle_def Let_def manager_owns_def split: prod.splits)
qed


text \<open>
  The manager takes every intended MTU for drift: a cycle that ends with an intended path MTU sends a
  drift event and sets the last error, although what is applied is what is intended.
\<close>

theorem drift_reported_without_drift:
  assumes "enumerates keys" and "manager_owns (fst ms) (snd ms)" and "\<not> mg_paused (fst ms)"
    and "b4_cycle keys fkeys observer clock (store_exec keys ap) ms = (snap, mg', s')"
    and "ct_intended (mg_controller mg') \<noteq> Map.empty"
  shows "\<not> bs_drift snap \<and> bs_last_error snap \<noteq> None \<and> (\<exists>detail. last (mg_events mg') = SE_B4Drift detail)"
proof -
  let ?ks = "push_missing (flow_domains (ae_policy (ct_engine (mg_controller (fst ms)))))
     (fkeys (ae_flows (ct_engine (mg_controller (fst ms)))))"
  obtain mg s where r: "run_flows observer clock (store_exec keys ap) ?ks (fst ms, snd ms) = (mg, s)"
    by (metis surj_pair)
  then have own: "manager_owns mg s" by (rule run_flows_owns [OF assms(1,2)])
  obtain after s2 where rec: "reconcile_mtu keys (store_exec keys ap) (intended_path_mtu keys (mg_controller mg)) s = (after, s2)"
    by (metis surj_pair)
  have eqs: "mg' = report_drift after mg" "s' = s2" "snap = observe_snapshot keys fkeys (store_exec keys ap) mg' s'"
    using assms(3,4) r rec by (auto simp: b4_cycle_def Let_def)
  have fin: "finite (dom (ct_intended (mg_controller mg)))"
    using own unfolding manager_owns_def intent_bounded_def by blast
  let ?i = "ct_intended (mg_controller mg)"
  have cm: "collect_mtu (intended_path_mtu keys (mg_controller mg)) = ?i"
    using assms(1) fin by (simp add: intended_path_mtu_def collect_list_entries)
  obtain a s3 where ai: "apply_intended (store_exec keys ap) ?i (collect_mtu (mx_state (store_exec keys ap) s)) (keys ?i) s = (a, s3)"
    by (metis surj_pair)
  have "after = a" using rec ai by (simp add: reconcile_mtu_def Let_def cm)
  then have "map pm_path after = keys ?i"
    using mtu_executor.apply_intended_paths [OF store_executor [OF assms(1), of ap], of ?i
        "collect_mtu (mx_state (store_exec keys ap) s)" "keys ?i" s] ai by simp
  moreover have "keys (ct_intended (mg_controller mg)) \<noteq> []"
    using assms(1,5) fin eqs(1) unfolding enumerates_def
    by (metis controller_unchanged(3) dom_eq_empty_conv list.set(1))
  ultimately have "after \<noteq> []" by auto
  moreover have "s2 = s" using reconcile_owned [OF assms(1) own, of ap] rec by simp
  then have "\<not> bs_drift snap"
    using owned_no_drift [OF assms(1), of mg' s' fkeys ap] own eqs by (simp add: manager_owns_def)
  ultimately show ?thesis by (simp add: eqs report_drift_def observe_snapshot_def Let_def)
qed

subsection \<open>A concrete run\<close>

definition demo_b4 :: B4Toml where
  "demo_b4 =
     \<lparr>bt_engine = default_B4EngineToml,
      bt_flows = [\<lparr>ft_domain = ''a.org'', ft_capabilities = [''mtu''], ft_fail = [], ft_allow_direct = True,
                   ft_allow_tunnel = False\<rparr>]\<rparr>"

definition demo_manager :: B4Manager where
  "demo_manager = projr (B4Manager_from_toml ''b4.toml'' demo_b4)"

lemma demo_manager_loaded: "B4Manager_from_toml ''b4.toml'' demo_b4 = Inr demo_manager"
proof -
  have "isl (B4Manager_from_toml ''b4.toml'' demo_b4) = False" by code_simp
  then show ?thesis by (cases "B4Manager_from_toml ''b4.toml'' demo_b4") (simp_all add: demo_manager_def)
qed

text \<open>A flow's turn does not depend on the order of the hash maps.\<close>

lemma run_for_order: "run_for (store_exec keys ap) flow obs cs = run_for (store_exec keys' ap) flow obs cs"
proof -
  have "execute_decision (store_exec keys ap) flow d cs = execute_decision (store_exec keys' ap) flow d cs" for d cs
    by (cases d) (simp_all add: execute_decision_def store_exec_def)
  then show ?thesis by (simp add: run_for_def)
qed

lemma demo_run_for:
  "ct_intended (fst (snd (run_for (store_exec keys record_only_applier) ''a.org'' demo_symptom
     (mg_controller demo_manager, (Map.empty, ()))))) ''a.org'' = Some 1480"
proof -
  have "ct_intended (fst (snd (run_for (store_exec (\<lambda>_. []) record_only_applier) ''a.org'' demo_symptom
     (mg_controller demo_manager, (Map.empty, ()))))) ''a.org'' = Some 1480" by code_simp
  then show ?thesis by (simp only: run_for_order [of keys _ _ _ _ "\<lambda>_. []"])
qed

lemma demo_domains: "push_missing (flow_domains (ae_policy (ct_engine (mg_controller demo_manager)))) [] = [''a.org'']"
  by code_simp

lemma demo_not_paused: "mg_paused demo_manager = False"
  by code_simp

lemma demo_cycle:
  assumes "b4_cycle sorted_keys (\<lambda>_. []) (\<lambda>_. demo_symptom) (\<lambda>_. (0, 0)) (store_exec sorted_keys record_only_applier)
       (demo_manager, (Map.empty, ())) = (snap, mg, s)"
  shows "ct_intended (mg_controller mg) ''a.org'' = Some 1480"
proof -
  obtain evs c s2 where r: "run_for (store_exec sorted_keys record_only_applier) ''a.org'' demo_symptom
     (mg_controller demo_manager, (Map.empty, ())) = (evs, c, s2)" by (metis surj_pair)
  have "mg_controller mg = c"
    using assms r by (auto simp: b4_cycle_def Let_def demo_not_paused demo_domains split: prod.splits)
  then show ?thesis using demo_run_for [of sorted_keys] r by simp
qed

lemma demo_owns: "manager_owns demo_manager (Map.empty, ())"
  by (rule new_manager_owns [OF demo_manager_loaded])

theorem mtu_reconcile_converges_witness:
  "fst (snd (reconcile_mtu sorted_keys (store_exec sorted_keys record_only_applier) [\<lparr>pm_path = ''a'', pm_mtu = 1400\<rparr>]
     ([''b'' \<mapsto> 1300], ()))) = [''a'' \<mapsto> 1400]"
proof -
  obtain after s' where r: "reconcile_mtu sorted_keys (store_exec sorted_keys record_only_applier)
      [\<lparr>pm_path = ''a'', pm_mtu = 1400\<rparr>] ([''b'' \<mapsto> 1300], ()) = (after, s')" by (metis surj_pair)
  have "collect_mtu [\<lparr>pm_path = ''a'', pm_mtu = 1400\<rparr>] = [''a'' \<mapsto> 1400]" by (simp add: collect_mtu_def)
  with mtu_reconcile_converges [OF enumerates_sorted_keys _ r] r show ?thesis
    by (simp add: record_only_applier_def)
qed


theorem drift_reported_without_drift_witness:
  "\<exists>snap mg s detail. b4_cycle sorted_keys (\<lambda>_. []) (\<lambda>_. demo_symptom) (\<lambda>_. (0, 0))
       (store_exec sorted_keys record_only_applier) (demo_manager, (Map.empty, ())) = (snap, mg, s) \<and>
     \<not> bs_drift snap \<and> last (mg_events mg) = SE_B4Drift detail"
proof -
  obtain snap mg s where c: "b4_cycle sorted_keys (\<lambda>_. []) (\<lambda>_. demo_symptom) (\<lambda>_. (0, 0))
      (store_exec sorted_keys record_only_applier) (demo_manager, (Map.empty, ())) = (snap, mg, s)"
    by (metis surj_pair)
  have "ct_intended (mg_controller mg) \<noteq> Map.empty" using demo_cycle [OF c] by auto
  moreover have "manager_owns (fst (demo_manager, (Map.empty, ()))) (snd (demo_manager, (Map.empty, ())))"
    "\<not> mg_paused (fst (demo_manager, (Map.empty, ())))"
    using demo_owns demo_not_paused by simp_all
  ultimately show ?thesis
    using drift_reported_without_drift [OF enumerates_sorted_keys _ _ c] c by blast
qed

end
