(* ===== verification/PathDecision.thy ===== *)
theory PathDecision
  imports MtuControl VpnPool
begin

text \<open>
  The unified path decision (\<open>crates/balansir-daemon/src/path_decision.rs\<close>): one verdict over the direct
  path, B4 and the VPN pool, computed from the published snapshots. A panic (the slice of a profile
  identifier that is cut inside a character) is \<open>None\<close>.
\<close>

datatype OverallPath = OP_Direct | OP_B4Adapting | OP_VpnActive | OP_VpnDegradedDirect | OP_NoPath

fun overall_label :: "OverallPath \<Rightarrow> string" where
  "overall_label OP_Direct = ''Direct''"
| "overall_label OP_B4Adapting = ''B4 adapting''"
| "overall_label OP_VpnActive = ''VPN active''"
| "overall_label OP_VpnDegradedDirect = ''VPN degraded (direct)''"
| "overall_label OP_NoPath = ''No path''"

record PathDecisionView =
  pv_overall :: string
  pv_active_candidate :: string
  pv_reason :: string
  pv_direct_state :: string
  pv_b4_active :: bool
  pv_b4_ineffective :: bool
  pv_vpn_active :: "string option"
  pv_vpn_paused :: bool
  pv_dpi_active :: bool

record VpnSnapshot =
  vn_enabled :: bool
  vn_paused :: bool
  vn_profiles :: "ProfileHealth list"
  vn_active :: "string option"
  vn_last_rotation_reason :: "string option"
  vn_last_rotation_ms :: i64
  vn_last_refresh_reason :: "string option"
  vn_last_error :: "string option"
  vn_updated_ms :: i64

definition count_state :: "string \<Rightarrow> B4Snapshot \<Rightarrow> nat" where
  "count_state st b4 = length (filter (\<lambda>f. vw_state (fv_path f) = st) (bs_flows b4))"

definition b4_direct_state :: "B4Snapshot \<Rightarrow> string \<times> bool" where
  "b4_direct_state b4 =
     (let failing = count_state ''failing'' b4; degraded = count_state ''degraded'' b4;
          healthy = count_state ''healthy'' b4
      in if 0 < failing then (''failing'', True)
         else if healthy < degraded then (''degraded'', True)
         else if 0 < degraded then (''degraded'', False)
         else (''healthy'', False))"

text \<open>\<open>&id[..10]\<close> panics inside a UTF-8 character, that is before a continuation byte.\<close>

definition char_boundary :: "nat \<Rightarrow> string \<Rightarrow> bool" where
  "char_boundary i s \<longleftrightarrow>
     i = length s \<or> i < length s \<and> (let n = of_char (s ! i) :: nat in n < 128 \<or> 192 \<le> n)"

definition ellipsis :: string where
  "ellipsis = map char_of [0xE2, 0x80, 0xA6 :: nat]"

definition short_id :: "string \<Rightarrow> string option" where
  "short_id s =
     (if 10 < length s then if char_boundary 10 s then Some (take 10 s @ ellipsis) else None else Some s)"

definition choose_path ::
    "B4Snapshot \<Rightarrow> VpnSnapshot \<Rightarrow> string \<Rightarrow> bool \<Rightarrow> (OverallPath \<times> string \<times> string) option" where
  "choose_path b4 vpn direct_state b4_ineffective =
     (if vn_paused vpn then Some (OP_Direct, ''direct'', ''VPN pool paused; traffic direct'')
      else case vn_active vpn of
        Some active \<Rightarrow>
          map_option (\<lambda>s. (OP_VpnActive, ''vpn'',
              ''VPN pool selected profile '' @ s @ '' ('' @
              show_nat (length (filter (\<lambda>p. he_state p = PF_Healthy) (vn_profiles vpn))) @
              '' healthy); direct path '' @ direct_state))
            (short_id active)
      | None \<Rightarrow>
          Some (if vn_profiles vpn \<noteq> [] then
                  (OP_VpnDegradedDirect, ''direct'',
                   ''VPN pool has no eligible profile (cooldown/failed); traffic direct'')
                else if bs_enabled b4 \<and> b4_ineffective then
                  (OP_B4Adapting, ''b4'', ''B4 adaptation active but ineffective ('' @ direct_state @ ''); direct'')
                else if bs_enabled b4 \<and> \<not> bs_paused b4 \<and> bs_mtu_enabled b4 then
                  (OP_B4Adapting, ''b4'', ''B4 adapting direct path ('' @ direct_state @ '')'')
                else (OP_Direct, ''direct'', ''Direct path ('' @ direct_state @ '')'')))"

definition decide :: "B4Snapshot \<Rightarrow> VpnSnapshot \<Rightarrow> bool \<Rightarrow> PathDecisionView option" where
  "decide b4 vpn dpi_active =
     (case b4_direct_state b4 of
        (direct_state, b4_ineffective) \<Rightarrow>
          map_option (\<lambda>(overall, active_candidate, reason).
            let (overall, reason) =
                  (if direct_state = ''failing'' \<and> overall \<noteq> OP_VpnActive \<and> \<not> bs_enabled b4 \<and> vn_profiles vpn = []
                   then (OP_NoPath, ''Direct path failing and no alternative available; '' @ reason)
                   else (overall, reason))
            in \<lparr>pv_overall = overall_label overall, pv_active_candidate = active_candidate, pv_reason = reason,
                pv_direct_state = direct_state, pv_b4_active = (bs_enabled b4 \<and> \<not> bs_paused b4),
                pv_b4_ineffective = b4_ineffective, pv_vpn_active = vn_active vpn,
                pv_vpn_paused = vn_paused vpn, pv_dpi_active = dpi_active\<rparr>)
            (choose_path b4 vpn direct_state b4_ineffective))"

subsection \<open>What a verdict means\<close>

lemma overall_label_inject [simp]: "overall_label a = overall_label b \<longleftrightarrow> a = b"
  by (cases a; cases b) simp_all

lemma short_id_ascii: "\<forall>c \<in> set s. (of_char c :: nat) < 128 \<Longrightarrow> short_id s \<noteq> None"
  by (simp add: short_id_def char_boundary_def Let_def)

lemma direct_failing_iff: "fst (b4_direct_state b4) = ''failing'' \<longleftrightarrow> (\<exists>f \<in> set (bs_flows b4). vw_state (fv_path f) = ''failing'')"
  by (auto simp: b4_direct_state_def Let_def count_state_def filter_empty_conv)

lemma ineffective_when_failing: "fst (b4_direct_state b4) = ''failing'' \<Longrightarrow> snd (b4_direct_state b4)"
  by (auto simp: b4_direct_state_def Let_def split: if_splits)

text \<open>
  The verdict is the one the snapshots call for. It exists unless the active profile's identifier is
  cut inside a character. It is VPN exactly when the pool is not paused and has an active profile, and
  then names that path; no path exactly when a direct flow is failing, B4 is off and the pool has neither
  an active nor any other profile; degraded VPN exactly when an unpaused pool has profiles and none
  active; and B4 is only ever named when it is enabled.
\<close>

theorem path_decision_spec:
  "(decide b4 vpn dpi = None \<longleftrightarrow> \<not> vn_paused vpn \<and> (\<exists>a. vn_active vpn = Some a \<and> short_id a = None)) \<and>
   (\<forall>v. decide b4 vpn dpi = Some v \<longrightarrow>
      (pv_overall v = overall_label OP_VpnActive \<longleftrightarrow> \<not> vn_paused vpn \<and> vn_active vpn \<noteq> None) \<and>
      (pv_overall v = overall_label OP_NoPath \<longleftrightarrow>
         (\<exists>f \<in> set (bs_flows b4). vw_state (fv_path f) = ''failing'') \<and> \<not> bs_enabled b4 \<and> vn_profiles vpn = [] \<and>
         (vn_paused vpn \<or> vn_active vpn = None)) \<and>
      (pv_overall v = overall_label OP_VpnDegradedDirect \<longleftrightarrow>
         \<not> vn_paused vpn \<and> vn_active vpn = None \<and> vn_profiles vpn \<noteq> []) \<and>
      (pv_overall v = overall_label OP_B4Adapting \<longrightarrow> bs_enabled b4 \<and> vn_active vpn = None) \<and>
      (pv_active_candidate v = ''vpn'' \<longleftrightarrow> pv_overall v = overall_label OP_VpnActive))"
proof -
  obtain ds ineff where d: "b4_direct_state b4 = (ds, ineff)" by fastforce
  have f: "ds = ''failing'' \<longleftrightarrow> (\<exists>f \<in> set (bs_flows b4). vw_state (fv_path f) = ''failing'')"
    using direct_failing_iff [of b4] d by simp
  show ?thesis
    unfolding f [symmetric] decide_def d prod.case
    by (cases "vn_active vpn")
       (auto simp: choose_path_def Let_def simp del: overall_label.simps split: if_splits)
qed

theorem path_decision_spec_witness:
  "\<exists>v. decide (observe_snapshot (\<lambda>_. []) (\<lambda>_. []) (store_exec (\<lambda>_. []) record_only_applier) demo_manager (Map.empty, ()))
     \<lparr>vn_enabled = True, vn_paused = False, vn_profiles = [default_ProfileHealth], vn_active = None,
      vn_last_rotation_reason = None, vn_last_rotation_ms = 0, vn_last_refresh_reason = None,
      vn_last_error = None, vn_updated_ms = 0\<rparr> True = Some v \<and> pv_overall v = ''VPN degraded (direct)''"
  (is "\<exists>v. decide ?b4 ?vpn True = Some v \<and> _")
proof -
  note p = path_decision_spec [of ?b4 ?vpn True]
  have "decide ?b4 ?vpn True \<noteq> None" using p by simp
  then obtain v where v: "decide ?b4 ?vpn True = Some v" by blast
  with p show ?thesis by simp
qed

text \<open>
  A paused B4 can be reported as adapting: with a failing flow and no VPN profile the verdict is
  \<open>B4 adapting\<close> although the view says that B4 is not active.
\<close>

theorem paused_b4_reported_adapting:
  assumes "bs_enabled b4" and "bs_paused b4" and "f \<in> set (bs_flows b4)" and "vw_state (fv_path f) = ''failing''"
    and "\<not> vn_paused vpn" and "vn_active vpn = None" and "vn_profiles vpn = []"
  shows "\<exists>v. decide b4 vpn dpi = Some v \<and> pv_overall v = ''B4 adapting'' \<and> \<not> pv_b4_active v"
proof -
  have "fst (b4_direct_state b4) = ''failing''" using assms(3,4) direct_failing_iff by blast
  with ineffective_when_failing [OF this] have "b4_direct_state b4 = (''failing'', True)"
    by (cases "b4_direct_state b4") simp
  then show ?thesis using assms by (simp add: decide_def choose_path_def)
qed

definition demo_failing_flow :: B4FlowView where
  "demo_failing_flow =
     (flow_view [] demo_manager ''a.org'')\<lparr>fv_path := default_PathHealthView\<lparr>vw_state := ''failing''\<rparr>\<rparr>"

theorem paused_b4_reported_adapting_witness:
  "\<exists>v. decide
     ((observe_snapshot (\<lambda>_. []) (\<lambda>_. []) (store_exec (\<lambda>_. []) record_only_applier) demo_manager (Map.empty, ()))
        \<lparr>bs_enabled := True, bs_paused := True, bs_flows := [demo_failing_flow]\<rparr>)
     \<lparr>vn_enabled = True, vn_paused = False, vn_profiles = [], vn_active = None,
      vn_last_rotation_reason = None, vn_last_rotation_ms = 0, vn_last_refresh_reason = None,
      vn_last_error = None, vn_updated_ms = 0\<rparr> False = Some v \<and> pv_overall v = ''B4 adapting'' \<and> \<not> pv_b4_active v"
  by (rule paused_b4_reported_adapting [where f = demo_failing_flow])
     (simp_all add: demo_failing_flow_def)

end
