(* ===== verification/Addr.thy ===== *)
theory Addr
  imports Parse Policy Bytes
begin

text \<open>
  IP addresses as text, the way \<open>str::parse\<close> of the standard library reads them: four decimal numbers
  without leading zeros, or eight hexadecimal groups of which one run may be left out and the last two
  written as an IPv4 address. Reading inverts the printing of IPv4 addresses.
\<close>

subsection \<open>Parsers\<close>

definition parse_octet :: "string \<Rightarrow> u8 option" where
  "parse_octet s =
     (if s = [] \<or> 3 < length s \<or> (1 < length s \<and> hd s = CHR ''0'') then None
      else case digits_value 10 0 s of
             Some v \<Rightarrow> if v < 256 then Some (of_nat v) else None
           | None \<Rightarrow> None)"

definition parse_v4 :: "string \<Rightarrow> u32 option" where
  "parse_v4 s =
     (case those (map parse_octet (split_on dot s)) of
        Some bs \<Rightarrow> if length bs = 4 then Some (v4_of_octets bs) else None
      | None \<Rightarrow> None)"

definition parse_group :: "string \<Rightarrow> u16 option" where
  "parse_group s =
     (if s = [] \<or> 4 < length s then None else map_option of_nat (digits_value 16 0 s))"

text \<open>The groups of a part, the last of them possibly an IPv4 address where the flag allows it.\<close>

fun parse_groups :: "bool \<Rightarrow> string list \<Rightarrow> u16 list option" where
  "parse_groups v4 [] = Some []"
| "parse_groups v4 [g] =
     (case parse_group g of
        Some x \<Rightarrow> Some [x]
      | None \<Rightarrow>
          if v4 then map_option (\<lambda>a. [ucast (drop_bit 16 a), ucast a]) (parse_v4 g) else None)"
| "parse_groups v4 (g # gs) =
     (case parse_group g of
        Some x \<Rightarrow> map_option ((#) x) (parse_groups v4 gs)
      | None \<Rightarrow> None)"

definition part_groups :: "bool \<Rightarrow> string \<Rightarrow> u16 list option" where
  "part_groups v4 s = (if s = [] then Some [] else parse_groups v4 (split_on CHR '':'' s))"

text \<open>The text around the first double colon.\<close>

fun split_colons :: "string \<Rightarrow> (string \<times> string) option" where
  "split_colons (a # b # s) =
     (if a = CHR '':'' \<and> b = CHR '':'' then Some ([], s) else map_option (\<lambda>(x, y). (a # x, y)) (split_colons (b # s)))"
| "split_colons s = None"

definition v6_of_groups :: "u16 list \<Rightarrow> 128 word" where
  "v6_of_groups gs = foldl (\<lambda>a g. push_bit 16 a OR ucast g) 0 gs"

definition parse_v6 :: "string \<Rightarrow> 128 word option" where
  "parse_v6 s =
     (case split_colons s of
        None \<Rightarrow>
          (case part_groups True s of
             Some gs \<Rightarrow> if length gs = 8 then Some (v6_of_groups gs) else None
           | None \<Rightarrow> None)
      | Some (h, t) \<Rightarrow>
          (case (part_groups False h, part_groups True t) of
             (Some hs, Some ts) \<Rightarrow>
               if length hs + length ts \<le> 7
               then Some (v6_of_groups (hs @ replicate (8 - length hs - length ts) 0 @ ts)) else None
           | _ \<Rightarrow> None))"

definition parse_ip :: "string \<Rightarrow> IpAddr option" where
  "parse_ip s =
     (case parse_v4 s of
        Some a \<Rightarrow> Some (V4 a)
      | None \<Rightarrow> map_option V6 (parse_v6 s))"

subsection \<open>Round trip\<close>

lemma v4_of_octets_octets: "v4_of_octets (v4_octets a) = a"
proof (rule bit_word_eqI)
  fix n
  assume "n < LENGTH(32)"
  then consider "n < 8" | "8 \<le> n" "n < 16" | "16 \<le> n" "n < 24" | "24 \<le> n" "n < 32" by fastforce
  then show "bit (v4_of_octets (v4_octets a)) n = bit a n"
    by cases (auto simp: v4_of_octets_def v4_octets_def bit_simps)
qed

lemma dot_not_digit: "dot \<notin> set (show_nat n)"
  using show_nat_digits [of n] by (auto simp: list_all_iff ascii_digit_def dot_def)

lemma parse_octet_show: "parse_octet (show_u b) = Some (b :: u8)"
proof -
  define n where "n = unat b"
  have n: "n < 256" using unsigned_less [of b] by (simp add: n_def)
  have c: "char_of (48 + m) \<noteq> CHR ''0''" if "m < 10" "0 < m" for m :: nat
  proof
    assume "char_of (48 + m) = CHR ''0''"
    then have "of_char (char_of (48 + m) :: char) = (48 :: nat)" by (simp del: of_char_of)
    with that show False by simp
  qed
  have "length (show_nat n) \<le> 3 \<and> (1 < length (show_nat n) \<longrightarrow> hd (show_nat n) \<noteq> CHR ''0'')"
  proof (cases "n < 10")
    case True
    then show ?thesis by (simp add: show_nat.simps [of n])
  next
    case False
    show ?thesis
    proof (cases "n < 100")
      case True
      then have "n div 10 < 10" "0 < n div 10" using False by (auto simp: less_mult_imp_div_less)
      then show ?thesis using False c by (simp add: show_nat.simps [of n] show_nat.simps [of "n div 10"])
    next
      case big: False
      then have "\<not> n div 10 < 10" "n div 100 < 10" "0 < n div 100" "n div 10 div 10 = n div 100"
        using n by (auto simp: less_mult_imp_div_less div_mult2_eq [symmetric])
      then show ?thesis
        using False c by (simp add: show_nat.simps [of n] show_nat.simps [of "n div 10"] show_nat.simps [of "n div 100"])
    qed
  qed
  then show ?thesis
    using n digits_value_show_nat [of n] by (auto simp: parse_octet_def show_u_def n_def)
qed

text \<open>Reading the printed form of an IPv4 address gives the address back.\<close>

theorem parse_show_v4: "parse_ip (show_ip (V4 a)) = Some (V4 a)"
proof -
  have s: "split_on dot (show_v4 a) = map show_u (v4_octets a)"
    using dot_not_digit by (simp add: show_v4_def v4_octets_def split_on_append split_on_none show_u_def dot_def)
  have "those (map (parse_octet \<circ> show_u) bs) = Some bs" for bs :: "u8 list"
    by (induction bs) (simp_all add: parse_octet_show)
  then have "parse_v4 (show_v4 a) = Some a"
    using v4_of_octets_octets [of a] by (simp add: parse_v4_def s) (simp add: v4_octets_def)
  then show ?thesis by (simp add: parse_ip_def)
qed

end
