(* ===== verification/HostObserver.thy ===== *)
theory HostObserver
  imports Adapt Addr
begin

text \<open>
  Where the adaptation engine gets its observations (\<open>b4_engine/host.rs\<close>): the kernel's TCP tables, given
  as the texts of \<open>/proc/net/tcp\<close> and \<open>/proc/net/tcp6\<close>, and the DNS registry. Shown are that the decoder reads
  back every IPv4 address of the table, what an observation is made of, and what a domain that the
  registry does not resolve leads to in the engine.
\<close>

text \<open>\<open>hex.as_bytes().chunks(8)\<close>, each read as a hexadecimal number.\<close>

fun groups_le :: "string list \<Rightarrow> u8 list list option" where
  "groups_le [] = Some []"
| "groups_le (g # gs) =
     (case parse_word 16 g of
        None \<Rightarrow> None
      | Some v \<Rightarrow> map_option ((#) (to_le_bytes_u32 v)) (groups_le gs))"

definition remote_ip_str :: "string \<Rightarrow> bool \<Rightarrow> IpAddr option" where
  "remote_ip_str field ipv6 =
     (let hex = hd (split_on (CHR '':'') field) in
      if ipv6 then
        if length hex \<noteq> 32 then None
        else map_option (\<lambda>gs. V6 (v6_of_octets (concat (rev gs))))
               (groups_le [take 8 hex, take 8 (drop 8 hex), take 8 (drop 16 hex), drop 24 hex])
      else if length hex \<noteq> 8 then None
      else map_option (\<lambda>v. V4 (v4_of_octets (to_le_bytes_u32 v))) (parse_word 16 hex))"

type_synonym tcp_signals = "u32 option \<times> bool option"

definition trim_end_colons :: "string \<Rightarrow> string" where
  "trim_end_colons s = rev (dropWhile (\<lambda>c. c = CHR '':'') (rev s))"

definition retransmit_field :: "string list \<Rightarrow> u32 option" where
  "retransmit_field cols =
     (if 6 < length cols then parse_word 10 (trim_end_colons (cols ! 6)) else None)"

definition row_matches :: "(IpAddr \<Rightarrow> bool) \<Rightarrow> bool \<Rightarrow> string list \<Rightarrow> bool" where
  "row_matches matches_key ipv6 cols \<longleftrightarrow>
     4 \<le> length cols \<and> (case remote_ip_str (cols ! 2) ipv6 of None \<Rightarrow> False | Some ip \<Rightarrow> matches_key ip)"

definition scan_row :: "(IpAddr \<Rightarrow> bool) \<Rightarrow> bool \<Rightarrow> string \<Rightarrow> tcp_signals \<Rightarrow> tcp_signals" where
  "scan_row matches_key ipv6 line acc =
     (let cols = split_whitespace line in
      if \<not> row_matches matches_key ipv6 cols then acc
      else
        ((case retransmit_field cols of
            Some r \<Rightarrow> Some (max (case fst acc of None \<Rightarrow> 0 | Some x \<Rightarrow> x) r)
          | None \<Rightarrow> fst acc),
         if cols ! 3 = ''04'' \<or> cols ! 3 = ''05'' then Some True else snd acc))"

definition scan_table :: "(IpAddr \<Rightarrow> bool) \<Rightarrow> bool \<Rightarrow> string \<Rightarrow> tcp_signals \<Rightarrow> tcp_signals" where
  "scan_table matches_key ipv6 table acc =
     fold (scan_row matches_key ipv6) (drop 1 (str_lines table)) acc"

definition flow_matches :: "string \<Rightarrow> IpAddr list option \<Rightarrow> IpAddr \<Rightarrow> bool" where
  "flow_matches flow_key resolved ip =
     (case resolved of Some addrs \<Rightarrow> ip \<in> set addrs | None \<Rightarrow> show_ip ip = flow_key)"

definition host_stack_observe :: "string \<Rightarrow> string \<Rightarrow> string \<Rightarrow> IpAddr list option \<Rightarrow> B4Observation" where
  "host_stack_observe tcp tcp6 flow_key resolved =
     (case scan_table (flow_matches flow_key resolved) True tcp6
             (scan_table (flow_matches flow_key resolved) False tcp (None, None)) of
        (retransmissions, reset_or_timeout) \<Rightarrow>
          default_B4Observation\<lparr>ob_retransmissions := retransmissions, ob_reset_or_timeout := reset_or_timeout\<rparr>)"

text \<open>\<open>CompositeObserver::observe\<close>: the registry is asked twice, at two instants.\<close>

definition composite_observe ::
    "Instant \<Rightarrow> Instant \<Rightarrow> string \<Rightarrow> string \<Rightarrow> string \<Rightarrow> DnsRegistry option \<Rightarrow> B4Observation \<times> DnsRegistry option" where
  "composite_observe now now' tcp tcp6 flow_key dns =
     (case dns of
        None \<Rightarrow> (host_stack_observe tcp tcp6 flow_key None, None)
      | Some registry \<Rightarrow>
          (case registry_resolve now registry flow_key of
             (resolved, registry) \<Rightarrow>
               let obs = host_stack_observe tcp tcp6 flow_key resolved in
               (case registry_resolve now' registry flow_key of
                  (again, registry) \<Rightarrow> (obs\<lparr>ob_dns_ok := Some (again \<noteq> None)\<rparr>, Some registry))))"

subsection \<open>The decoder\<close>

text \<open>How the kernel writes an IPv4 address: the four octets in memory order read as a number of the
  machine, which is little-endian here, in eight hexadecimal digits.\<close>

definition hex_fixed :: "nat \<Rightarrow> nat \<Rightarrow> string" where
  "hex_fixed n v = map (\<lambda>i. hex_digit (v div 16 ^ (n - 1 - i) mod 16)) [0..<n]"

definition le_number :: "u32 \<Rightarrow> nat" where
  "le_number a = unat (v4_of_octets (rev (v4_octets a)))"

lemma hex_fixed_Suc: "hex_fixed (Suc n) v = hex_fixed n (v div 16) @ [hex_digit (v mod 16)]"
proof -
  have "v div 16 ^ (n - i) = v div 16 div 16 ^ (n - 1 - i)" if "i < n" for i
    using that by (simp add: div_mult2_eq [symmetric] power_Suc [symmetric] Suc_diff_Suc)
  then show ?thesis by (simp add: hex_fixed_def)
qed

lemma to_digit_hex [simp]: "d < 16 \<Longrightarrow> to_digit 16 (hex_digit d) = Some d"
  by (auto simp: to_digit_def hex_digit_def Let_def of_char_of)

lemma digits_hex_fixed: "v < 16 ^ n \<Longrightarrow> digits_value 16 0 (hex_fixed n v) = Some v"
proof (induction n arbitrary: v)
  case (Suc n)
  then have "v div 16 < 16 ^ n" by (simp add: less_mult_imp_div_less mult.commute)
  then show ?case by (simp add: hex_fixed_Suc digits_value_append Suc.IH mult.commute)
qed (simp add: hex_fixed_def)

lemma hex_digit_neq:
  assumes "d < 16"
  shows "hex_digit d \<noteq> CHR ''+''" and "hex_digit d \<noteq> CHR '':''"
proof -
  have n: "of_char (hex_digit d) = (if d < 10 then 48 + d else 87 + d)"
    using assms by (auto simp: hex_digit_def of_char_of)
  show "hex_digit d \<noteq> CHR ''+''"
  proof
    assume "hex_digit d = CHR ''+''"
    then have "(if d < 10 then 48 + d else 87 + d) = 43" using n by simp
    then show False by (simp split: if_splits)
  qed
  show "hex_digit d \<noteq> CHR '':''"
  proof
    assume "hex_digit d = CHR '':''"
    then have "(if d < 10 then 48 + d else 87 + d) = 58" using n by simp
    then show False by (simp split: if_splits)
  qed
qed

lemma octets_le: "to_le_bytes_u32 (v4_of_octets (rev (v4_octets a))) = v4_octets a"
  by (auto simp: to_le_bytes_u32_def v4_of_octets_def v4_octets_def bit_simps intro!: bit_word_eqI)

lemma length_hex_fixed [simp]: "length (hex_fixed n v) = n"
  by (simp add: hex_fixed_def)

lemma set_hex_fixed: "c \<in> set (hex_fixed n v) \<Longrightarrow> \<exists>d < 16. c = hex_digit d"
  unfolding hex_fixed_def using mod_less_divisor [of 16] by (force simp del: mod_less_divisor)

lemma parse_hex_fixed: "0 < n \<Longrightarrow> v < 16 ^ n \<Longrightarrow> v < 2 ^ w \<Longrightarrow> parse_unsigned 16 w (hex_fixed n v) = Some v"
proof -
  assume "0 < n" "v < 16 ^ n" "v < 2 ^ w"
  then obtain c r where cr: "hex_fixed n v = c # r" by (metis length_hex_fixed length_greater_0_conv neq_Nil_conv)
  moreover have "c \<noteq> CHR ''+''" using set_hex_fixed [of c n v] hex_digit_neq(1) cr by (metis list.set_intros(1))
  ultimately show ?thesis
    using digits_hex_fixed [OF \<open>v < 16 ^ n\<close>] \<open>v < 2 ^ w\<close> by (simp add: parse_unsigned_def)
qed

text \<open>Every IPv4 row of the table is read back.\<close>

lemma remote_ip_decodes_v4: "remote_ip_str (hex_fixed 8 (le_number a) @ CHR '':'' # port) False = Some (V4 a)"
proof -
  have lt: "le_number a < 2 ^ 32" by (simp add: le_number_def unsigned_less [where 'b = 32, simplified])
  have "CHR '':'' \<notin> set (hex_fixed 8 (le_number a))"
    using set_hex_fixed [of "CHR '':''" 8 "le_number a"] hex_digit_neq(2) by metis
  then have "hd (split_on (CHR '':'') (hex_fixed 8 (le_number a) @ CHR '':'' # port)) = hex_fixed 8 (le_number a)"
    by (simp add: split_on_append)
  moreover have "parse_word 16 (hex_fixed 8 (le_number a)) = Some (v4_of_octets (rev (v4_octets a)) :: u32)"
    using lt parse_hex_fixed [of 8 "le_number a" 32] by (simp add: parse_word_def le_number_def)
  ultimately show ?thesis by (simp add: remote_ip_str_def octets_le v4_of_octets_octets)
qed

subsection \<open>What an observation is made of\<close>

definition matching_rows :: "(IpAddr \<Rightarrow> bool) \<Rightarrow> bool \<Rightarrow> string \<Rightarrow> string list list" where
  "matching_rows matches_key ipv6 table =
     filter (row_matches matches_key ipv6) (map split_whitespace (drop 1 (str_lines table)))"

definition torn_down :: "string list \<Rightarrow> bool" where
  "torn_down cols \<longleftrightarrow> cols ! 3 = ''04'' \<or> cols ! 3 = ''05''"

lemma scan_rows_reset:
  "snd (fold (scan_row mk v6) ls acc) =
     (if \<exists>cols \<in> set (filter (row_matches mk v6) (map split_whitespace ls)). torn_down cols then Some True else snd acc)"
  by (induction ls arbitrary: acc) (auto simp: scan_row_def Let_def torn_down_def)

text \<open>
  An observation of the host tables says exactly this: a reset was seen iff some row of either table
  belongs to the flow, by its resolved addresses or by its own name, and is in state 04 or 05; nothing is
  said about round-trip times, throughput, MTU or DNS; and every IPv4 row is matched by the address the
  kernel wrote there.
\<close>

theorem host_observation_spec:
  "(let m = flow_matches flow resolved; obs = host_stack_observe tcp tcp6 flow resolved in
    ob_reset_or_timeout obs =
      (if \<exists>cols \<in> set (matching_rows m False tcp) \<union> set (matching_rows m True tcp6). torn_down cols
       then Some True else None) \<and>
    ob_connect_latency obs = None \<and> ob_rtt obs = None \<and> ob_rtt_var obs = None \<and>
    ob_throughput_bps obs = None \<and> ob_dns_ok obs = None \<and> ob_mtu_symptom obs = None \<and>
    (\<forall>a port. remote_ip_str (hex_fixed 8 (le_number a) @ CHR '':'' # port) False = Some (V4 a)))"
proof -
  let ?m = "flow_matches flow resolved"
  have s: "snd (scan_table ?m v6 t acc) =
      (if \<exists>cols \<in> set (matching_rows ?m v6 t). torn_down cols then Some True else snd acc)" for v6 t acc
    by (simp add: scan_table_def matching_rows_def scan_rows_reset)
  show ?thesis
    unfolding Let_def host_stack_observe_def
    using s [of True tcp6 "scan_table ?m False tcp (None, None)"] s [of False tcp "(None, None)"]
    by (cases "scan_table ?m True tcp6 (scan_table ?m False tcp (None, None))")
       (auto simp: default_B4Observation_def remote_ip_decodes_v4)
qed

theorem host_observation_spec_witness:
  "ob_reset_or_timeout (host_stack_observe [] [] ''a.org'' None) = None"
  using host_observation_spec [of "''a.org''" None "[]" "[]"]
  by (simp add: Let_def matching_rows_def str_lines_def)

text \<open>
  A domain the registry does not know is treated as interfered with: its observation says that DNS
  failed, whatever the TCP tables show, so the engine classifies the flow as interfered.
\<close>

theorem unresolved_domain_interfered:
  assumes "registry_resolve now registry flow = (None, registry1)"
    and "registry_resolve now' registry1 flow = (None, registry2)"
  shows "classify (fst (composite_observe now now' tcp tcp6 flow (Some registry))) = CL_Interfered"
proof -
  let ?o = "host_stack_observe tcp tcp6 flow None"
  have "ob_mtu_symptom ?o = None"
    by (simp add: host_stack_observe_def default_B4Observation_def split: prod.splits)
  then show ?thesis
    using assms by (simp add: composite_observe_def Let_def classify_def any_signal_def)
qed

theorem unresolved_domain_interfered_witness:
  "classify (fst (composite_observe 0 1 [] [] ''a.org'' (Some Map.empty))) = CL_Interfered"
  by (rule unresolved_domain_interfered [of _ _ _ Map.empty _ Map.empty]) (simp_all add: registry_resolve_def)

end
