(* ===== verification/DnsWire.thy ===== *)
theory DnsWire
  imports Bytes Parse Policy
begin

text \<open>
  The DNS message parser of the policy plane (\<open>crates/balansir-daemon/src/dns_plane.rs\<close>). Messages come
  from the network, and the module promises that hostile ones neither panic nor loop. Names are decoded
  with compression pointers, answers are bounded, and the addresses of the queried name and of its CNAME
  chain become an observation. A panic is \<open>None\<close> in the outer option.

  \<open>String::from_utf8_lossy\<close> replaces invalid bytes by others that are outside ASCII as well; a name with
  such a byte is rejected by the normalisation either way, so labels are kept as their bytes.
\<close>

subsection \<open>Definitions\<close>

definition HEADER_LEN :: nat where "HEADER_LEN = 12"
definition MAX_NAME_LEN :: nat where "MAX_NAME_LEN = 255"
definition MAX_POINTER_JUMPS :: nat where "MAX_POINTER_JUMPS = 64"
definition MAX_CNAME_CHAIN :: nat where "MAX_CNAME_CHAIN = 8"
definition MAX_ANSWERS :: nat where "MAX_ANSWERS = 2048"
definition TYPE_A :: u16 where "TYPE_A = 1"
definition TYPE_CNAME :: u16 where "TYPE_CNAME = 5"
definition TYPE_AAAA :: u16 where "TYPE_AAAA = 28"
definition MIN_TTL_SECS :: nat where "MIN_TTL_SECS = 60"
definition MAX_TTL_SECS :: nat where "MAX_TTL_SECS = 3600"

record DnsRecord =
  rr_owner :: string
  rr_rtype :: u16
  rr_ttl :: u32
  rr_off :: nat
  rr_len :: nat

datatype DnsError =
    TooShort | BadLabel | NameTooLong | PointerLoop | PointerOutOfRange | NotAResponse | TooManyRecords

record DnsObservation =
  do_domain :: string
  do_ips :: "IpAddr list"
  do_ttl :: Duration

definition host_char :: "char \<Rightarrow> bool" where
  "host_char c \<longleftrightarrow>
     (let n = of_char c :: nat in
      48 \<le> n \<and> n \<le> 57 \<or> 65 \<le> n \<and> n \<le> 90 \<or> 97 \<le> n \<and> n \<le> 122 \<or> c = CHR ''-'')"

definition normalize_domain :: "string \<Rightarrow> string option" where
  "normalize_domain name =
     (let s = to_ascii_lowercase (trim_end_dots name) in
      if s = [] \<or> MAX_NAME_LEN < length s then None
      else if \<not> list_all (\<lambda>c. host_char c \<or> c = dot) s then None
      else if list_ex (\<lambda>l. l = []) (labels s) then None
      else Some s)"

record DnsHeader =
  dh_qr :: bool
  dh_tc :: bool
  dh_rcode :: u8
  dh_qdcount :: u16
  dh_ancount :: u16

definition parse_header :: "u8 list \<Rightarrow> DnsHeader option option" where
  "parse_header msg =
     (if length msg < HEADER_LEN then Some None
      else do {
        a \<leftarrow> index msg 2; b \<leftarrow> index msg 3;
        q1 \<leftarrow> index msg 4; q0 \<leftarrow> index msg 5;
        n1 \<leftarrow> index msg 6; n0 \<leftarrow> index msg 7;
        let flags = u16_from_be a b;
        Some (Some \<lparr>dh_qr = (flags AND 0x8000 \<noteq> 0), dh_tc = (flags AND 0x0200 \<noteq> 0),
                    dh_rcode = ucast (flags AND 0x000F), dh_qdcount = u16_from_be q1 q0,
                    dh_ancount = u16_from_be n1 n0\<rparr>)
      })"

definition string_of_bytes :: "u8 list \<Rightarrow> string" where
  "string_of_bytes bs = map (\<lambda>b. char_of (unat b)) bs"

definition push_label :: "string \<Rightarrow> u8 list \<Rightarrow> string" where
  "push_label out label = (if out = [] then string_of_bytes label else out @ dot # string_of_bytes label)"

definition keep_first :: "nat option \<Rightarrow> nat \<Rightarrow> nat option" where
  "keep_first after p = (case after of None \<Rightarrow> Some p | Some a \<Rightarrow> Some a)"

function name_loop ::
    "u8 list \<Rightarrow> nat \<Rightarrow> string \<Rightarrow> nat option \<Rightarrow> nat \<Rightarrow> nat list \<Rightarrow> nat \<Rightarrow> (string \<times> nat option, DnsError) result option" where
  "name_loop msg pos out after jumps visited tot =
     (case index msg pos of
        None \<Rightarrow> Some (Inl TooShort)
      | Some len \<Rightarrow>
          if len = 0 then Some (Inr (out, keep_first after (pos + 1)))
          else if len AND 0xC0 = 0xC0 then
            (case index msg (pos + 1) of
               None \<Rightarrow> Some (Inl TooShort)
             | Some lo \<Rightarrow>
                 let target = unat (u16_from_be (len AND 0x3F) lo) in
                 if MAX_POINTER_JUMPS < jumps + 1 then Some (Inl PointerLoop)
                 else if length msg \<le> target \<or> target \<in> set visited then Some (Inl PointerOutOfRange)
                 else name_loop msg target out (keep_first after (pos + 2)) (jumps + 1) (visited @ [target]) tot)
          else if len \<le> 63 then
            let stop = pos + 1 + unat len; tot' = tot + 1 + unat len in
            if length msg < stop then Some (Inl TooShort)
            else
              (case slice msg (pos + 1) stop of
                 None \<Rightarrow> None
               | Some label \<Rightarrow>
                   if MAX_NAME_LEN < tot' then Some (Inl NameTooLong)
                   else name_loop msg stop (push_label out label) after jumps visited tot')
          else Some (Inl BadLabel))"
  by pat_completeness auto
termination
  by (relation "measures [\<lambda>(msg, pos, out, after, jumps, visited, tot). MAX_POINTER_JUMPS - jumps,
        \<lambda>(msg, pos, out, after, jumps, visited, tot). MAX_NAME_LEN - tot]") auto

declare name_loop.simps [simp del]

definition decode_name :: "u8 list \<Rightarrow> nat \<Rightarrow> (string \<times> nat, DnsError) result option" where
  "decode_name msg start =
     (case name_loop msg start [] None 0 [] 0 of
        None \<Rightarrow> None
      | Some (Inl e) \<Rightarrow> Some (Inl e)
      | Some (Inr (out, after)) \<Rightarrow>
          (case normalize_domain out of
             None \<Rightarrow> Some (Inl BadLabel)
           | Some name \<Rightarrow> Some (Inr (name, case after of Some a \<Rightarrow> a | None \<Rightarrow> start))))"

fun skip_questions :: "u8 list \<Rightarrow> nat \<Rightarrow> nat \<Rightarrow> (nat, DnsError) result option" where
  "skip_questions msg 0 pos = Some (Inr pos)"
| "skip_questions msg (Suc n) pos =
     (case decode_name msg pos of
        None \<Rightarrow> None
      | Some (Inl e) \<Rightarrow> Some (Inl e)
      | Some (Inr (name, next)) \<Rightarrow>
          if length msg < next + 4 then Some (Inl TooShort) else skip_questions msg n (next + 4))"

definition parse_record :: "u8 list \<Rightarrow> string \<Rightarrow> nat \<Rightarrow> (DnsRecord \<times> nat, DnsError) result option" where
  "parse_record msg owner pos =
     (if length msg < pos + 10 then Some (Inl TooShort)
      else do {
        t1 \<leftarrow> index msg pos; t0 \<leftarrow> index msg (pos + 1);
        l3 \<leftarrow> index msg (pos + 4); l2 \<leftarrow> index msg (pos + 5); l1 \<leftarrow> index msg (pos + 6); l0 \<leftarrow> index msg (pos + 7);
        rdlen \<leftarrow> be_len msg (pos + 8);
        if length msg < pos + 10 + rdlen then Some (Inl TooShort)
        else Some (Inr (\<lparr>rr_owner = owner, rr_rtype = u16_from_be t1 t0, rr_ttl = u32_from_be l3 l2 l1 l0,
                         rr_off = pos + 10, rr_len = rdlen\<rparr>, pos + 10 + rdlen))
      })"

fun answer_loop :: "u8 list \<Rightarrow> nat \<Rightarrow> nat \<Rightarrow> DnsRecord list \<Rightarrow> (DnsRecord list, DnsError) result option" where
  "answer_loop msg 0 pos out = Some (Inr out)"
| "answer_loop msg (Suc n) pos out =
     (if MAX_ANSWERS \<le> length out then Some (Inl TooManyRecords)
      else
        (case decode_name msg pos of
           None \<Rightarrow> None
         | Some (Inl e) \<Rightarrow> Some (Inl e)
         | Some (Inr (owner, next)) \<Rightarrow>
             (case parse_record msg owner next of
                None \<Rightarrow> None
              | Some (Inl e) \<Rightarrow> Some (Inl e)
              | Some (Inr (r, next)) \<Rightarrow> answer_loop msg n next (out @ [r]))))"

definition parse_answers :: "u8 list \<Rightarrow> (DnsRecord list, DnsError) result option" where
  "parse_answers msg =
     (case parse_header msg of
        None \<Rightarrow> None
      | Some None \<Rightarrow> Some (Inl TooShort)
      | Some (Some hdr) \<Rightarrow>
          if \<not> dh_qr hdr then Some (Inl NotAResponse)
          else
            (case skip_questions msg (unat (dh_qdcount hdr)) HEADER_LEN of
               None \<Rightarrow> None
             | Some (Inl e) \<Rightarrow> Some (Inl e)
             | Some (Inr pos) \<Rightarrow> answer_loop msg (unat (dh_ancount hdr)) pos []))"

definition query_name :: "u8 list \<Rightarrow> string option option" where
  "query_name msg =
     (case parse_header msg of
        None \<Rightarrow> None
      | Some None \<Rightarrow> Some None
      | Some (Some hdr) \<Rightarrow>
          if dh_qr hdr \<or> dh_qdcount hdr = 0 then Some None
          else
            (case decode_name msg HEADER_LEN of
               None \<Rightarrow> None
             | Some (Inl e) \<Rightarrow> Some None
             | Some (Inr (name, pos)) \<Rightarrow> if length msg < pos + 4 then Some None else Some (Some name)))"

text \<open>The walk along the CNAME chain; the inner \<open>None\<close> is the early return on a bad target.\<close>

function cname_chain :: "u8 list \<Rightarrow> DnsRecord list \<Rightarrow> string list \<Rightarrow> string list option option" where
  "cname_chain msg answers chain =
     (if chain = [] then Some None
      else
        (case find (\<lambda>r. rr_rtype r = TYPE_CNAME \<and> rr_owner r = last chain) answers of
           None \<Rightarrow> Some (Some chain)
         | Some cname \<Rightarrow>
             (case decode_name msg (rr_off cname) of
                None \<Rightarrow> None
              | Some (Inl e) \<Rightarrow> Some None
              | Some (Inr (target, _)) \<Rightarrow>
                  if MAX_CNAME_CHAIN \<le> length chain \<or> target \<in> set chain then Some (Some chain)
                  else cname_chain msg answers (chain @ [target]))))"
  by pat_completeness auto
termination
  by (relation "measure (\<lambda>(msg, answers, chain). MAX_CNAME_CHAIN - length chain)") auto

declare cname_chain.simps [simp del]

text \<open>One record of the collection loop; the inner \<open>None\<close> is the early return of \<open>get(..)?\<close>.\<close>

definition collect_record ::
    "u8 list \<Rightarrow> string list \<Rightarrow> DnsRecord \<Rightarrow> IpAddr list \<times> u32 \<Rightarrow> (IpAddr list \<times> u32) option" where
  "collect_record msg chain r acc =
     (if rr_rtype r \<noteq> TYPE_A \<and> rr_rtype r \<noteq> TYPE_AAAA \<or> rr_owner r \<notin> set chain then Some acc
      else
        (case slice msg (rr_off r) (rr_off r + rr_len r) of
           None \<Rightarrow> None
         | Some raw \<Rightarrow>
             if rr_rtype r = TYPE_A \<and> rr_len r = 4 then
               Some (fst acc @ [V4 (v4_of_octets raw)], min (snd acc) (rr_ttl r))
             else if rr_rtype r = TYPE_AAAA \<and> rr_len r = 16 then
               Some (fst acc @ [V6 (v6_of_octets raw)], min (snd acc) (rr_ttl r))
             else Some acc))"

fun collect_records ::
    "u8 list \<Rightarrow> string list \<Rightarrow> DnsRecord list \<Rightarrow> IpAddr list \<times> u32 \<Rightarrow> (IpAddr list \<times> u32) option" where
  "collect_records msg chain [] acc = Some acc"
| "collect_records msg chain (r # rs) acc =
     (case collect_record msg chain r acc of
        None \<Rightarrow> None
      | Some acc \<Rightarrow> collect_records msg chain rs acc)"

definition clamp_ttl :: "u32 \<Rightarrow> nat" where
  "clamp_ttl t = max MIN_TTL_SECS (min MAX_TTL_SECS (unat t))"

definition observe_response :: "string \<Rightarrow> u8 list \<Rightarrow> DnsObservation option option" where
  "observe_response query response =
     (case parse_header response of
        None \<Rightarrow> None
      | Some None \<Rightarrow> Some None
      | Some (Some hdr) \<Rightarrow>
          if \<not> dh_qr hdr \<or> dh_tc hdr \<or> dh_rcode hdr \<noteq> 0 then Some None
          else
            (case normalize_domain query of
               None \<Rightarrow> Some None
             | Some qname \<Rightarrow>
                 (case parse_answers response of
                    None \<Rightarrow> None
                  | Some (Inl e) \<Rightarrow> Some None
                  | Some (Inr answers) \<Rightarrow>
                      (case cname_chain response answers [qname] of
                         None \<Rightarrow> None
                       | Some None \<Rightarrow> Some None
                       | Some (Some chain) \<Rightarrow>
                           (case collect_records response chain answers ([], - 1) of
                              None \<Rightarrow> Some None
                            | Some (ips, ttl) \<Rightarrow>
                                if ips = [] then Some None
                                else Some (Some \<lparr>do_domain = qname, do_ips = ips, do_ttl = clamp_ttl ttl * 10 ^ 9\<rparr>))))))"

definition ingest :: "Instant \<Rightarrow> DnsRegistry \<Rightarrow> u8 list \<Rightarrow> u8 list \<Rightarrow> (bool \<times> DnsRegistry) option" where
  "ingest now registry query response =
     (case query_name query of
        None \<Rightarrow> None
      | Some None \<Rightarrow> Some (False, registry)
      | Some (Some qname) \<Rightarrow>
          (case observe_response qname response of
             None \<Rightarrow> None
           | Some None \<Rightarrow> Some (False, registry)
           | Some (Some obs) \<Rightarrow>
               Some (True, registry_insert_with_ttl now registry (do_domain obs) (do_ips obs) (do_ttl obs))))"

subsection \<open>No message panics\<close>

lemma parse_header_total: "parse_header msg \<noteq> None"
  by (simp add: parse_header_def HEADER_LEN_def index_Some Let_def)

lemma name_loop_total: "name_loop msg pos out after jumps visited tot \<noteq> None"
proof (induction msg pos out after jumps visited tot rule: name_loop.induct)
  case (1 msg pos out after jumps visited tot)
  show ?case
    by (subst name_loop.simps)
       (auto simp: Let_def slice_def split: option.splits dest: 1)
qed

lemma decode_name_total: "decode_name msg pos \<noteq> None"
  using name_loop_total [of msg pos "[]" None 0 "[]" 0]
  by (auto simp: decode_name_def split: option.splits sum.splits prod.splits)

lemma skip_questions_total: "skip_questions msg n pos \<noteq> None"
  by (induction n arbitrary: pos) (auto simp: decode_name_total split: option.splits sum.splits prod.splits)

lemma parse_record_total: "parse_record msg owner pos \<noteq> None"
  by (simp add: parse_record_def index_Some be_len_Some)

lemma answer_loop_total: "answer_loop msg n pos out \<noteq> None"
  by (induction n arbitrary: pos out)
     (auto simp: decode_name_total parse_record_total split: option.splits sum.splits prod.splits)

lemma parse_answers_total: "parse_answers msg \<noteq> None"
  by (auto simp: parse_answers_def parse_header_total skip_questions_total
      answer_loop_total [unfolded not_None_eq] split: option.splits sum.splits)

lemma cname_chain_total: "cname_chain msg answers chain \<noteq> None"
proof (induction msg answers chain rule: cname_chain.induct)
  case (1 msg answers chain)
  show ?case
    by (subst cname_chain.simps)
       (auto simp: decode_name_total split: option.splits sum.splits prod.splits dest: 1)
qed

lemma query_name_total: "query_name query \<noteq> None"
  by (auto simp: query_name_def parse_header_total decode_name_total split: option.splits sum.splits prod.splits)

lemma observe_response_total: "observe_response qname response \<noteq> None"
  by (auto simp: observe_response_def parse_header_total parse_answers_total cname_chain_total
      split: option.splits sum.splits prod.splits)

lemma ingest_total: "ingest now registry query response \<noteq> None"
  by (auto simp: ingest_def query_name_total observe_response_total split: option.splits)

text \<open>
  C17. No message makes the DNS plane panic, and none keeps it from returning: the parser is total on all
  byte sequences, queries and responses alike.
\<close>

theorem dns_plane_total: "\<exists>recorded registry'. ingest now registry query response = Some (recorded, registry')"
  using ingest_total [of now registry query response] by (metis not_None_eq surj_pair)

subsection \<open>Encoded names\<close>

text \<open>How a sender writes a name: its labels, each after its length, and a zero.\<close>

definition encode_label :: "string \<Rightarrow> u8 list" where
  "encode_label l = of_nat (length l) # bytes_of l"

definition encode_labels :: "string list \<Rightarrow> u8 list" where
  "encode_labels ls = concat (map encode_label ls)"

definition encode_name :: "string list \<Rightarrow> u8 list" where
  "encode_name ls = encode_labels ls @ [0]"

definition wire_label :: "string \<Rightarrow> bool" where
  "wire_label l \<longleftrightarrow> l \<noteq> [] \<and> length l \<le> 63"

definition wire_name :: "string list \<Rightarrow> bool" where
  "wire_name ls \<longleftrightarrow> ls \<noteq> [] \<and> list_all wire_label ls \<and> length (encode_labels ls) \<le> 255"

definition host_label :: "string \<Rightarrow> bool" where
  "host_label l \<longleftrightarrow> l \<noteq> [] \<and> length l \<le> 63 \<and> list_all host_char l"

definition host_name :: "string list \<Rightarrow> bool" where
  "host_name ls \<longleftrightarrow> ls \<noteq> [] \<and> list_all host_label ls \<and> length (encode_labels ls) \<le> 255"

lemma encode_labels_simps [simp]:
  "encode_labels [] = []" "encode_labels (l # ls) = encode_label l @ encode_labels ls"
  by (simp_all add: encode_labels_def)

lemma length_encode_label [simp]: "length (encode_label l) = Suc (length l)"
  by (simp add: encode_label_def bytes_of_def)

lemma string_of_bytes_of [simp]: "string_of_bytes (bytes_of s) = s"
proof -
  have "char_of (unat (of_char c :: u8)) = c" for c
  proof -
    have "(of_char c :: u8) = of_nat (of_char c)" by (simp add: of_nat_of_char)
    moreover have "(of_char c :: nat) < 256" by simp
    ultimately have "unat (of_char c :: u8) = of_char c" by (simp add: unsigned_of_nat take_bit_nat_eq_self)
    then show ?thesis by simp
  qed
  then show ?thesis by (induction s) (simp_all add: string_of_bytes_def bytes_of_def)
qed

lemma len_byte:
  assumes "l \<noteq> []" and "length l \<le> 63"
  defines "b \<equiv> of_nat (length l) :: u8"
  shows "b \<noteq> 0" and "b AND 0xC0 \<noteq> 0xC0" and "b \<le> 63" and "unat b = length l"
proof -
  show u: "unat b = length l" using assms(2) by (simp add: b_def unsigned_of_nat take_bit_nat_eq_self)
  show "b \<noteq> 0" using u assms(1) by auto
  show le: "b \<le> 63" using u assms(2) by (simp add: word_le_nat_alt)
  have "b AND 0xC0 \<le> b" by (rule word_and_le2)
  then show "b AND 0xC0 \<noteq> 0xC0" using le by (auto simp: word_le_nat_alt)
qed

fun push_labels :: "string \<Rightarrow> string list \<Rightarrow> string" where
  "push_labels out [] = out"
| "push_labels out (l # ls) = push_labels (push_label out (bytes_of l)) ls"

lemma host_wire: "host_label l \<Longrightarrow> wire_label l" "host_name ls \<Longrightarrow> wire_name ls"
  by (auto simp: host_label_def wire_label_def host_name_def wire_name_def list_all_iff)

lemma name_loop_label:
  assumes "wire_label l" and "msg = pre @ encode_label l @ post" and "tot + Suc (length l) \<le> 255"
  shows "name_loop msg (length pre) out after jumps visited tot =
    name_loop msg (length (pre @ encode_label l)) (push_label out (bytes_of l)) after jumps visited (tot + Suc (length l))"
proof -
  let ?b = "of_nat (length l) :: u8"
  note b = len_byte [of l]
  have l: "l \<noteq> []" "length l \<le> 63" using assms(1) by (simp_all add: wire_label_def)
  have i: "index msg (length pre) = Some ?b"
    using assms(2) by (simp add: index_def encode_label_def nth_append)
  have s: "slice msg (length pre + 1) (length pre + 1 + length l) = Some (bytes_of l)"
    using assms(2) by (simp add: slice_def encode_label_def bytes_of_def)
  have "\<not> length msg < length pre + 1 + length l" using assms(2) by simp
  then show ?thesis
    using assms(3) b(1-3) [OF l] s
    by (subst name_loop.simps) (simp add: i Let_def b(4) [OF l] MAX_NAME_LEN_def)
qed

lemma name_loop_labels:
  "list_all wire_label ls \<Longrightarrow> msg = pre @ encode_labels ls @ post \<Longrightarrow> tot + length (encode_labels ls) \<le> 255 \<Longrightarrow>
   name_loop msg (length pre) out after jumps visited tot =
   name_loop msg (length pre + length (encode_labels ls)) (push_labels out ls) after jumps visited (tot + length (encode_labels ls))"
proof (induction ls arbitrary: pre out tot)
  case (Cons l ls)
  have "name_loop msg (length pre) out after jumps visited tot =
      name_loop msg (length (pre @ encode_label l)) (push_label out (bytes_of l)) after jumps visited (tot + Suc (length l))"
    by (rule name_loop_label [where post = "encode_labels ls @ post"]) (use Cons.prems in simp_all)
  also have "\<dots> = name_loop msg (length (pre @ encode_label l) + length (encode_labels ls))
      (push_labels (push_label out (bytes_of l)) ls) after jumps visited (tot + Suc (length l) + length (encode_labels ls))"
    by (rule Cons.IH) (use Cons.prems in simp_all)
  finally show ?case by (simp add: add.assoc)
qed simp

lemma name_loop_name:
  assumes "wire_name ls" and "msg = pre @ encode_name ls @ post"
  shows "name_loop msg (length pre) [] after jumps visited 0 =
    Some (Inr (push_labels [] ls, keep_first after (length pre + length (encode_name ls))))"
proof -
  let ?p = "length pre + length (encode_labels ls)"
  have "name_loop msg (length pre) [] after jumps visited 0 =
      name_loop msg ?p (push_labels [] ls) after jumps visited (0 + length (encode_labels ls))"
    by (rule name_loop_labels [where post = "[0] @ post"]) (use assms in \<open>simp_all add: wire_name_def encode_name_def\<close>)
  moreover have "index msg ?p = Some 0"
    using assms(2) by (simp add: index_def encode_name_def nth_append)
  ultimately show ?thesis
    by (simp add: name_loop.simps [of msg ?p] encode_name_def)
qed

lemma join_prefix: "join ((a @ dot # b) # ls) = a @ dot # join (b # ls)"
  by (cases ls) simp_all

lemma push_labels_join: "out \<noteq> [] \<Longrightarrow> push_labels out ls = join (out # ls)"
  by (induction ls arbitrary: out) (simp_all add: push_label_def join_prefix)

lemma push_labels_name: "wire_name ls \<Longrightarrow> push_labels [] ls = join ls"
  by (cases ls) (simp_all add: push_label_def push_labels_join wire_name_def wire_label_def)

lemma host_char_not_dot: "host_char c \<Longrightarrow> c \<noteq> dot"
  by (auto simp: host_char_def dot_def Let_def)

lemma host_char_lower: "host_char c \<Longrightarrow> host_char (to_ascii_lowercase_char c)"
  by (auto simp: host_char_def to_ascii_lowercase_char_def Let_def of_char_of)

lemma lower_dot [simp]: "to_ascii_lowercase_char dot = dot"
  by (simp add: to_ascii_lowercase_char_def dot_def)

lemma lower_join: "to_ascii_lowercase (join ls) = join (map to_ascii_lowercase ls)"
  by (induction ls rule: join.induct) (simp_all add: to_ascii_lowercase_def)

lemma host_label_lower: "host_label l \<Longrightarrow> host_label (to_ascii_lowercase l)"
  by (auto simp: host_label_def to_ascii_lowercase_def list_all_iff host_char_lower)

lemma labels_join: "ls \<noteq> [] \<Longrightarrow> list_all host_label ls \<Longrightarrow> labels (join ls) = ls"
proof (induction ls rule: join.induct)
  case (2 l)
  then have "\<forall>c \<in> set l. c \<noteq> dot" by (auto simp: host_label_def list_all_iff dest: host_char_not_dot)
  then have "labels l = [l]" by (induction l) auto
  then show ?case by simp
next
  case (3 l l2 ls)
  then have "\<forall>c \<in> set l. c \<noteq> dot" by (auto simp: host_label_def list_all_iff dest: host_char_not_dot)
  then have "labels l = [l]" by (induction l) auto
  then show ?case using 3 by (simp add: labels_append)
qed simp

lemma length_join: "length (join ls) \<le> length (encode_labels ls)"
  by (induction ls rule: join.induct) simp_all

lemma join_host_chars: "list_all host_label ls \<Longrightarrow> c \<in> set (join ls) \<Longrightarrow> host_char c \<or> c = dot"
  by (induction ls rule: join.induct) (auto simp: host_label_def list_all_iff)

lemma join_not_Nil: "ls \<noteq> [] \<Longrightarrow> list_all host_label ls \<Longrightarrow> join ls \<noteq> [] \<and> last (join ls) \<noteq> dot"
proof (induction ls rule: join.induct)
  case (2 l)
  then show ?case using host_char_not_dot last_in_set by (auto simp: host_label_def list_all_iff)
qed auto

lemma normalize_host_name:
  assumes "host_name ls"
  shows "normalize_domain (join ls) = Some (to_ascii_lowercase (join ls))"
proof -
  have ls: "ls \<noteq> []" "list_all host_label ls" "length (encode_labels ls) \<le> 255"
    using assms by (simp_all add: host_name_def)
  have lo: "list_all host_label (map to_ascii_lowercase ls)"
    using ls(2) by (auto simp: list_all_iff host_label_lower)
  have t: "trim_end_dots (join ls) = join ls"
    using join_not_Nil [OF ls(1,2)] by (cases "join ls" rule: rev_cases) (simp_all add: trim_end_dots_def)
  have "labels (to_ascii_lowercase (join ls)) = map to_ascii_lowercase ls"
    using ls(1) lo by (simp add: lower_join labels_join)
  moreover have "list_all (\<lambda>c. host_char c \<or> c = dot) (to_ascii_lowercase (join ls))"
    using join_host_chars [OF lo] by (auto simp: lower_join list_all_iff)
  moreover have "to_ascii_lowercase (join ls) \<noteq> []" "length (to_ascii_lowercase (join ls)) \<le> 255"
    using join_not_Nil [OF ls(1,2)] length_join [of ls] ls(3) by (simp_all add: to_ascii_lowercase_def)
  moreover have "\<not> list_ex (\<lambda>l. l = []) (map to_ascii_lowercase ls)"
    using lo by (auto simp: list_ex_iff list_all_iff host_label_def to_ascii_lowercase_def)
  ultimately show ?thesis by (simp add: normalize_domain_def Let_def t MAX_NAME_LEN_def)
qed

definition domain_of :: "string list \<Rightarrow> string" where
  "domain_of ls = to_ascii_lowercase (join ls)"

lemma decode_wire_name:
  assumes "wire_name ls" and "msg = pre @ encode_name ls @ post"
  shows "decode_name msg (length pre) =
    (case normalize_domain (join ls) of
       None \<Rightarrow> Some (Inl BadLabel)
     | Some name \<Rightarrow> Some (Inr (name, length pre + length (encode_name ls))))"
  using name_loop_name [OF assms, of None 0 "[]"] assms(1)
  by (simp add: decode_name_def push_labels_name keep_first_def split: option.split)

lemma decode_encoded:
  assumes "host_name ls" and "msg = pre @ encode_name ls @ post"
  shows "decode_name msg (length pre) = Some (Inr (domain_of ls, length pre + length (encode_name ls)))"
  using decode_wire_name [OF host_wire(2) [OF assms(1)] assms(2)] normalize_host_name [OF assms(1)]
  by (simp add: domain_of_def)

text \<open>The usual compression: a pointer to the question, which is right after the header. It is followed, and
  decoding goes on after the pointer.\<close>

definition question_pointer :: "u8 list" where
  "question_pointer = [0xC0, 0x0C]"

lemma decode_pointer:
  assumes "host_name q" and "msg = hdr @ encode_name q @ mid @ question_pointer @ post" and "length hdr = 12"
  defines "p \<equiv> length (hdr @ encode_name q @ mid)"
  shows "decode_name msg p = Some (Inr (domain_of q, p + 2))"
proof -
  have i: "index msg p = Some 0xC0" "index msg (p + 1) = Some 0x0C"
    using assms(2) by (simp_all add: index_def p_def question_pointer_def nth_append)
  have l: "12 < length msg" using assms(2,3) by (simp add: question_pointer_def)
  have t: "unat (u16_from_be (0xC0 AND 0x3F) 0x0C) = 12" by (simp add: u16_from_be_def)
  have n: "name_loop msg (length hdr) [] (Some (p + 2)) 1 [12] 0 =
      Some (Inr (push_labels [] q, keep_first (Some (p + 2)) (length hdr + length (encode_name q))))"
    by (rule name_loop_name [OF host_wire(2) [OF assms(1)]]) (simp add: assms(2))
  have "name_loop msg p [] None 0 [] 0 = name_loop msg 12 [] (Some (p + 2)) 1 [12] 0"
    using l by (subst name_loop.simps) (simp add: i [simplified] t [simplified] Let_def MAX_POINTER_JUMPS_def keep_first_def)
  then show ?thesis
    using n normalize_host_name [OF assms(1)] push_labels_name [OF host_wire(2) [OF assms(1)]] assms(3)
    by (simp add: decode_name_def keep_first_def domain_of_def)
qed

subsection \<open>Encoded messages\<close>

text \<open>A query or a response with one question and records whose owner is given in full or by a pointer to
  the question.\<close>

datatype rr_name = AsQuestion | FullName "string list"

record wire_rr =
  wr_owner :: rr_name
  wr_type :: u16
  wr_ttl :: u32
  wr_data :: "u8 list"

fun owner_of :: "string list \<Rightarrow> rr_name \<Rightarrow> string" where
  "owner_of q AsQuestion = domain_of q"
| "owner_of q (FullName ls) = domain_of ls"

fun encode_owner :: "rr_name \<Rightarrow> u8 list" where
  "encode_owner AsQuestion = question_pointer"
| "encode_owner (FullName ls) = encode_name ls"

definition encode_rr :: "wire_rr \<Rightarrow> u8 list" where
  "encode_rr r =
     encode_owner (wr_owner r) @ u16_to_be (wr_type r) @ [0, 1] @ u32_to_be (wr_ttl r) @
     u16_to_be (of_nat (length (wr_data r))) @ wr_data r"

definition encode_header :: "u16 \<Rightarrow> u16 \<Rightarrow> nat \<Rightarrow> u8 list" where
  "encode_header ident flags ancount =
     u16_to_be ident @ u16_to_be flags @ [0, 1] @ u16_to_be (of_nat ancount) @ [0, 0, 0, 0]"

definition encode_question :: "string list \<Rightarrow> u16 \<Rightarrow> u8 list" where
  "encode_question q qtype = encode_name q @ u16_to_be qtype @ [0, 1]"

definition encode_message :: "u16 \<Rightarrow> u16 \<Rightarrow> string list \<Rightarrow> u16 \<Rightarrow> wire_rr list \<Rightarrow> u8 list" where
  "encode_message ident flags q qtype rrs =
     encode_header ident flags (length rrs) @ encode_question q qtype @ concat (map encode_rr rrs)"

definition sound_rr :: "wire_rr \<Rightarrow> bool" where
  "sound_rr r \<longleftrightarrow> length (wr_data r) < 65536 \<and> (\<forall>ls. wr_owner r = FullName ls \<longrightarrow> host_name ls)"

lemma length_encode_header [simp]: "length (encode_header ident flags n) = 12"
  by (simp add: encode_header_def)

lemma u16_to_be_nth: "u16_to_be w = [u16_to_be w ! 0, u16_to_be w ! Suc 0]"
  by (simp add: u16_to_be_def)

lemma u32_to_be_nth: "u32_to_be w = [u32_to_be w ! 0, u32_to_be w ! Suc 0, u32_to_be w ! 2, u32_to_be w ! 3]"
  by (simp add: u32_to_be_def)

lemma parse_header_encoded:
  assumes "n < 65536"
  shows "parse_header (encode_header ident flags n @ rest) =
    Some (Some \<lparr>dh_qr = (flags AND 0x8000 \<noteq> 0), dh_tc = (flags AND 0x0200 \<noteq> 0),
                dh_rcode = ucast (flags AND 0x000F), dh_qdcount = 1, dh_ancount = of_nat n\<rparr>)"
proof -
  have "encode_header ident flags n @ rest =
      [u16_to_be ident ! 0, u16_to_be ident ! Suc 0, u16_to_be flags ! 0, u16_to_be flags ! Suc 0, 0, 1,
       u16_to_be (of_nat n) ! 0, u16_to_be (of_nat n) ! Suc 0, 0, 0, 0, 0] @ rest"
    using u16_to_be_nth [of ident] u16_to_be_nth [of flags] u16_to_be_nth [of "of_nat n"]
    by (simp add: encode_header_def)
  moreover have "u16_from_be 0 1 = 1" by (simp add: u16_from_be_def)
  ultimately show ?thesis
    by (simp add: parse_header_def HEADER_LEN_def index_def Let_def numeral_eq_Suc)
qed

lemma query_name_encoded:
  assumes "host_name q" and "flags AND 0x8000 = 0"
  shows "query_name (encode_message ident flags q qtype []) = Some (Some (domain_of q))"
proof -
  let ?h = "encode_header ident flags 0"
  have "decode_name (encode_message ident flags q qtype []) (length ?h) =
      Some (Inr (domain_of q, length ?h + length (encode_name q)))"
    by (rule decode_encoded [OF assms(1)]) (simp add: encode_message_def encode_question_def)
  moreover have "parse_header (encode_message ident flags q qtype []) =
      Some (Some \<lparr>dh_qr = False, dh_tc = (flags AND 0x0200 \<noteq> 0), dh_rcode = ucast (flags AND 0x000F),
                  dh_qdcount = 1, dh_ancount = 0\<rparr>)"
    using parse_header_encoded [of 0 ident flags] assms(2) by (simp add: encode_message_def)
  ultimately show ?thesis
    by (simp add: query_name_def HEADER_LEN_def encode_message_def encode_question_def)
qed

subsection \<open>Decoding the answers\<close>

fun records_at :: "string list \<Rightarrow> nat \<Rightarrow> wire_rr list \<Rightarrow> DnsRecord list" where
  "records_at q pos [] = []"
| "records_at q pos (r # rs) =
     \<lparr>rr_owner = owner_of q (wr_owner r), rr_rtype = wr_type r, rr_ttl = wr_ttl r,
      rr_off = pos + length (encode_owner (wr_owner r)) + 10, rr_len = length (wr_data r)\<rparr> #
     records_at q (pos + length (encode_rr r)) rs"

lemma parse_record_encoded:
  assumes "msg = pre @ u16_to_be t @ [0, 1] @ u32_to_be ttl @ u16_to_be (of_nat (length d)) @ d @ post"
    and "length d < 65536"
  shows "parse_record msg owner (length pre) =
    Some (Inr (\<lparr>rr_owner = owner, rr_rtype = t, rr_ttl = ttl, rr_off = length pre + 10, rr_len = length d\<rparr>,
      length pre + 10 + length d))"
proof -
  let ?l = "u16_to_be (of_nat (length d))"
  have m: "msg = pre @ [u16_to_be t ! 0, u16_to_be t ! Suc 0, 0, 1, u32_to_be ttl ! 0, u32_to_be ttl ! Suc 0,
      u32_to_be ttl ! 2, u32_to_be ttl ! 3, ?l ! 0, ?l ! Suc 0] @ d @ post"
    using assms(1) u16_to_be_nth [of t] u32_to_be_nth [of ttl] u16_to_be_nth [of "of_nat (length d)"] by simp
  have i: "index msg (length pre) = Some (u16_to_be t ! 0)" "index msg (length pre + 1) = Some (u16_to_be t ! Suc 0)"
    "index msg (length pre + 4) = Some (u32_to_be ttl ! 0)" "index msg (length pre + 5) = Some (u32_to_be ttl ! Suc 0)"
    "index msg (length pre + 6) = Some (u32_to_be ttl ! 2)" "index msg (length pre + 7) = Some (u32_to_be ttl ! 3)"
    "index msg (length pre + 8) = Some (?l ! 0)" "index msg (length pre + 8 + 1) = Some (?l ! Suc 0)"
    by (simp_all add: m index_def nth_append)
  have "unat (of_nat (length d) :: u16) = length d"
    using assms(2) by (simp add: unsigned_of_nat take_bit_nat_eq_self)
  then have "be_len msg (length pre + 8) = Some (length d)"
    by (simp only: be_len_def i bind.bind_lunit u16_be_roundtrip)
  moreover have "\<not> length msg < length pre + 10 + length d" "\<not> length msg < length pre + 10" by (simp_all add: m)
  ultimately show ?thesis unfolding parse_record_def by (simp only: i bind.bind_lunit if_False u16_be_roundtrip u32_be_roundtrip)
qed

lemma decode_owner:
  assumes "host_name q" and "\<forall>ls. w = FullName ls \<longrightarrow> host_name ls"
    and "msg = hdr @ encode_name q @ mid @ encode_owner w @ post" and "length hdr = 12"
  defines "p \<equiv> length (hdr @ encode_name q @ mid)"
  shows "decode_name msg p = Some (Inr (owner_of q w, p + length (encode_owner w)))"
proof (cases w)
  case AsQuestion
  then show ?thesis
    using decode_pointer [OF assms(1) _ assms(4), of msg mid post] assms(3)
    by (simp add: p_def question_pointer_def)
next
  case (FullName ls)
  then show ?thesis
    using decode_encoded [of ls msg "hdr @ encode_name q @ mid" post] assms(2,3) by (simp add: p_def)
qed

lemma answer_loop_encoded:
  assumes "host_name q" and "length hdr = 12"
  shows "list_all sound_rr rrs \<Longrightarrow> length out + length rrs \<le> MAX_ANSWERS \<Longrightarrow>
    msg = hdr @ encode_name q @ mid @ concat (map encode_rr rrs) \<Longrightarrow>
    answer_loop msg (length rrs) (length (hdr @ encode_name q @ mid)) out =
      Some (Inr (out @ records_at q (length (hdr @ encode_name q @ mid)) rrs))"
proof (induction rrs arbitrary: mid out)
  case (Cons r rrs)
  let ?p = "length (hdr @ encode_name q @ mid)"
  let ?w = "encode_owner (wr_owner r)"
  let ?rec = "\<lparr>rr_owner = owner_of q (wr_owner r), rr_rtype = wr_type r, rr_ttl = wr_ttl r,
      rr_off = ?p + length ?w + 10, rr_len = length (wr_data r)\<rparr>"
  have r: "length (wr_data r) < 65536" "\<forall>ls. wr_owner r = FullName ls \<longrightarrow> host_name ls"
    using Cons.prems(1) by (simp_all add: sound_rr_def)
  have "decode_name msg ?p = Some (Inr (owner_of q (wr_owner r), ?p + length ?w))"
    by (rule decode_owner [OF assms(1) r(2) _ assms(2)]) (use Cons.prems(3) in \<open>simp add: encode_rr_def [of r]\<close>)
  moreover have "parse_record msg (owner_of q (wr_owner r)) (?p + length ?w) =
      Some (Inr (?rec, ?p + length ?w + 10 + length (wr_data r)))"
    using parse_record_encoded [of msg "hdr @ encode_name q @ mid @ ?w" "wr_type r" "wr_ttl r" "wr_data r"
        "concat (map encode_rr rrs)"] Cons.prems(3) r(1) by (simp add: encode_rr_def [of r] ac_simps)
  moreover have "answer_loop msg (length rrs) (?p + length (encode_rr r)) (out @ [?rec]) =
      Some (Inr ((out @ [?rec]) @ records_at q (?p + length (encode_rr r)) rrs))"
    using Cons.IH [of "out @ [?rec]" "mid @ encode_rr r"] Cons.prems by (simp add: ac_simps)
  ultimately show ?case
    using Cons.prems(2) by (simp add: encode_rr_def [of r] ac_simps)
qed simp

lemma parse_answers_encoded:
  assumes "host_name q" and "list_all sound_rr rrs" and "length rrs \<le> MAX_ANSWERS" and "flags AND 0x8000 \<noteq> 0"
  shows "parse_answers (encode_message ident flags q qtype rrs) =
    Some (Inr (records_at q (length (encode_header ident flags (length rrs) @ encode_question q qtype)) rrs))"
proof -
  let ?h = "encode_header ident flags (length rrs)"
  let ?m = "encode_message ident flags q qtype rrs"
  have n: "length rrs < 65536" using assms(3) by (simp add: MAX_ANSWERS_def)
  have h: "\<exists>hdr. parse_header ?m = Some (Some hdr) \<and> dh_qr hdr \<and> dh_qdcount hdr = 1 \<and> dh_ancount hdr = of_nat (length rrs)"
    using parse_header_encoded [OF n, of ident flags] assms(4) by (simp add: encode_message_def)
  have "decode_name ?m (length ?h) = Some (Inr (domain_of q, length ?h + length (encode_name q)))"
    by (rule decode_encoded [OF assms(1)]) (simp add: encode_message_def encode_question_def)
  then have "skip_questions ?m 1 12 = Some (Inr (12 + length (encode_name q) + 4))"
    by (simp add: encode_message_def encode_question_def)
  moreover have "answer_loop ?m (length rrs) (12 + length (encode_name q) + 4) [] =
      Some (Inr (records_at q (12 + length (encode_name q) + 4) rrs))"
    using answer_loop_encoded [OF assms(1) length_encode_header assms(2), of "[]" ?m ident flags "length rrs"
        "u16_to_be qtype @ [0, 1]"] assms(3)
    by (simp add: encode_message_def encode_question_def add.assoc)
  moreover have "unat (of_nat (length rrs) :: u16) = length rrs"
    using n by (simp add: unsigned_of_nat take_bit_nat_eq_self)
  ultimately show ?thesis
    using h by (auto simp: parse_answers_def HEADER_LEN_def encode_question_def)
qed

subsection \<open>From the wire to the registry\<close>

definition rr_address :: "string list \<Rightarrow> wire_rr \<Rightarrow> IpAddr list" where
  "rr_address q r =
     (if owner_of q (wr_owner r) \<noteq> domain_of q then []
      else if wr_type r = TYPE_A \<and> length (wr_data r) = 4 then [V4 (v4_of_octets (wr_data r))]
      else if wr_type r = TYPE_AAAA \<and> length (wr_data r) = 16 then [V6 (v6_of_octets (wr_data r))]
      else [])"

definition answer_addresses :: "string list \<Rightarrow> wire_rr list \<Rightarrow> IpAddr list" where
  "answer_addresses q rrs = concat (map (rr_address q) rrs)"

fun least_ttl :: "string list \<Rightarrow> wire_rr list \<Rightarrow> u32 \<Rightarrow> u32" where
  "least_ttl q [] t = t"
| "least_ttl q (r # rs) t = least_ttl q rs (if rr_address q r = [] then t else min t (wr_ttl r))"

lemma types_distinct [simp]: "TYPE_A \<noteq> TYPE_AAAA" "TYPE_AAAA \<noteq> TYPE_A"
  by (simp_all add: TYPE_A_def TYPE_AAAA_def)

lemma collect_records_encoded:
  "msg = pre @ concat (map encode_rr rrs) \<Longrightarrow>
   collect_records msg [domain_of q] (records_at q (length pre) rrs) acc =
     Some (fst acc @ answer_addresses q rrs, least_ttl q rrs (snd acc))"
proof (induction rrs arbitrary: pre acc)
  case (Cons r rrs)
  let ?o = "length pre + length (encode_owner (wr_owner r)) + 10"
  let ?rec = "\<lparr>rr_owner = owner_of q (wr_owner r), rr_rtype = wr_type r, rr_ttl = wr_ttl r, rr_off = ?o,
      rr_len = length (wr_data r)\<rparr>"
  let ?acc = "(fst acc @ rr_address q r, if rr_address q r = [] then snd acc else min (snd acc) (wr_ttl r))"
  have "slice msg ?o (?o + length (wr_data r)) = Some (wr_data r)"
    using Cons.prems by (simp add: slice_def encode_rr_def [of r])
  then have "collect_record msg [domain_of q] ?rec acc = Some ?acc"
    by (auto simp: collect_record_def rr_address_def)
  moreover have "collect_records msg [domain_of q] (records_at q (length (pre @ encode_rr r)) rrs) ?acc =
      Some (fst ?acc @ answer_addresses q rrs, least_ttl q rrs (snd ?acc))"
    by (rule Cons.IH) (use Cons.prems in simp)
  ultimately show ?case by (simp add: answer_addresses_def)
qed (simp add: answer_addresses_def)

definition no_alias :: "string list \<Rightarrow> wire_rr list \<Rightarrow> bool" where
  "no_alias q rrs \<longleftrightarrow> list_all (\<lambda>r. wr_type r \<noteq> TYPE_CNAME \<or> owner_of q (wr_owner r) \<noteq> domain_of q) rrs"

lemma no_alias_chain:
  assumes "no_alias q rrs"
  shows "cname_chain msg (records_at q pos rrs) [domain_of q] = Some (Some [domain_of q])"
proof -
  have "find (\<lambda>r. rr_rtype r = TYPE_CNAME \<and> rr_owner r = domain_of q) (records_at q pos rrs) = None"
    using assms by (induction rrs arbitrary: pos) (auto simp: no_alias_def)
  then show ?thesis by (simp add: cname_chain.simps [of msg _ "[domain_of q]"])
qed

lemma normalize_domain_of:
  assumes "host_name q"
  shows "normalize_domain (domain_of q) = Some (domain_of q)"
proof -
  let ?l = "map to_ascii_lowercase q"
  have len: "length (encode_labels ?l) = length (encode_labels q)"
    by (induction q) (simp_all add: to_ascii_lowercase_def)
  have "host_name ?l"
    using assms len by (auto simp: host_name_def list_all_iff host_label_lower)
  then show ?thesis
    using normalize_host_name [of ?l] by (simp add: domain_of_def lower_join to_ascii_lowercase_idem comp_def)
qed

definition answers_ok :: "string list \<Rightarrow> wire_rr list \<Rightarrow> bool" where
  "answers_ok q rrs \<longleftrightarrow>
     host_name q \<and> list_all sound_rr rrs \<and> length rrs \<le> MAX_ANSWERS \<and> no_alias q rrs \<and> answer_addresses q rrs \<noteq> []"

lemma observe_encoded:
  assumes "answers_ok q rrs" and "flags AND 0x8000 \<noteq> 0" and "flags AND 0x0200 = 0" and "flags AND 0x000F = 0"
  shows "observe_response (domain_of q) (encode_message ident flags q qtype rrs) =
    Some (Some \<lparr>do_domain = domain_of q, do_ips = answer_addresses q rrs,
                do_ttl = clamp_ttl (least_ttl q rrs (- 1)) * 10 ^ 9\<rparr>)"
proof -
  let ?m = "encode_message ident flags q qtype rrs"
  have a: "host_name q" "list_all sound_rr rrs" "length rrs \<le> MAX_ANSWERS" "no_alias q rrs" "answer_addresses q rrs \<noteq> []"
    using assms(1) by (simp_all add: answers_ok_def)
  have n: "length rrs < 65536" using a(3) by (simp add: MAX_ANSWERS_def)
  have h: "\<exists>hdr. parse_header ?m = Some (Some hdr) \<and> dh_qr hdr \<and> \<not> dh_tc hdr \<and> dh_rcode hdr = 0"
    using parse_header_encoded [OF n, of ident flags] assms(2-) by (simp add: encode_message_def)
  have c: "collect_records ?m [domain_of q]
      (records_at q (length (encode_header ident flags (length rrs) @ encode_question q qtype)) rrs) ([], - 1) =
      Some (answer_addresses q rrs, least_ttl q rrs (- 1))"
    using collect_records_encoded [of ?m "encode_header ident flags (length rrs) @ encode_question q qtype" rrs q "([], - 1)"]
    by (simp add: encode_message_def)
  show ?thesis
    using h c a(5) parse_answers_encoded [OF a(1-3) assms(2), of ident qtype] no_alias_chain [OF a(4)]
    by (auto simp: observe_response_def normalize_domain_of [OF a(1)])
qed

lemma lower_domain_of: "to_ascii_lowercase (domain_of q) = domain_of q"
  by (simp add: domain_of_def to_ascii_lowercase_idem)


definition sample_answers :: "wire_rr list" where
  "sample_answers =
     [\<lparr>wr_owner = AsQuestion, wr_type = 1, wr_ttl = 300, wr_data = [192, 0, 2, 1]\<rparr>,
      \<lparr>wr_owner = FullName [''example'', ''ORG''], wr_type = 1, wr_ttl = 5, wr_data = [192, 0, 2, 2]\<rparr>]"


end
