(* ===== verification/DnsForward.thy ===== *)
theory DnsForward
  imports DnsWire Disk "HOL-Library.AList" "HOL-Library.Sublist"
begin

text \<open>
  The DNS forwarder (\<open>crates/balansir-daemon/src/dns.rs\<close>): the UDP loop that answers the clients of the
  gateway. A query for a blocked domain is answered locally; any other is answered from the cache or by the
  first upstream that responds, directly or through a SOCKS5 relay, and the answer is recorded for the
  policy plane. The network is a parameter of each step: what the upstreams, the relay and the proxy answer
  there. A step may panic, and one that waits for the relay may wait for ever, since that receive has no
  timeout.
\<close>

subsection \<open>Definitions\<close>

datatype 'a task_run = Panics | Blocks | Returns 'a

record SocketAddr =
  sa_ip :: IpAddr
  sa_port :: u16

definition CACHE_TTL :: Duration where "CACHE_TTL = 30 * 10 ^ 9"

subsubsection \<open>The SOCKS5 relay\<close>

definition socks5_greeting :: "u8 list" where
  "socks5_greeting = [0x05, 0x01, 0x00]"

definition socks5_associate :: "u8 list" where
  "socks5_associate = [0x05, 0x03, 0x00, 0x01, 0x00, 0x00, 0x00, 0x00, 0x00, 0x00]"

definition parse_socks5_addr :: "u8 list \<Rightarrow> (SocketAddr, string) result option" where
  "parse_socks5_addr bytes =
     (case bytes of
        [] \<Rightarrow> Some (Inl ''Empty address'')
      | t # _ \<Rightarrow>
          if t = 0x01 then
            if length bytes < 6 then Some (Inl ''Short IPv4'')
            else do {
              octets \<leftarrow> slice bytes 1 5;
              hi \<leftarrow> index bytes 5; lo \<leftarrow> index bytes 6;
              Some (Inr \<lparr>sa_ip = V4 (v4_of_octets octets), sa_port = u16_from_be hi lo\<rparr>)
            }
          else if t = 0x04 then
            if length bytes < 18 then Some (Inl ''Short IPv6'')
            else do {
              octets \<leftarrow> slice bytes 1 17;
              hi \<leftarrow> index bytes 18; lo \<leftarrow> index bytes 19;
              Some (Inr \<lparr>sa_ip = V6 (v6_of_octets octets), sa_port = u16_from_be hi lo\<rparr>)
            }
          else Some (Inl ''Unsupported ATYP''))"

text \<open>
  What a proxy does on a connection: the bytes it answers to the greeting and to the request, \<open>None\<close> where
  the connection fails or the timeout of three seconds passes.
\<close>

record socks_proxy =
  sp_greeted :: "u8 list \<Rightarrow> u8 list option"
  sp_associated :: "u8 list \<Rightarrow> u8 list option"
  sp_bound :: bool

definition socks5_connect :: "socks_proxy \<Rightarrow> (SocketAddr, string) result option" where
  "socks5_connect proxy =
     (case sp_greeted proxy socks5_greeting of
        None \<Rightarrow> Some (Inl ''connection'')
      | Some resp \<Rightarrow>
          if length resp < 2 then Some (Inl ''connection'')
          else if resp ! 0 \<noteq> 0x05 \<or> resp ! 1 \<noteq> 0x00 then Some (Inl ''SOCKS5 handshake failed'')
          else
            (case sp_associated proxy socks5_associate of
               None \<Rightarrow> Some (Inl ''connection'')
             | Some resp \<Rightarrow>
                 if length resp < 10 then Some (Inl ''connection'')
                 else if resp ! 0 \<noteq> 0x05 \<or> resp ! 1 \<noteq> 0x00 then Some (Inl ''UDP ASSOCIATE failed'')
                 else
                   (case parse_socks5_addr (drop 3 (take 10 resp)) of
                      None \<Rightarrow> None
                    | Some (Inl e) \<Rightarrow> Some (Inl e)
                    | Some (Inr relay) \<Rightarrow> if sp_bound proxy then Some (Inr relay) else Some (Inl ''bind''))))"

definition v6_octets :: "128 word \<Rightarrow> u8 list" where
  "v6_octets a = map (\<lambda>i. ucast (drop_bit (8 * (15 - i)) a)) [0..<16]"

definition socks5_packet :: "u8 list \<Rightarrow> SocketAddr \<Rightarrow> u8 list" where
  "socks5_packet query upstream =
     [0x00, 0x00, 0x00] @
     (case sa_ip upstream of
        V4 a \<Rightarrow> 0x01 # v4_octets a @ u16_to_be (sa_port upstream)
      | V6 a \<Rightarrow> 0x04 # v6_octets a @ u16_to_be (sa_port upstream)) @
     query"

definition socks5_header_len :: "u8 list \<Rightarrow> nat option" where
  "socks5_header_len buf =
     (if buf ! 3 = 0x01 then Some (2 + 1 + 1 + 4 + 2)
      else if buf ! 3 = 0x03 then Some (2 + 1 + 1 + 1 + unat (buf ! 4) + 2)
      else if buf ! 3 = 0x04 then Some (2 + 1 + 1 + 16 + 2)
      else None)"

text \<open>
  \<open>recv\<close> on a buffer of 4096 bytes whose first \<open>n\<close> were received. The payload is copied into the part of the
  buffer before it, and the slice of that part panics where the payload is longer.
\<close>

definition socks5_recv :: "u8 list \<Rightarrow> nat \<Rightarrow> (u8 list \<times> nat, string) result option" where
  "socks5_recv buf n =
     (if n < 4 then Some (Inl ''Short SOCKS5 packet'')
      else if buf ! 0 \<noteq> 0 \<or> buf ! 1 \<noteq> 0 \<or> buf ! 2 \<noteq> 0 then Some (Inl ''Invalid SOCKS5 UDP header (RSV/FRAG)'')
      else
        (case socks5_header_len buf of
           None \<Rightarrow> Some (Inl ''Unknown ATYP'')
         | Some header_len \<Rightarrow>
             if n < header_len then Some (Inl ''Invalid SOCKS5 UDP header'')
             else do {
               prefix \<leftarrow> slice (take header_len buf) 0 (n - header_len);
               suffix \<leftarrow> slice (drop header_len buf) 0 (n - header_len);
               Some (Inr (suffix @ drop (n - header_len) buf, n - header_len))
             }))"

definition received :: "u8 list \<Rightarrow> u8 list" where
  "received datagram = take 4096 datagram @ replicate (4096 - length datagram) 0"

subsubsection \<open>The cache\<close>

type_synonym DnsCache = "(u8 list \<times> (u8 list \<times> Instant)) list"

definition cache_get :: "Instant \<Rightarrow> u8 list \<Rightarrow> DnsCache \<Rightarrow> u8 list option \<times> DnsCache" where
  "cache_get now query cache =
     (case map_of cache query of
        Some (resp, expires) \<Rightarrow> if now < expires then (Some resp, cache) else (None, AList.delete query cache)
      | None \<Rightarrow> (None, cache))"

text \<open>\<open>seen\<close> is the instant at which \<open>retain\<close> looks at an entry, \<open>now\<close> that of the insertion.\<close>

definition cache_put ::
    "(u8 list \<Rightarrow> Instant) \<Rightarrow> Instant \<Rightarrow> u8 list \<Rightarrow> u8 list \<Rightarrow> nat \<Rightarrow> DnsCache \<Rightarrow> DnsCache" where
  "cache_put seen now query response cap cache =
     (if cap = 0 then cache
      else
        let cache =
              (if cap \<le> length cache then
                 let kept = filter (\<lambda>(q, r, expires). seen q < expires) cache in
                 if cap \<le> length kept then [] else kept
               else cache)
        in AList.update query (response, now + CACHE_TTL) cache)"

subsubsection \<open>Filtering\<close>

datatype DomainDecision = DD_Pass | DD_Block

record DnsFilterSets =
  fs_block :: "string set"
  fs_allow :: "string set"

fun classify_labels :: "string set \<Rightarrow> string set \<Rightarrow> string list \<Rightarrow> DomainDecision" where
  "classify_labels block allow [] = DD_Pass"
| "classify_labels block allow (l # ls) =
     (let candidate = join (l # ls) in
      if candidate \<in> allow then DD_Pass
      else if candidate \<in> block then DD_Block
      else classify_labels block allow ls)"

definition classify_domain :: "string \<Rightarrow> string set \<Rightarrow> string set \<Rightarrow> DomainDecision" where
  "classify_domain domain block allow =
     classify_labels block allow (labels (to_ascii_lowercase (trim_end_dots domain)))"

definition nxdomain_response :: "u8 list \<Rightarrow> u8 list" where
  "nxdomain_response query =
     (let resp = query;
          resp = (if 4 \<le> length query then resp[2 := (query ! 2 AND 0x78) OR 0x80, 3 := (query ! 3 AND 0x07) OR 0x03] else resp)
      in foldl (\<lambda>resp i. if i < length resp then resp[i := 0] else resp) resp [6..<12])"

definition filter_entries :: "string list \<Rightarrow> string set" where
  "filter_entries ds = set (filter (\<lambda>d. d \<noteq> []) (map (\<lambda>d. to_ascii_lowercase (trim_end_dots d)) ds))"

subsubsection \<open>The forwarding loop\<close>

datatype relay_reply = RelaySendFailed | RelayRecvFailed | RelaySilent | RelayDatagram "u8 list"

record dns_net =
  dn_direct :: "nat \<Rightarrow> SocketAddr \<Rightarrow> u8 list \<Rightarrow> u8 list option"
  dn_relay :: "nat \<Rightarrow> SocketAddr \<Rightarrow> u8 list \<Rightarrow> relay_reply"
  dn_proxy :: "SocketAddr \<Rightarrow> socks_proxy"

definition forward_query ::
    "dns_net \<Rightarrow> nat \<Rightarrow> u8 list \<Rightarrow> SocketAddr \<Rightarrow> SocketAddr option \<Rightarrow> u8 list option task_run" where
  "forward_query net k query upstream socks5_relay =
     (case socks5_relay of
        Some relay \<Rightarrow>
          (case dn_relay net k relay (socks5_packet query upstream) of
             RelaySendFailed \<Rightarrow> Returns None
           | RelayRecvFailed \<Rightarrow> Returns None
           | RelaySilent \<Rightarrow> Blocks
           | RelayDatagram d \<Rightarrow>
               (case socks5_recv (received d) (min 4096 (length d)) of
                  None \<Rightarrow> Panics
                | Some (Inl e) \<Rightarrow> Returns None
                | Some (Inr (buf, n)) \<Rightarrow> Returns (Some (take n buf))))
      | None \<Rightarrow> Returns (map_option (take 4096) (dn_direct net k upstream query)))"

text \<open>The upstreams in rotated order, until one answers; with it the upstreams contacted.\<close>

fun try_upstreams ::
    "dns_net \<Rightarrow> u8 list \<Rightarrow> SocketAddr list \<Rightarrow> nat \<Rightarrow> SocketAddr option \<Rightarrow> nat list \<Rightarrow> (SocketAddr list \<times> u8 list option) task_run" where
  "try_upstreams net query upstreams round_robin relay [] = Returns ([], None)"
| "try_upstreams net query upstreams round_robin relay (offset # offsets) =
     (let upstream = upstreams ! ((round_robin + offset) mod length upstreams) in
      case forward_query net offset query upstream relay of
        Panics \<Rightarrow> Panics
      | Blocks \<Rightarrow> Blocks
      | Returns (Some r) \<Rightarrow> Returns ([upstream], Some r)
      | Returns None \<Rightarrow>
          (case try_upstreams net query upstreams round_robin relay offsets of
             Panics \<Rightarrow> Panics
           | Blocks \<Rightarrow> Blocks
           | Returns (contacted, r) \<Rightarrow> Returns (upstream # contacted, r)))"

record forwarder =
  fw_round_robin :: nat
  fw_cache :: DnsCache
  fw_relay :: "SocketAddr option"
  fw_last_proxy :: "SocketAddr option"
  fw_registry :: "DnsRegistry option"

record forward_config =
  fg_upstreams :: "SocketAddr list"
  fg_cache_size :: nat
  fg_filter :: DnsFilterSets

text \<open>A received query with everything the step reads: the proxy setting, the network and the clock.\<close>

record forward_event =
  fe_peer :: SocketAddr
  fe_query :: "u8 list"
  fe_proxy :: "SocketAddr option"
  fe_net :: dns_net
  fe_now_get :: Instant
  fe_seen :: "u8 list \<Rightarrow> Instant"
  fe_now_put :: Instant
  fe_now_ingest :: Instant

record forward_out =
  fo_reply :: "(SocketAddr \<times> u8 list) option"
  fo_contacted :: "SocketAddr list"
  fo_fetched :: "u8 list option"

definition silent_out :: forward_out where
  "silent_out = \<lparr>fo_reply = None, fo_contacted = [], fo_fetched = None\<rparr>"

definition refresh_relay :: "dns_net \<Rightarrow> SocketAddr option \<Rightarrow> forwarder \<Rightarrow> forwarder option" where
  "refresh_relay net current_proxy s =
     (if current_proxy = fw_last_proxy s then Some s
      else
        (case current_proxy of
           None \<Rightarrow> Some (s\<lparr>fw_relay := None, fw_last_proxy := current_proxy\<rparr>)
         | Some addr \<Rightarrow>
             (case socks5_connect (dn_proxy net addr) of
                None \<Rightarrow> None
              | Some (Inl e) \<Rightarrow> Some (s\<lparr>fw_relay := None, fw_last_proxy := current_proxy\<rparr>)
              | Some (Inr relay) \<Rightarrow> Some (s\<lparr>fw_relay := Some relay, fw_last_proxy := current_proxy\<rparr>))))"

definition query_decision :: "DnsFilterSets \<Rightarrow> u8 list \<Rightarrow> DomainDecision option" where
  "query_decision flt query =
     (case query_name query of
        None \<Rightarrow> None
      | Some None \<Rightarrow> Some DD_Pass
      | Some (Some domain) \<Rightarrow> Some (classify_domain domain (fs_block flt) (fs_allow flt)))"

definition record_answer :: "forward_event \<Rightarrow> u8 list \<Rightarrow> DnsRegistry option \<Rightarrow> DnsRegistry option option" where
  "record_answer ev r registry =
     (case registry of
        None \<Rightarrow> Some None
      | Some reg \<Rightarrow>
          (case ingest (fe_now_ingest ev) reg (fe_query ev) r of
             None \<Rightarrow> None
           | Some (recorded, reg) \<Rightarrow> Some (Some reg)))"

definition forward_upstream :: "forward_config \<Rightarrow> forward_event \<Rightarrow> forwarder \<Rightarrow> (forward_out \<times> forwarder) task_run" where
  "forward_upstream cfg ev s =
     (case try_upstreams (fe_net ev) (fe_query ev) (fg_upstreams cfg) (fw_round_robin s) (fw_relay s)
             [0..<length (fg_upstreams cfg)] of
        Panics \<Rightarrow> Panics
      | Blocks \<Rightarrow> Blocks
      | Returns (contacted, response) \<Rightarrow>
          if length (fg_upstreams cfg) = 0 then Panics
          else
            let s = s\<lparr>fw_round_robin := max (fw_round_robin s + 1) 1 mod length (fg_upstreams cfg)\<rparr> in
            (case response of
               None \<Rightarrow> Returns (\<lparr>fo_reply = None, fo_contacted = contacted, fo_fetched = None\<rparr>, s)
             | Some r \<Rightarrow>
                 let s = s\<lparr>fw_cache := cache_put (fe_seen ev) (fe_now_put ev) (fe_query ev) r (fg_cache_size cfg) (fw_cache s)\<rparr> in
                 (case record_answer ev r (fw_registry s) of
                    None \<Rightarrow> Panics
                  | Some registry \<Rightarrow>
                      Returns (\<lparr>fo_reply = Some (fe_peer ev, r), fo_contacted = contacted, fo_fetched = Some r\<rparr>,
                        s\<lparr>fw_registry := registry\<rparr>))))"

definition forward_step :: "forward_config \<Rightarrow> forward_event \<Rightarrow> forwarder \<Rightarrow> (forward_out \<times> forwarder) task_run" where
  "forward_step cfg ev s =
     (if fe_query ev = [] then Returns (silent_out, s)
      else
        (case refresh_relay (fe_net ev) (fe_proxy ev) s of
           None \<Rightarrow> Panics
         | Some s \<Rightarrow>
             (case query_decision (fg_filter cfg) (fe_query ev) of
                None \<Rightarrow> Panics
              | Some DD_Block \<Rightarrow> Returns (silent_out\<lparr>fo_reply := Some (fe_peer ev, nxdomain_response (fe_query ev))\<rparr>, s)
              | Some DD_Pass \<Rightarrow>
                  (case cache_get (fe_now_get ev) (fe_query ev) (fw_cache s) of
                     (Some r, cache) \<Rightarrow> Returns (silent_out\<lparr>fo_reply := Some (fe_peer ev, r)\<rparr>, s\<lparr>fw_cache := cache\<rparr>)
                   | (None, cache) \<Rightarrow> forward_upstream cfg ev (s\<lparr>fw_cache := cache\<rparr>)))))"

definition forwarder_new :: "DnsRegistry option \<Rightarrow> forwarder" where
  "forwarder_new registry =
     \<lparr>fw_round_robin = 0, fw_cache = [], fw_relay = None, fw_last_proxy = None, fw_registry = registry\<rparr>"

subsubsection \<open>The driver\<close>

record DnsForwarderConfig =
  dc_listen :: SocketAddr
  dc_upstreams :: "SocketAddr list"
  dc_doh :: bool
  dc_dot :: bool
  dc_cache_size :: nat
  dc_log_queries :: bool
  dc_blocklist :: "string list"
  dc_allowlist :: "string list"
  dc_socks5_proxy :: "SocketAddr option"

definition default_DnsForwarderConfig :: DnsForwarderConfig where
  "default_DnsForwarderConfig =
     \<lparr>dc_listen = \<lparr>sa_ip = V4 0x7F000001, sa_port = 53\<rparr>,
      dc_upstreams = [\<lparr>sa_ip = V4 0x01010101, sa_port = 53\<rparr>, \<lparr>sa_ip = V4 0x08080808, sa_port = 53\<rparr>],
      dc_doh = False, dc_dot = False, dc_cache_size = 10000, dc_log_queries = False, dc_blocklist = [],
      dc_allowlist = [], dc_socks5_proxy = None\<rparr>"

text \<open>
  The task of a started driver is the loop with its configuration and state. It is finished after a panic,
  and waits for ever when the relay does not answer.
\<close>

datatype task_status = TS_Running | TS_Waiting | TS_Finished

record forward_task =
  ft_config :: forward_config
  ft_state :: forwarder
  ft_status :: task_status

record DnsForwarderDriver =
  dd_id :: DriverId
  dd_config :: DnsForwarderConfig
  dd_running :: bool
  dd_health :: HealthStatus
  dd_task :: "forward_task option"
  dd_local :: "SocketAddr option"
  dd_registry :: "DnsRegistry option"
  dd_vpn_proxy :: "SocketAddr option"

definition DnsForwarderDriver_new :: "DriverId \<Rightarrow> DnsForwarderConfig \<Rightarrow> DnsForwarderDriver" where
  "DnsForwarderDriver_new ident config =
     \<lparr>dd_id = ident, dd_config = config, dd_running = False, dd_health = HS_Unknown, dd_task = None,
      dd_local = None, dd_registry = None, dd_vpn_proxy = None\<rparr>"

definition attach_registry :: "DnsRegistry \<Rightarrow> DnsForwarderDriver \<Rightarrow> DnsForwarderDriver" where
  "attach_registry registry d = d\<lparr>dd_registry := Some registry\<rparr>"

definition set_vpn_proxy :: "SocketAddr option \<Rightarrow> DnsForwarderDriver \<Rightarrow> DnsForwarderDriver" where
  "set_vpn_proxy addr d = d\<lparr>dd_vpn_proxy := addr\<rparr>"

definition loop_config :: "DnsForwarderConfig \<Rightarrow> forward_config" where
  "loop_config config =
     \<lparr>fg_upstreams = (if dc_upstreams config = [] then [\<lparr>sa_ip = V4 0x01010101, sa_port = 53\<rparr>] else dc_upstreams config),
      fg_cache_size = dc_cache_size config,
      fg_filter = \<lparr>fs_block = filter_entries (dc_blocklist config), fs_allow = filter_entries (dc_allowlist config)\<rparr>\<rparr>"

text \<open>\<open>bound\<close> is what binding the listener gives: the error text, or the local address where it is known.\<close>

definition driver_start ::
    "(SocketAddr \<Rightarrow> string) \<Rightarrow> (SocketAddr option, string) result \<Rightarrow> DnsForwarderDriver \<Rightarrow>
     (unit, DriverError) result \<times> DnsForwarderDriver" where
  "driver_start show_addr bound d =
     (if dd_running d then (Inr (), d)
      else
        (case bound of
           Inl e \<Rightarrow>
             (Inl (StartFailed (''Failed to bind DNS listener '' @ show_addr (dc_listen (dd_config d)) @ '': '' @ e)), d)
         | Inr local \<Rightarrow>
             (Inr (), d\<lparr>dd_task := Some \<lparr>ft_config = loop_config (dd_config d), ft_state = forwarder_new (dd_registry d),
                                     ft_status = TS_Running\<rparr>,
                       dd_local := local, dd_running := True, dd_health := HS_Healthy\<rparr>)))"

definition driver_stop :: "DnsForwarderDriver \<Rightarrow> (unit, DriverError) result \<times> DnsForwarderDriver" where
  "driver_stop d = (Inr (), d\<lparr>dd_task := None, dd_local := None, dd_running := False, dd_health := HS_Unknown\<rparr>)"

definition driver_restart ::
    "(SocketAddr \<Rightarrow> string) \<Rightarrow> (SocketAddr option, string) result \<Rightarrow> DnsForwarderDriver \<Rightarrow>
     (unit, DriverError) result \<times> DnsForwarderDriver" where
  "driver_restart show_addr bound d =
     (case driver_stop d of
        (Inl e, d) \<Rightarrow> (Inl e, d)
      | (Inr _, d) \<Rightarrow> driver_start show_addr bound d)"

text \<open>\<open>ss port\<close> is the output of the program \<open>ss\<close> for the port, where it ran and succeeded.\<close>

definition driver_health_check :: "(u16 \<Rightarrow> string option) \<Rightarrow> DnsForwarderDriver \<Rightarrow> HealthStatus" where
  "driver_health_check ss d =
     (if \<not> dd_running d then HS_Unhealthy 1
      else if (case dd_task d of Some t \<Rightarrow> ft_status t = TS_Finished | None \<Rightarrow> False) then HS_Unhealthy 2
      else
        let port = (case dd_local d of Some a \<Rightarrow> sa_port a | None \<Rightarrow> sa_port (dc_listen (dd_config d))) in
        case ss port of
          Some out \<Rightarrow> if sublist (show_nat (unat port)) out then HS_Healthy else HS_Degraded 1
        | None \<Rightarrow> HS_Degraded 1)"

text \<open>A query arriving at a started driver; a panic ends the task and nothing is answered.\<close>

definition task_step :: "forward_event \<Rightarrow> forward_task \<Rightarrow> forward_out \<times> forward_task" where
  "task_step ev t =
     (if ft_status t \<noteq> TS_Running then (silent_out, t)
      else
        (case forward_step (ft_config t) ev (ft_state t) of
           Panics \<Rightarrow> (silent_out, t\<lparr>ft_status := TS_Finished\<rparr>)
         | Blocks \<Rightarrow> (silent_out, t\<lparr>ft_status := TS_Waiting\<rparr>)
         | Returns (out, s) \<Rightarrow> (out, t\<lparr>ft_state := s\<rparr>)))"

subsection \<open>Filtering\<close>

text \<open>The names that cover a domain: itself and each parent, the most specific first.\<close>

fun parents :: "string list \<Rightarrow> string list" where
  "parents [] = []"
| "parents (l # ls) = join (l # ls) # parents ls"

lemma classify_labels_find:
  "classify_labels block allow ls =
     (case find (\<lambda>c. c \<in> allow \<or> c \<in> block) (parents ls) of
        Some c \<Rightarrow> if c \<in> allow then DD_Pass else DD_Block
      | None \<Rightarrow> DD_Pass)"
  by (induction ls) (simp_all add: Let_def)

lemma labels_lower: "labels (to_ascii_lowercase (join ls)) = map to_ascii_lowercase ls"
  if "ls \<noteq> []" "list_all host_label ls" for ls
  using that labels_join [of "map to_ascii_lowercase ls"]
  by (simp add: lower_join list_all_iff host_label_lower)

lemma trim_domain_of:
  assumes "host_name q"
  shows "trim_end_dots (domain_of q) = domain_of q"
  using normalize_domain_of [OF assms] join_not_Nil [of "map to_ascii_lowercase q"] assms
  by (cases "domain_of q" rule: rev_cases)
     (simp_all add: domain_of_def lower_join trim_end_dots_def host_name_def list_all_iff host_label_lower)

definition covering :: "string list \<Rightarrow> string list" where
  "covering q = parents (map to_ascii_lowercase q)"

lemma classify_domain_of:
  assumes "host_name q"
  shows "classify_domain (domain_of q) block allow =
    (case find (\<lambda>c. c \<in> allow \<or> c \<in> block) (covering q) of
       Some c \<Rightarrow> if c \<in> allow then DD_Pass else DD_Block
     | None \<Rightarrow> DD_Pass)"
proof -
  have "labels (to_ascii_lowercase (trim_end_dots (domain_of q))) = map to_ascii_lowercase q"
    using assms labels_lower [of q] by (simp add: trim_domain_of lower_domain_of) (simp add: domain_of_def host_name_def)
  then show ?thesis by (simp add: classify_domain_def covering_def classify_labels_find)
qed

lemma query_decision_encoded:
  assumes "host_name q" and "flags AND 0x8000 = 0"
  shows "query_decision flt (encode_message ident flags q qtype []) =
    Some (classify_domain (domain_of q) (fs_block flt) (fs_allow flt))"
  using query_name_encoded [OF assms] by (simp add: query_decision_def)

lemma query_decision_total: "query_decision flt query \<noteq> None"
  using query_name_total [of query] by (auto simp: query_decision_def split: option.splits)

subsection \<open>Negative answers\<close>

lemma foldl_zero:
  "foldl (\<lambda>resp i. if i < length resp then resp[i := 0] else resp) r is ! k =
     (if k < length r \<and> k \<in> set is then 0 else r ! k)"
  "length (foldl (\<lambda>resp i. if i < length resp then resp[i := (0 :: u8)] else resp) r is) = length r"
  by (induction "is" arbitrary: r) auto

lemma length_nxdomain [simp]: "length (nxdomain_response query) = length query"
  by (simp add: nxdomain_response_def Let_def foldl_zero)

lemma nxdomain_nth:
  assumes "12 \<le> length query" and "k < length query"
  shows "nxdomain_response query ! k =
    (if k = 2 then (query ! 2 AND 0x78) OR 0x80 else if k = 3 then (query ! 3 AND 0x07) OR 0x03
     else if 6 \<le> k \<and> k < 12 then 0 else query ! k)"
  using assms by (auto simp: nxdomain_response_def Let_def foldl_zero nth_list_update)

lemma u16_flags:
  "u16_from_be a b AND 0x8000 \<noteq> 0 \<longleftrightarrow> bit a 7" "u16_from_be a b AND 0x0200 \<noteq> 0 \<longleftrightarrow> bit a 1"
proof -
  have "\<not> bit b 15" "\<not> bit b 9" using bit_imp_le_length [of b 15] bit_imp_le_length [of b 9] by auto
  then have "bit (u16_from_be a b) 15 \<longleftrightarrow> bit a 7" "bit (u16_from_be a b) 9 \<longleftrightarrow> bit a 1"
    by (simp_all add: u16_from_be_def bit_or_iff bit_push_bit_iff bit_ucast_iff)
  then show "u16_from_be a b AND 0x8000 \<noteq> 0 \<longleftrightarrow> bit a 7" "u16_from_be a b AND 0x0200 \<noteq> 0 \<longleftrightarrow> bit a 1"
    using bit_iff_and_push_bit_not_eq_0 [of "u16_from_be a b" 15] bit_iff_and_push_bit_not_eq_0 [of "u16_from_be a b" 9]
    by (simp_all add: push_bit_eq_mult)
qed

lemma bit_0F: "bit (0x0F :: 'a :: len word) n \<longleftrightarrow> n < 4 \<and> n < LENGTH('a)"
proof -
  have "(0x0F :: 'a word) = mask 4" by (simp add: mask_eq_decr_exp)
  then show ?thesis by (simp only: bit_mask_iff) auto
qed

lemma rcode_byte: "ucast (u16_from_be a b AND 0x000F) = b AND 0x0F"
  by (rule bit_word_eqI)
     (auto simp: u16_from_be_def bit_and_iff bit_or_iff bit_push_bit_iff bit_ucast_iff bit_0F)

lemma nxdomain_bytes:
  fixes x y :: u8
  shows "bit ((x AND 0x78) OR 0x80) 7" "\<not> bit ((x AND 0x78) OR 0x80) 1"
    "((y AND 0x07) OR 0x03) AND 0x0F = (if bit y 2 then 7 else 3)"
proof -
  show "bit ((x AND 0x78) OR 0x80) 7" "\<not> bit ((x AND 0x78) OR 0x80) 1" by (simp_all add: bit_simps)
  show "((y AND 0x07) OR 0x03) AND 0x0F = (if bit y 2 then 7 else 3)"
  proof (rule bit_word_eqI)
    fix n assume "n < LENGTH(8)"
    then consider "n = 0" | "n = 1" | "n = 2" | "n = 3" | "n = 4" | "n = 5" | "n = 6" | "n = 7" by fastforce
    then show "bit (((y AND 0x07) OR 0x03) AND 0x0F) n \<longleftrightarrow> bit (if bit y 2 then 7 else 3 :: u8) n"
      by cases (auto simp: bit_simps)
  qed
qed

text \<open>
  The negative answer is a response to its query: same length, identifier and question, no records, and
  the response code 3, unless bit 2 of the query's own code is set, when it is 7. The flag that asks for
  recursion is cleared.
\<close>

theorem nxdomain_answer_spec:
  assumes "12 \<le> length query"
  shows "parse_header (nxdomain_response query) =
      Some (Some \<lparr>dh_qr = True, dh_tc = False, dh_rcode = (if bit (query ! 3) 2 then 7 else 3),
                  dh_qdcount = u16_from_be (query ! 4) (query ! 5), dh_ancount = 0\<rparr>) \<and>
    length (nxdomain_response query) = length query \<and>
    take 2 (nxdomain_response query) = take 2 query \<and> drop 12 (nxdomain_response query) = drop 12 query \<and>
    \<not> bit (nxdomain_response query ! 2) 0"
proof -
  let ?r = "nxdomain_response query"
  have n: "?r ! 0 = query ! 0" "?r ! Suc 0 = query ! Suc 0" "?r ! 2 = (query ! 2 AND 0x78) OR 0x80"
    "?r ! 3 = (query ! 3 AND 0x07) OR 0x03" "?r ! 4 = query ! 4" "?r ! 5 = query ! 5" "?r ! 6 = 0" "?r ! 7 = 0"
    using assms by (subst nxdomain_nth; force)+
  have "parse_header ?r = Some (Some \<lparr>dh_qr = True, dh_tc = False, dh_rcode = (if bit (query ! 3) 2 then 7 else 3),
      dh_qdcount = u16_from_be (query ! 4) (query ! 5), dh_ancount = 0\<rparr>)"
    using assms u16_flags [of "?r ! 2" "?r ! 3"] rcode_byte [of "?r ! 2" "?r ! 3"] nxdomain_bytes [of "query ! 2"]
      nxdomain_bytes(3) [of "query ! 3"]
    by (simp add: parse_header_def HEADER_LEN_def index_Some Let_def n) (simp add: u16_from_be_def)
  moreover have "take 2 ?r = take 2 query" using assms
    by (intro nth_equalityI) (auto simp: nxdomain_nth)
  moreover have "drop 12 ?r = drop 12 query" using assms
    by (intro nth_equalityI) (auto simp: nxdomain_nth)
  moreover have "\<not> bit (?r ! 2) 0" by (simp add: n bit_simps)
  ultimately show ?thesis by simp
qed

theorem nxdomain_answer_spec_witness:
  "parse_header (nxdomain_response (encode_message 7 0x0100 [''ads''] 1 [])) =
    Some (Some \<lparr>dh_qr = True, dh_tc = False, dh_rcode = 3, dh_qdcount = 1, dh_ancount = 0\<rparr>)"
proof -
  let ?q = "encode_message 7 0x0100 [''ads''] 1 []"
  have l: "12 \<le> length ?q" by (simp add: encode_message_def)
  have "?q ! 3 = 0" "u16_from_be (?q ! 4) (?q ! 5) = 1" by code_simp+
  with nxdomain_answer_spec [OF l] show ?thesis by simp
qed

subsection \<open>The relay\<close>

lemma parse_socks5_addr_panics_iff:
  "parse_socks5_addr bytes = None \<longleftrightarrow>
     (\<exists>rest. bytes = 0x01 # rest \<and> length rest = 5) \<or> (\<exists>rest. bytes = 0x04 # rest \<and> length rest \<in> {17, 18})"
  by (cases bytes) (auto simp: parse_socks5_addr_def slice_def index_def)

lemma socks5_connect_total: "socks5_connect proxy \<noteq> None"
proof -
  have "parse_socks5_addr (drop 3 (take 10 resp)) = None \<Longrightarrow> \<not> 10 \<le> length resp" for resp
    by (auto simp: parse_socks5_addr_panics_iff dest: arg_cong [where f = length])
  then show ?thesis
    by (fastforce simp: socks5_connect_def not_less split: option.splits sum.splits)
qed

lemma length_received [simp]: "length (received d) = 4096"
  by (simp add: received_def)

lemma received_nth: "i < length d \<Longrightarrow> i < 4096 \<Longrightarrow> received d ! i = d ! i"
  by (simp add: received_def nth_append)

text \<open>
  C30. Receiving through the relay panics exactly when the payload of a well-formed packet is longer than its
  header; otherwise the payload comes back. A DNS message has at least 12 bytes and the header for an IPv4
  upstream 10, so every answer of an IPv4 upstream through the relay panics and ends the forwarder.
\<close>

theorem relay_receive_spec:
  assumes "length query \<le> 4000" and "n = length (socks5_packet query upstream)"
    and "buf = received (socks5_packet query upstream)"
  shows "socks5_recv buf n =
    (if length query \<le> (case sa_ip upstream of V4 _ \<Rightarrow> 10 | V6 _ \<Rightarrow> 22)
     then Some (Inr (query @ drop (length query) buf, length query)) else None)"
proof -
  define h where "h = (case sa_ip upstream of V4 _ \<Rightarrow> 10 | V6 _ \<Rightarrow> (22 :: nat))"
  obtain hd where p: "socks5_packet query upstream = hd @ query" and h: "length hd = h"
    and b: "hd ! 0 = 0" "hd ! 1 = 0" "hd ! 2 = 0" and t: "hd ! 3 = (case sa_ip upstream of V4 _ \<Rightarrow> 1 | V6 _ \<Rightarrow> 4)"
  proof -
    let ?hd = "[0, 0, 0] @ (case sa_ip upstream of
        V4 a \<Rightarrow> 0x01 # v4_octets a @ u16_to_be (sa_port upstream)
      | V6 a \<Rightarrow> 0x04 # v6_octets a @ u16_to_be (sa_port upstream))"
    show ?thesis
      by (rule that [of ?hd]) (auto simp: socks5_packet_def h_def v4_octets_def v6_octets_def numeral_eq_Suc split: IpAddr.splits)
  qed
  have h4: "h \<in> {10, 22}" by (simp add: h_def split: IpAddr.splits)
  have l: "n = h + length query" "n \<le> 4096" "4 \<le> n" using assms(1,2) p h h4 by auto
  have nth: "buf ! i = hd ! i" if "i < 4" for i
    using that h h4 l assms(3) by (auto simp: p received_nth nth_append)
  have d: "take (length query) (drop h buf) = query" "take h buf = hd"
    using h l assms(3) by (simp_all add: p received_def)
  have "socks5_header_len buf = Some h"
    by (simp add: socks5_header_len_def nth t h_def split: IpAddr.splits)
  moreover have "buf ! 0 = 0" "buf ! 1 = 0" "buf ! 2 = 0" using b by (simp_all add: nth)
  moreover have "length buf = 4096" by (simp add: assms(3))
  ultimately show ?thesis
    using l h d by (auto simp: socks5_recv_def slice_def h_def [symmetric])
qed

theorem relay_receive_spec_witness:
  "socks5_recv (received (socks5_packet (encode_message 7 0x8180 [''a''] 1 []) \<lparr>sa_ip = V4 1, sa_port = 53\<rparr>))
     (length (socks5_packet (encode_message 7 0x8180 [''a''] 1 []) \<lparr>sa_ip = V4 1, sa_port = 53\<rparr>)) = None"
proof -
  have "length (encode_message 7 0x8180 [''a''] 1 []) = 19" by (simp add: encode_message_def encode_question_def encode_name_def)
  then show ?thesis
    using relay_receive_spec [OF _ refl refl, of "encode_message 7 0x8180 [''a''] 1 []" "\<lparr>sa_ip = V4 1, sa_port = 53\<rparr>"] by simp
qed

subsection \<open>Reachable states\<close>

text \<open>The loop from its start, with the queries handled and what became of each.\<close>

inductive fw_reach :: "forward_config \<Rightarrow> DnsRegistry option \<Rightarrow> (forward_event \<times> forward_out) list \<Rightarrow> forwarder \<Rightarrow> bool"
  for cfg registry where
  fw_start: "fw_reach cfg registry [] (forwarder_new registry)"
| fw_next: "fw_reach cfg registry hist s \<Longrightarrow> forward_step cfg ev s = Returns (out, s') \<Longrightarrow>
    fw_reach cfg registry (hist @ [(ev, out)]) s'"

inductive_cases fw_reach_snocE: "fw_reach cfg registry (hist @ [(ev, out)]) s"

lemma refresh_relay_cases:
  obtains relay proxy where "refresh_relay net p s = Some (s\<lparr>fw_relay := relay, fw_last_proxy := proxy\<rparr>)"
proof -
  have "\<exists>relay proxy. refresh_relay net p s = Some (s\<lparr>fw_relay := relay, fw_last_proxy := proxy\<rparr>)"
  proof (cases "p = fw_last_proxy s")
    case True
    then have "refresh_relay net p s = Some (s\<lparr>fw_relay := fw_relay s, fw_last_proxy := fw_last_proxy s\<rparr>)"
      by (simp add: refresh_relay_def)
    then show ?thesis by blast
  next
    case False
    then show ?thesis
      using socks5_connect_total by (cases p) (fastforce simp: refresh_relay_def split: option.splits sum.splits)+
  qed
  with that show ?thesis by blast
qed

lemma record_answer_total: "record_answer ev r registry \<noteq> None"
  by (auto simp: record_answer_def ingest_total split: option.splits)

lemma try_upstreams_answer:
  "try_upstreams net query ups rr relay offsets = Returns (contacted, Some r) \<Longrightarrow>
   \<exists>k \<in> set offsets. forward_query net k query (ups ! ((rr + k) mod length ups)) relay = Returns (Some r)"
  by (induction offsets arbitrary: contacted) (auto simp: Let_def split: task_run.splits option.splits prod.splits)

definition blocked :: "forward_config \<Rightarrow> u8 list \<Rightarrow> bool" where
  "blocked cfg query \<longleftrightarrow> query_decision (fg_filter cfg) query = Some DD_Block"

text \<open>The outcomes of a step that returns.\<close>

lemma forward_step_cases:
  assumes "forward_step cfg ev s = Returns (out, s')"
  obtains (empty) "fe_query ev = []" "out = silent_out" "s' = s"
  | (blocked) "blocked cfg (fe_query ev)" "out = silent_out\<lparr>fo_reply := Some (fe_peer ev, nxdomain_response (fe_query ev))\<rparr>"
      "fw_cache s' = fw_cache s" "fw_registry s' = fw_registry s"
  | (cached) r where "\<not> blocked cfg (fe_query ev)" "cache_get (fe_now_get ev) (fe_query ev) (fw_cache s) = (Some r, fw_cache s')"
      "out = silent_out\<lparr>fo_reply := Some (fe_peer ev, r)\<rparr>" "fw_registry s' = fw_registry s"
  | (failed) "\<not> blocked cfg (fe_query ev)" "cache_get (fe_now_get ev) (fe_query ev) (fw_cache s) = (None, fw_cache s')"
      "fo_reply out = None" "fo_fetched out = None" "fw_registry s' = fw_registry s"
  | (fetched) r cache where "\<not> blocked cfg (fe_query ev)"
      "cache_get (fe_now_get ev) (fe_query ev) (fw_cache s) = (None, cache)"
      "fo_reply out = Some (fe_peer ev, r)" "fo_fetched out = Some r"
      "fw_cache s' = cache_put (fe_seen ev) (fe_now_put ev) (fe_query ev) r (fg_cache_size cfg) cache"
      "\<exists>k relay upstream. upstream \<in> set (fg_upstreams cfg) \<and>
         forward_query (fe_net ev) k (fe_query ev) upstream relay = Returns (Some r)"
      "record_answer ev r (fw_registry s) = Some (fw_registry s')"
proof (cases "fe_query ev = []")
  case True
  then show ?thesis using assms empty by (simp add: forward_step_def)
next
  case False
  obtain relay proxy where r: "refresh_relay (fe_net ev) (fe_proxy ev) s = Some (s\<lparr>fw_relay := relay, fw_last_proxy := proxy\<rparr>)"
    by (rule refresh_relay_cases)
  obtain d where d: "query_decision (fg_filter cfg) (fe_query ev) = Some d"
    using query_decision_total by blast
  show ?thesis
  proof (cases d)
    case DD_Block
    then show ?thesis using assms False r d blocked by (auto simp: forward_step_def blocked_def)
  next
    case DD_Pass
    then have nb: "\<not> blocked cfg (fe_query ev)" by (simp add: blocked_def d)
    obtain a cache where g: "cache_get (fe_now_get ev) (fe_query ev) (fw_cache s) = (a, cache)" by (metis surj_pair)
    show ?thesis
    proof (cases a)
      case (Some x)
      then show ?thesis using assms False r d DD_Pass g cached [OF nb] by (auto simp: forward_step_def)
    next
      case None
      then have f: "forward_upstream cfg ev (s\<lparr>fw_relay := relay, fw_last_proxy := proxy, fw_cache := cache\<rparr>) = Returns (out, s')"
        using assms False r d DD_Pass g by (simp add: forward_step_def)
      show ?thesis
      proof (cases "fo_fetched out")
        case N: None
        then show ?thesis using f g None failed [OF nb]
          by (auto simp: forward_upstream_def Let_def split: task_run.splits option.splits if_splits prod.splits)
      next
        case (Some x)
        then show ?thesis using f g None fetched [OF nb]
          by (auto simp: forward_upstream_def Let_def split: task_run.splits option.splits if_splits prod.splits)
             (metis (no_types, lifting) try_upstreams_answer length_greater_0_conv mod_less_divisor nth_mem)
      qed
    qed
  qed
qed

subsection \<open>The cache\<close>

definition cache_ok :: "nat \<Rightarrow> DnsCache \<Rightarrow> bool" where
  "cache_ok cap cache \<longleftrightarrow> distinct (map fst cache) \<and> length cache \<le> cap"

lemma cache_get_ok: "cache_ok cap cache \<Longrightarrow> cache_get now query cache = (a, cache') \<Longrightarrow> cache_ok cap cache'"
  using length_delete_le [of query cache]
  by (auto simp: cache_get_def cache_ok_def distinct_delete split: option.splits if_splits prod.splits)

lemma length_update: "length (AList.update k v al) \<le> Suc (length al)"
  by (induction al) auto

lemma cache_put_ok:
  assumes "cache_ok cap cache"
  shows "cache_ok cap (cache_put seen now query response cap cache)"
proof -
  define kept where "kept = (if cap \<le> length cache then
      (let kept = filter (\<lambda>(q, r, expires). seen q < expires) cache in if cap \<le> length kept then [] else kept) else cache)"
  have "distinct (map fst kept)" using assms by (simp add: kept_def cache_ok_def Let_def distinct_map_filter)
  moreover have "cap \<noteq> 0 \<Longrightarrow> length kept < cap" by (simp add: kept_def Let_def)
  ultimately show ?thesis
    using assms length_update [of query "(response, now + CACHE_TTL)" kept]
    by (cases "cap = 0") (auto simp: cache_put_def kept_def [symmetric] cache_ok_def distinct_update)
qed

lemma cache_get_subset: "cache_get now query cache = (a, cache') \<Longrightarrow> set cache' \<subseteq> set cache"
  by (auto simp: cache_get_def AList.delete_eq split: option.splits if_splits prod.splits)

lemma cache_get_hit: "cache_get now query cache = (Some r, cache') \<Longrightarrow> \<exists>e. (query, r, e) \<in> set cache \<and> now < e"
  by (auto simp: cache_get_def split: option.splits if_splits prod.splits dest: map_of_SomeD)

lemma cache_put_entries:
  "(q, r, e) \<in> set (cache_put seen now query response cap cache) \<Longrightarrow>
   (q, r, e) = (query, response, now + CACHE_TTL) \<or> (q, r, e) \<in> set cache"
proof -
  have u: "x \<in> set (AList.update k v al) \<Longrightarrow> x = (k, v) \<or> x \<in> set al" for x k v and al :: DnsCache
    by (induction al) (auto split: if_splits)
  show "(q, r, e) \<in> set (cache_put seen now query response cap cache) \<Longrightarrow> ?thesis"
    by (auto simp: cache_put_def Let_def split: if_splits dest!: u)
qed

text \<open>An answer an upstream gave to a query in the history.\<close>

definition answered :: "(forward_event \<times> forward_out) list \<Rightarrow> u8 list \<Rightarrow> u8 list \<Rightarrow> Instant \<Rightarrow> bool" where
  "answered hist query r t \<longleftrightarrow>
     (\<exists>(ev, out) \<in> set hist. fe_query ev = query \<and> fo_fetched out = Some r \<and> fe_now_put ev = t)"

definition forwarder_ok :: "forward_config \<Rightarrow> (forward_event \<times> forward_out) list \<Rightarrow> forwarder \<Rightarrow> bool" where
  "forwarder_ok cfg hist s \<longleftrightarrow>
     cache_ok (fg_cache_size cfg) (fw_cache s) \<and>
     (\<forall>(q, r, e) \<in> set (fw_cache s). \<exists>t. answered hist q r t \<and> e = t + CACHE_TTL)"

lemma answered_mono: "answered hist q r t \<Longrightarrow> answered (hist @ xs) q r t"
  by (auto simp: answered_def)

lemma forwarder_ok_mono:
  "forwarder_ok cfg hist s \<Longrightarrow> cache_ok (fg_cache_size cfg) (fw_cache s') \<Longrightarrow> set (fw_cache s') \<subseteq> set (fw_cache s) \<Longrightarrow>
   forwarder_ok cfg (hist @ xs) s'"
  by (fastforce simp: forwarder_ok_def intro: answered_mono)

lemma reach_ok: "fw_reach cfg registry hist s \<Longrightarrow> forwarder_ok cfg hist s"
proof (induction rule: fw_reach.induct)
  case fw_start
  then show ?case by (simp add: forwarder_ok_def forwarder_new_def cache_ok_def)
next
  case (fw_next hist s ev out s')
  then have ok: "cache_ok (fg_cache_size cfg) (fw_cache s)" by (simp add: forwarder_ok_def)
  from fw_next.hyps(2) show ?case
  proof (cases rule: forward_step_cases)
    case (fetched r cache)
    have "answered (hist @ [(ev, out)]) (fe_query ev) r (fe_now_put ev)" using fetched by (auto simp: answered_def)
    moreover have "set cache \<subseteq> set (fw_cache s)" by (rule cache_get_subset [OF fetched(2)])
    ultimately show ?thesis
      using fw_next.IH cache_put_ok [OF cache_get_ok [OF ok fetched(2)]] fetched(5)
      by (fastforce simp: forwarder_ok_def dest!: cache_put_entries intro: answered_mono)
  qed (use fw_next.IH ok in \<open>auto intro: forwarder_ok_mono dest: cache_get_ok cache_get_subset\<close>)
qed

text \<open>
  C8. The forwarder makes nothing up. Whatever it was asked before and however the network behaved, a reply
  goes to the client that asked, and it is the negative answer of a blocked query, in which case no
  upstream is contacted, or the answer of an upstream to exactly this query, given now or less than thirty
  seconds after it was fetched. The cache never holds more than its configured number of answers.
\<close>

theorem replies_are_answers:
  assumes "fw_reach cfg registry (hist @ [(ev, out)]) s"
  shows "length (fw_cache s) \<le> fg_cache_size cfg \<and>
    (\<forall>peer r. fo_reply out = Some (peer, r) \<longrightarrow> peer = fe_peer ev \<and>
       (if blocked cfg (fe_query ev) then r = nxdomain_response (fe_query ev) \<and> fo_contacted out = []
        else (\<exists>k relay upstream. upstream \<in> set (fg_upstreams cfg) \<and>
                forward_query (fe_net ev) k (fe_query ev) upstream relay = Returns (Some r)) \<or>
             (\<exists>t. answered hist (fe_query ev) r t \<and> fe_now_get ev < t + CACHE_TTL)))"
proof -
  obtain s0 where r: "fw_reach cfg registry hist s0" and st: "forward_step cfg ev s0 = Returns (out, s)"
    using assms by (auto elim: fw_reach_snocE)
  have "length (fw_cache s) \<le> fg_cache_size cfg"
    using reach_ok [OF assms] by (simp add: forwarder_ok_def cache_ok_def)
  moreover have "peer = fe_peer ev \<and>
       (if blocked cfg (fe_query ev) then a = nxdomain_response (fe_query ev) \<and> fo_contacted out = []
        else (\<exists>k relay upstream. upstream \<in> set (fg_upstreams cfg) \<and>
                forward_query (fe_net ev) k (fe_query ev) upstream relay = Returns (Some a)) \<or>
             (\<exists>t. answered hist (fe_query ev) a t \<and> fe_now_get ev < t + CACHE_TTL))"
    if "fo_reply out = Some (peer, a)" for peer a
    using st
  proof (cases rule: forward_step_cases)
    case (cached x)
    then obtain e where "(fe_query ev, x, e) \<in> set (fw_cache s0)" "fe_now_get ev < e" using cache_get_hit by blast
    then have "\<exists>t. answered hist (fe_query ev) x t \<and> fe_now_get ev < t + CACHE_TTL"
      using reach_ok [OF r] by (fastforce simp: forwarder_ok_def)
    then show ?thesis using cached that by (simp add: silent_out_def)
  qed (use that in \<open>auto simp: silent_out_def\<close>)
  ultimately show ?thesis by blast
qed


definition quiet_net :: dns_net where
  "quiet_net = \<lparr>dn_direct = (\<lambda>_ _ _. None), dn_relay = (\<lambda>_ _ _. RelaySendFailed),
     dn_proxy = (\<lambda>_. \<lparr>sp_greeted = (\<lambda>_. None), sp_associated = (\<lambda>_. None), sp_bound = False\<rparr>)\<rparr>"

definition sample_event :: "u8 list \<Rightarrow> dns_net \<Rightarrow> forward_event" where
  "sample_event query net =
     \<lparr>fe_peer = \<lparr>sa_ip = V4 0x0A000002, sa_port = 4000\<rparr>, fe_query = query, fe_proxy = None, fe_net = net,
      fe_now_get = 0, fe_seen = (\<lambda>_. 0), fe_now_put = 0, fe_now_ingest = 0\<rparr>"

definition sample_config :: forward_config where
  "sample_config = loop_config (default_DnsForwarderConfig\<lparr>dc_blocklist := [''Ads.example.'']\<rparr>)"


lemma try_upstreams_direct:
  "\<exists>contacted. try_upstreams net query ups rr None offsets = Returns (contacted,
     map_option (\<lambda>k. take 4096 (the (dn_direct net k (ups ! ((rr + k) mod length ups)) query)))
       (find (\<lambda>k. dn_direct net k (ups ! ((rr + k) mod length ups)) query \<noteq> None) offsets))"
proof (induction offsets)
  case (Cons k offsets)
  then obtain contacted where "try_upstreams net query ups rr None offsets = Returns (contacted,
     map_option (\<lambda>k. take 4096 (the (dn_direct net k (ups ! ((rr + k) mod length ups)) query)))
       (find (\<lambda>k. dn_direct net k (ups ! ((rr + k) mod length ups)) query \<noteq> None) offsets))" by blast
  then show ?case
    by (cases "dn_direct net k (ups ! ((rr + k) mod length ups)) query") (simp_all add: Let_def forward_query_def)
qed simp

text \<open>
  C23. One dead upstream does not stop the network. Without a relay, a query that is neither blocked nor
  cached is answered by the first upstream, in rotated order, that responds in time, and stays unanswered
  only when none does; the step neither panics nor blocks, and the next one starts at the next upstream.
\<close>

theorem dns_failover:
  assumes "fe_query ev \<noteq> []" and "\<not> blocked cfg (fe_query ev)" and "fe_proxy ev = fw_last_proxy s" and "fw_relay s = None"
    and "fst (cache_get (fe_now_get ev) (fe_query ev) (fw_cache s)) = None" and "fg_upstreams cfg \<noteq> []"
  shows "\<exists>out s'. forward_step cfg ev s = Returns (out, s') \<and>
    fw_round_robin s' = Suc (fw_round_robin s) mod length (fg_upstreams cfg) \<and>
    (let ask = (\<lambda>k. dn_direct (fe_net ev) k
           (fg_upstreams cfg ! ((fw_round_robin s + k) mod length (fg_upstreams cfg))) (fe_query ev))
     in fo_reply out = map_option (\<lambda>k. (fe_peer ev, take 4096 (the (ask k))))
          (find (\<lambda>k. ask k \<noteq> None) [0..<length (fg_upstreams cfg)]))"
proof -
  obtain cache where g: "cache_get (fe_now_get ev) (fe_query ev) (fw_cache s) = (None, cache)"
    using assms(5) by (metis prod.collapse)
  have r: "refresh_relay (fe_net ev) (fe_proxy ev) s = Some s" by (simp add: refresh_relay_def assms(3))
  have d: "query_decision (fg_filter cfg) (fe_query ev) = Some DD_Pass"
    using assms(2) query_decision_total [of "fg_filter cfg" "fe_query ev"] by (metis DomainDecision.exhaust blocked_def not_None_eq)
  let ?n = "length (fg_upstreams cfg)"
  let ?ask = "\<lambda>k. dn_direct (fe_net ev) k (fg_upstreams cfg ! ((fw_round_robin s + k) mod ?n)) (fe_query ev)"
  have st: "forward_step cfg ev s = forward_upstream cfg ev (s\<lparr>fw_cache := cache\<rparr>)"
    using assms(1) r d g by (simp add: forward_step_def)
  obtain contacted where t: "try_upstreams (fe_net ev) (fe_query ev) (fg_upstreams cfg) (fw_round_robin s) None [0..<?n] =
      Returns (contacted, map_option (\<lambda>k. take 4096 (the (?ask k))) (find (\<lambda>k. ?ask k \<noteq> None) [0..<?n]))"
    using try_upstreams_direct [of "fe_net ev" "fe_query ev" "fg_upstreams cfg" "fw_round_robin s" "[0..<?n]"] by (rule exE)
  show ?thesis
  proof (cases "find (\<lambda>k. ?ask k \<noteq> None) [0..<?n]")
    case None
    then show ?thesis unfolding st using t assms(4,6) by (simp add: forward_upstream_def Let_def)
  next
    case (Some k)
    obtain reg where "record_answer ev (take 4096 (the (?ask k))) (fw_registry s) = Some reg"
      using record_answer_total by blast
    then show ?thesis unfolding st using t assms(4,6) Some by (simp add: forward_upstream_def Let_def)
  qed
qed

definition second_answers :: dns_net where
  "second_answers = quiet_net\<lparr>dn_direct := (\<lambda>k u q. if sa_ip u = V4 0x08080808 then Some (q @ [1]) else None)\<rparr>"

lemma sample_not_blocked: "\<not> blocked sample_config [1, 2, 3]"
  by (simp add: blocked_def query_decision_def query_name_def parse_header_def HEADER_LEN_def)

lemma sample_upstreams:
  "fg_upstreams sample_config = [\<lparr>sa_ip = V4 0x01010101, sa_port = 53\<rparr>, \<lparr>sa_ip = V4 0x08080808, sa_port = 53\<rparr>]"
  by (simp add: sample_config_def loop_config_def default_DnsForwarderConfig_def)

theorem dns_failover_witness:
  "\<exists>out s'. forward_step sample_config (sample_event [1, 2, 3] second_answers) (forwarder_new None) = Returns (out, s') \<and>
     fo_reply out = Some (\<lparr>sa_ip = V4 0x0A000002, sa_port = 4000\<rparr>, [1, 2, 3, 1])"
proof -
  let ?ev = "sample_event [1, 2, 3] second_answers"
  have h: "fe_query ?ev \<noteq> []" "\<not> blocked sample_config (fe_query ?ev)" "fe_proxy ?ev = fw_last_proxy (forwarder_new None)"
    "fw_relay (forwarder_new None) = None" "fst (cache_get (fe_now_get ?ev) (fe_query ?ev) (fw_cache (forwarder_new None))) = None"
    by (simp_all add: sample_event_def sample_not_blocked forwarder_new_def cache_get_def)
  let ?ask = "\<lambda>k. dn_direct (fe_net ?ev) k (fg_upstreams sample_config !
      ((fw_round_robin (forwarder_new None) + k) mod length (fg_upstreams sample_config))) (fe_query ?ev)"
  have a: "?ask 0 = None" "?ask 1 = Some [1, 2, 3, 1]"
    by (simp_all add: sample_upstreams sample_event_def second_answers_def quiet_net_def forwarder_new_def)
  have "[0..<length (fg_upstreams sample_config)] = [0, 1]" by (simp add: sample_upstreams upt_rec)
  with a have "find (\<lambda>k. ?ask k \<noteq> None) [0..<length (fg_upstreams sample_config)] = Some 1" by simp
  moreover have "fe_peer ?ev = \<lparr>sa_ip = V4 0x0A000002, sa_port = 4000\<rparr>" by (simp add: sample_event_def)
  moreover obtain out s' where "forward_step sample_config ?ev (forwarder_new None) = Returns (out, s')"
    and "fo_reply out = map_option (\<lambda>k. (fe_peer ?ev, take 4096 (the (?ask k))))
      (find (\<lambda>k. ?ask k \<noteq> None) [0..<length (fg_upstreams sample_config)])"
    using dns_failover [OF h] unfolding Let_def sample_upstreams by auto
  ultimately show ?thesis using a(2) by (intro exI [of _ out] exI [of _ s']) simp
qed

text \<open>The same query again, within thirty seconds and with the network gone: the answer comes from the cache.\<close>

theorem replies_are_answers_witness:
  "\<exists>first out s t. fw_reach sample_config None
      [(sample_event [1, 2, 3] second_answers, first), (sample_event [1, 2, 3] quiet_net, out)] s \<and>
     fo_reply out = Some (\<lparr>sa_ip = V4 0x0A000002, sa_port = 4000\<rparr>, [1, 2, 3, 1]) \<and>
     answered [(sample_event [1, 2, 3] second_answers, first)] [1, 2, 3] [1, 2, 3, 1] t \<and> 0 < t + CACHE_TTL"
proof -
  let ?e1 = "sample_event [1, 2, 3] second_answers" and ?e2 = "sample_event [1, 2, 3] quiet_net"
  have d: "query_decision (fg_filter sample_config) [1, 2, 3] = Some DD_Pass"
    by (simp add: query_decision_def query_name_def parse_header_def HEADER_LEN_def)
  have c: "fg_cache_size sample_config = 10000"
    by (simp add: sample_config_def loop_config_def default_DnsForwarderConfig_def)
  obtain out1 s1 where s1: "forward_step sample_config ?e1 (forwarder_new None) = Returns (out1, s1)"
    and c1: "fw_cache s1 = [([1, 2, 3], [1, 2, 3, 1], CACHE_TTL)]" and p1: "fw_last_proxy s1 = None"
    by (auto simp: forward_step_def sample_event_def refresh_relay_def forwarder_new_def d cache_get_def forward_upstream_def
        sample_upstreams upt_rec forward_query_def second_answers_def quiet_net_def cache_put_def c record_answer_def)
  obtain out2 s2 where s2: "forward_step sample_config ?e2 s1 = Returns (out2, s2)"
    and o2: "fo_reply out2 = Some (\<lparr>sa_ip = V4 0x0A000002, sa_port = 4000\<rparr>, [1, 2, 3, 1])" and q2: "fo_fetched out2 = None"
    using c1 p1 by (auto simp: forward_step_def sample_event_def refresh_relay_def d cache_get_def CACHE_TTL_def silent_out_def)
  have r: "fw_reach sample_config None ([(?e1, out1)] @ [(?e2, out2)]) s2"
    using fw_next [OF fw_next [OF fw_start s1] s2] by simp
  have e2: "fe_query ?e2 = [1, 2, 3]" "fe_net ?e2 = quiet_net" "fe_now_get ?e2 = 0" by (simp_all add: sample_event_def)
  have n: "forward_query quiet_net k q u relay \<noteq> Returns (Some a)" for k q u relay a
    by (simp add: forward_query_def quiet_net_def split: option.split)
  obtain t where "answered [(?e1, out1)] [1, 2, 3] [1, 2, 3, 1] t" "0 < t + CACHE_TTL"
    using replies_are_answers [OF r] o2 n by (auto simp: e2 sample_not_blocked)
  then show ?thesis using r o2 by (intro exI [of _ out1] exI [of _ out2] exI [of _ s2] exI [of _ t]) simp
qed

text \<open>
  The lists cover host names only: a name with another character in it, such as an underscore, is not
  decoded, and the query passes although a parent of the name is blocked.
\<close>

lemma other_names_not_blocked:
  assumes "wire_name q" and "c \<in> set (join q)" and "\<not> host_char (to_ascii_lowercase_char c)" and "c \<noteq> dot"
    and "trim_end_dots (join q) = join q"
  shows "\<not> blocked cfg (encode_message ident flags q qtype [])"
proof -
  let ?h = "encode_header ident flags 0"
  have "char_of (n + 32) \<noteq> CHR ''.''" if "65 \<le> n" "n \<le> 90" for n :: nat
  proof
    assume "char_of (n + 32) = CHR ''.''"
    then have "of_char (char_of (n + 32) :: char) = (46 :: nat)" by (simp del: of_char_of)
    with that show False by simp
  qed
  then have "to_ascii_lowercase_char c \<noteq> dot"
    using assms(4) by (simp add: to_ascii_lowercase_char_def dot_def Let_def)
  then have "normalize_domain (join q) = None"
    using assms(2,3,5) by (auto simp: normalize_domain_def Let_def list_all_iff to_ascii_lowercase_def)
  then have "decode_name (encode_message ident flags q qtype []) (length ?h) = Some (Inl BadLabel)"
    using decode_wire_name [OF assms(1), of "encode_message ident flags q qtype []" ?h "u16_to_be qtype @ [0, 1]"]
    by (simp add: encode_message_def encode_question_def)
  then have "query_name (encode_message ident flags q qtype []) = Some None"
    using parse_header_total [of "encode_message ident flags q qtype []"]
    by (auto simp: query_name_def HEADER_LEN_def split: option.splits)
  then show ?thesis by (simp add: blocked_def query_decision_def)
qed

end
