(* ===== verification/Nft.thy ===== *)
theory Nft
  imports Addr Disk "HOL-Library.Sublist"
begin

text \<open>
  The nftables backend of the executor (\<open>crates/balansir-executor/src/nftables.rs\<close>): rules as structured
  specifications, rendered to the words of an \<open>nft\<close> command, and found again by the comment they carry.
  The program \<open>nft\<close> is a parameter, a function from its arguments and the kernel state to its output.
  \<open>nft_contract\<close> states what its manual documents of the commands used here: what they do to the rules
  of a chain, and how a listing shows a rule.
\<close>

subsection \<open>Operations that may fail\<close>

type_synonym ('a, 'k) op = "'k \<Rightarrow> ('a, Error) result \<times> 'k"

definition op_ok :: "'a \<Rightarrow> ('a, 'k) op" where
  "op_ok x k = (Inr x, k)"

definition op_err :: "Error \<Rightarrow> ('a, 'k) op" where
  "op_err e k = (Inl e, k)"

definition op_then :: "('a, 'k) op \<Rightarrow> ('a \<Rightarrow> ('b, 'k) op) \<Rightarrow> ('b, 'k) op" where
  "op_then m f k = (case m k of (Inl e, k) \<Rightarrow> (Inl e, k) | (Inr x, k) \<Rightarrow> f x k)"

definition op_map_err :: "(Error \<Rightarrow> Error) \<Rightarrow> ('a, 'k) op \<Rightarrow> ('a, 'k) op" where
  "op_map_err f m k = (case m k of (Inl e, k) \<Rightarrow> (Inl (f e), k) | (Inr x, k) \<Rightarrow> (Inr x, k))"

fun op_each :: "('a \<Rightarrow> (unit, 'k) op) \<Rightarrow> 'a list \<Rightarrow> (unit, 'k) op" where
  "op_each f [] = op_ok ()"
| "op_each f (x # xs) = op_then (f x) (\<lambda>_. op_each f xs)"

subsection \<open>Rules\<close>

datatype NftProto = NP_Tcp | NP_Udp

fun show_proto :: "NftProto \<Rightarrow> string" where
  "show_proto NP_Tcp = ''tcp''"
| "show_proto NP_Udp = ''udp''"

datatype NftVerdict = NV_Accept | NV_Drop | NV_Reject | NV_Queue u16 | NV_Masquerade | NV_Dnat u32 u16

fun show_verdict :: "NftVerdict \<Rightarrow> string" where
  "show_verdict NV_Accept = ''accept''"
| "show_verdict NV_Drop = ''drop''"
| "show_verdict NV_Reject = ''reject''"
| "show_verdict (NV_Queue num) = ''queue num '' @ show_u num @ '' bypass''"
| "show_verdict NV_Masquerade = ''masquerade''"
| "show_verdict (NV_Dnat addr port) = ''dnat to '' @ show_v4 addr @ '':'' @ show_u port"

record NftRuleSpec =
  ns_proto :: "NftProto option"
  ns_src_cidr :: "string option"
  ns_dst_cidr :: "string option"
  ns_sport :: "u16 option"
  ns_dport :: "u16 option"
  ns_ct_state :: "string option"
  ns_iifname :: "string option"
  ns_oifname :: "string option"
  ns_verdict :: NftVerdict
  ns_mark :: "u32 option"
  ns_comment :: "string option"

definition NftRuleSpec_new :: "NftVerdict \<Rightarrow> NftRuleSpec" where
  "NftRuleSpec_new verdict =
     \<lparr>ns_proto = None, ns_src_cidr = None, ns_dst_cidr = None, ns_sport = None, ns_dport = None,
      ns_ct_state = None, ns_iifname = None, ns_oifname = None, ns_verdict = verdict, ns_mark = None,
      ns_comment = None\<rparr>"

definition quoted :: "string \<Rightarrow> string" where
  "quoted s = CHR 0x22 # s @ [CHR 0x22]"

fun opt_words :: "'a option \<Rightarrow> ('a \<Rightarrow> string list) \<Rightarrow> string list" where
  "opt_words None f = []"
| "opt_words (Some x) f = f x"

definition push_addr_matcher :: "string \<Rightarrow> string \<Rightarrow> string list" where
  "push_addr_matcher keyword cidr = [if CHR '':'' \<in> set cidr then ''ip6'' else ''ip'', keyword, cidr]"

definition render_spec :: "NftRuleSpec \<Rightarrow> string list" where
  "render_spec spec =
     opt_words (ns_proto spec) (\<lambda>proto. [''meta'', ''l4proto'', show_proto proto]) @
     opt_words (ns_src_cidr spec) (push_addr_matcher ''saddr'') @
     opt_words (ns_dst_cidr spec) (push_addr_matcher ''daddr'') @
     opt_words (ns_iifname spec) (\<lambda>n. [''iifname'', quoted n]) @
     opt_words (ns_oifname spec) (\<lambda>n. [''oifname'', quoted n]) @
     opt_words (ns_sport spec) (\<lambda>p. [''th'', ''sport'', show_u p]) @
     opt_words (ns_dport spec) (\<lambda>p. [''th'', ''dport'', show_u p]) @
     opt_words (ns_ct_state spec) (\<lambda>s. [''ct'', ''state'', s]) @
     opt_words (ns_mark spec) (\<lambda>m. [''meta'', ''mark'', ''set'', show_u m]) @
     (case ns_verdict spec of
        NV_Dnat addr port \<Rightarrow> [''dnat'', ''to'', show_v4 addr @ '':'' @ show_u port]
      | v \<Rightarrow> [show_verdict v]) @
     opt_words (ns_comment spec) (\<lambda>c. [''comment'', quoted c])"

definition show_spec :: "NftRuleSpec \<Rightarrow> string" where
  "show_spec spec = join_with '' '' (render_spec spec)"

subsection \<open>The backend\<close>

text \<open>What a call of \<open>nft\<close> gives: no binary, an error of the call, or its exit status and output.\<close>

datatype nft_output = NftMissing | NftIo string | NftExit bool string string

type_synonym 'k nft = "string list \<Rightarrow> 'k \<Rightarrow> nft_output \<times> 'k"

record NftablesBackend =
  nb_table_name :: string
  nb_chain_name :: string

definition run_nft :: "'k nft \<Rightarrow> string list \<Rightarrow> (bool \<times> string \<times> string, 'k) op" where
  "run_nft nft args k =
     (case nft args k of
        (NftMissing, k) \<Rightarrow> (Inl (E_Misconfiguration ''nft binary not found''), k)
      | (NftIo e, k) \<Rightarrow> (Inl (E_Io e), k)
      | (NftExit ok out err, k) \<Rightarrow> (Inr (ok, out, err), k))"

text \<open>The \<open>Debug\<close> form of a string of printable characters.\<close>

definition debug_char :: "char \<Rightarrow> string" where
  "debug_char c =
     (if c = CHR 0x22 then [CHR 0x5C, CHR 0x22] else if c = CHR 0x5C then [CHR 0x5C, CHR 0x5C]
      else if c = CHR 0x0A then [CHR 0x5C, CHR ''n''] else if c = CHR 0x0D then [CHR 0x5C, CHR ''r'']
      else if c = CHR 0x09 then [CHR 0x5C, CHR ''t''] else [c])"

definition debug_str :: "string \<Rightarrow> string" where
  "debug_str s = quoted (concat (map debug_char s))"

definition ascii_alphanumeric :: "char \<Rightarrow> bool" where
  "ascii_alphanumeric c \<longleftrightarrow>
     (let n = of_char c :: nat in 48 \<le> n \<and> n \<le> 57 \<or> 65 \<le> n \<and> n \<le> 90 \<or> 97 \<le> n \<and> n \<le> 122)"

definition valid_identifier :: "string \<Rightarrow> bool" where
  "valid_identifier name \<longleftrightarrow>
     name \<noteq> [] \<and> length name \<le> 64 \<and> list_all (\<lambda>c. ascii_alphanumeric c \<or> c = CHR ''_'' \<or> c = CHR ''-'') name"

definition validate_identifier :: "string \<Rightarrow> (unit, Error) result" where
  "validate_identifier name =
     (if valid_identifier name then Inr ()
      else Inl (E_Misconfiguration (''invalid nftables identifier: '' @ debug_str name)))"

definition op_check :: "(unit, Error) result \<Rightarrow> (unit, 'k) op" where
  "op_check r k = (r, k)"

definition NftablesBackend_new :: "string \<Rightarrow> string \<Rightarrow> (NftablesBackend, Error) result" where
  "NftablesBackend_new table_name chain_name =
     (case validate_identifier table_name of
        Inl e \<Rightarrow> Inl e
      | Inr _ \<Rightarrow>
          (case validate_identifier chain_name of
             Inl e \<Rightarrow> Inl e
           | Inr _ \<Rightarrow> Inr \<lparr>nb_table_name = table_name, nb_chain_name = chain_name\<rparr>))"

definition create_if_absent :: "'k nft \<Rightarrow> string list \<Rightarrow> string \<Rightarrow> (unit, 'k) op" where
  "create_if_absent nft args what =
     op_then (run_nft nft args) (\<lambda>(ok, out, err).
       if ok then op_ok ()
       else if sublist ''File exists'' err then op_ok ()
       else op_err (E_Fatal (''nft create '' @ what @ '' failed: '' @ err)))"

definition nft_init :: "'k nft \<Rightarrow> NftablesBackend \<Rightarrow> (unit, 'k) op" where
  "nft_init nft b =
     op_then (create_if_absent nft [''add'', ''table'', ''inet'', nb_table_name b] ''table'') (\<lambda>_.
     op_then (create_if_absent nft
       [''add'', ''chain'', ''inet'', nb_table_name b, nb_chain_name b, ''{'', ''type'', ''filter'', ''hook'',
        ''forward'', ''priority'', ''0'', '';'', ''}''] ''chain'') (\<lambda>_ k.
     (case nft [''chain'', ''inet'', nb_table_name b, nb_chain_name b, ''{'', ''policy'', ''accept'', '';'', ''}''] k of
        (NftMissing, k) \<Rightarrow> (Inl (E_Misconfiguration ''nft binary not found''), k)
      | (_, k) \<Rightarrow> (Inr (), k))))"

fun split_policy :: "string option \<Rightarrow> string list \<Rightarrow> string list \<Rightarrow> string option \<times> string list" where
  "split_policy policy parts [] = (policy, parts)"
| "split_policy policy parts [a] = (policy, parts @ [a])"
| "split_policy policy parts (a # b # rest) =
     (if a = ''policy'' then split_policy (Some b) parts rest
      else split_policy policy (parts @ [a]) (b # rest))"

definition set_policy :: "'k nft \<Rightarrow> NftablesBackend \<Rightarrow> string \<Rightarrow> string \<Rightarrow> (unit, 'k) op" where
  "set_policy nft b name pol =
     op_then (run_nft nft [''chain'', ''inet'', nb_table_name b, name, ''{'', ''policy'', pol, '';'', ''}''])
       (\<lambda>(ok, out, err).
          if \<not> ok \<and> \<not> sublist ''File exists'' err \<and> \<not> sublist ''already has policy'' err \<and> \<not> sublist ''same policy'' err
          then op_err (E_Fatal (''nft chain '' @ name @ '' policy '' @ pol @ '' failed: '' @ err))
          else op_ok ())"

definition ensure_hooked_chain :: "'k nft \<Rightarrow> NftablesBackend \<Rightarrow> string \<Rightarrow> string list \<Rightarrow> (unit, 'k) op" where
  "ensure_hooked_chain nft b name hook_args =
     op_then (op_check (validate_identifier name)) (\<lambda>_.
       let (policy, parts) = split_policy None [] hook_args;
           spec = ''{'' @ concat (map (\<lambda>p. CHR '' '' # p) parts) @ '' }''
       in op_then (create_if_absent nft [''add'', ''chain'', ''inet'', nb_table_name b, name, spec] ''chain'') (\<lambda>_.
            case policy of None \<Rightarrow> op_ok () | Some pol \<Rightarrow> set_policy nft b name pol))"

definition add_rule_to_chain :: "'k nft \<Rightarrow> NftablesBackend \<Rightarrow> string \<Rightarrow> NftRuleSpec \<Rightarrow> (unit, 'k) op" where
  "add_rule_to_chain nft b chain spec =
     op_then (op_check (validate_identifier chain)) (\<lambda>_.
     op_then (run_nft nft ([''add'', ''rule'', ''inet'', nb_table_name b, chain] @ render_spec spec)) (\<lambda>(ok, out, err).
       if ok then op_ok () else op_err (E_Fatal (''nft add rule to '' @ chain @ '' failed: '' @ err))))"

fun rfind_str :: "string \<Rightarrow> string \<Rightarrow> nat option" where
  "rfind_str needle [] = (if needle = [] then Some 0 else None)"
| "rfind_str needle (c # s) =
     (case rfind_str needle s of
        Some i \<Rightarrow> Some (Suc i)
      | None \<Rightarrow> if prefix needle (c # s) then Some 0 else None)"

definition parse_handle_for_comment :: "string \<Rightarrow> string \<Rightarrow> string option" where
  "parse_handle_for_comment line comment =
     (if \<not> sublist (quoted comment) line then None
      else
        (case rfind_str ''# handle '' line of
           None \<Rightarrow> None
         | Some idx \<Rightarrow>
             let handle = trim (drop (idx + 9) line) in
             if handle \<noteq> [] \<and> list_all ascii_digit handle then Some handle else None))"

fun first_handle :: "string \<Rightarrow> string list \<Rightarrow> string option" where
  "first_handle comment [] = None"
| "first_handle comment (l # ls) =
     (case parse_handle_for_comment l comment of Some h \<Rightarrow> Some h | None \<Rightarrow> first_handle comment ls)"

definition find_handle_by_comment_in_chain ::
    "'k nft \<Rightarrow> NftablesBackend \<Rightarrow> string \<Rightarrow> string \<Rightarrow> (string option, 'k) op" where
  "find_handle_by_comment_in_chain nft b chain comment =
     op_then (op_check (validate_identifier chain)) (\<lambda>_.
     op_then (run_nft nft [''-a'', ''list'', ''chain'', ''inet'', nb_table_name b, chain]) (\<lambda>(ok, out, err).
       if ok then op_ok (first_handle comment (str_lines out))
       else if sublist ''No such file or directory'' err then op_ok None
       else op_err (E_Fatal (''nft list chain '' @ chain @ '' failed: '' @ err))))"

definition remove_rule_by_comment_in_chain ::
    "'k nft \<Rightarrow> NftablesBackend \<Rightarrow> string \<Rightarrow> string \<Rightarrow> (unit, 'k) op" where
  "remove_rule_by_comment_in_chain nft b chain comment =
     op_then (op_check (validate_identifier chain)) (\<lambda>_.
     op_then (find_handle_by_comment_in_chain nft b chain comment) (\<lambda>handle.
       case handle of
         None \<Rightarrow> op_ok ()
       | Some h \<Rightarrow>
           op_then (run_nft nft [''delete'', ''rule'', ''inet'', nb_table_name b, chain, ''handle'', h]) (\<lambda>(ok, out, err).
             if ok then op_ok () else op_err (E_Fatal (''nft delete rule in '' @ chain @ '' failed: '' @ err)))))"

definition list_chain :: "'k nft \<Rightarrow> NftablesBackend \<Rightarrow> string \<Rightarrow> (string list, 'k) op" where
  "list_chain nft b chain =
     op_then (op_check (validate_identifier chain)) (\<lambda>_.
     op_then (run_nft nft [''list'', ''chain'', ''inet'', nb_table_name b, chain]) (\<lambda>(ok, out, err).
       if ok then op_ok (map trim (str_lines out))
       else op_err (E_Fatal (''nft list chain '' @ chain @ '' failed: '' @ err))))"

definition has_comment_in_chain :: "'k nft \<Rightarrow> NftablesBackend \<Rightarrow> string \<Rightarrow> string \<Rightarrow> 'k \<Rightarrow> bool \<times> 'k" where
  "has_comment_in_chain nft b chain comment k =
     (case find_handle_by_comment_in_chain nft b chain comment k of
        (Inr (Some _), k) \<Rightarrow> (True, k)
      | (_, k) \<Rightarrow> (False, k))"

definition nft_add_rule :: "'k nft \<Rightarrow> NftablesBackend \<Rightarrow> NftRuleSpec \<Rightarrow> (unit, 'k) op" where
  "nft_add_rule nft b spec =
     op_then (run_nft nft ([''add'', ''rule'', ''inet'', nb_table_name b, nb_chain_name b] @ render_spec spec))
       (\<lambda>(ok, out, err). if ok then op_ok () else op_err (E_Fatal (''nft add rule failed: '' @ err)))"

definition nft_flush :: "'k nft \<Rightarrow> NftablesBackend \<Rightarrow> (unit, 'k) op" where
  "nft_flush nft b =
     op_then (run_nft nft [''flush'', ''chain'', ''inet'', nb_table_name b, nb_chain_name b])
       (\<lambda>(ok, out, err). if ok then op_ok () else op_err (E_Fatal (''nft flush failed: '' @ err)))"

definition find_handle_by_comment :: "'k nft \<Rightarrow> NftablesBackend \<Rightarrow> string \<Rightarrow> (string option, 'k) op" where
  "find_handle_by_comment nft b comment =
     op_then (run_nft nft [''-a'', ''list'', ''chain'', ''inet'', nb_table_name b, nb_chain_name b]) (\<lambda>(ok, out, err).
       if ok then op_ok (first_handle comment (str_lines out))
       else op_err (E_Fatal (''nft list failed: '' @ err)))"

definition remove_rule_by_comment :: "'k nft \<Rightarrow> NftablesBackend \<Rightarrow> string \<Rightarrow> (unit, 'k) op" where
  "remove_rule_by_comment nft b comment =
     op_then (find_handle_by_comment nft b comment) (\<lambda>handle.
       case handle of
         None \<Rightarrow> op_ok ()
       | Some h \<Rightarrow>
           op_then (run_nft nft [''delete'', ''rule'', ''inet'', nb_table_name b, nb_chain_name b, ''handle'', h])
             (\<lambda>(ok, out, err). if ok then op_ok () else op_err (E_Fatal (''nft delete rule failed: '' @ err))))"

definition list_rules :: "'k nft \<Rightarrow> NftablesBackend \<Rightarrow> (string list, 'k) op" where
  "list_rules nft b =
     op_then (run_nft nft [''list'', ''chain'', ''inet'', nb_table_name b, nb_chain_name b]) (\<lambda>(ok, out, err).
       if ok then op_ok (map trim (filter (\<lambda>l. sublist ''accept'' l \<or> sublist ''drop'' l) (str_lines out)))
       else op_err (E_Fatal (''nft list failed: '' @ err)))"

fun after_str :: "string \<Rightarrow> string \<Rightarrow> string option" where
  "after_str needle [] = (if needle = [] then Some [] else None)"
| "after_str needle (c # s) = (if prefix needle (c # s) then Some (drop (length needle) (c # s)) else after_str needle s)"

definition line_rule_id :: "string \<Rightarrow> u32 option" where
  "line_rule_id line =
     (case after_str ''balansir:'' line of
        None \<Rightarrow> None
      | Some rest \<Rightarrow>
          let digits = takeWhile ascii_digit rest in
          if digits = [] then None else parse_word 10 digits)"

definition list_rule_ids :: "'k nft \<Rightarrow> NftablesBackend \<Rightarrow> (u32 list, 'k) op" where
  "list_rule_ids nft b =
     op_then (run_nft nft [''list'', ''chain'', ''inet'', nb_table_name b, nb_chain_name b]) (\<lambda>(ok, out, err).
       if ok then op_ok (List.map_filter line_rule_id (str_lines out))
       else op_err (E_Fatal (''nft list failed: '' @ err)))"

subsection \<open>What nft documents\<close>

record nft_rule =
  nr_handle :: nat
  nr_words :: "string list"

text \<open>The rules of each chain, by table and chain name; a chain that does not exist has none.\<close>

type_synonym ruleset = "string \<times> string \<Rightarrow> nft_rule list"

text \<open>Graphic characters without quotes: what a comment of the program and an interface name are made of.\<close>

definition plain :: "string \<Rightarrow> bool" where
  "plain s \<longleftrightarrow> list_all (\<lambda>c. graphic c \<and> c \<noteq> CHR 0x22) s"

text \<open>
  A listing with handles shows a rule on one line, which ends in its handle and in which exactly the quoted
  words of the rule appear in quotes.
\<close>

definition shows_rule :: "nft_rule \<Rightarrow> string \<Rightarrow> bool" where
  "shows_rule r l \<longleftrightarrow>
     (\<exists>body. l = body @ '' # handle '' @ show_nat (nr_handle r) \<and>
        (\<forall>q. plain q \<longrightarrow> (sublist (quoted q) body \<longleftrightarrow> quoted q \<in> set (nr_words r))))"

definition nft_lists :: "('k \<Rightarrow> ruleset) \<Rightarrow> 'k nft \<Rightarrow> bool" where
  "nft_lists rules nft \<longleftrightarrow>
     (\<forall>t c k. snd (nft [''-a'', ''list'', ''chain'', ''inet'', t, c] k) = k \<and>
        (case fst (nft [''-a'', ''list'', ''chain'', ''inet'', t, c] k) of
           NftExit ok out err \<Rightarrow>
             if ok then \<exists>before shown after. str_lines out = before @ shown @ after \<and>
                 list_all (\<lambda>l. CHR 0x22 \<notin> set l) (before @ after) \<and> list_all2 shows_rule (rules k (t, c)) shown
             else sublist ''No such file or directory'' err \<longrightarrow> rules k (t, c) = []
         | _ \<Rightarrow> True))"

definition nft_adds :: "('k \<Rightarrow> ruleset) \<Rightarrow> 'k nft \<Rightarrow> bool" where
  "nft_adds rules nft \<longleftrightarrow>
     (\<forall>t c ws k. case nft ([''add'', ''rule'', ''inet'', t, c] @ ws) k of
        (NftExit True out err, k') \<Rightarrow>
          (\<exists>h. h \<notin> nr_handle ` set (rules k (t, c)) \<and>
             rules k' = (rules k)((t, c) := rules k (t, c) @ [\<lparr>nr_handle = h, nr_words = ws\<rparr>]))
      | (_, k') \<Rightarrow> rules k' = rules k)"

definition nft_deletes :: "('k \<Rightarrow> ruleset) \<Rightarrow> 'k nft \<Rightarrow> bool" where
  "nft_deletes rules nft \<longleftrightarrow>
     (\<forall>t c h k. case nft [''delete'', ''rule'', ''inet'', t, c, ''handle'', show_nat h] k of
        (NftExit True out err, k') \<Rightarrow>
          rules k' = (rules k)((t, c) := filter (\<lambda>r. nr_handle r \<noteq> h) (rules k (t, c)))
      | (_, k') \<Rightarrow> rules k' = rules k)"

definition nft_flushes :: "('k \<Rightarrow> ruleset) \<Rightarrow> 'k nft \<Rightarrow> bool" where
  "nft_flushes rules nft \<longleftrightarrow>
     (\<forall>t c k. case nft [''flush'', ''chain'', ''inet'', t, c] k of
        (NftExit True out err, k') \<Rightarrow> rules k' = (rules k)((t, c) := [])
      | (_, k') \<Rightarrow> rules k' = rules k)"

definition nft_creates :: "('k \<Rightarrow> ruleset) \<Rightarrow> 'k nft \<Rightarrow> bool" where
  "nft_creates rules nft \<longleftrightarrow>
     (\<forall>ws k. rules (snd (nft (''add'' # ''table'' # ws) k)) = rules k \<and>
        rules (snd (nft (''add'' # ''chain'' # ws) k)) = rules k \<and> rules (snd (nft (''chain'' # ws) k)) = rules k)"

definition nft_contract :: "('k \<Rightarrow> ruleset) \<Rightarrow> 'k nft \<Rightarrow> bool" where
  "nft_contract rules nft \<longleftrightarrow>
     nft_lists rules nft \<and> nft_adds rules nft \<and> nft_deletes rules nft \<and> nft_flushes rules nft \<and> nft_creates rules nft \<and>
     (\<forall>k tc. distinct (map nr_handle (rules k tc)))"

subsection \<open>Reading a listing\<close>

lemma rfind_str_absent: "hd needle \<notin> set s \<Longrightarrow> needle \<noteq> [] \<Longrightarrow> rfind_str needle s = None"
  by (induction s) (auto simp: prefix_Cons)

lemma rfind_str_last:
  assumes "hd needle \<notin> set (tl needle @ s)" and "needle \<noteq> []"
  shows "rfind_str needle (pre @ needle @ s) = Some (length pre)"
proof (induction pre)
  case Nil
  obtain c n where "needle = c # n" using assms(2) by (cases needle) auto
  then show ?case using assms rfind_str_absent [of needle "n @ s"] by simp
qed simp

lemma digit_neq: "ascii_digit c \<Longrightarrow> c \<noteq> CHR ''#''" "ascii_digit c \<Longrightarrow> c \<noteq> CHR 0x22" "ascii_digit c \<Longrightarrow> graphic c"
  by (auto simp: ascii_digit_def graphic_def Let_def)

lemma sublist_quoted_append:
  assumes "CHR 0x22 \<notin> set b"
  shows "sublist (quoted q) (a @ b) \<longleftrightarrow> sublist (quoted q) a"
proof
  assume "sublist (quoted q) (a @ b)"
  then obtain x y where "a @ b = x @ quoted q @ y" by (auto simp: sublist_def)
  moreover define w where "w = x @ quoted q"
  ultimately have e: "a @ b = w @ y" and w: "w \<noteq> []" "last w = CHR 0x22" by (simp_all add: quoted_def)
  from e consider u where "a = w @ u" | u where "w = a @ u" "b = u @ y"
    by (auto simp: append_eq_append_conv2)
  then show "sublist (quoted q) a"
  proof cases
    case 1
    then show ?thesis by (auto simp: sublist_def w_def)
  next
    case 2
    show ?thesis
    proof (cases "u = []")
      case True
      with 2 show ?thesis by (auto simp: sublist_def w_def intro: exI [of _ "[]"])
    next
      case False
      then have "last u = CHR 0x22" using 2 w(2) by simp
      with 2 False assms show ?thesis using last_in_set [of u] by simp
    qed
  qed
qed (simp add: sublist_appendI sublist_order.order.trans)

lemma parse_handle_shown:
  assumes "shows_rule r l" and "plain q"
  shows "parse_handle_for_comment l q = (if quoted q \<in> set (nr_words r) then Some (show_nat (nr_handle r)) else None)"
proof -
  let ?h = "show_nat (nr_handle r)"
  obtain body where l: "l = body @ '' # handle '' @ ?h"
    and b: "sublist (quoted q) body \<longleftrightarrow> quoted q \<in> set (nr_words r)"
    using assms by (auto simp: shows_rule_def)
  have d: "c \<in> set ?h \<Longrightarrow> ascii_digit c" for c using show_nat_digits [of "nr_handle r"] by (simp add: list_all_iff)
  have "CHR 0x22 \<notin> set ('' # handle '' @ ?h)" using d digit_neq(2) by auto
  then have "sublist (quoted q) l \<longleftrightarrow> quoted q \<in> set (nr_words r)" using b by (simp add: l sublist_quoted_append)
  moreover have "rfind_str ''# handle '' ((body @ '' '') @ ''# handle '' @ ?h) = Some (length (body @ '' ''))"
    by (rule rfind_str_last) (use d digit_neq(1) in auto)
  moreover have "trim ?h = ?h" using d digit_neq(3) by (intro trim_graphic) auto
  ultimately show ?thesis
    using show_nat_digits [of "nr_handle r"] by (auto simp: parse_handle_for_comment_def l Let_def)
qed

lemma parse_handle_other: "CHR 0x22 \<notin> set l \<Longrightarrow> parse_handle_for_comment l q = None"
  by (auto simp: parse_handle_for_comment_def quoted_def sublist_def)

definition tagged :: "string \<Rightarrow> nft_rule \<Rightarrow> bool" where
  "tagged comment r \<longleftrightarrow> quoted comment \<in> set (nr_words r)"

lemma first_handle_append:
  "first_handle q (xs @ ys) = (case first_handle q xs of Some h \<Rightarrow> Some h | None \<Rightarrow> first_handle q ys)"
  by (induction xs) (auto split: option.splits)

lemma first_handle_none: "list_all (\<lambda>l. CHR 0x22 \<notin> set l) ls \<Longrightarrow> first_handle q ls = None"
  by (induction ls) (simp_all add: parse_handle_other)

lemma first_handle_shown:
  "list_all2 shows_rule rs ls \<Longrightarrow> plain q \<Longrightarrow>
   first_handle q ls = map_option (\<lambda>r. show_nat (nr_handle r)) (find (tagged q) rs)"
  by (induction rs ls rule: list_all2_induct) (simp_all add: parse_handle_shown tagged_def)

subsection \<open>Operations on the rules of a chain\<close>

lemma op_thenE:
  assumes "op_then m f k = (r, k')"
  obtains (fails) e where "m k = (Inl e, k')" and "r = Inl e" | (ok) x k2 where "m k = (Inr x, k2)" and "f x k2 = (r, k')"
  using assms by (cases "m k"; cases "fst (m k)") (auto simp: op_then_def)

lemma op_ok_iff [simp]: "op_ok x k = (r, k') \<longleftrightarrow> r = Inr x \<and> k' = k"
  by (auto simp: op_ok_def)

lemma op_err_iff [simp]: "op_err e k = (r, k') \<longleftrightarrow> r = Inl e \<and> k' = k"
  by (auto simp: op_err_def)

lemma op_check_iff [simp]: "op_check c k = (r, k') \<longleftrightarrow> c = r \<and> k' = k"
  by (auto simp: op_check_def)

lemma run_nft_cases:
  assumes "run_nft nft args k = (r, k')"
  obtains (missing) "nft args k = (NftMissing, k')" "\<exists>e. r = Inl e" | (io) e where "nft args k = (NftIo e, k')" "\<exists>e. r = Inl e"
  | (exit) ok out err where "nft args k = (NftExit ok out err, k')" "r = Inr (ok, out, err)"
  using assms by (cases "nft args k"; cases "fst (nft args k)") (auto simp: run_nft_def)

text \<open>What removing by a comment leaves of a chain: the first rule with the comment is gone.\<close>

definition drop_tagged :: "string \<Rightarrow> nft_rule list \<Rightarrow> nft_rule list" where
  "drop_tagged q rs = (case find (tagged q) rs of None \<Rightarrow> rs | Some r \<Rightarrow> filter (\<lambda>x. nr_handle x \<noteq> nr_handle r) rs)"

lemma listing:
  assumes "nft_contract rules nft" and "plain q"
    and "run_nft nft [''-a'', ''list'', ''chain'', ''inet'', t, c] k = (r, k')"
  shows "k' = k \<and> (\<forall>out err. r = Inr (True, out, err) \<longrightarrow>
      first_handle q (str_lines out) = map_option (\<lambda>r. show_nat (nr_handle r)) (find (tagged q) (rules k (t, c)))) \<and>
    (\<forall>out err. r = Inr (False, out, err) \<longrightarrow> sublist ''No such file or directory'' err \<longrightarrow> rules k (t, c) = [])"
proof -
  let ?n = "nft [''-a'', ''list'', ''chain'', ''inet'', t, c] k"
  have l: "snd ?n = k"
    "case fst ?n of
       NftExit ok out err \<Rightarrow>
         if ok then \<exists>before shown after. str_lines out = before @ shown @ after \<and>
             list_all (\<lambda>l. CHR 0x22 \<notin> set l) (before @ after) \<and> list_all2 shows_rule (rules k (t, c)) shown
         else sublist ''No such file or directory'' err \<longrightarrow> rules k (t, c) = []
     | _ \<Rightarrow> True"
    using assms(1) by (simp_all add: nft_contract_def nft_lists_def)
  from assms(3) show ?thesis
  proof (cases rule: run_nft_cases)
    case (exit ok out err)
    have "first_handle q (str_lines out) = map_option (\<lambda>r. show_nat (nr_handle r)) (find (tagged q) (rules k (t, c)))" if yes: ok
    proof -
      obtain before shown after where "str_lines out = before @ shown @ after"
        and "list_all (\<lambda>l. CHR 0x22 \<notin> set l) (before @ after)" and "list_all2 shows_rule (rules k (t, c)) shown"
        using l(2) exit(1) yes by auto
      then show ?thesis
        using first_handle_shown [of "rules k (t, c)" shown q] assms(2)
        by (simp add: first_handle_append first_handle_none split: option.split)
    qed
    then show ?thesis using l exit by auto
  qed (use l in auto)
qed

lemma find_handle_in_chain_spec:
  assumes "nft_contract rules nft" and "plain q" and "find_handle_by_comment_in_chain nft b c q k = (r, k')"
  shows "k' = k \<and> (\<forall>h. r = Inr h \<longrightarrow> h = map_option (\<lambda>r. show_nat (nr_handle r)) (find (tagged q) (rules k (nb_table_name b, c))))"
proof -
  from assms(3) show ?thesis unfolding find_handle_by_comment_in_chain_def
  proof (cases rule: op_thenE)
    case (ok u k2)
    then have k2: "k2 = k" by simp
    from ok(2) show ?thesis
    proof (cases rule: op_thenE)
      case (ok x k3)
      then obtain yes out err where x: "x = (yes, out, err)" by (cases x)
      show ?thesis using listing [OF assms(1,2) ok(1)] ok(2) by (cases yes) (auto simp: x k2 split: if_splits)
    qed (use listing [OF assms(1,2)] k2 in blast)
  qed simp
qed

lemma find_handle_spec:
  assumes "nft_contract rules nft" and "plain q" and "find_handle_by_comment nft b q k = (r, k')"
  shows "k' = k \<and> (\<forall>h. r = Inr h \<longrightarrow>
    h = map_option (\<lambda>r. show_nat (nr_handle r)) (find (tagged q) (rules k (nb_table_name b, nb_chain_name b))))"
proof -
  from assms(3) show ?thesis unfolding find_handle_by_comment_def
  proof (cases rule: op_thenE)
    case (ok x k2)
    then obtain yes out err where x: "x = (yes, out, err)" by (cases x)
    show ?thesis using listing [OF assms(1,2) ok(1)] ok(2) by (cases yes) (auto simp: x)
  qed (use listing [OF assms(1,2)] in blast)
qed

lemma deletion:
  assumes "nft_contract rules nft" and "run_nft nft [''delete'', ''rule'', ''inet'', t, c, ''handle'', show_nat h] k = (r, k')"
  shows "rules k' = (if \<exists>out err. r = Inr (True, out, err)
    then (rules k)((t, c) := filter (\<lambda>r. nr_handle r \<noteq> h) (rules k (t, c))) else rules k)"
proof -
  have d: "case nft [''delete'', ''rule'', ''inet'', t, c, ''handle'', show_nat h] k of
        (NftExit True out err, k') \<Rightarrow> rules k' = (rules k)((t, c) := filter (\<lambda>r. nr_handle r \<noteq> h) (rules k (t, c)))
      | (_, k') \<Rightarrow> rules k' = rules k"
    using assms(1) by (simp add: nft_contract_def nft_deletes_def)
  from assms(2) show ?thesis
  proof (cases rule: run_nft_cases)
    case (exit ok out err)
    then show ?thesis using d by (cases ok) auto
  qed (use d in auto)
qed

lemma addition:
  assumes "nft_contract rules nft" and "run_nft nft ([''add'', ''rule'', ''inet'', t, c] @ ws) k = (r, k')"
  shows "if \<exists>out err. r = Inr (True, out, err)
    then \<exists>h. h \<notin> nr_handle ` set (rules k (t, c)) \<and>
      rules k' = (rules k)((t, c) := rules k (t, c) @ [\<lparr>nr_handle = h, nr_words = ws\<rparr>])
    else rules k' = rules k"
proof -
  have d: "case nft ([''add'', ''rule'', ''inet'', t, c] @ ws) k of
        (NftExit True out err, k') \<Rightarrow> (\<exists>h. h \<notin> nr_handle ` set (rules k (t, c)) \<and>
             rules k' = (rules k)((t, c) := rules k (t, c) @ [\<lparr>nr_handle = h, nr_words = ws\<rparr>]))
      | (_, k') \<Rightarrow> rules k' = rules k"
    using assms(1) unfolding nft_contract_def nft_adds_def by (elim conjE) (erule allE)+
  from assms(2) show ?thesis
  proof (cases rule: run_nft_cases)
    case (exit ok out err)
    then show ?thesis using d by (cases ok) auto
  qed (use d in auto)
qed

lemma remove_by_comment_spec:
  assumes "nft_contract rules nft" and "plain q" and "remove_rule_by_comment nft b q k = (r, k')"
  shows "rules k' = (if isl r then rules k
    else (rules k)((nb_table_name b, nb_chain_name b) := drop_tagged q (rules k (nb_table_name b, nb_chain_name b))))"
  using assms(3) unfolding remove_rule_by_comment_def
  by (elim op_thenE)
     (auto dest!: find_handle_spec [OF assms(1,2)] simp: drop_tagged_def split: option.splits if_splits
       elim!: op_thenE dest!: deletion [OF assms(1)])

lemma remove_in_chain_spec:
  assumes "nft_contract rules nft" and "plain q" and "remove_rule_by_comment_in_chain nft b c q k = (r, k')"
  shows "rules k' = (if isl r then rules k else (rules k)((nb_table_name b, c) := drop_tagged q (rules k (nb_table_name b, c))))"
  using assms(3) unfolding remove_rule_by_comment_in_chain_def
  by (elim op_thenE)
     (auto dest!: find_handle_in_chain_spec [OF assms(1,2)] simp: drop_tagged_def split: option.splits if_splits
       elim!: op_thenE dest!: deletion [OF assms(1)])

lemma add_rule_spec:
  assumes "nft_contract rules nft" and "nft_add_rule nft b spec k = (r, k')"
  shows "if isl r then rules k' = rules k
    else \<exists>h. rules k' = (rules k)((nb_table_name b, nb_chain_name b) :=
      rules k (nb_table_name b, nb_chain_name b) @ [\<lparr>nr_handle = h, nr_words = render_spec spec\<rparr>])"
proof -
  from assms(2) show ?thesis unfolding nft_add_rule_def
  proof (cases rule: op_thenE)
    case (fails e)
    then show ?thesis using addition [OF assms(1) fails(1)] by simp
  next
    case (ok x k2)
    then obtain yes out err where x: "x = (yes, out, err)" by (cases x)
    show ?thesis using addition [OF assms(1) ok(1)] ok(2) by (cases yes) (auto simp: x)
  qed
qed

lemma add_to_chain_spec:
  assumes "nft_contract rules nft" and "add_rule_to_chain nft b c spec k = (r, k')"
  shows "if isl r then rules k' = rules k
    else \<exists>h. rules k' = (rules k)((nb_table_name b, c) :=
      rules k (nb_table_name b, c) @ [\<lparr>nr_handle = h, nr_words = render_spec spec\<rparr>])"
proof -
  from assms(2) show ?thesis unfolding add_rule_to_chain_def
  proof (cases rule: op_thenE)
    case (ok u k2)
    then have k2: "k2 = k" by simp
    from ok(2) show ?thesis
    proof (cases rule: op_thenE)
      case (fails e)
      then show ?thesis using addition [OF assms(1) fails(1)] k2 by simp
    next
      case (ok x k3)
      then obtain yes out err where x: "x = (yes, out, err)" by (cases x)
      show ?thesis using addition [OF assms(1) ok(1)] ok(2) k2 by (cases yes) (auto simp: x)
    qed
  qed simp
qed

lemma flush_spec:
  assumes "nft_contract rules nft" and "nft_flush nft b k = (r, k')"
  shows "rules k' = (if isl r then rules k else (rules k)((nb_table_name b, nb_chain_name b) := []))"
proof -
  have d: "case nft [''flush'', ''chain'', ''inet'', nb_table_name b, nb_chain_name b] k of
        (NftExit True out err, k') \<Rightarrow> rules k' = (rules k)((nb_table_name b, nb_chain_name b) := [])
      | (_, k') \<Rightarrow> rules k' = rules k" for k
    using assms(1) by (simp add: nft_contract_def nft_flushes_def)
  show ?thesis
    using assms(2) d [of k] unfolding nft_flush_def
    by (elim op_thenE) (auto elim!: run_nft_cases split: if_splits bool.splits)
qed

lemma create_keeps:
  assumes "\<And>k. rules (snd (nft args k)) = rules k" and "create_if_absent nft args what k = (r, k')"
  shows "rules k' = rules k"
  using assms(2) assms(1) [of k] unfolding create_if_absent_def
  by (elim op_thenE) (auto elim!: run_nft_cases split: if_splits)

lemma set_policy_keeps:
  assumes "nft_contract rules nft" and "set_policy nft b c pol k = (r, k')"
  shows "rules k' = rules k"
proof -
  have "rules (snd (nft (''chain'' # ws) k)) = rules k" for ws
    using assms(1) unfolding nft_contract_def nft_creates_def by blast
  from this [of "[''inet'', nb_table_name b, c, ''{'', ''policy'', pol, '';'', ''}'']"] show ?thesis
    using assms(2) unfolding set_policy_def
    by (elim op_thenE) (auto elim!: run_nft_cases split: if_splits)
qed

lemma ensure_chain_keeps:
  assumes "nft_contract rules nft" and "ensure_hooked_chain nft b c h k = (r, k')"
  shows "rules k' = rules k"
proof -
  have c: "rules (snd (nft (''add'' # ''chain'' # ws) k)) = rules k" for ws k
    using assms(1) unfolding nft_contract_def nft_creates_def by blast
  obtain policy parts where p: "split_policy None [] h = (policy, parts)" by fastforce
  from assms(2) show ?thesis
    unfolding ensure_hooked_chain_def p Let_def prod.case
    by (elim op_thenE)
       (auto dest!: create_keeps [of rules nft, OF c] set_policy_keeps [OF assms(1)] split: option.splits elim!: op_thenE)
qed

text \<open>Adding a list of rules to a chain appends them, up to the first that is refused.\<close>

lemma add_each_spec:
  assumes "nft_contract rules nft" and "op_each (add_rule_to_chain nft b c) specs k = (r, k')"
  shows "\<exists>new n. rules k' = (rules k)((nb_table_name b, c) := rules k (nb_table_name b, c) @ new) \<and>
    map nr_words new = map render_spec (take n specs) \<and> (\<not> isl r \<longrightarrow> n = length specs)"
  using assms(2)
proof (induction specs arbitrary: k)
  case Nil
  then show ?case by (intro exI [of _ "[]"] exI [of _ 0]) auto
next
  case (Cons spec specs)
  from Cons.prems show ?case unfolding op_each.simps
  proof (cases rule: op_thenE)
    case (fails e)
    then have "rules k' = rules k" using add_to_chain_spec [OF assms(1) fails(1)] by simp
    then show ?thesis using fails by (intro exI [of _ "[]"] exI [of _ 0]) auto
  next
    case (ok u k2)
    obtain h where h: "rules k2 = (rules k)((nb_table_name b, c) :=
        rules k (nb_table_name b, c) @ [\<lparr>nr_handle = h, nr_words = render_spec spec\<rparr>])"
      using add_to_chain_spec [OF assms(1) ok(1)] by auto
    from Cons.IH [OF ok(2)] obtain new n where "rules k' = (rules k2)((nb_table_name b, c) := rules k2 (nb_table_name b, c) @ new)"
      "map nr_words new = map render_spec (take n specs)" "\<not> isl r \<longrightarrow> n = length specs" by blast
    then show ?thesis
      by (intro exI [of _ "\<lparr>nr_handle = h, nr_words = render_spec spec\<rparr> # new"] exI [of _ "Suc n"]) (simp add: h)
  qed
qed

end
