(* ===== verification/NftInstance.thy ===== *)
theory NftInstance
  imports Nft
begin

text \<open>
  A small \<open>nft\<close> that keeps its promises: it holds the rules of each chain, accepts every rule, lists a
  rule by its plain quoted words and its handle, and gives a new rule a handle that is not in use.
  \<open>tiny_contract\<close> shows that it satisfies \<open>nft_contract\<close>, so what is proved from the contract is
  not empty.
\<close>

subsection \<open>The program\<close>

definition plain_quoted :: "string \<Rightarrow> bool" where
  "plain_quoted w \<longleftrightarrow> plain (butlast (tl w)) \<and> w = quoted (butlast (tl w))"

definition tiny_rules :: "ruleset \<Rightarrow> ruleset" where
  "tiny_rules s tc = (if distinct (map nr_handle (s tc)) then s tc else [])"

definition fresh_handle :: "nft_rule list \<Rightarrow> nat" where
  "fresh_handle rs = Suc (fold max (map nr_handle rs) 0)"

definition tiny_line :: "nft_rule \<Rightarrow> string" where
  "tiny_line r = concat (map (\<lambda>w. w @ '' '') (filter plain_quoted (nr_words r))) @ '' # handle '' @ show_nat (nr_handle r)"

definition tiny_nft :: "ruleset nft" where
  "tiny_nft args s =
     (if hd args = ''-a'' then
        (NftExit True (concat (map (\<lambda>r. tiny_line r @ [char_of (10 :: nat)]) (tiny_rules s (args ! 4, args ! 5)))) [], s)
      else if take 2 args = [''add'', ''rule''] then
        (let tc = (args ! 3, args ! 4); rs = tiny_rules s tc; ws = drop 5 args in
         (NftExit True [] [], s(tc := rs @ [\<lparr>nr_handle = fresh_handle rs, nr_words = ws\<rparr>])))
      else if hd args = ''delete'' then
        (let tc = (args ! 3, args ! 4) in
         (NftExit True [] [], s(tc := filter (\<lambda>r. show_nat (nr_handle r) \<noteq> args ! 6) (tiny_rules s tc))))
      else if hd args = ''flush'' then (NftExit True [] [], s((args ! 3, args ! 4) := []))
      else (NftExit True [] [], s))"

subsection \<open>It keeps the contract\<close>

lemma show_nat_inject: "show_nat m = show_nat n \<longleftrightarrow> m = n"
  by (metis digits_value_show_nat option.inject)

lemma tiny_rules_ok: "distinct (map nr_handle (tiny_rules s tc))"
  by (simp add: tiny_rules_def)

lemma tiny_rules_upd: "distinct (map nr_handle rs) \<Longrightarrow> tiny_rules (s(tc := rs)) = (tiny_rules s)(tc := rs)"
  by (auto simp: tiny_rules_def intro!: ext)

lemma fold_max_le: "x \<in> set xs \<or> x \<le> a \<Longrightarrow> x \<le> fold max xs (a :: nat)"
proof (induction xs arbitrary: a)
  case (Cons y xs)
  then have "x \<in> set xs \<or> x \<le> max y a" unfolding le_max_iff_disj by (metis order_refl set_ConsD)
  then show ?case unfolding fold_Cons comp_apply by (rule Cons.IH)
qed simp

lemma fresh_handle_new: "fresh_handle rs \<notin> nr_handle ` set rs"
proof
  assume "fresh_handle rs \<in> nr_handle ` set rs"
  then have "fresh_handle rs \<le> fold max (map nr_handle rs) 0" by (intro fold_max_le) simp
  then show False by (simp add: fresh_handle_def)
qed

lemma quoted_inject [simp]: "quoted a = quoted b \<longleftrightarrow> a = b"
  by (simp add: quoted_def)

lemma first_quote:
  "CHR 0x22 \<notin> set p \<Longrightarrow> CHR 0x22 \<notin> set q \<Longrightarrow> p @ CHR 0x22 # s = q @ CHR 0x22 # t \<longleftrightarrow> p = q \<and> s = t"
  by (metis option.inject prod.inject split_once_append)

lemma plain_no_quote:
  assumes "plain p"
  shows "CHR 0x22 \<notin> set p \<and> CHR '' '' \<notin> set p"
proof -
  have "\<not> graphic (CHR '' '')" by (simp add: graphic_def)
  then show ?thesis using assms unfolding plain_def list_all_iff by metis
qed

lemma quoted_after_word:
  assumes "plain p" and "plain q"
  shows "sublist (quoted q) (quoted p @ CHR '' '' # rest) \<longleftrightarrow> q = p \<or> sublist (quoted q) rest"
proof
  note pq = plain_no_quote [OF assms(1)] plain_no_quote [OF assms(2)]
  assume "sublist (quoted q) (quoted p @ CHR '' '' # rest)"
  then obtain x y where e: "quoted p @ CHR '' '' # rest = x @ quoted q @ y" by (auto simp: sublist_def)
  show "q = p \<or> sublist (quoted q) rest"
  proof (cases x)
    case Nil
    then have "p @ CHR 0x22 # CHR '' '' # rest = q @ CHR 0x22 # y" using e by (simp add: quoted_def)
    then show ?thesis using pq first_quote by metis
  next
    case (Cons c x')
    then have "p @ CHR 0x22 # CHR '' '' # rest = x' @ CHR 0x22 # q @ CHR 0x22 # y"
      using e by (simp add: quoted_def) metis
    then consider us where "p = x' @ us" "us @ CHR 0x22 # CHR '' '' # rest = CHR 0x22 # q @ CHR 0x22 # y"
      | us where "x' = p @ us" "CHR 0x22 # CHR '' '' # rest = us @ CHR 0x22 # q @ CHR 0x22 # y"
      unfolding append_eq_append_conv2 by metis
    then show ?thesis
    proof cases
      case 1
      then have "us = []" using pq by (cases us) auto
      then have "CHR '' '' # rest = q @ CHR 0x22 # y" using 1 by simp
      then show ?thesis using pq by (cases q) auto
    next
      case 2
      show ?thesis
      proof (cases us)
        case Nil
        then have "CHR '' '' # rest = q @ CHR 0x22 # y" using 2 by simp
        then show ?thesis using pq by (cases q) auto
      next
        case (Cons d vs)
        then have "CHR '' '' # rest = vs @ CHR 0x22 # q @ CHR 0x22 # y" using 2 by simp
        then have "rest = tl vs @ quoted q @ y" by (cases vs) (simp_all add: quoted_def)
        then show ?thesis unfolding sublist_def by metis
      qed
    qed
  qed
next
  assume "q = p \<or> sublist (quoted q) rest"
  moreover have "sublist rest (quoted p @ CHR '' '' # rest)" and "sublist (quoted p) (quoted p @ CHR '' '' # rest)"
    using sublist_append_leftI [of rest "quoted p @ '' ''"] by (simp_all add: sublist_append_rightI)
  ultimately show "sublist (quoted q) (quoted p @ CHR '' '' # rest)"
    by (elim disjE) (simp, erule sublist_order.order.trans)
qed

lemma quoted_in_words:
  "list_all plain_quoted ws \<Longrightarrow> plain q \<Longrightarrow>
   sublist (quoted q) (concat (map (\<lambda>w. w @ '' '') ws)) \<longleftrightarrow> quoted q \<in> set ws"
proof (induction ws)
  case Nil
  then show ?case by (simp add: quoted_def)
next
  case (Cons w ws)
  then obtain p where "plain p" and w: "w = quoted p" by (auto simp: plain_quoted_def)
  then show ?case
    using Cons quoted_after_word [of p q "concat (map (\<lambda>w. w @ '' '') ws)"] by simp
qed

lemma tiny_shows: "shows_rule r (tiny_line r)"
proof -
  have "quoted q \<in> set (nr_words r) \<longleftrightarrow> quoted q \<in> set (filter plain_quoted (nr_words r))" if "plain q" for q
    using that by (auto simp: plain_quoted_def quoted_def)
  moreover have "list_all plain_quoted (filter plain_quoted (nr_words r))" by (simp add: list_all_iff)
  ultimately show ?thesis by (auto simp: shows_rule_def tiny_line_def quoted_in_words)
qed

lemma split_lines_line:
  "char_of (10 :: nat) \<notin> set l \<Longrightarrow>
   split_lines acc (l @ char_of (10 :: nat) # s) = strip_cr (acc @ l) # split_lines [] s"
  by (induction l arbitrary: acc) auto

lemma graphic_not_control: "graphic c \<Longrightarrow> c \<noteq> char_of (10 :: nat) \<and> c \<noteq> char_of (13 :: nat)"
  by (auto simp: graphic_def)

lemma tiny_line_text: "char_of (10 :: nat) \<notin> set (tiny_line r) \<and> strip_cr (tiny_line r) = tiny_line r"
proof -
  have d: "list_all graphic (show_nat (nr_handle r))" "show_nat (nr_handle r) \<noteq> []"
    using show_nat_digits [of "nr_handle r"] by (auto simp: list_all_iff digit_neq)
  have c: "char_of (10 :: nat) \<notin> set '' # handle ''" "CHR 0x22 \<noteq> char_of (10 :: nat)" "char_of (10 :: nat) \<notin> set '' ''"
    by code_simp+
  have p: "char_of (10 :: nat) \<notin> set w" if "w \<in> set (filter plain_quoted (nr_words r))" for w
  proof -
    from that obtain q where "plain q" "w = quoted q" by (auto simp: plain_quoted_def)
    then show ?thesis using c(2) graphic_not_control by (auto simp: quoted_def plain_def list_all_iff)
  qed
  have "char_of (10 :: nat) \<notin> set (tiny_line r)"
    using d p c graphic_not_control unfolding tiny_line_def by (auto simp: list_all_iff)
  moreover have "last (tiny_line r) \<noteq> char_of (13 :: nat)"
    using d graphic_not_control [of "last (show_nat (nr_handle r))"] by (auto simp: tiny_line_def list_all_iff)
  ultimately show ?thesis by (simp add: strip_cr_def)
qed

lemma tiny_listing:
  "str_lines (concat (map (\<lambda>r. tiny_line r @ [char_of (10 :: nat)]) rs)) = map tiny_line rs"
  by (induction rs) (simp_all add: str_lines_def split_lines_line tiny_line_text)

lemma tiny_lists: "nft_lists tiny_rules tiny_nft"
proof -
  have "list_all2 shows_rule (tiny_rules k tc) (map tiny_line (tiny_rules k tc))" for k tc
    by (auto simp: list_all2_conv_all_nth intro!: tiny_shows)
  then show ?thesis
    unfolding nft_lists_def
    by (intro allI conjI)
      (simp_all add: tiny_nft_def tiny_listing,
        metis append.right_neutral append_Nil list.pred_inject(1))
qed

lemma tiny_adds: "nft_adds tiny_rules tiny_nft"
proof -
  have "tiny_rules (s(tc := tiny_rules s tc @ [\<lparr>nr_handle = fresh_handle (tiny_rules s tc), nr_words = ws\<rparr>]))
      = (tiny_rules s)(tc := tiny_rules s tc @ [\<lparr>nr_handle = fresh_handle (tiny_rules s tc), nr_words = ws\<rparr>])" for s tc ws
    by (rule tiny_rules_upd) (simp add: tiny_rules_ok fresh_handle_new)
  then show ?thesis
    unfolding nft_adds_def
    by (simp add: tiny_nft_def Let_def) (metis fresh_handle_new)
qed

lemma tiny_deletes: "nft_deletes tiny_rules tiny_nft"
proof -
  have "tiny_rules (s(tc := filter (\<lambda>r. nr_handle r \<noteq> h) (tiny_rules s tc)))
      = (tiny_rules s)(tc := filter (\<lambda>r. nr_handle r \<noteq> h) (tiny_rules s tc))" for s tc h
    by (rule tiny_rules_upd) (simp add: tiny_rules_ok distinct_map_filter)
  then show ?thesis
    unfolding nft_deletes_def by (auto simp: tiny_nft_def Let_def show_nat_inject)
qed

lemma tiny_flushes: "nft_flushes tiny_rules tiny_nft"
  unfolding nft_flushes_def by (simp add: tiny_nft_def tiny_rules_upd)

lemma tiny_creates: "nft_creates tiny_rules tiny_nft"
  unfolding nft_creates_def by (simp add: tiny_nft_def)

lemma tiny_contract: "nft_contract tiny_rules tiny_nft"
  unfolding nft_contract_def by (simp add: tiny_lists tiny_adds tiny_deletes tiny_flushes tiny_creates tiny_rules_ok)

end
