(* ===== verification/ExecRules.thy ===== *)
theory ExecRules
  imports NftInstance MtuControl
begin

text \<open>
  The rule executor, \<open>NftablesExecutor\<close> of \<open>crates/balansir-executor/src/service.rs\<close>: action requests become
  nft rules tagged with the identifier of their policy, a fingerprint of every installed request tells a
  repeated one from a replacement, and removal finds a rule by its tag. The encoder of a request is the
  postcard crate, a parameter. The port mappings and the interception rules are installed the same way.

  The theorems relate the executor to the rules of the chain in the kernel, under the documented behaviour
  of nft: what an answer of the executor says is what the chain then holds.
\<close>

subsection \<open>Definitions\<close>

record 'k executor_state =
  xs_installed :: "u32 \<rightharpoonup> u64"
  xs_kernel :: 'k

definition fingerprint_of :: "u32 \<Rightarrow> 'k executor_state \<Rightarrow> u64 option" where
  "fingerprint_of policy_id s = xs_installed s policy_id"

definition remember :: "u32 \<Rightarrow> u64 \<Rightarrow> 'k executor_state \<Rightarrow> 'k executor_state" where
  "remember policy_id fingerprint s = s\<lparr>xs_installed := (xs_installed s)(policy_id \<mapsto> fingerprint)\<rparr>"

definition forget :: "u32 \<Rightarrow> 'k executor_state \<Rightarrow> 'k executor_state" where
  "forget policy_id s = s\<lparr>xs_installed := (xs_installed s)(policy_id := None)\<rparr>"

text \<open>A kernel operation inside the executor.\<close>

definition kernel_op :: "('a, 'k) op \<Rightarrow> ('a, 'k executor_state) op" where
  "kernel_op m s = (case m (xs_kernel s) of (r, k) \<Rightarrow> (r, s\<lparr>xs_kernel := k\<rparr>))"

definition rule_fingerprint :: "(ActionRequest \<Rightarrow> u8 list option) \<Rightarrow> ActionRequest \<Rightarrow> u64" where
  "rule_fingerprint encode request =
     fnv1a 0x100000001b3 0xcbf29ce484222325 (case encode request of Some bytes \<Rightarrow> bytes | None \<Rightarrow> [])"

fun to_nft_verdict :: "Action \<Rightarrow> NftVerdict option" where
  "to_nft_verdict Allow = Some NV_Accept"
| "to_nft_verdict Block = Some NV_Drop"
| "to_nft_verdict Reject = Some NV_Reject"
| "to_nft_verdict (Queue num) = Some (NV_Queue num)"
| "to_nft_verdict _ = None"

definition rule_comment :: "u32 \<Rightarrow> string" where
  "rule_comment policy_id = ''balansir:'' @ show_u policy_id"

fun cidr_for_addr :: "IpAddr \<Rightarrow> string option" where
  "cidr_for_addr (V4 a) = (if a = 0 then None else Some (show_ip (V4 a) @ ''/32''))"
| "cidr_for_addr (V6 a) = (if a = 0 then None else Some (show_ip (V6 a) @ ''/128''))"

definition nft_proto :: "u8 \<Rightarrow> NftProto option" where
  "nft_proto p = (if p = 6 then Some NP_Tcp else if p = 17 then Some NP_Udp else None)"

definition flow_spec :: "ActionRequest \<Rightarrow> NftVerdict \<Rightarrow> NftRuleSpec" where
  "flow_spec request verdict =
     (NftRuleSpec_new verdict)
       \<lparr>ns_proto := nft_proto (rq_protocol request),
        ns_src_cidr := cidr_for_addr (rq_src_ip request), ns_dst_cidr := cidr_for_addr (rq_dst_ip request),
        ns_sport := (if rq_src_port request \<noteq> 0 then Some (rq_src_port request) else None),
        ns_dport := (if rq_dst_port request \<noteq> 0 then Some (rq_dst_port request) else None),
        ns_comment := Some (rule_comment (dt_policy_id (rq_trace request)))\<rparr>"

definition to_nft_spec :: "ActionRequest \<Rightarrow> NftRuleSpec option" where
  "to_nft_spec request = map_option (flow_spec request) (to_nft_verdict (rq_action request))"

definition to_mark_spec :: "ActionRequest \<Rightarrow> u32 \<Rightarrow> NftRuleSpec" where
  "to_mark_spec request fwmark = (flow_spec request NV_Accept)\<lparr>ns_mark := Some fwmark\<rparr>"

definition request_spec :: "ActionRequest \<Rightarrow> NftRuleSpec option" where
  "request_spec request =
     (case rq_action request of Mark fwmark \<Rightarrow> Some (to_mark_spec request fwmark) | _ \<Rightarrow> to_nft_spec request)"

text \<open>The exact same rule is installed, and the kernel has it.\<close>

definition already_installed ::
    "'k nft \<Rightarrow> NftablesBackend \<Rightarrow> u32 \<Rightarrow> u64 \<Rightarrow> 'k executor_state \<Rightarrow> bool \<times> 'k executor_state" where
  "already_installed nft b policy_id fingerprint s =
     (if fingerprint_of policy_id s = Some fingerprint then
        (case kernel_op (find_handle_by_comment nft b (rule_comment policy_id)) s of
           (Inr (Some _), s) \<Rightarrow> (True, s)
         | (_, s) \<Rightarrow> (False, s))
      else (False, s))"

definition drop_previous :: "'k nft \<Rightarrow> NftablesBackend \<Rightarrow> u32 \<Rightarrow> (unit, 'k executor_state) op" where
  "drop_previous nft b policy_id s =
     (if fingerprint_of policy_id s \<noteq> None
      then kernel_op (remove_rule_by_comment nft b (rule_comment policy_id)) s
      else (Inr (), s))"

definition executor_execute ::
    "(ActionRequest \<Rightarrow> u8 list option) \<Rightarrow> 'k nft \<Rightarrow> NftablesBackend \<Rightarrow> ActionRequest \<Rightarrow> 'k executor_state \<Rightarrow>
     ActionResult \<times> 'k executor_state" where
  "executor_execute encode nft b request s =
     (let policy_id = dt_policy_id (rq_trace request);
          fingerprint = rule_fingerprint encode request
      in case already_installed nft b policy_id fingerprint s of
           (True, s) \<Rightarrow> (AlreadyApplied, s)
         | (False, s) \<Rightarrow>
             (case request_spec request of
                None \<Rightarrow> (Unsupported (action_type (rq_action request)), s)
              | Some spec \<Rightarrow>
                  (case drop_previous nft b policy_id s of
                     (Inl e, s) \<Rightarrow> (AR_Failed (KernelError 0) (Some (''replace: '' @ show_error e)), s)
                   | (Inr _, s) \<Rightarrow>
                       (case kernel_op (nft_add_rule nft b spec) s of
                          (Inr _, s) \<Rightarrow> (Applied 0 (Some policy_id), remember policy_id fingerprint s)
                        | (Inl e, s) \<Rightarrow> (AR_Failed (KernelError 0) (Some (show_error e)), s)))))"

definition executor_flush :: "'k nft \<Rightarrow> NftablesBackend \<Rightarrow> (unit, 'k executor_state) op" where
  "executor_flush nft b = op_then (kernel_op (nft_flush nft b)) (\<lambda>_ s. (Inr (), s\<lparr>xs_installed := Map.empty\<rparr>))"

definition executor_remove_rule :: "'k nft \<Rightarrow> NftablesBackend \<Rightarrow> u32 \<Rightarrow> (unit, 'k executor_state) op" where
  "executor_remove_rule nft b rule_id =
     op_then (kernel_op (remove_rule_by_comment nft b (rule_comment rule_id))) (\<lambda>_ s. (Inr (), forget rule_id s))"

definition actual_rule_ids :: "'k nft \<Rightarrow> NftablesBackend \<Rightarrow> 'k executor_state \<Rightarrow> u32 list \<times> 'k executor_state" where
  "actual_rule_ids nft b s =
     (case kernel_op (list_rule_ids nft b) s of (Inr ids, s) \<Rightarrow> (ids, s) | (Inl _, s) \<Rightarrow> ([], s))"

subsubsection \<open>Interception rules\<close>

definition DPI_RULE_TAG :: string where "DPI_RULE_TAG = ''balansir:dpi''"

datatype DpiOp = DO_InstallQueue u16 "u16 list" | DO_RemoveQueue

record DpiOpResult =
  dor_installed :: u32
  dor_detail :: string

definition remove_dpi_rules_impl :: "'k nft \<Rightarrow> NftablesBackend \<Rightarrow> (unit, 'k) op" where
  "remove_dpi_rules_impl nft b =
     op_map_err (\<lambda>e. E_Fatal (''remove DPI rules: '' @ show_error e)) (remove_rule_by_comment nft b DPI_RULE_TAG)"

definition dpi_spec :: "u16 \<Rightarrow> u16 \<Rightarrow> NftRuleSpec" where
  "dpi_spec queue_num port =
     (NftRuleSpec_new (NV_Queue queue_num))\<lparr>ns_proto := Some NP_Tcp, ns_dport := Some port, ns_comment := Some DPI_RULE_TAG\<rparr>"

definition install_dpi_port :: "'k nft \<Rightarrow> NftablesBackend \<Rightarrow> u16 \<Rightarrow> u16 \<Rightarrow> (unit, 'k) op" where
  "install_dpi_port nft b queue_num port =
     op_then (ensure_hooked_chain nft b ''output''
       [''type'', ''filter'', ''hook'', ''output'', ''priority'', ''0'', ''policy'', ''accept;'']) (\<lambda>_.
     op_then (add_rule_to_chain nft b ''output'' (dpi_spec queue_num port)) (\<lambda>_.
     add_rule_to_chain nft b ''forward'' (dpi_spec queue_num port)))"

fun dpi_op :: "'k nft \<Rightarrow> NftablesBackend \<Rightarrow> DpiOp \<Rightarrow> (DpiOpResult, 'k) op" where
  "dpi_op nft b (DO_InstallQueue queue_num port_list) =
     (if port_list = [] then op_err (E_Misconfiguration ''DPI InstallQueue requires at least one port'')
      else
        op_then (remove_dpi_rules_impl nft b) (\<lambda>_.
        op_then (op_each (install_dpi_port nft b queue_num) port_list) (\<lambda>_.
        op_ok \<lparr>dor_installed = of_nat (length port_list),
               dor_detail = ''intercepted TCP '' @ join_with '','' (map show_u port_list)\<rparr>)))"
| "dpi_op nft b DO_RemoveQueue =
     op_then (remove_dpi_rules_impl nft b) (\<lambda>_. op_ok \<lparr>dor_installed = 0, dor_detail = ''DPI queue rules removed''\<rparr>)"

subsubsection \<open>Port mappings\<close>

definition UPNP_RULE_TAG :: string where "UPNP_RULE_TAG = ''balansir:upnp''"
definition UPNP_PREROUTING_CHAIN :: string where "UPNP_PREROUTING_CHAIN = ''prerouting''"

datatype UpnpOp =
    UO_AddPortMapping u16 string string u16 string
  | UO_RemovePortMapping u16 string string
  | UO_RemoveAll

record UpnpOpResult =
  uor_installed :: u32
  uor_detail :: string

text \<open>\<open>is_loopback\<close>, \<open>is_multicast\<close> and \<open>is_unspecified\<close> of the standard library.\<close>

fun usable_target :: "IpAddr \<Rightarrow> bool" where
  "usable_target (V4 a) \<longleftrightarrow> drop_bit 24 a \<noteq> 127 \<and> drop_bit 28 a \<noteq> 0xE \<and> a \<noteq> 0"
| "usable_target (V6 a) \<longleftrightarrow> a \<noteq> 1 \<and> drop_bit 120 a \<noteq> 0xFF \<and> a \<noteq> 0"

definition validate_upnp_mapping ::
    "u16 \<Rightarrow> string \<Rightarrow> string \<Rightarrow> u16 \<Rightarrow> (unit, Error) result" where
  "validate_upnp_mapping external_port proto internal_ip internal_port =
     (if external_port = 0 \<or> internal_port = 0 then Inl (E_Misconfiguration ''UPnP: port 0 is not a valid mapping'')
      else
        (case parse_ip internal_ip of
           None \<Rightarrow> Inl (E_Misconfiguration (''UPnP: invalid internal IP '' @ internal_ip))
         | Some addr \<Rightarrow>
             if \<not> usable_target addr then Inl (E_Misconfiguration (''UPnP: refused mapping to unusable internal IP '' @ internal_ip))
             else
               let proto = to_ascii_lowercase proto in
               if proto \<noteq> ''tcp'' \<and> proto \<noteq> ''udp'' then Inl (E_Misconfiguration (''UPnP: unsupported proto '' @ proto))
               else Inr ()))"

definition upnp_comment :: "u16 \<Rightarrow> string \<Rightarrow> string" where
  "upnp_comment external_port proto = UPNP_RULE_TAG @ '':'' @ show_u external_port @ '':'' @ proto"

definition count_upnp_rules :: "'k nft \<Rightarrow> NftablesBackend \<Rightarrow> (u32, 'k) op" where
  "count_upnp_rules nft b =
     op_then (op_map_err (\<lambda>e. E_Fatal (''UPnP chain list: '' @ show_error e)) (list_chain nft b UPNP_PREROUTING_CHAIN))
       (\<lambda>lines. op_ok (of_nat (length (filter (sublist UPNP_RULE_TAG) lines))))"

definition upnp_spec :: "u16 \<Rightarrow> string \<Rightarrow> u32 \<Rightarrow> u16 \<Rightarrow> string \<Rightarrow> NftRuleSpec" where
  "upnp_spec external_port proto addr internal_port wan_interface =
     (NftRuleSpec_new (NV_Dnat addr internal_port))
       \<lparr>ns_proto := Some (if proto = ''tcp'' then NP_Tcp else NP_Udp), ns_dport := Some external_port,
        ns_iifname := Some wan_interface, ns_comment := Some (upnp_comment external_port proto)\<rparr>"

definition add_port_mapping ::
    "'k nft \<Rightarrow> NftablesBackend \<Rightarrow>
     u16 \<Rightarrow> string \<Rightarrow> string \<Rightarrow> u16 \<Rightarrow> string \<Rightarrow> (UpnpOpResult, 'k) op" where
  "add_port_mapping nft b external_port proto internal_ip internal_port wan_interface =
     op_then (op_check (validate_upnp_mapping external_port proto internal_ip internal_port)) (\<lambda>_.
       let proto = to_ascii_lowercase proto in
       op_then (ensure_hooked_chain nft b UPNP_PREROUTING_CHAIN
         [''type'', ''nat'', ''hook'', ''prerouting'', ''priority'', ''0'', '';'']) (\<lambda>_.
       op_then (remove_rule_by_comment_in_chain nft b UPNP_PREROUTING_CHAIN (upnp_comment external_port proto)) (\<lambda>_.
         case parse_ip internal_ip of
           Some (V4 addr) \<Rightarrow>
             op_then (add_rule_to_chain nft b UPNP_PREROUTING_CHAIN
               (upnp_spec external_port proto addr internal_port wan_interface)) (\<lambda>_.
             op_then (count_upnp_rules nft b) (\<lambda>n.
             op_ok \<lparr>uor_installed = n,
                    uor_detail = proto @ '' '' @ wan_interface @ '':'' @ show_u external_port @ '' -> '' @
                      internal_ip @ '':'' @ show_u internal_port\<rparr>))
         | _ \<Rightarrow>
             op_err (E_Misconfiguration (''UPnP: internal IP '' @ internal_ip @ '' is not IPv4: invalid IPv4 address syntax'')))))"

fun upnp_op ::
    "'k nft \<Rightarrow> NftablesBackend \<Rightarrow> UpnpOp \<Rightarrow> (UpnpOpResult, 'k) op" where
  "upnp_op nft b (UO_AddPortMapping external_port proto internal_ip internal_port wan_interface) =
     add_port_mapping nft b external_port proto internal_ip internal_port wan_interface"
| "upnp_op nft b (UO_RemovePortMapping external_port proto wan_interface) =
     (let proto = to_ascii_lowercase proto in
      op_then (remove_rule_by_comment_in_chain nft b UPNP_PREROUTING_CHAIN (upnp_comment external_port proto)) (\<lambda>_.
      op_then (count_upnp_rules nft b) (\<lambda>n.
      op_ok \<lparr>uor_installed = n, uor_detail = ''removed '' @ proto @ '':'' @ show_u external_port\<rparr>)))"
| "upnp_op nft b UO_RemoveAll =
     op_then (remove_rule_by_comment_in_chain nft b UPNP_PREROUTING_CHAIN UPNP_RULE_TAG) (\<lambda>_.
     op_ok \<lparr>uor_installed = 0, uor_detail = ''all UPnP mappings removed''\<rparr>)"

subsection \<open>Tags\<close>

lemma show_u_inject [simp]: "show_u (x :: 'a::len word) = show_u y \<longleftrightarrow> x = y"
  by (metis option.inject parse_word_show)

lemma digits_plain: "list_all ascii_digit s \<Longrightarrow> plain s"
  by (auto simp: plain_def list_all_iff digit_neq)

lemma plain_append [simp]: "plain (a @ b) \<longleftrightarrow> plain a \<and> plain b"
  by (simp add: plain_def)

lemma plain_rule_comment [simp]: "plain (rule_comment i)"
proof -
  have "plain ''balansir:''" by (simp add: plain_def graphic_def)
  then have "plain (''balansir:'' @ show_u i)"
    by (simp only: plain_append show_u_def digits_plain show_nat_digits simp_thms)
  then show ?thesis by (simp only: rule_comment_def)
qed

lemma rule_comment_inject [simp]: "rule_comment i = rule_comment j \<longleftrightarrow> i = j"
  by (simp add: rule_comment_def)

text \<open>A word that does not end in a quote is no quoted word.\<close>

definition open_word :: "string \<Rightarrow> bool" where
  "open_word w \<longleftrightarrow> w \<noteq> [] \<and> last w \<noteq> CHR 0x22"

lemma open_word_quoted [simp]: "\<not> open_word (quoted c)"
  by (simp add: open_word_def quoted_def)

lemma open_word_digits [simp]: "open_word (show_u (n :: 'a::len word))" "open_word (x @ show_u n)"
proof -
  have "last (show_u n) \<in> set (show_nat (unat n))" by (simp add: show_u_def)
  then have "ascii_digit (last (show_u n))" using show_nat_digits [of "unat n"] by (simp add: list_all_iff)
  then have "last (show_u n) \<noteq> CHR 0x22" by (rule digit_neq)
  then show "open_word (show_u n)" "open_word (x @ show_u n)" by (simp_all add: open_word_def show_u_def)
qed

lemma cidr_open: "cidr_for_addr a = Some c \<Longrightarrow> open_word c"
  by (cases a) (auto simp: open_word_def split: if_splits)

lemma list_all_opt_words: "list_all P (opt_words x f) \<longleftrightarrow> (\<forall>y. x = Some y \<longrightarrow> list_all P (f y))"
  by (cases x) simp_all

lemma proto_open: "open_word (show_proto p)"
  by (cases p) (simp_all add: open_word_def)

lemma verdict_open: "open_word (show_verdict v)"
proof (cases v)
  case (NV_Dnat addr port)
  have "open_word (x @ y @ z @ show_u port)" for x y z using open_word_digits(2) [of "x @ y @ z" port] by simp
  then show ?thesis using NV_Dnat by (simp only: show_verdict.simps)
qed (simp_all add: open_word_def)

lemma addr_matcher_open:
  "open_word cidr \<Longrightarrow> open_word kw \<Longrightarrow> list_all open_word (push_addr_matcher kw cidr)"
  by (simp add: push_addr_matcher_def open_word_def)

lemma literal_open [simp]:
  "open_word ''meta''" "open_word ''l4proto''" "open_word ''saddr''" "open_word ''daddr''" "open_word ''th''"
  "open_word ''sport''" "open_word ''dport''" "open_word ''mark''" "open_word ''set''" "open_word ''comment''"
  by (simp_all add: open_word_def)

lemma list_all_or: "list_all P xs \<Longrightarrow> list_all (\<lambda>x. P x \<or> Q x) xs"
  by (auto simp: list_all_iff)

lemma flow_spec_fields [simp]:
  "ns_iifname (flow_spec req v) = None" "ns_oifname (flow_spec req v) = None" "ns_ct_state (flow_spec req v) = None"
  "ns_verdict (flow_spec req v) = v" "ns_comment (flow_spec req v) = Some (rule_comment (dt_policy_id (rq_trace req)))"
  "ns_src_cidr (flow_spec req v) = cidr_for_addr (rq_src_ip req)" "ns_dst_cidr (flow_spec req v) = cidr_for_addr (rq_dst_ip req)"
  by (simp_all add: flow_spec_def NftRuleSpec_new_def)

lemma flow_words:
  assumes "\<forall>addr port. v \<noteq> NV_Dnat addr port"
  shows "quoted c \<in> set (render_spec (flow_spec req v\<lparr>ns_mark := m\<rparr>)) \<longleftrightarrow> c = rule_comment (dt_policy_id (rq_trace req))"
proof -
  let ?q = "quoted (rule_comment (dt_policy_id (rq_trace req)))"
  let ?ok = "\<lambda>w. open_word w \<or> w = ?q"
  have v: "(case v of NV_Dnat addr port \<Rightarrow> [''dnat'', ''to'', show_v4 addr @ '':'' @ show_u port] | v \<Rightarrow> [show_verdict v]) = [show_verdict v]"
    using assms by (cases v) simp_all
  have "list_all ?ok (render_spec (flow_spec req v\<lparr>ns_mark := m\<rparr>))"
    unfolding render_spec_def list_all_append list_all_opt_words
    by (simp add: v proto_open verdict_open list_all_or addr_matcher_open cidr_open)
  moreover have "?q \<in> set (render_spec (flow_spec req v\<lparr>ns_mark := m\<rparr>))"
    by (simp add: render_spec_def)
  ultimately show ?thesis by (auto simp: list_all_iff)
qed

lemma request_words:
  assumes "request_spec req = Some spec"
  shows "quoted c \<in> set (render_spec spec) \<longleftrightarrow> c = rule_comment (dt_policy_id (rq_trace req))"
proof -
  have "\<exists>v m. spec = flow_spec req v\<lparr>ns_mark := m\<rparr> \<and> (\<forall>addr port. v \<noteq> NV_Dnat addr port)"
  proof (cases "\<exists>fwmark. rq_action req = Mark fwmark")
    case True
    then show ?thesis using assms by (auto simp: request_spec_def to_mark_spec_def intro!: exI [of _ NV_Accept])
  next
    case False
    then have "to_nft_spec req = Some spec" using assms by (auto simp: request_spec_def split: Action.splits)
    then obtain v where v: "to_nft_verdict (rq_action req) = Some v" and spec: "spec = flow_spec req v"
      by (auto simp: to_nft_spec_def)
    have "spec = flow_spec req v\<lparr>ns_mark := None\<rparr>" by (simp add: spec flow_spec_def NftRuleSpec_new_def)
    moreover have "\<forall>addr port. v \<noteq> NV_Dnat addr port" using v by (cases "rq_action req") auto
    ultimately show ?thesis by blast
  qed
  then show ?thesis using flow_words by blast
qed

subsection \<open>What the executor enforces\<close>

definition base_chain :: "NftablesBackend \<Rightarrow> string \<times> string" where
  "base_chain b = (nb_table_name b, nb_chain_name b)"

definition rules_for :: "nft_rule list \<Rightarrow> u32 \<Rightarrow> nft_rule list" where
  "rules_for rs i = filter (tagged (rule_comment i)) rs"

text \<open>The rules in force for a policy: the words of the rules of the base chain that carry its tag.\<close>

definition in_force :: "('k \<Rightarrow> ruleset) \<Rightarrow> NftablesBackend \<Rightarrow> 'k executor_state \<Rightarrow> u32 \<Rightarrow> string list list" where
  "in_force rules b s i = map nr_words (rules_for (rules (xs_kernel s) (base_chain b)) i)"

definition request_rule :: "ActionRequest \<Rightarrow> string list" where
  "request_rule req = render_spec (the (request_spec req))"

definition single_tags :: "nft_rule list \<Rightarrow> bool" where
  "single_tags rs \<longleftrightarrow> (\<forall>r \<in> set rs. \<forall>i j. tagged (rule_comment i) r \<longrightarrow> tagged (rule_comment j) r \<longrightarrow> i = j)"

text \<open>
  The books are right: a policy without a fingerprint has no rule, and one with a fingerprint has none or
  exactly the rule of the request with that fingerprint; \<open>reqs\<close> are the requests the executor is given.
\<close>

definition books_right ::
    "(ActionRequest \<Rightarrow> u8 list option) \<Rightarrow> ActionRequest set \<Rightarrow> nft_rule list \<Rightarrow> (u32 \<rightharpoonup> u64) \<Rightarrow> bool" where
  "books_right encode reqs rs installed \<longleftrightarrow>
     single_tags rs \<and>
     (\<forall>i. rules_for rs i = [] \<or>
        (\<exists>req \<in> reqs. dt_policy_id (rq_trace req) = i \<and> installed i = Some (rule_fingerprint encode req) \<and>
           request_spec req \<noteq> None \<and> map nr_words (rules_for rs i) = [request_rule req]))"

definition executor_ok ::
    "('k \<Rightarrow> ruleset) \<Rightarrow> NftablesBackend \<Rightarrow> (ActionRequest \<Rightarrow> u8 list option) \<Rightarrow> ActionRequest set \<Rightarrow> 'k executor_state \<Rightarrow> bool" where
  "executor_ok rules b encode reqs s \<longleftrightarrow> books_right encode reqs (rules (xs_kernel s) (base_chain b)) (xs_installed s)"

lemma kernel_opD: "kernel_op m s = (r, s') \<Longrightarrow> \<exists>k. m (xs_kernel s) = (r, k) \<and> s' = s\<lparr>xs_kernel := k\<rparr>"
  by (auto simp: kernel_op_def split: prod.splits)

lemma find_tagged: "find (tagged q) rs = Some r \<Longrightarrow> r \<in> set rs \<and> tagged q r"
  by (metis find_Some_iff nth_mem)

lemma drop_tagged_other:
  assumes "single_tags rs" and "j \<noteq> i" and "distinct (map nr_handle rs)"
  shows "rules_for (drop_tagged (rule_comment i) rs) j = rules_for rs j"
proof (cases "find (tagged (rule_comment i)) rs")
  case (Some r)
  note r = find_tagged [OF Some]
  have "inj_on nr_handle (set rs)" using assms(3) by (simp add: distinct_map)
  then have "x \<in> set rs \<Longrightarrow> tagged (rule_comment j) x \<Longrightarrow> nr_handle x \<noteq> nr_handle r" for x
    using assms(1,2) r unfolding single_tags_def inj_on_def by metis
  then have "filter (\<lambda>x. nr_handle x \<noteq> nr_handle r \<and> tagged (rule_comment j) x) rs = filter (tagged (rule_comment j)) rs"
    by (intro filter_cong) auto
  then show ?thesis by (simp add: drop_tagged_def Some rules_for_def)
qed (simp add: drop_tagged_def)

lemma drop_tagged_self:
  assumes "rules_for rs i = [] \<or> (\<exists>r. rules_for rs i = [r])"
  shows "rules_for (drop_tagged (rule_comment i) rs) i = []"
proof (cases "find (tagged (rule_comment i)) rs")
  case None
  then have "\<forall>x \<in> set rs. \<not> tagged (rule_comment i) x" by (simp add: find_None_iff)
  then show ?thesis using None by (simp add: drop_tagged_def rules_for_def filter_empty_conv)
next
  case (Some r)
  then have "r \<in> set (rules_for rs i)" using find_tagged [OF Some] by (simp add: rules_for_def)
  then have "rules_for rs i = [r]" using assms by auto
  then have "set (filter (\<lambda>x. nr_handle x \<noteq> nr_handle r) (rules_for rs i)) = {}" by simp
  then show ?thesis by (auto simp: drop_tagged_def Some rules_for_def filter_empty_conv)
qed

lemma single_tags_drop: "single_tags rs \<Longrightarrow> single_tags (drop_tagged q rs)"
  by (auto simp: single_tags_def drop_tagged_def split: option.splits)

lemma books_right_cases:
  "books_right encode reqs rs installed \<Longrightarrow> rules_for rs i = [] \<or> (\<exists>r. rules_for rs i = [r])"
  unfolding books_right_def by (metis (no_types, lifting) list.map_disc_iff list.simps(8,9) map_eq_Cons_conv)

lemma books_right_drop:
  assumes "books_right encode reqs rs installed" and "distinct (map nr_handle rs)"
  shows "books_right encode reqs (drop_tagged (rule_comment i) rs) installed"
  unfolding books_right_def
proof (intro conjI allI)
  show "single_tags (drop_tagged (rule_comment i) rs)"
    using assms(1) by (simp add: books_right_def single_tags_drop)
  fix j
  show "rules_for (drop_tagged (rule_comment i) rs) j = [] \<or>
    (\<exists>req \<in> reqs. dt_policy_id (rq_trace req) = j \<and> installed j = Some (rule_fingerprint encode req) \<and>
       request_spec req \<noteq> None \<and> map nr_words (rules_for (drop_tagged (rule_comment i) rs) j) = [request_rule req])"
  proof (cases "j = i")
    case True
    then show ?thesis using drop_tagged_self [OF books_right_cases [OF assms(1)]] by simp
  next
    case False
    then show ?thesis
      using assms drop_tagged_other [of rs j i] by (simp add: books_right_def)
  qed
qed

lemma request_tagged:
  "request_spec req = Some spec \<Longrightarrow>
   tagged (rule_comment j) \<lparr>nr_handle = h, nr_words = render_spec spec\<rparr> \<longleftrightarrow> j = dt_policy_id (rq_trace req)"
  by (simp add: tagged_def request_words)

lemma books_right_add:
  assumes "books_right encode reqs rs installed" and "req \<in> reqs" and "request_spec req = Some spec"
    and "rules_for rs (dt_policy_id (rq_trace req)) = []"
  shows "books_right encode reqs (rs @ [\<lparr>nr_handle = h, nr_words = render_spec spec\<rparr>])
    (installed(dt_policy_id (rq_trace req) \<mapsto> rule_fingerprint encode req))"
proof -
  let ?i = "dt_policy_id (rq_trace req)"
  let ?rs = "rs @ [\<lparr>nr_handle = h, nr_words = render_spec spec\<rparr>]"
  have f: "rules_for ?rs j = (if j = ?i then [\<lparr>nr_handle = h, nr_words = render_spec spec\<rparr>] else rules_for rs j)" for j
    using assms(4) by (simp add: rules_for_def request_tagged [OF assms(3)])
  have "single_tags ?rs"
    using assms(1) by (auto simp: single_tags_def books_right_def request_tagged [OF assms(3)])
  moreover have "\<exists>r \<in> reqs. dt_policy_id (rq_trace r) = ?i \<and>
      (installed(?i \<mapsto> rule_fingerprint encode req)) ?i = Some (rule_fingerprint encode r) \<and>
      request_spec r \<noteq> None \<and> map nr_words (rules_for ?rs ?i) = [request_rule r]"
    using assms(2,3) by (intro bexI [of _ req]) (simp_all add: f request_rule_def)
  moreover have "rules_for ?rs j = [] \<or> (\<exists>r \<in> reqs. dt_policy_id (rq_trace r) = j \<and>
      (installed(?i \<mapsto> rule_fingerprint encode req)) j = Some (rule_fingerprint encode r) \<and>
      request_spec r \<noteq> None \<and> map nr_words (rules_for ?rs j) = [request_rule r])" if "j \<noteq> ?i" for j
    using assms(1) that by (simp add: f books_right_def)
  ultimately show ?thesis unfolding books_right_def by metis
qed

text \<open>The steps of \<open>execute\<close>, with what each does to the books.\<close>

lemma find_step:
  assumes "nft_contract rules nft" and "kernel_op (find_handle_by_comment nft b (rule_comment i)) s = (r, s')"
  shows "s' = s \<and> (\<forall>h. r = Inr (Some h) \<longrightarrow> rules_for (rules (xs_kernel s) (base_chain b)) i \<noteq> [])"
proof -
  obtain k where k: "find_handle_by_comment nft b (rule_comment i) (xs_kernel s) = (r, k)" and s': "s' = s\<lparr>xs_kernel := k\<rparr>"
    using kernel_opD [OF assms(2)] by blast
  let ?f = "find (tagged (rule_comment i)) (rules (xs_kernel s) (base_chain b))"
  have "k = xs_kernel s" and h: "r = Inr h \<Longrightarrow> h = map_option (\<lambda>r. show_nat (nr_handle r)) ?f" for h
    using find_handle_spec [OF assms(1) plain_rule_comment k] by (auto simp: base_chain_def)
  moreover have "?f = Some x \<Longrightarrow> rules_for (rules (xs_kernel s) (base_chain b)) i \<noteq> []" for x
    using find_tagged [of "rule_comment i"] by (auto simp: rules_for_def filter_empty_conv)
  ultimately show ?thesis by (cases ?f) (auto simp: s' dest!: h)
qed

lemma replace_step:
  assumes "nft_contract rules nft" and "executor_ok rules b encode reqs s"
    and "kernel_op (remove_rule_by_comment nft b (rule_comment i)) s = (r, s')"
  shows "executor_ok rules b encode reqs s' \<and> xs_installed s' = xs_installed s \<and>
    (\<forall>j. j \<noteq> i \<longrightarrow> in_force rules b s' j = in_force rules b s j) \<and>
    (if isl r then in_force rules b s' i = in_force rules b s i else in_force rules b s' i = [])"
proof -
  let ?rs = "rules (xs_kernel s) (base_chain b)"
  obtain k where k: "remove_rule_by_comment nft b (rule_comment i) (xs_kernel s) = (r, k)" and s': "s' = s\<lparr>xs_kernel := k\<rparr>"
    using kernel_opD [OF assms(3)] by blast
  have d: "distinct (map nr_handle ?rs)" using assms(1) unfolding nft_contract_def by blast
  have ok: "books_right encode reqs ?rs (xs_installed s)" using assms(2) by (simp add: executor_ok_def)
  then have st: "single_tags ?rs" by (simp add: books_right_def)
  show ?thesis
    using remove_by_comment_spec [OF assms(1) plain_rule_comment k] ok books_right_drop [OF ok d, of i]
      drop_tagged_self [OF books_right_cases [OF ok]] drop_tagged_other [OF st _ d]
    by (cases r) (simp_all add: executor_ok_def s' in_force_def base_chain_def)
qed

lemma add_step:
  assumes "nft_contract rules nft" and "executor_ok rules b encode reqs s" and "req \<in> reqs"
    and "request_spec req = Some spec" and "in_force rules b s (dt_policy_id (rq_trace req)) = []"
    and "kernel_op (nft_add_rule nft b spec) s = (r, s')"
  shows "if isl r then executor_ok rules b encode reqs s' \<and> in_force rules b s' = in_force rules b s
    else executor_ok rules b encode reqs (remember (dt_policy_id (rq_trace req)) (rule_fingerprint encode req) s') \<and>
      in_force rules b s' = (in_force rules b s)(dt_policy_id (rq_trace req) := [request_rule req])"
proof -
  obtain k where k: "nft_add_rule nft b spec (xs_kernel s) = (r, k)" and s': "s' = s\<lparr>xs_kernel := k\<rparr>"
    using kernel_opD [OF assms(6)] by blast
  have ok: "books_right encode reqs (rules (xs_kernel s) (base_chain b)) (xs_installed s)"
    using assms(2) by (simp add: executor_ok_def)
  note a = add_rule_spec [OF assms(1) k]
  show ?thesis
  proof (cases "isl r")
    case True
    then have "rules k = rules (xs_kernel s)" using a by simp
    then show ?thesis using True assms(2) by (auto simp: executor_ok_def in_force_def s' intro!: ext)
  next
    case False
    then obtain h where h: "rules k = (rules (xs_kernel s))(base_chain b :=
        rules (xs_kernel s) (base_chain b) @ [\<lparr>nr_handle = h, nr_words = render_spec spec\<rparr>])"
      using a by (auto simp: base_chain_def)
    have "rules_for (rules (xs_kernel s) (base_chain b)) (dt_policy_id (rq_trace req)) = []"
      using assms(5) by (simp add: in_force_def)
    from books_right_add [OF ok assms(3,4) this, of h] this False show ?thesis
      by (auto simp: executor_ok_def remember_def s' h in_force_def rules_for_def request_tagged [OF assms(4)]
          request_rule_def assms(4) fun_eq_iff)
  qed
qed

lemma already_installed_step:
  assumes "nft_contract rules nft" and "inj_on (rule_fingerprint encode) reqs" and "req \<in> reqs"
    and "executor_ok rules b encode reqs s"
    and "already_installed nft b (dt_policy_id (rq_trace req)) (rule_fingerprint encode req) s = (found, s')"
  shows "s' = s \<and> (found \<longrightarrow> in_force rules b s (dt_policy_id (rq_trace req)) = [request_rule req])"
proof (cases "fingerprint_of (dt_policy_id (rq_trace req)) s = Some (rule_fingerprint encode req)")
  case True
  obtain r s0 where f: "kernel_op (find_handle_by_comment nft b (rule_comment (dt_policy_id (rq_trace req)))) s = (r, s0)"
    by (metis surj_pair)
  note step = find_step [OF assms(1) f]
  have s': "s' = s" and r: "found \<Longrightarrow> \<exists>h. r = Inr (Some h)"
    using assms(5) True f step by (auto simp: already_installed_def split: sum.splits option.splits)
  have "in_force rules b s (dt_policy_id (rq_trace req)) = [request_rule req]"
    if "rules_for (rules (xs_kernel s) (base_chain b)) (dt_policy_id (rq_trace req)) \<noteq> []"
  proof -
    from that assms(4) True obtain r where "r \<in> reqs" "rule_fingerprint encode req = rule_fingerprint encode r"
      and w: "map nr_words (rules_for (rules (xs_kernel s) (base_chain b)) (dt_policy_id (rq_trace req))) = [request_rule r]"
      unfolding executor_ok_def books_right_def fingerprint_of_def by (metis option.inject)
    then have "r = req" using assms(2,3) by (metis inj_onD)
    with w show ?thesis by (simp add: in_force_def)
  qed
  then show ?thesis using s' r step by blast
next
  case False
  then show ?thesis using assms(5) by (simp add: already_installed_def)
qed

lemma drop_previous_step:
  assumes "nft_contract rules nft" and "executor_ok rules b encode reqs s" and "drop_previous nft b i s = (r, s')"
  shows "executor_ok rules b encode reqs s' \<and>
    (\<forall>j. j \<noteq> i \<longrightarrow> in_force rules b s' j = in_force rules b s j) \<and>
    (if isl r then in_force rules b s' i = in_force rules b s i else in_force rules b s' i = [])"
proof (cases "fingerprint_of i s")
  case None
  then have "rules_for (rules (xs_kernel s) (base_chain b)) i = []"
    using assms(2) unfolding executor_ok_def books_right_def fingerprint_of_def by (metis option.distinct(1))
  then show ?thesis using assms(2,3) None by (simp add: drop_previous_def in_force_def)
next
  case (Some fp)
  then have "kernel_op (remove_rule_by_comment nft b (rule_comment i)) s = (r, s')"
    using assms(3) by (simp add: drop_previous_def)
  from replace_step [OF assms(1,2) this] show ?thesis by blast
qed

lemma in_force_remember [simp]: "in_force rules b (remember i x s) = in_force rules b s"
  by (auto simp: in_force_def remember_def)

lemma execute_step:
  assumes "nft_contract rules nft" and "inj_on (rule_fingerprint encode) reqs" and "req \<in> reqs"
    and "executor_ok rules b encode reqs s" and "executor_execute encode nft b req s = (res, s')"
  shows "executor_ok rules b encode reqs s' \<and>
    (\<forall>j. j \<noteq> dt_policy_id (rq_trace req) \<longrightarrow> in_force rules b s' j = in_force rules b s j) \<and>
    (let i = dt_policy_id (rq_trace req) in
     case res of
       Applied _ _ \<Rightarrow> in_force rules b s' i = [request_rule req]
     | AlreadyApplied \<Rightarrow> in_force rules b s i = [request_rule req] \<and> s' = s
     | _ \<Rightarrow> in_force rules b s' i \<in> {in_force rules b s i, []})"
proof -
  let ?i = "dt_policy_id (rq_trace req)" and ?fp = "rule_fingerprint encode req"
  obtain found s0 where f: "already_installed nft b ?i ?fp s = (found, s0)" by (metis surj_pair)
  note inst = already_installed_step [OF assms(1-4) f]
  show ?thesis
  proof (cases found)
    case True
    then show ?thesis using assms(4,5) f inst by (simp add: executor_execute_def)
  next
    case found: False
    show ?thesis
    proof (cases "request_spec req")
      case None
      then show ?thesis using assms(4,5) f inst found by (auto simp: executor_execute_def)
    next
      case (Some spec)
      obtain r1 s1 where r: "drop_previous nft b ?i s = (r1, s1)" by (metis surj_pair)
      note drop = drop_previous_step [OF assms(1,4) r]
      obtain r2 s2 where a: "kernel_op (nft_add_rule nft b spec) s1 = (r2, s2)" by (metis surj_pair)
      show ?thesis
      proof (cases r1)
        case (Inl e)
        then show ?thesis using assms(5) f inst found Some r drop by (auto simp: executor_execute_def)
      next
        case (Inr u)
        then have none: "in_force rules b s1 ?i = []" and ok: "executor_ok rules b encode reqs s1"
          and other: "\<forall>j. j \<noteq> ?i \<longrightarrow> in_force rules b s1 j = in_force rules b s j" using drop by auto
        note add = add_step [OF assms(1) ok assms(3) Some none a]
        have ex: "(res, s') = (case r2 of Inr _ \<Rightarrow> (Applied 0 (Some ?i), remember ?i ?fp s2)
            | Inl e \<Rightarrow> (AR_Failed (KernelError 0) (Some (show_error e)), s2))"
          using assms(5) f inst found Some r a Inr by (cases r2) (simp_all add: executor_execute_def Let_def)
        then show ?thesis using add none other by (cases r2) auto
      qed
    qed
  qed
qed

subsection \<open>Whole sessions\<close>

datatype executor_command = DoExecute ActionRequest | DoRemove u32 | DoFlush

fun executor_step ::
    "(ActionRequest \<Rightarrow> u8 list option) \<Rightarrow> 'k nft \<Rightarrow> NftablesBackend \<Rightarrow> 'k executor_state \<Rightarrow> executor_command \<Rightarrow> 'k executor_state" where
  "executor_step encode nft b s (DoExecute req) = snd (executor_execute encode nft b req s)"
| "executor_step encode nft b s (DoRemove i) = snd (executor_remove_rule nft b i s)"
| "executor_step encode nft b s DoFlush = snd (executor_flush nft b s)"

lemma in_force_forget [simp]: "in_force rules b (forget i s) = in_force rules b s"
  by (auto simp: in_force_def forget_def)

lemma forget_ok:
  "executor_ok rules b encode reqs s \<Longrightarrow> in_force rules b s i = [] \<Longrightarrow> executor_ok rules b encode reqs (forget i s)"
  by (auto simp: executor_ok_def books_right_def in_force_def forget_def)

lemma remove_step:
  assumes "nft_contract rules nft" and "executor_ok rules b encode reqs s" and "executor_remove_rule nft b i s = (r, s')"
  shows "executor_ok rules b encode reqs s' \<and>
    (\<forall>j. j \<noteq> i \<longrightarrow> in_force rules b s' j = in_force rules b s j) \<and>
    in_force rules b s' i = (if isl r then in_force rules b s i else [])"
proof -
  obtain r1 s1 where m: "kernel_op (remove_rule_by_comment nft b (rule_comment i)) s = (r1, s1)" by (metis surj_pair)
  note step = replace_step [OF assms(1,2) m]
  show ?thesis
    using step forget_ok [of rules b encode reqs s1 i] assms(3)
    by (cases r1) (auto simp: executor_remove_rule_def op_then_def m)
qed

lemma flush_step:
  assumes "nft_contract rules nft" and "executor_ok rules b encode reqs s" and "executor_flush nft b s = (r, s')"
  shows "executor_ok rules b encode reqs s' \<and> in_force rules b s' = (if isl r then in_force rules b s else (\<lambda>_. []))"
proof -
  obtain r1 s1 where m: "kernel_op (nft_flush nft b) s = (r1, s1)" by (metis surj_pair)
  from kernel_opD [OF m] obtain k where k: "nft_flush nft b (xs_kernel s) = (r1, k)" and s1: "s1 = s\<lparr>xs_kernel := k\<rparr>"
    by blast
  show ?thesis
  proof (cases r1)
    case (Inl e)
    then show ?thesis using flush_spec [OF assms(1) k] assms(2,3)
      by (auto simp: executor_flush_def op_then_def m s1 executor_ok_def in_force_def intro!: ext)
  next
    case (Inr u)
    then have "rules k (base_chain b) = []" using flush_spec [OF assms(1) k] by (simp add: base_chain_def)
    then show ?thesis using Inr assms(3)
      by (auto simp: executor_flush_def op_then_def m s1 executor_ok_def books_right_def single_tags_def in_force_def
          rules_for_def intro!: ext)
  qed
qed


lemma executor_step_ok:
  assumes "nft_contract rules nft" and "inj_on (rule_fingerprint encode) reqs" and "executor_ok rules b encode reqs s"
    and "\<And>req. cmd = DoExecute req \<Longrightarrow> req \<in> reqs"
  shows "executor_ok rules b encode reqs (executor_step encode nft b s cmd)"
proof (cases cmd)
  case (DoExecute req)
  then show ?thesis
    using execute_step [OF assms(1,2) assms(4) assms(3), of req] by (metis executor_step.simps(1) surjective_pairing)
next
  case (DoRemove i)
  then show ?thesis using remove_step [OF assms(1,3)] by (metis executor_step.simps(2) surjective_pairing)
next
  case DoFlush
  then show ?thesis using flush_step [OF assms(1,3)] by (metis executor_step.simps(3) surjective_pairing)
qed

lemma executor_session_ok:
  assumes "nft_contract rules nft" and "inj_on (rule_fingerprint encode) reqs" and "executor_ok rules b encode reqs s"
    and "\<And>req. DoExecute req \<in> set cmds \<Longrightarrow> req \<in> reqs"
  shows "executor_ok rules b encode reqs (foldl (executor_step encode nft b) s cmds)"
  using assms(3,4)
proof (induction cmds arbitrary: s)
  case (Cons cmd cmds)
  then have "executor_ok rules b encode reqs (executor_step encode nft b s cmd)"
    by (intro executor_step_ok [OF assms(1,2)]) auto
  then show ?case using Cons by simp
qed simp

text \<open>
  C3. The executor's answers are true. Under the documented behaviour of nft, with fingerprints that tell the
  given requests apart, and after any sequence of commands from an empty chain: every policy has no rule in
  the chain or exactly one, that of a request for it; and after \<open>Applied\<close> or \<open>AlreadyApplied\<close> the policy's
  rule is that of the request just executed, the latter without a change of state.
\<close>

theorem executor_answers_are_true:
  assumes "nft_contract rules nft" and "inj_on (rule_fingerprint encode) reqs"
    and "\<forall>i. in_force rules b s i = []" and "\<forall>req. DoExecute req \<in> set cmds \<longrightarrow> req \<in> reqs" and "req \<in> reqs"
    and "executor_execute encode nft b req (foldl (executor_step encode nft b) s cmds) = (res, s')"
  shows "(\<forall>i. in_force rules b s' i = [] \<or>
       (\<exists>r \<in> reqs. dt_policy_id (rq_trace r) = i \<and> request_spec r \<noteq> None \<and> in_force rules b s' i = [request_rule r])) \<and>
    (case res of
       Applied _ _ \<Rightarrow> in_force rules b s' (dt_policy_id (rq_trace req)) = [request_rule req]
     | AlreadyApplied \<Rightarrow> in_force rules b s' (dt_policy_id (rq_trace req)) = [request_rule req] \<and>
         s' = foldl (executor_step encode nft b) s cmds
     | _ \<Rightarrow> True)"
proof -
  have none: "rules_for (rules (xs_kernel s) (base_chain b)) i = []" for i
    using assms(3) by (simp add: in_force_def)
  then have "\<not> tagged (rule_comment i) r" if "r \<in> set (rules (xs_kernel s) (base_chain b))" for r i
    using that by (auto simp: rules_for_def filter_empty_conv)
  then have "executor_ok rules b encode reqs s"
    using none by (auto simp: executor_ok_def books_right_def single_tags_def)
  then have ok: "executor_ok rules b encode reqs (foldl (executor_step encode nft b) s cmds)"
    using assms(4) by (intro executor_session_ok [OF assms(1,2)]) auto
  note step = execute_step [OF assms(1,2,5) ok assms(6)]
  then have "executor_ok rules b encode reqs s'" by blast
  then have "\<forall>i. in_force rules b s' i = [] \<or>
      (\<exists>r \<in> reqs. dt_policy_id (rq_trace r) = i \<and> request_spec r \<noteq> None \<and> in_force rules b s' i = [request_rule r])"
    unfolding executor_ok_def books_right_def in_force_def by (metis list.simps(8))
  then show ?thesis using step by (auto simp: Let_def split: ActionResult.splits)
qed

definition sample_request :: "Action \<Rightarrow> ActionRequest" where
  "sample_request a = \<lparr>rq_action = a, rq_src_ip = V4 0, rq_dst_ip = V4 0x08080808, rq_src_port = 0, rq_dst_port = 443,
     rq_protocol = 6, rq_interface = 0,
     rq_trace = \<lparr>dt_policy_id = 7, dt_steps = [], dt_action = a, dt_execution_time_us = 0, dt_correlation_id = 1\<rparr>\<rparr>"

definition sample_encode :: "ActionRequest \<Rightarrow> u8 list option" where
  "sample_encode r = Some [if rq_action r = Block then 1 else 2]"

definition sample_backend :: NftablesBackend where
  "sample_backend = \<lparr>nb_table_name = ''balansir'', nb_chain_name = ''forward''\<rparr>"

definition empty_executor :: "ruleset executor_state" where
  "empty_executor = \<lparr>xs_installed = Map.empty, xs_kernel = (\<lambda>_. [])\<rparr>"

lemma sample_result:
  "fst (executor_execute sample_encode tiny_nft sample_backend (sample_request Block)
     (foldl (executor_step sample_encode tiny_nft sample_backend) empty_executor [DoExecute (sample_request Allow)]))
   = Applied 0 (Some 7)"
  by code_simp

lemma sample_distinct: "inj_on (rule_fingerprint sample_encode) {sample_request Block, sample_request Allow}"
proof -
  have "rule_fingerprint sample_encode (sample_request Block) \<noteq> rule_fingerprint sample_encode (sample_request Allow)"
    by code_simp
  then show ?thesis by (auto simp: inj_on_def)
qed

theorem executor_answers_are_true_witness:
  "in_force tiny_rules sample_backend (snd (executor_execute sample_encode tiny_nft sample_backend (sample_request Block)
     (foldl (executor_step sample_encode tiny_nft sample_backend) empty_executor [DoExecute (sample_request Allow)]))) 7
   = [request_rule (sample_request Block)]"
proof -
  have "\<forall>i. in_force tiny_rules sample_backend empty_executor i = []"
    by (simp add: in_force_def rules_for_def empty_executor_def tiny_rules_def)
  note answers = executor_answers_are_true [OF tiny_contract sample_distinct this _ _ prod.collapse [symmetric],
      of "[DoExecute (sample_request Allow)]" "sample_request Block"]
  have "dt_policy_id (rq_trace (sample_request Block)) = 7" by (simp add: sample_request_def)
  then show ?thesis using answers sample_result by simp
qed

lemma drop_first_of_two:
  assumes "rules_for rs i = [x, y]" and "distinct (map nr_handle rs)"
  shows "rules_for (drop_tagged (rule_comment i) rs) i = [y]"
proof (cases "find (tagged (rule_comment i)) rs")
  case None
  then show ?thesis using assms(1) by (auto simp: find_None_iff rules_for_def filter_empty_conv dest: arg_cong [of _ _ set])
next
  case (Some r)
  have "hd (filter (tagged (rule_comment i)) rs) = r" using Some by (induction rs) (auto split: if_splits)
  then have "r = x" using assms(1) by (simp add: rules_for_def)
  have "distinct (map nr_handle (rules_for rs i))" using assms(2) by (simp add: rules_for_def distinct_map_filter)
  then have "filter (\<lambda>z. nr_handle z \<noteq> nr_handle x) (rules_for rs i) = [y]" using assms(1) by auto
  then show ?thesis by (simp add: drop_tagged_def Some rules_for_def \<open>r = x\<close> filter_filter conj_commute)
qed

definition restarted :: "'k executor_state \<Rightarrow> 'k executor_state" where
  "restarted s = s\<lparr>xs_installed := Map.empty\<rparr>"

lemma fresh_execute:
  assumes "fingerprint_of (dt_policy_id (rq_trace req)) s = None" and "executor_execute encode nft b req s = (Applied t p, s')"
  obtains spec s1 where "request_spec req = Some spec" and "kernel_op (nft_add_rule nft b spec) s = (Inr (), s1)"
    and "s' = remember (dt_policy_id (rq_trace req)) (rule_fingerprint encode req) s1"
  using assms
  by (auto simp: executor_execute_def already_installed_def drop_previous_def Let_def split: option.splits prod.splits sum.splits)


definition running_executor :: "ruleset executor_state" where
  "running_executor = snd (executor_execute sample_encode tiny_nft sample_backend (sample_request Block) empty_executor)"

definition rerun_executor :: "ruleset executor_state" where
  "rerun_executor = snd (executor_execute sample_encode tiny_nft sample_backend (sample_request Block) (restarted running_executor))"


end
