(* ===== verification/Gateway.thy ===== *)
theory Gateway
  imports NftInstance
begin

text \<open>
  The gateway datapath: the configuration the daemon sends (\<open>crates/balansir-common/src/gateway.rs\<close>) and the
  backend of the executor that renders it (\<open>crates/balansir-executor/src/gateway.rs\<close>): address translation,
  the management firewall, connection tracking in the forward chain, and the forwarding switch of the kernel.
  The loop that removes tagged rules has no bound of its own; not returning is the value \<open>None\<close>.
\<close>

subsection \<open>Configuration\<close>

record GatewayConfig =
  gc_wan_interface :: string
  gc_lan_interface :: string
  gc_lan_subnet :: string

definition validate_iface :: "string \<Rightarrow> string \<Rightarrow> (unit, string) result" where
  "validate_iface name field =
     (if name = [] then Inl (''gateway config: '' @ field @ '' must not be empty'')
      else if 15 < length name then Inl (''gateway config: '' @ field @ '' too long: '' @ debug_str name)
      else if \<not> list_all (\<lambda>c. ascii_alphanumeric c \<or> c = CHR ''_'' \<or> c = CHR ''-'') name
      then Inl (''gateway config: '' @ field @ '' has invalid characters: '' @ debug_str name)
      else Inr ())"

text \<open>\<open>rsplit_once(c)\<close>: at the last occurrence.\<close>

definition rsplit_once :: "char \<Rightarrow> string \<Rightarrow> (string \<times> string) option" where
  "rsplit_once c s = map_option (\<lambda>(b, a). (rev a, rev b)) (split_once c (rev s))"

definition parse_cidr :: "string \<Rightarrow> (IpAddr, string) result" where
  "parse_cidr cidr =
     (let addr = (case rsplit_once (CHR ''/'') cidr of Some (a, _) \<Rightarrow> a | None \<Rightarrow> cidr) in
      case parse_ip addr of Some ip \<Rightarrow> Inr ip | None \<Rightarrow> Inl (''invalid CIDR: '' @ debug_str cidr))"

definition validate_gateway :: "GatewayConfig \<Rightarrow> (unit, string) result" where
  "validate_gateway c =
     (case validate_iface (gc_wan_interface c) ''wan_interface'' of
        Inl e \<Rightarrow> Inl e
      | Inr _ \<Rightarrow>
          (case validate_iface (gc_lan_interface c) ''lan_interface'' of
             Inl e \<Rightarrow> Inl e
           | Inr _ \<Rightarrow>
               if gc_wan_interface c = gc_lan_interface c
               then Inl ''gateway config: wan_interface and lan_interface must differ''
               else
                 (case parse_cidr (gc_lan_subnet c) of
                    Inl e \<Rightarrow> Inl (''gateway config: lan_subnet: '' @ e)
                  | Inr _ \<Rightarrow> Inr ())))"

definition DEFAULT_MGMT_PORTS :: "u16 list" where "DEFAULT_MGMT_PORTS = [22, 53, 8080, 9090]"

record GatewayResult =
  gr_ok :: bool
  gr_detail :: string

record GatewayStatus =
  gs_enabled :: bool
  gs_wan_interface :: "string option"
  gs_lan_interface :: "string option"
  gs_lan_subnet :: "string option"
  gs_ip_forward_enabled :: bool
  gs_mgmt_ports :: "u16 list"
  gs_wan_input_blocked :: bool

definition GATEWAY_NAT_TAG :: string where "GATEWAY_NAT_TAG = ''balansir:gateway:masq''"
definition GATEWAY_FWD_TAG :: string where "GATEWAY_FWD_TAG = ''balansir:gateway:fwd''"
definition GATEWAY_MGMT_TAG :: string where "GATEWAY_MGMT_TAG = ''balansir:gateway:mgmt''"

subsection \<open>Operations that may not return\<close>

type_synonym ('a, 'k) long_op = "'k \<Rightarrow> (('a, Error) result \<times> 'k) option"

definition short :: "('a, 'k) op \<Rightarrow> ('a, 'k) long_op" where
  "short m k = Some (m k)"

definition long_then :: "('a, 'k) long_op \<Rightarrow> ('a \<Rightarrow> ('b, 'k) long_op) \<Rightarrow> ('b, 'k) long_op" where
  "long_then m f k =
     (case m k of None \<Rightarrow> None | Some (Inl e, k) \<Rightarrow> Some (Inl e, k) | Some (Inr x, k) \<Rightarrow> f x k)"

text \<open>The file \<open>/proc/sys/net/ipv4/ip_forward\<close>.\<close>

record 'k sysctl =
  sc_write :: "string \<Rightarrow> 'k \<Rightarrow> (unit, string) result \<times> 'k"
  sc_read :: "'k \<Rightarrow> string option"

subsection \<open>The backend\<close>

record 'k gateway_state =
  gw_applied :: "GatewayConfig option"
  gw_kernel :: 'k

definition ensure_base_chains :: "'k nft \<Rightarrow> NftablesBackend \<Rightarrow> (unit, 'k) op" where
  "ensure_base_chains nft b =
     op_then (ensure_hooked_chain nft b ''postrouting''
       [''type'', ''nat'', ''hook'', ''postrouting'', ''priority'', ''100'', '';'']) (\<lambda>_.
     ensure_hooked_chain nft b ''input''
       [''type'', ''filter'', ''hook'', ''input'', ''priority'', ''0'', ''policy'', ''drop'', '';''])"

definition line_feed :: string where "line_feed = [char_of (10 :: nat)]"

definition set_ip_forward :: "'k sysctl \<Rightarrow> bool \<Rightarrow> (unit, 'k) op" where
  "set_ip_forward sc enabled k =
     (case sc_write sc ((if enabled then ''1'' else ''0'') @ line_feed) k of
        (Inl e, k) \<Rightarrow> (Inl (E_Fatal (''sysctl ip_forward: '' @ e)), k)
      | (Inr _, k) \<Rightarrow> (Inr (), k))"

definition ip_forward_enabled :: "'k sysctl \<Rightarrow> 'k \<Rightarrow> bool" where
  "ip_forward_enabled sc k = (case sc_read sc k of Some v \<Rightarrow> trim v = ''1'' | None \<Rightarrow> False)"

partial_function (option) remove_all_rules :: "'k nft \<Rightarrow> NftablesBackend \<Rightarrow> string \<Rightarrow> string \<Rightarrow> (unit, 'k) long_op" where
  "remove_all_rules nft b chain tag k =
     (case has_comment_in_chain nft b chain tag k of (present, k) \<Rightarrow>
        if present then
          (case remove_rule_by_comment_in_chain nft b chain tag k of (r, k) \<Rightarrow>
             (case r of Inl e \<Rightarrow> Some (Inl e, k) | Inr _ \<Rightarrow> remove_all_rules nft b chain tag k))
        else Some (Inr (), k))"

declare remove_all_rules.simps [code]

definition tracked :: "string \<Rightarrow> NftVerdict \<Rightarrow> string \<Rightarrow> NftRuleSpec" where
  "tracked state verdict tag = (NftRuleSpec_new verdict)\<lparr>ns_ct_state := Some state, ns_comment := Some tag\<rparr>"

definition forward_specs :: "NftRuleSpec list" where
  "forward_specs = [tracked ''established,related'' NV_Accept GATEWAY_FWD_TAG, tracked ''invalid'' NV_Drop GATEWAY_FWD_TAG]"

definition apply_forward_conntrack :: "'k nft \<Rightarrow> NftablesBackend \<Rightarrow> (unit, 'k) long_op" where
  "apply_forward_conntrack nft b =
     long_then (remove_all_rules nft b ''forward'' GATEWAY_FWD_TAG) (\<lambda>_.
     short (op_each (add_rule_to_chain nft b ''forward'') forward_specs))"

definition nat_spec :: "GatewayConfig \<Rightarrow> NftRuleSpec" where
  "nat_spec config =
     (NftRuleSpec_new NV_Masquerade)
       \<lparr>ns_src_cidr := Some (gc_lan_subnet config), ns_oifname := Some (gc_wan_interface config),
        ns_comment := Some GATEWAY_NAT_TAG\<rparr>"

definition apply_nat :: "'k nft \<Rightarrow> NftablesBackend \<Rightarrow> GatewayConfig \<Rightarrow> (unit, 'k) long_op" where
  "apply_nat nft b config =
     long_then (remove_all_rules nft b ''postrouting'' GATEWAY_NAT_TAG) (\<lambda>_.
     short (add_rule_to_chain nft b ''postrouting'' (nat_spec config)))"

definition loopback_spec :: NftRuleSpec where
  "loopback_spec =
     (NftRuleSpec_new NV_Accept)
       \<lparr>ns_src_cidr := Some ''127.0.0.0/8'', ns_iifname := Some ''lo'', ns_comment := Some GATEWAY_MGMT_TAG\<rparr>"

definition port_protos :: "u16 \<Rightarrow> NftProto list" where
  "port_protos port = (if port = 53 then [NP_Tcp, NP_Udp] else [NP_Tcp])"

definition admin_spec :: "string \<Rightarrow> string option \<Rightarrow> u16 \<Rightarrow> NftProto \<Rightarrow> NftRuleSpec" where
  "admin_spec subnet iface port p =
     (NftRuleSpec_new NV_Accept)
       \<lparr>ns_proto := Some p, ns_src_cidr := Some subnet, ns_dport := Some port, ns_iifname := iface,
        ns_comment := Some GATEWAY_MGMT_TAG\<rparr>"

definition admin_specs :: "string \<Rightarrow> string option \<Rightarrow> NftRuleSpec list" where
  "admin_specs subnet iface =
     concat (map (\<lambda>port. map (admin_spec subnet iface port) (port_protos port)) DEFAULT_MGMT_PORTS)"

definition management_specs :: "GatewayConfig \<Rightarrow> NftRuleSpec list" where
  "management_specs config =
     [tracked ''established,related'' NV_Accept GATEWAY_MGMT_TAG, loopback_spec] @
     admin_specs (gc_lan_subnet config) (Some (gc_lan_interface config)) @ admin_specs ''100.64.0.0/10'' None"

definition apply_management :: "'k nft \<Rightarrow> NftablesBackend \<Rightarrow> GatewayConfig \<Rightarrow> (unit, 'k) long_op" where
  "apply_management nft b config =
     long_then (remove_all_rules nft b ''input'' GATEWAY_MGMT_TAG) (\<lambda>_.
     short (op_each (add_rule_to_chain nft b ''input'') (management_specs config)))"

definition misconfigured :: "(unit, string) result \<Rightarrow> (unit, Error) result" where
  "misconfigured r = (case r of Inl e \<Rightarrow> Inl (E_Misconfiguration e) | Inr _ \<Rightarrow> Inr ())"

definition apply_datapath :: "'k nft \<Rightarrow> 'k sysctl \<Rightarrow> NftablesBackend \<Rightarrow> GatewayConfig \<Rightarrow> (unit, 'k) long_op" where
  "apply_datapath nft sc b config =
     long_then (short (op_check (misconfigured (validate_gateway config)))) (\<lambda>_.
     long_then (short (ensure_base_chains nft b)) (\<lambda>_.
     long_then (short (set_ip_forward sc True)) (\<lambda>_.
     long_then (apply_forward_conntrack nft b) (\<lambda>_.
     long_then (apply_nat nft b config) (\<lambda>_.
     apply_management nft b config)))))"

definition gateway_apply ::
    "'k nft \<Rightarrow> 'k sysctl \<Rightarrow> NftablesBackend \<Rightarrow> GatewayConfig \<Rightarrow> (GatewayResult, 'k gateway_state) long_op" where
  "gateway_apply nft sc b config s =
     (case apply_datapath nft sc b config (gw_kernel s) of
        None \<Rightarrow> None
      | Some (Inl e, k) \<Rightarrow> Some (Inl e, s\<lparr>gw_kernel := k\<rparr>)
      | Some (Inr _, k) \<Rightarrow>
          Some (Inr \<lparr>gr_ok = True, gr_detail = ''NAT (masquerade on '' @ gc_wan_interface config @
             ''), forwarding, conntrack and management firewall applied (LAN '' @ gc_lan_subnet config @ '' via '' @
             gc_lan_interface config @ '')''\<rparr>,
           s\<lparr>gw_applied := Some config, gw_kernel := k\<rparr>))"

definition owned_chains :: "(string \<times> string \<times> string) list" where
  "owned_chains =
     [(''postrouting'', GATEWAY_NAT_TAG, ''NAT''), (''forward'', GATEWAY_FWD_TAG, ''forward conntrack''),
      (''input'', GATEWAY_MGMT_TAG, ''management firewall'')]"

fun remove_owned ::
    "'k nft \<Rightarrow> NftablesBackend \<Rightarrow> (string \<times> string \<times> string) list \<Rightarrow> string list \<Rightarrow> (string list, 'k) long_op" where
  "remove_owned nft b [] removed k = Some (Inr removed, k)"
| "remove_owned nft b ((chain, tag, what) # rest) removed k =
     (case has_comment_in_chain nft b chain tag k of
        (False, k) \<Rightarrow> remove_owned nft b rest removed k
      | (True, k) \<Rightarrow>
          (case remove_all_rules nft b chain tag k of
             None \<Rightarrow> None
           | Some (Inl e, k) \<Rightarrow> Some (Inl (E_Fatal (''remove '' @ what @ '': '' @ show_error e)), k)
           | Some (Inr _, k) \<Rightarrow> remove_owned nft b rest (removed @ [what]) k))"

definition gateway_remove :: "'k nft \<Rightarrow> 'k sysctl \<Rightarrow> NftablesBackend \<Rightarrow> (GatewayResult, 'k gateway_state) long_op" where
  "gateway_remove nft sc b s =
     (case remove_owned nft b owned_chains [] (gw_kernel s) of
        None \<Rightarrow> None
      | Some (Inl e, k) \<Rightarrow> Some (Inl e, s\<lparr>gw_kernel := k\<rparr>)
      | Some (Inr removed, k) \<Rightarrow>
          (case (if removed \<noteq> [] then set_ip_forward sc False k else (Inr (), k)) of
             (Inl e, k) \<Rightarrow> Some (Inl e, s\<lparr>gw_kernel := k\<rparr>)
           | (Inr _, k) \<Rightarrow>
               Some (Inr \<lparr>gr_ok = True, gr_detail =
                  if removed = [] then ''gateway datapath not applied (nothing to remove)''
                  else ''removed: '' @ join_with '', '' removed\<rparr>,
                s\<lparr>gw_applied := None, gw_kernel := k\<rparr>)))"

definition gateway_status :: "'k nft \<Rightarrow> 'k sysctl \<Rightarrow> NftablesBackend \<Rightarrow> 'k gateway_state \<Rightarrow> GatewayStatus \<times> 'k gateway_state" where
  "gateway_status nft sc b s =
     (let (nat_present, k) = has_comment_in_chain nft b ''postrouting'' GATEWAY_NAT_TAG (gw_kernel s);
          (mgmt_present, k) = has_comment_in_chain nft b ''input'' GATEWAY_MGMT_TAG k;
          ip_fwd = ip_forward_enabled sc k
      in (\<lparr>gs_enabled = nat_present \<and> ip_fwd,
           gs_wan_interface = map_option gc_wan_interface (gw_applied s),
           gs_lan_interface = map_option gc_lan_interface (gw_applied s),
           gs_lan_subnet = map_option gc_lan_subnet (gw_applied s),
           gs_ip_forward_enabled = ip_fwd,
           gs_mgmt_ports = if mgmt_present then DEFAULT_MGMT_PORTS else [],
           gs_wan_input_blocked = mgmt_present\<rparr>,
          s\<lparr>gw_kernel := k\<rparr>))"

subsubsection \<open>The record-only backend\<close>

definition record_only_apply ::
    "GatewayConfig \<Rightarrow> GatewayConfig option \<Rightarrow> (GatewayResult, Error) result \<times> GatewayConfig option" where
  "record_only_apply config applied =
     (case validate_gateway config of
        Inl e \<Rightarrow> (Inl (E_Misconfiguration e), applied)
      | Inr _ \<Rightarrow>
          (Inr \<lparr>gr_ok = True, gr_detail = ''record-only gateway applied: wan='' @ gc_wan_interface config @ '' lan='' @
             gc_lan_interface config @ '' subnet='' @ gc_lan_subnet config\<rparr>,
           Some config))"

definition record_only_remove :: "GatewayConfig option \<Rightarrow> GatewayResult \<times> GatewayConfig option" where
  "record_only_remove applied = (\<lparr>gr_ok = True, gr_detail = ''record-only gateway removed''\<rparr>, None)"

definition record_only_status :: "GatewayConfig option \<Rightarrow> GatewayStatus" where
  "record_only_status applied =
     (case applied of
        Some c \<Rightarrow>
          \<lparr>gs_enabled = True, gs_wan_interface = Some (gc_wan_interface c), gs_lan_interface = Some (gc_lan_interface c),
           gs_lan_subnet = Some (gc_lan_subnet c), gs_ip_forward_enabled = True, gs_mgmt_ports = DEFAULT_MGMT_PORTS,
           gs_wan_input_blocked = True\<rparr>
      | None \<Rightarrow>
          \<lparr>gs_enabled = False, gs_wan_interface = None, gs_lan_interface = None, gs_lan_subnet = None,
           gs_ip_forward_enabled = False, gs_mgmt_ports = [], gs_wan_input_blocked = False\<rparr>)"

subsection \<open>What the backend relies on\<close>

text \<open>A listing succeeds unless the chain does not exist.\<close>

definition nft_lists_run :: "'k nft \<Rightarrow> bool" where
  "nft_lists_run nft \<longleftrightarrow>
     (\<forall>t c k. case fst (nft [''-a'', ''list'', ''chain'', ''inet'', t, c] k) of
        NftExit ok out err \<Rightarrow> ok \<or> sublist ''No such file or directory'' err
      | _ \<Rightarrow> False)"

text \<open>The switch holds what was written last; neither it nor \<open>nft\<close> touches the other's state.\<close>

definition sysctl_contract :: "('k \<Rightarrow> ruleset) \<Rightarrow> 'k nft \<Rightarrow> 'k sysctl \<Rightarrow> bool" where
  "sysctl_contract rules nft sc \<longleftrightarrow>
     (\<forall>v k. rules (snd (sc_write sc v k)) = rules k) \<and>
     (\<forall>v k. fst (sc_write sc v k) = Inr () \<longrightarrow> sc_read sc (snd (sc_write sc v k)) = Some v) \<and>
     (\<forall>args k. sc_read sc (snd (nft args k)) = sc_read sc k)"

subsection \<open>State that an operation keeps\<close>

definition op_keeps :: "('k \<Rightarrow> 'v) \<Rightarrow> ('a, 'k) op \<Rightarrow> bool" where
  "op_keeps f m \<longleftrightarrow> (\<forall>k. f (snd (m k)) = f k)"

lemma op_keepsD: "op_keeps f m \<Longrightarrow> m k = (r, k') \<Longrightarrow> f k' = f k"
  by (metis op_keeps_def snd_conv)

lemma op_keeps_ok [intro]: "op_keeps f (op_ok x)"
  by (simp add: op_keeps_def op_ok_def)

lemma op_keeps_err [intro]: "op_keeps f (op_err e)"
  by (simp add: op_keeps_def op_err_def)

lemma op_keeps_check [intro]: "op_keeps f (op_check c)"
  by (simp add: op_keeps_def op_check_def)

lemma op_keeps_then [intro]:
  assumes "op_keeps f m" and "\<And>x. op_keeps f (g x)"
  shows "op_keeps f (op_then m g)"
  unfolding op_keeps_def
proof
  fix k
  show "f (snd (op_then m g k)) = f k"
    using assms by (cases "m k"; cases "fst (m k)") (auto simp: op_keeps_def op_then_def, metis snd_conv, metis snd_conv)
qed

lemma op_keeps_each [intro]: "(\<And>x. op_keeps f (g x)) \<Longrightarrow> op_keeps f (op_each g xs)"
  by (induction xs) auto

lemma op_keeps_run_nft [intro]:
  assumes "\<And>k. f (snd (nft args k)) = f k"
  shows "op_keeps f (run_nft nft args)"
  unfolding op_keeps_def
proof
  fix k
  obtain r k' where "run_nft nft args k = (r, k')" by fastforce
  then show "f (snd (run_nft nft args k)) = f k" using assms [of k] by (auto elim!: run_nft_cases)
qed

lemma op_keeps_if [intro]: "op_keeps f m \<Longrightarrow> op_keeps f n \<Longrightarrow> op_keeps f (if c then m else n)"
  by simp

lemma op_keeps_backend:
  assumes "\<And>args k. f (snd (nft args k)) = f k"
  shows "op_keeps f (find_handle_by_comment_in_chain nft b c q)" and "op_keeps f (remove_rule_by_comment_in_chain nft b c q)"
    and "op_keeps f (add_rule_to_chain nft b c spec)" and "op_keeps f (ensure_hooked_chain nft b c h)"
proof -
  note run = op_keeps_run_nft [of f nft, OF assms]
  show find: "op_keeps f (find_handle_by_comment_in_chain nft b c q)" for c q
    unfolding find_handle_by_comment_in_chain_def by (intro op_keeps_then op_keeps_check run) (auto split: prod.splits)
  show "op_keeps f (remove_rule_by_comment_in_chain nft b c q)"
    unfolding remove_rule_by_comment_in_chain_def
    by (intro op_keeps_then op_keeps_check find) (auto split: prod.splits option.splits intro!: op_keeps_then run)
  show "op_keeps f (add_rule_to_chain nft b c spec)"
    unfolding add_rule_to_chain_def by (intro op_keeps_then op_keeps_check run) (auto split: prod.splits)
  have "op_keeps f (create_if_absent nft args what)" for args what
    unfolding create_if_absent_def by (intro op_keeps_then run) (auto split: prod.splits)
  moreover have "op_keeps f (set_policy nft b c pol)" for pol
    unfolding set_policy_def by (intro op_keeps_then run) (auto split: prod.splits)
  ultimately show "op_keeps f (ensure_hooked_chain nft b c h)"
    unfolding ensure_hooked_chain_def Let_def
    by (intro op_keeps_then op_keeps_check) (auto split: prod.splits option.splits)
qed

subsection \<open>Removing the tagged rules of a chain\<close>

definition foreign :: "string \<Rightarrow> nft_rule list \<Rightarrow> nft_rule list" where
  "foreign tag rs = filter (\<lambda>r. \<not> tagged tag r) rs"

lemma foreign_append [simp]: "foreign tag (xs @ ys) = foreign tag xs @ foreign tag ys"
  by (simp add: foreign_def)

lemma foreign_foreign [simp]: "foreign tag (foreign tag rs) = foreign tag rs"
  by (simp add: foreign_def)

lemma find_tagged_rule: "find (tagged q) rs = Some r \<Longrightarrow> r \<in> set rs \<and> tagged q r"
  by (metis find_Some_iff nth_mem)

lemma drop_tagged_foreign:
  assumes "distinct (map nr_handle rs)"
  shows "foreign tag (drop_tagged tag rs) = foreign tag rs"
proof (cases "find (tagged tag) rs")
  case (Some r)
  have "inj_on nr_handle (set rs)" using assms by (simp add: distinct_map)
  then have "x \<in> set rs \<Longrightarrow> \<not> tagged tag x \<Longrightarrow> nr_handle x \<noteq> nr_handle r" for x
    using find_tagged_rule [OF Some] by (metis inj_onD)
  then show ?thesis by (auto simp: foreign_def drop_tagged_def Some intro!: filter_cong)
qed (simp add: drop_tagged_def)

lemma drop_tagged_fewer:
  assumes "\<exists>r \<in> set rs. tagged tag r"
  shows "length (filter (tagged tag) (drop_tagged tag rs)) < length (filter (tagged tag) rs)"
proof -
  obtain r where r: "find (tagged tag) rs = Some r" using assms by (cases "find (tagged tag) rs") (auto simp: find_None_iff)
  then have "r \<in> set (filter (tagged tag) rs)" using find_tagged_rule by auto
  then have "length (filter (\<lambda>x. nr_handle x \<noteq> nr_handle r) (filter (tagged tag) rs)) < length (filter (tagged tag) rs)"
    by (rule length_filter_less) simp
  then show ?thesis by (simp add: drop_tagged_def r conj_commute)
qed

lemma has_comment_spec:
  assumes "nft_contract rules nft" and "plain q" and "has_comment_in_chain nft b c q k = (present, k')"
  shows "k' = k \<and> (present \<longrightarrow> (\<exists>r \<in> set (rules k (nb_table_name b, c)). tagged q r))"
proof -
  obtain r k2 where f: "find_handle_by_comment_in_chain nft b c q k = (r, k2)" by fastforce
  note s = find_handle_in_chain_spec [OF assms(1,2) f]
  show ?thesis
  proof (cases r)
    case (Inr h)
    show ?thesis
    proof (cases "find (tagged q) (rules k (nb_table_name b, c))")
      case None
      then show ?thesis using Inr assms(3) f s by (simp add: has_comment_in_chain_def)
    next
      case (Some x)
      then show ?thesis using Inr assms(3) f s find_tagged_rule [OF Some] by (auto simp: has_comment_in_chain_def)
    qed
  qed (use assms(3) f s in \<open>auto simp: has_comment_in_chain_def\<close>)
qed

lemma listing_runs:
  assumes "nft_lists_run nft" and "validate_identifier c = Inr ()"
  shows "\<exists>h k'. find_handle_by_comment_in_chain nft b c q k = (Inr h, k')"
proof -
  let ?a = "[''-a'', ''list'', ''chain'', ''inet'', nb_table_name b, c]"
  obtain r k' where n: "nft ?a k = (r, k')" by fastforce
  have "case r of NftExit ok out err \<Rightarrow> ok \<or> sublist ''No such file or directory'' err | _ \<Rightarrow> False"
    using assms(1) n unfolding nft_lists_run_def by (metis fst_conv)
  then show ?thesis using assms(2) n
    by (cases r) (auto simp: find_handle_by_comment_in_chain_def op_then_def op_check_def op_ok_def run_nft_def)
qed

lemma no_comment_spec:
  assumes "nft_contract rules nft" and "plain q" and "nft_lists_run nft" and "validate_identifier c = Inr ()"
    and "has_comment_in_chain nft b c q k = (False, k')" and "r \<in> set (rules k (nb_table_name b, c))"
  shows "\<not> tagged q r"
proof -
  obtain h k2 where f: "find_handle_by_comment_in_chain nft b c q k = (Inr h, k2)" using listing_runs [OF assms(3,4)] by blast
  then have "h = None" using assms(5) by (cases h) (auto simp: has_comment_in_chain_def)
  then have "find (tagged q) (rules k (nb_table_name b, c)) = None"
    using find_handle_in_chain_spec [OF assms(1,2) f] by auto
  then show ?thesis using assms(6) by (simp add: find_None_iff)
qed

text \<open>The loop returns, takes no other rule away, and unless it reports an error takes all tagged rules away.\<close>

lemma remove_all_spec:
  assumes "nft_contract rules nft" and "plain tag" and "nft_lists_run nft" and "validate_identifier c = Inr ()"
    and "\<And>args k. f (snd (nft args k)) = f k"
  shows "\<exists>r k'. remove_all_rules nft b c tag k = Some (r, k') \<and> f k' = f k \<and>
    (\<forall>tc. tc \<noteq> (nb_table_name b, c) \<longrightarrow> rules k' tc = rules k tc) \<and>
    foreign tag (rules k' (nb_table_name b, c)) = foreign tag (rules k (nb_table_name b, c)) \<and>
    (r = Inr () \<longrightarrow> rules k' (nb_table_name b, c) = foreign tag (rules k (nb_table_name b, c))) \<and>
    ((\<forall>k. \<not> isl (fst (remove_rule_by_comment_in_chain nft b c tag k))) \<longrightarrow> \<not> isl r)"
proof (induction "length (filter (tagged tag) (rules k (nb_table_name b, c)))" arbitrary: k rule: less_induct)
  case less
  let ?tc = "(nb_table_name b, c)"
  obtain present k0 where h: "has_comment_in_chain nft b c tag k = (present, k0)" by fastforce
  note has = has_comment_spec [OF assms(1,2) h]
  show ?case
  proof (cases present)
    case False
    then have "\<forall>r \<in> set (rules k ?tc). \<not> tagged tag r" using no_comment_spec [OF assms(1-4)] h by metis
    then have "foreign tag (rules k ?tc) = rules k ?tc" by (simp add: foreign_def)
    then show ?thesis using False h has by (simp add: remove_all_rules.simps [of nft b c tag k])
  next
    case True
    obtain r k1 where m: "remove_rule_by_comment_in_chain nft b c tag k = (r, k1)" by fastforce
    note rm = remove_in_chain_spec [OF assms(1,2) m]
    have f1: "f k1 = f k" using op_keepsD [OF op_keeps_backend(2) [of f nft, OF assms(5)] m] .
    show ?thesis
    proof (cases r)
      case (Inl e)
      then have "\<not> (\<forall>k. \<not> isl (fst (remove_rule_by_comment_in_chain nft b c tag k)))" using m by (metis fst_conv sum.disc(1))
      then show ?thesis using Inl True h has m rm f1 by (simp add: remove_all_rules.simps [of nft b c tag k])
    next
      case (Inr u)
      have d: "distinct (map nr_handle (rules k ?tc))" using assms(1) unfolding nft_contract_def by blast
      have k1: "rules k1 = (rules k)(?tc := drop_tagged tag (rules k ?tc))" using rm Inr by simp
      have "length (filter (tagged tag) (rules k1 ?tc)) < length (filter (tagged tag) (rules k ?tc))"
        using drop_tagged_fewer has True by (simp add: k1)
      from less [OF this] show ?thesis
        using True h has m Inr f1 drop_tagged_foreign [OF d] by (simp add: remove_all_rules.simps [of nft b c tag k] k1)
    qed
  qed
qed

subsection \<open>Operations that return\<close>

definition runs :: "('a, 'k) long_op \<Rightarrow> 'k \<Rightarrow> (('a, Error) result \<Rightarrow> 'k \<Rightarrow> bool) \<Rightarrow> bool" where
  "runs m k Q \<longleftrightarrow> (\<exists>r k'. m k = Some (r, k') \<and> Q r k')"

lemma runs_then:
  assumes "runs m k P" and "\<And>e k1. P (Inl e) k1 \<Longrightarrow> Q (Inl e) k1" and "\<And>x k1. P (Inr x) k1 \<Longrightarrow> runs (f x) k1 Q"
  shows "runs (long_then m f) k Q"
proof -
  obtain r k1 where m: "m k = Some (r, k1)" and P: "P r k1" using assms(1) by (auto simp: runs_def)
  show ?thesis
  proof (cases r)
    case (Inl e)
    then show ?thesis using m P assms(2) by (simp add: runs_def long_then_def)
  next
    case (Inr x)
    then show ?thesis using m P assms(3) [of x k1] by (simp add: runs_def long_then_def)
  qed
qed

lemma runs_short: "(\<And>r k'. m k = (r, k') \<Longrightarrow> Q r k') \<Longrightarrow> runs (short m) k Q"
  unfolding runs_def short_def by (metis surj_pair)

lemma runs_weaken: "runs m k P \<Longrightarrow> (\<And>r k'. P r k' \<Longrightarrow> Q r k') \<Longrightarrow> runs m k Q"
  unfolding runs_def by blast

subsection \<open>The datapath\<close>

definition owner :: "NftablesBackend \<Rightarrow> string \<times> string \<Rightarrow> string option" where
  "owner b tc =
     (if tc = (nb_table_name b, ''postrouting'') then Some GATEWAY_NAT_TAG
      else if tc = (nb_table_name b, ''forward'') then Some GATEWAY_FWD_TAG
      else if tc = (nb_table_name b, ''input'') then Some GATEWAY_MGMT_TAG else None)"

text \<open>The rules the gateway does not own.\<close>

definition other_rules :: "NftablesBackend \<Rightarrow> ruleset \<Rightarrow> ruleset" where
  "other_rules b rs tc = (case owner b tc of None \<Rightarrow> rs tc | Some tag \<Rightarrow> foreign tag (rs tc))"

text \<open>The rules of a configuration, by chain.\<close>

definition datapath :: "GatewayConfig \<Rightarrow> (string \<times> NftRuleSpec list) list" where
  "datapath config =
     [(''forward'', forward_specs), (''postrouting'', [nat_spec config]), (''input'', management_specs config)]"

definition in_place :: "NftablesBackend \<Rightarrow> ruleset \<Rightarrow> (string \<times> NftRuleSpec list) list \<Rightarrow> ruleset \<Rightarrow> bool" where
  "in_place b rs0 parts rs \<longleftrightarrow>
     (\<forall>(c, specs) \<in> set parts.
        map nr_words (rs (nb_table_name b, c)) =
        map nr_words (other_rules b rs0 (nb_table_name b, c)) @ map render_spec specs)"

definition tags_all :: "string \<Rightarrow> NftRuleSpec list \<Rightarrow> bool" where
  "tags_all tag specs \<longleftrightarrow> list_all (\<lambda>spec. ns_comment spec = Some tag) specs"

lemma render_comment: "ns_comment spec = Some tag \<Longrightarrow> quoted tag \<in> set (render_spec spec)"
  by (simp add: render_spec_def)

lemma tags_datapath:
  "tags_all GATEWAY_FWD_TAG forward_specs" "tags_all GATEWAY_NAT_TAG [nat_spec config]"
  "tags_all GATEWAY_MGMT_TAG (management_specs config)"
  by (auto simp: tags_all_def list_all_iff forward_specs_def nat_spec_def management_specs_def admin_specs_def admin_spec_def
      tracked_def loopback_spec_def)

lemma plain_tags: "plain GATEWAY_FWD_TAG" "plain GATEWAY_NAT_TAG" "plain GATEWAY_MGMT_TAG"
  by code_simp+

lemma chains_valid: "validate_identifier ''forward'' = Inr ()" "validate_identifier ''postrouting'' = Inr ()"
  "validate_identifier ''input'' = Inr ()"
  by code_simp+

definition replace_rules :: "'k nft \<Rightarrow> NftablesBackend \<Rightarrow> string \<Rightarrow> string \<Rightarrow> NftRuleSpec list \<Rightarrow> (unit, 'k) long_op" where
  "replace_rules nft b c tag specs =
     long_then (remove_all_rules nft b c tag) (\<lambda>_. short (op_each (add_rule_to_chain nft b c) specs))"

lemma op_each_single: "op_each f [x] = f x"
proof
  fix k
  obtain r k' where "f x k = (r, k')" by fastforce
  then show "op_each f [x] k = f x k" by (cases r) (simp_all add: op_then_def op_ok_def)
qed

lemma parts_replace:
  "apply_forward_conntrack nft b = replace_rules nft b ''forward'' GATEWAY_FWD_TAG forward_specs"
  "apply_nat nft b config = replace_rules nft b ''postrouting'' GATEWAY_NAT_TAG [nat_spec config]"
  "apply_management nft b config = replace_rules nft b ''input'' GATEWAY_MGMT_TAG (management_specs config)"
  by (simp_all add: apply_forward_conntrack_def apply_nat_def apply_management_def replace_rules_def op_each_single
      del: op_each.simps)

lemma other_rules_cong: "rs tc = rs' tc \<Longrightarrow> other_rules b rs tc = other_rules b rs' tc"
  by (simp add: other_rules_def split: option.split)

lemma other_rules_kept:
  assumes "owner b tc0 = Some tag" and "\<forall>tc. tc \<noteq> tc0 \<longrightarrow> rs' tc = rs tc" and "foreign tag (rs' tc0) = foreign tag (rs tc0)"
  shows "other_rules b rs' = other_rules b rs"
proof
  fix tc
  show "other_rules b rs' tc = other_rules b rs tc"
  proof (cases "tc = tc0")
    case True
    then show ?thesis using assms(1,3) by (simp add: other_rules_def)
  next
    case False
    then show ?thesis using assms(2) other_rules_cong by blast
  qed
qed

lemma replace_rules_step:
  assumes "nft_contract rules nft" and "nft_lists_run nft" and "\<And>args k. f (snd (nft args k)) = f k"
    and "plain tag" and "validate_identifier c = Inr ()" and "tags_all tag specs" and "owner b (nb_table_name b, c) = Some tag"
    and "other_rules b (rules k) = other_rules b rs0" and "in_place b rs0 parts (rules k)" and "c \<notin> fst ` set parts"
  shows "runs (replace_rules nft b c tag specs) k (\<lambda>r k'. f k' = f k \<and> other_rules b (rules k') = other_rules b rs0 \<and>
    (r = Inr () \<longrightarrow> in_place b rs0 ((c, specs) # parts) (rules k')))"
  unfolding replace_rules_def
proof (rule runs_then)
  let ?tc = "(nb_table_name b, c)"
  let ?P = "\<lambda>r k'. f k' = f k \<and> (\<forall>tc. tc \<noteq> ?tc \<longrightarrow> rules k' tc = rules k tc) \<and>
      foreign tag (rules k' ?tc) = foreign tag (rules k ?tc) \<and>
      (r = Inr () \<longrightarrow> rules k' ?tc = foreign tag (rules k ?tc))"
  have eq: "other_rules b (rules k') = other_rules b rs0"
    if "\<forall>tc. tc \<noteq> ?tc \<longrightarrow> rules k' tc = rules k tc" and "foreign tag (rules k' ?tc) = foreign tag (rules k ?tc)" for k'
    using other_rules_kept [OF assms(7) that] assms(8) by simp
  show "runs (remove_all_rules nft b c tag) k ?P"
    using remove_all_spec [of rules nft tag c f b k, OF assms(1,4,2,5,3)] unfolding runs_def by blast
  show "f k1 = f k \<and> other_rules b (rules k1) = other_rules b rs0 \<and>
      (Inl e = Inr () \<longrightarrow> in_place b rs0 ((c, specs) # parts) (rules k1))" if "?P (Inl e) k1" for e k1
    using that eq [of k1] by simp
  fix u k1
  assume P: "?P (Inr u) k1"
  show "runs (short (op_each (add_rule_to_chain nft b c) specs)) k1 (\<lambda>r k'. f k' = f k \<and>
      other_rules b (rules k') = other_rules b rs0 \<and> (r = Inr () \<longrightarrow> in_place b rs0 ((c, specs) # parts) (rules k')))"
  proof (rule runs_short)
    fix r k'
    assume a: "op_each (add_rule_to_chain nft b c) specs k1 = (r, k')"
    obtain new n where k': "rules k' = (rules k1)(?tc := rules k1 ?tc @ new)"
      and w: "map nr_words new = map render_spec (take n specs)" and n: "\<not> isl r \<longrightarrow> n = length specs"
      using add_each_spec [OF assms(1) a] by blast
    have "x \<in> set new \<Longrightarrow> tagged tag x" for x
    proof -
      assume "x \<in> set new"
      then have "nr_words x \<in> set (map render_spec (take n specs))" using w by (metis image_eqI set_map)
      then obtain spec where "spec \<in> set specs" "nr_words x = render_spec spec" by (auto dest: in_set_takeD)
      then show "tagged tag x" using assms(6) render_comment by (auto simp: tags_all_def list_all_iff tagged_def)
    qed
    then have "foreign tag new = []" by (auto simp: foreign_def filter_empty_conv)
    then have o: "other_rules b (rules k') = other_rules b rs0" using P by (intro eq) (simp_all add: k')
    have fk: "f k' = f k" using op_keepsD [OF op_keeps_each [OF op_keeps_backend(3) [of f nft, OF assms(3)]] a] P by simp
    have "in_place b rs0 ((c, specs) # parts) (rules k')" if "r = Inr ()"
    proof -
      have "map nr_words (rules k' ?tc) = map nr_words (other_rules b rs0 ?tc) @ map render_spec specs"
        using that n w P assms(7) assms(8) [THEN fun_cong, of ?tc] by (simp add: k' other_rules_def)
      moreover have "map nr_words (rules k' (nb_table_name b, c')) =
          map nr_words (other_rules b rs0 (nb_table_name b, c')) @ map render_spec specs'" if m: "(c', specs') \<in> set parts" for c' specs'
      proof -
        have "c' \<noteq> c" using m assms(10) by force
        then have "rules k' (nb_table_name b, c') = rules k (nb_table_name b, c')" using P k' by simp
        then show ?thesis using m assms(9) unfolding in_place_def by auto
      qed
      ultimately show ?thesis unfolding in_place_def by auto
    qed
    then show "f k' = f k \<and> other_rules b (rules k') = other_rules b rs0 \<and>
        (r = Inr () \<longrightarrow> in_place b rs0 ((c, specs) # parts) (rules k'))" using o fk by blast
  qed
qed

lemma owners:
  "owner b (nb_table_name b, ''forward'') = Some GATEWAY_FWD_TAG"
  "owner b (nb_table_name b, ''postrouting'') = Some GATEWAY_NAT_TAG"
  "owner b (nb_table_name b, ''input'') = Some GATEWAY_MGMT_TAG"
  by (simp_all add: owner_def)

lemma base_chains_keep:
  assumes "nft_contract rules nft" and "ensure_base_chains nft b k = (r, k')"
  shows "rules k' = rules k"
  using assms(2) unfolding ensure_base_chains_def
  by (elim op_thenE) (auto dest!: ensure_chain_keeps [OF assms(1)])

lemma set_forward_spec:
  assumes "sysctl_contract rules nft sc" and "set_ip_forward sc on k = (r, k')"
  shows "rules k' = rules k \<and> (r = Inr () \<longrightarrow> sc_read sc k' = Some ((if on then ''1'' else ''0'') @ line_feed))"
proof -
  obtain w k1 where "sc_write sc ((if on then ''1'' else ''0'') @ line_feed) k = (w, k1)" by fastforce
  then show ?thesis using assms unfolding sysctl_contract_def set_ip_forward_def
    by (cases w) (auto, (metis fst_conv snd_conv)+)
qed

lemma forward_on: "sc_read sc k = Some (''1'' @ line_feed) \<Longrightarrow> ip_forward_enabled sc k"
proof -
  have "trim (''1'' @ line_feed) = ''1''" by code_simp
  then show "sc_read sc k = Some (''1'' @ line_feed) \<Longrightarrow> ip_forward_enabled sc k" by (simp add: ip_forward_enabled_def)
qed

lemma forward_off: "sc_read sc k = Some (''0'' @ line_feed) \<Longrightarrow> \<not> ip_forward_enabled sc k"
proof -
  have "trim (''0'' @ line_feed) \<noteq> ''1''" by code_simp
  then show "sc_read sc k = Some (''0'' @ line_feed) \<Longrightarrow> \<not> ip_forward_enabled sc k" by (simp add: ip_forward_enabled_def)
qed

lemma parts_step:
  assumes "nft_contract rules nft" and "nft_lists_run nft" and "sysctl_contract rules nft sc"
    and "other_rules b (rules k) = other_rules b rs0" and "in_place b rs0 parts (rules k)"
  shows "parts = [] \<Longrightarrow> runs (apply_forward_conntrack nft b) k (\<lambda>r k'. sc_read sc k' = sc_read sc k \<and>
      other_rules b (rules k') = other_rules b rs0 \<and> (r = Inr () \<longrightarrow> in_place b rs0 [(''forward'', forward_specs)] (rules k')))"
    and "parts = [(''forward'', forward_specs)] \<Longrightarrow> runs (apply_nat nft b config) k (\<lambda>r k'. sc_read sc k' = sc_read sc k \<and>
      other_rules b (rules k') = other_rules b rs0 \<and>
      (r = Inr () \<longrightarrow> in_place b rs0 ((''postrouting'', [nat_spec config]) # parts) (rules k')))"
    and "parts = [(''postrouting'', [nat_spec config]), (''forward'', forward_specs)] \<Longrightarrow>
      runs (apply_management nft b config) k (\<lambda>r k'. sc_read sc k' = sc_read sc k \<and>
      other_rules b (rules k') = other_rules b rs0 \<and>
      (r = Inr () \<longrightarrow> in_place b rs0 ((''input'', management_specs config) # parts) (rules k')))"
proof -
  have f: "sc_read sc (snd (nft args k)) = sc_read sc k" for args k using assms(3) by (simp add: sysctl_contract_def)
  note step = replace_rules_step [of rules nft "sc_read sc", OF assms(1,2) f _ _ _ _ assms(4,5)]
  show "parts = [] \<Longrightarrow> runs (apply_forward_conntrack nft b) k (\<lambda>r k'. sc_read sc k' = sc_read sc k \<and>
      other_rules b (rules k') = other_rules b rs0 \<and> (r = Inr () \<longrightarrow> in_place b rs0 [(''forward'', forward_specs)] (rules k')))"
    unfolding parts_replace using step [OF plain_tags(1) chains_valid(1) tags_datapath(1) owners(1)] by simp
  show "parts = [(''forward'', forward_specs)] \<Longrightarrow> runs (apply_nat nft b config) k (\<lambda>r k'. sc_read sc k' = sc_read sc k \<and>
      other_rules b (rules k') = other_rules b rs0 \<and>
      (r = Inr () \<longrightarrow> in_place b rs0 ((''postrouting'', [nat_spec config]) # parts) (rules k')))"
    unfolding parts_replace using step [OF plain_tags(2) chains_valid(2) tags_datapath(2) owners(2)] by simp
  show "parts = [(''postrouting'', [nat_spec config]), (''forward'', forward_specs)] \<Longrightarrow>
      runs (apply_management nft b config) k (\<lambda>r k'. sc_read sc k' = sc_read sc k \<and>
      other_rules b (rules k') = other_rules b rs0 \<and>
      (r = Inr () \<longrightarrow> in_place b rs0 ((''input'', management_specs config) # parts) (rules k')))"
    unfolding parts_replace using step [OF plain_tags(3) chains_valid(3) tags_datapath(3) owners(3)] by simp
qed

lemma apply_datapath_runs:
  assumes "nft_contract rules nft" and "nft_lists_run nft" and "sysctl_contract rules nft sc"
  shows "runs (apply_datapath nft sc b config) k (\<lambda>r k'. other_rules b (rules k') = other_rules b (rules k) \<and>
    (r = Inr () \<longrightarrow> validate_gateway config = Inr () \<and> in_place b (rules k) (rev (datapath config)) (rules k') \<and>
       ip_forward_enabled sc k'))"
    (is "runs _ _ ?Q")
  unfolding apply_datapath_def
proof (rule runs_then)
  let ?o = "\<lambda>k'. other_rules b (rules k') = other_rules b (rules k)" and ?v = "validate_gateway config = Inr ()"
  let ?on = "\<lambda>k'. sc_read sc k' = Some (''1'' @ line_feed)"
  show "runs (short (op_check (misconfigured (validate_gateway config)))) k (\<lambda>r k'. k' = k \<and> (r = Inr () \<longrightarrow> ?v))"
    by (rule runs_short) (auto simp: misconfigured_def split: sum.splits)
  fix u1 k1
  assume 1: "k1 = k \<and> (Inr u1 = Inr () \<longrightarrow> ?v)"
  show "runs (long_then (short (ensure_base_chains nft b)) (\<lambda>_. long_then (short (set_ip_forward sc True)) (\<lambda>_.
      long_then (apply_forward_conntrack nft b) (\<lambda>_. long_then (apply_nat nft b config) (\<lambda>_. apply_management nft b config))))) k1 ?Q"
  proof (rule runs_then)
    show "runs (short (ensure_base_chains nft b)) k1 (\<lambda>r k'. rules k' = rules k)"
      using 1 base_chains_keep [OF assms(1)] by (intro runs_short) blast
    fix u2 k2
    assume 2: "rules k2 = rules k"
    show "runs (long_then (short (set_ip_forward sc True)) (\<lambda>_. long_then (apply_forward_conntrack nft b) (\<lambda>_.
        long_then (apply_nat nft b config) (\<lambda>_. apply_management nft b config)))) k2 ?Q"
    proof (rule runs_then)
      show "runs (short (set_ip_forward sc True)) k2 (\<lambda>r k'. rules k' = rules k \<and> (r = Inr () \<longrightarrow> ?on k'))"
        using 2 set_forward_spec [OF assms(3)] by (intro runs_short) fastforce
      fix u3 k3
      assume 3: "rules k3 = rules k \<and> (Inr u3 = Inr () \<longrightarrow> ?on k3)"
      have p: "in_place b (rules k) [] (rules k3)" by (simp add: in_place_def)
      show "runs (long_then (apply_forward_conntrack nft b) (\<lambda>_. long_then (apply_nat nft b config) (\<lambda>_.
          apply_management nft b config))) k3 ?Q"
      proof (rule runs_then [OF parts_step(1) [OF assms _ p refl]])
        fix u4 k4
        assume 4: "sc_read sc k4 = sc_read sc k3 \<and> ?o k4 \<and> (Inr u4 = Inr () \<longrightarrow> in_place b (rules k) [(''forward'', forward_specs)] (rules k4))"
        show "runs (long_then (apply_nat nft b config) (\<lambda>_. apply_management nft b config)) k4 ?Q"
        proof (rule runs_then [OF parts_step(2) [OF assms _ _ refl, of b k4 "rules k" config]])
          fix u5 k5
          assume 5: "sc_read sc k5 = sc_read sc k4 \<and> ?o k5 \<and> (Inr u5 = Inr () \<longrightarrow>
              in_place b (rules k) [(''postrouting'', [nat_spec config]), (''forward'', forward_specs)] (rules k5))"
          show "runs (apply_management nft b config) k5 ?Q"
            by (rule runs_weaken [OF parts_step(3) [OF assms _ _ refl, of b k5 "rules k" config]])
              (use 1 3 4 5 forward_on [of sc] in \<open>auto simp: datapath_def\<close>)
        qed (use 4 in auto)
      qed (use 3 in auto)
    qed (auto simp: 2)
  qed auto
qed auto

lemma gateway_apply_runs:
  assumes "nft_contract rules nft" and "nft_lists_run nft" and "sysctl_contract rules nft sc"
  shows "runs (gateway_apply nft sc b config) s (\<lambda>r s'.
    other_rules b (rules (gw_kernel s')) = other_rules b (rules (gw_kernel s)) \<and>
    (case r of
       Inl _ \<Rightarrow> gw_applied s' = gw_applied s
     | Inr res \<Rightarrow> gr_ok res \<and> validate_gateway config = Inr () \<and> gw_applied s' = Some config \<and>
         ip_forward_enabled sc (gw_kernel s') \<and>
         in_place b (rules (gw_kernel s)) (rev (datapath config)) (rules (gw_kernel s'))))"
proof -
  from apply_datapath_runs [OF assms, of b config "gw_kernel s"] obtain r k'
    where "apply_datapath nft sc b config (gw_kernel s) = Some (r, k')"
      and "other_rules b (rules k') = other_rules b (rules (gw_kernel s))"
      and "r = Inr () \<longrightarrow> validate_gateway config = Inr () \<and>
        in_place b (rules (gw_kernel s)) (rev (datapath config)) (rules k') \<and> ip_forward_enabled sc k'"
    unfolding runs_def by blast
  then show ?thesis by (cases r) (simp_all add: runs_def gateway_apply_def)
qed

subsection \<open>Taking the datapath down\<close>

definition owned_chain :: "NftablesBackend \<Rightarrow> string \<times> string \<times> string \<Rightarrow> bool" where
  "owned_chain b x \<longleftrightarrow>
     (case x of (c, tag, what) \<Rightarrow>
        owner b (nb_table_name b, c) = Some tag \<and> plain tag \<and> validate_identifier c = Inr ())"

lemma owned_chains_owned: "list_all (owned_chain b) owned_chains"
  by (simp add: owned_chains_def owned_chain_def owners plain_tags chains_valid)

lemma remove_owned_runs:
  assumes "nft_contract rules nft" and "nft_lists_run nft" and "sysctl_contract rules nft sc" and "list_all (owned_chain b) cs"
  shows "runs (remove_owned nft b cs removed) k (\<lambda>r k'. sc_read sc k' = sc_read sc k \<and>
    other_rules b (rules k') = other_rules b (rules k) \<and>
    (\<forall>removed'. r = Inr removed' \<longrightarrow>
       (\<forall>tc. rules k' tc = (if tc \<in> (\<lambda>x. (nb_table_name b, fst x)) ` set cs then other_rules b (rules k) tc else rules k tc)) \<and>
       length removed \<le> length removed' \<and> (removed' = removed \<longleftrightarrow> rules k' = rules k)))"
  using assms(4)
proof (induction cs arbitrary: removed k)
  case Nil
  then show ?case by (simp add: runs_def)
next
  case (Cons x cs)
  obtain c tag what where x: "x = (c, tag, what)" by (cases x)
  let ?tc = "(nb_table_name b, c)"
  have "owned_chain b (c, tag, what)" and cs: "list_all (owned_chain b) cs" using Cons.prems by (simp_all add: x)
  then have own: "owner b ?tc = Some tag" "plain tag" "validate_identifier c = Inr ()" by (simp_all add: owned_chain_def)
  have f: "sc_read sc (snd (nft args k)) = sc_read sc k" for args k using assms(3) by (simp add: sysctl_contract_def)
  obtain present k0 where h: "has_comment_in_chain nft b c tag k = (present, k0)" by fastforce
  note has = has_comment_spec [OF assms(1) own(2) h]
  have o: "other_rules b rs ?tc = foreign tag (rs ?tc)" for rs by (simp add: other_rules_def own)
  show ?case
  proof (cases present)
    case False
    then have "\<forall>r \<in> set (rules k ?tc). \<not> tagged tag r"
      using no_comment_spec [OF assms(1) own(2) assms(2) own(3)] h by metis
    then have "other_rules b (rules k) ?tc = rules k ?tc" by (simp add: o foreign_def)
    then have t: "(if tc \<in> (\<lambda>x. (nb_table_name b, fst x)) ` set (x # cs) then other_rules b (rules k) tc else rules k tc) =
        (if tc \<in> (\<lambda>x. (nb_table_name b, fst x)) ` set cs then other_rules b (rules k) tc else rules k tc)" for tc
      by (cases "tc = ?tc") (auto simp: x)
    have "remove_owned nft b (x # cs) removed k = remove_owned nft b cs removed k"
      using False h has by (simp add: x)
    then show ?thesis using Cons.IH [OF cs, of removed k] unfolding runs_def t by simp
  next
    case True
    obtain r1 k1 where rm: "remove_all_rules nft b c tag k = Some (r1, k1)" and k1: "sc_read sc k1 = sc_read sc k"
      "\<forall>tc. tc \<noteq> ?tc \<longrightarrow> rules k1 tc = rules k tc" "foreign tag (rules k1 ?tc) = foreign tag (rules k ?tc)"
      "r1 = Inr () \<longrightarrow> rules k1 ?tc = foreign tag (rules k ?tc)"
      using remove_all_spec [of rules nft tag c "sc_read sc" b k, OF assms(1) own(2) assms(2) own(3) f] by blast
    have o1: "other_rules b (rules k1) = other_rules b (rules k)" using other_rules_kept [OF own(1) k1(2,3)] .
    show ?thesis
    proof (cases r1)
      case (Inl e)
      then show ?thesis using True h has rm k1(1) o1 by (simp add: runs_def x)
    next
      case (Inr u)
      have "foreign tag (rules k ?tc) \<noteq> rules k ?tc"
        using has True by (metis (mono_tags, lifting) filter_id_conv foreign_def)
      then have ne: "rules k' \<noteq> rules k" if "rules k' ?tc = foreign tag (rules k ?tc)" for k' using that by metis
      have "remove_owned nft b (x # cs) removed k = remove_owned nft b cs (removed @ [what]) k1"
        using True h has rm Inr by (simp add: x)
      moreover obtain r k' where "remove_owned nft b cs (removed @ [what]) k1 = Some (r, k')" and "sc_read sc k' = sc_read sc k1"
        and o': "other_rules b (rules k') = other_rules b (rules k1)"
        and all: "\<forall>removed'. r = Inr removed' \<longrightarrow>
          (\<forall>tc. rules k' tc = (if tc \<in> (\<lambda>x. (nb_table_name b, fst x)) ` set cs then other_rules b (rules k1) tc else rules k1 tc)) \<and>
          length (removed @ [what]) \<le> length removed' \<and> (removed' = removed @ [what] \<longleftrightarrow> rules k' = rules k1)"
        using Cons.IH [OF cs, of "removed @ [what]" k1] unfolding runs_def by blast
      moreover have "(\<forall>tc. rules k' tc = (if tc \<in> (\<lambda>x. (nb_table_name b, fst x)) ` set (x # cs) then other_rules b (rules k) tc else rules k tc)) \<and>
          length removed \<le> length removed' \<and> (removed' = removed \<longleftrightarrow> rules k' = rules k)" if r: "r = Inr removed'" for removed'
      proof -
        have l: "length removed < length removed'" and t: "rules k' tc = (if tc \<in> (\<lambda>x. (nb_table_name b, fst x)) ` set cs
            then other_rules b (rules k) tc else rules k1 tc)" for tc
          using all [rule_format, OF r] unfolding o1 by (simp, blast)
        have tc: "rules k' ?tc = foreign tag (rules k ?tc)" using t [of ?tc] k1(4) Inr o by simp
        have "rules k' tc = (if tc \<in> (\<lambda>x. (nb_table_name b, fst x)) ` set (x # cs) then other_rules b (rules k) tc else rules k tc)" for tc
          using t [of tc] tc k1(2) [rule_format, of tc] o by (cases "tc = ?tc") (auto simp: x)
        then show ?thesis using l ne [OF tc] by auto
      qed
      ultimately show ?thesis using k1(1) o1 unfolding runs_def by auto
    qed
  qed
qed

end
