(* ===== verification/GatewaySpec.thy ===== *)
theory GatewaySpec
  imports Gateway
begin

text \<open>
  What the gateway backend promises: applying a configuration and taking it down again, with an instance of
  the two contracts they rest on, and that a valid configuration is applied when no command is refused.
\<close>

subsection \<open>When nothing is refused\<close>

text \<open>Every command of the backend exits with success, rules being added when they are among the given ones.\<close>

definition nft_obliges :: "(string list \<Rightarrow> bool) \<Rightarrow> 'k nft \<Rightarrow> bool" where
  "nft_obliges accepts nft \<longleftrightarrow>
     (\<forall>args k. hd args \<in> {''chain'', ''delete''} \<or> take 2 args = [''add'', ''chain''] \<or>
        take 2 args = [''add'', ''rule''] \<and> accepts (drop 5 args) \<longrightarrow> (\<exists>out err. fst (nft args k) = NftExit True out err))"

definition succeeds :: "('a, 'k) op \<Rightarrow> bool" where
  "succeeds m \<longleftrightarrow> (\<forall>k. \<not> isl (fst (m k)))"

lemma succeeds_ok: "succeeds (op_ok x)"
  by (simp add: succeeds_def op_ok_def)

lemma succeeds_check: "succeeds (op_check (Inr x))"
  by (simp add: succeeds_def op_check_def)

lemma succeeds_then:
  assumes "succeeds m" and "\<And>x. succeeds (f x)"
  shows "succeeds (op_then m f)"
  unfolding succeeds_def
proof
  fix k
  obtain r k' where m: "m k = (r, k')" by fastforce
  then have "\<not> isl r" using assms(1) by (metis fst_conv succeeds_def)
  then obtain x where "r = Inr x" by (cases r) auto
  then show "\<not> isl (fst (op_then m f k))" using assms(2) [of x] by (simp add: op_then_def m succeeds_def)
qed

lemma succeeds_run:
  assumes "\<And>k. \<exists>out err. fst (nft args k) = NftExit True out err" and "\<And>out err. succeeds (f (True, out, err))"
  shows "succeeds (op_then (run_nft nft args) f)"
  unfolding succeeds_def
proof
  fix k
  obtain out err k' where "nft args k = (NftExit True out err, k')" using assms(1) [of k] by (metis prod.collapse)
  then show "\<not> isl (fst (op_then (run_nft nft args) f k))"
    using assms(2) [of out err] by (simp add: op_then_def run_nft_def succeeds_def)
qed

lemma succeeds_each: "(\<And>x. x \<in> set xs \<Longrightarrow> succeeds (f x)) \<Longrightarrow> succeeds (op_each f xs)"
  by (induction xs) (auto intro: succeeds_ok succeeds_then)

lemma add_succeeds:
  assumes "nft_obliges accepts nft" and "validate_identifier c = Inr ()" and "accepts (render_spec spec)"
  shows "succeeds (add_rule_to_chain nft b c spec)"
  unfolding add_rule_to_chain_def assms(2)
  by (intro succeeds_then succeeds_check succeeds_run)
     (use assms(1,3) in \<open>auto simp: nft_obliges_def intro: succeeds_ok\<close>)

lemma ensure_succeeds:
  assumes "nft_obliges accepts nft" and "validate_identifier c = Inr ()"
  shows "succeeds (ensure_hooked_chain nft b c h)"
proof -
  have "succeeds (create_if_absent nft (''add'' # ''chain'' # ws) what)" for ws what
    unfolding create_if_absent_def
    by (intro succeeds_run) (use assms(1) in \<open>auto simp: nft_obliges_def intro: succeeds_ok\<close>)
  moreover have "succeeds (set_policy nft b c pol)" for pol
    unfolding set_policy_def
    by (intro succeeds_run) (use assms(1) in \<open>auto simp: nft_obliges_def intro: succeeds_ok\<close>)
  ultimately show ?thesis
    unfolding ensure_hooked_chain_def Let_def assms(2)
    by (intro succeeds_then succeeds_check) (auto split: prod.splits option.splits intro!: succeeds_then succeeds_ok)
qed

lemma remove_succeeds:
  assumes "nft_obliges accepts nft" and "nft_lists_run nft" and "validate_identifier c = Inr ()"
  shows "succeeds (remove_rule_by_comment_in_chain nft b c q)"
proof -
  have "succeeds (find_handle_by_comment_in_chain nft b c q)"
    using listing_runs [OF assms(2,3)] unfolding succeeds_def by (metis fst_conv sum.disc(2))
  moreover have "\<exists>out err. fst (nft [''delete'', ''rule'', ''inet'', nb_table_name b, c, ''handle'', h] k) = NftExit True out err" for h k
    using assms(1) by (auto simp: nft_obliges_def)
  ultimately show ?thesis
    unfolding remove_rule_by_comment_in_chain_def assms(3)
    by (intro succeeds_then succeeds_check) (auto split: option.splits intro!: succeeds_run succeeds_ok)
qed

lemma runs_short_succeeds: "succeeds m \<Longrightarrow> runs (short m) k (\<lambda>r k'. \<not> isl r)"
  unfolding runs_def short_def succeeds_def by (metis prod.collapse)

lemma runs_then_succeeds:
  assumes "runs m k (\<lambda>r k'. \<not> isl r)" and "\<And>x k. runs (f x) k (\<lambda>r k'. \<not> isl r)"
  shows "runs (long_then m f) k (\<lambda>r k'. \<not> isl r)"
  by (rule runs_then [OF assms(1)]) (use assms(2) in auto)

lemma replace_succeeds:
  assumes "nft_contract rules nft" and "nft_lists_run nft" and "nft_obliges accepts nft"
    and "plain tag" and "validate_identifier c = Inr ()" and "\<And>spec. spec \<in> set specs \<Longrightarrow> accepts (render_spec spec)"
  shows "runs (replace_rules nft b c tag specs) k (\<lambda>r k'. \<not> isl r)"
  unfolding replace_rules_def
proof (rule runs_then_succeeds)
  have "\<forall>k. \<not> isl (fst (remove_rule_by_comment_in_chain nft b c tag k))"
    using remove_succeeds [OF assms(3,2,5)] by (simp add: succeeds_def)
  then show "runs (remove_all_rules nft b c tag) k (\<lambda>r k'. \<not> isl r)"
    using remove_all_spec [of rules nft tag c "\<lambda>_. ()" b k, OF assms(1,4,2,5)] unfolding runs_def by blast
  show "runs (short (op_each (add_rule_to_chain nft b c) specs)) k (\<lambda>r k'. \<not> isl r)" for k
    by (intro runs_short_succeeds succeeds_each add_succeeds [OF assms(3,5)] assms(6))
qed

lemma apply_datapath_succeeds:
  assumes "nft_contract rules nft" and "nft_lists_run nft" and "nft_obliges accepts nft"
    and "\<And>v k. fst (sc_write sc v k) = Inr ()" and "validate_gateway config = Inr ()"
    and "\<And>c specs spec. (c, specs) \<in> set (datapath config) \<Longrightarrow> spec \<in> set specs \<Longrightarrow> accepts (render_spec spec)"
  shows "runs (apply_datapath nft sc b config) k (\<lambda>r k'. \<not> isl r)"
proof -
  have "succeeds (set_ip_forward sc True)"
    using assms(4) by (auto simp: succeeds_def set_ip_forward_def split: prod.splits sum.splits) (metis fst_conv sum.distinct(1))
  moreover have "succeeds (ensure_base_chains nft b)"
    unfolding ensure_base_chains_def by (intro succeeds_then ensure_succeeds [OF assms(3)] chains_valid)
  moreover note replace = replace_succeeds [OF assms(1-3)] and in_path = assms(6) [unfolded datapath_def]
  have "runs (replace_rules nft b ''forward'' GATEWAY_FWD_TAG forward_specs) k (\<lambda>r k'. \<not> isl r)"
    "runs (replace_rules nft b ''postrouting'' GATEWAY_NAT_TAG [nat_spec config]) k (\<lambda>r k'. \<not> isl r)"
    "runs (replace_rules nft b ''input'' GATEWAY_MGMT_TAG (management_specs config)) k (\<lambda>r k'. \<not> isl r)" for k
    by (rule replace [OF plain_tags(1) chains_valid(1)], rule in_path [of "''forward''"], simp, assumption)
       (rule replace [OF plain_tags(2) chains_valid(2)], rule in_path [of "''postrouting''"], simp, assumption,
        rule replace [OF plain_tags(3) chains_valid(3)], rule in_path [of "''input''"], simp, assumption)
  ultimately show ?thesis
    unfolding apply_datapath_def parts_replace assms(5) misconfigured_def sum.case
    by (intro runs_then_succeeds runs_short_succeeds succeeds_check)
qed

text \<open>Applying a valid configuration succeeds when no command and no write is refused.\<close>

lemma gateway_apply_succeeds:
  assumes "nft_contract rules nft" and "nft_lists_run nft" and "nft_obliges accepts nft"
    and "\<forall>v k. fst (sc_write sc v k) = Inr ()" and "validate_gateway config = Inr ()"
    and "\<forall>(c, specs) \<in> set (datapath config). \<forall>spec \<in> set specs. accepts (render_spec spec)"
  shows "\<exists>res s'. gateway_apply nft sc b config s = Some (Inr res, s') \<and> gr_ok res \<and> gw_applied s' = Some config"
proof -
  have "runs (apply_datapath nft sc b config) (gw_kernel s) (\<lambda>r k'. \<not> isl r)"
    by (rule apply_datapath_succeeds [OF assms(1-3)]) (use assms(4-6) in auto)
  then obtain r k' where r: "apply_datapath nft sc b config (gw_kernel s) = Some (r, k')" "\<not> isl r"
    unfolding runs_def by blast
  then obtain u where "r = Inr u" by (cases r) auto
  then show ?thesis using r by (simp add: gateway_apply_def)
qed

subsection \<open>A machine that behaves as documented\<close>

definition machine_nft :: "(string \<times> ruleset) nft" where
  "machine_nft args m = apsnd (Pair (fst m)) (tiny_nft args (snd m))"

definition machine_rules :: "string \<times> ruleset \<Rightarrow> ruleset" where
  "machine_rules m = tiny_rules (snd m)"

definition machine_sysctl :: "(string \<times> ruleset) sysctl" where
  "machine_sysctl = \<lparr>sc_write = (\<lambda>v m. (Inr (), (v, snd m))), sc_read = (\<lambda>m. Some (fst m))\<rparr>"

lemma machine_adds: "nft_adds machine_rules machine_nft"
  unfolding nft_adds_def
proof (intro allI)
  fix t c ws and m :: "string \<times> ruleset"
  let ?args = "[''add'', ''rule'', ''inet'', t, c] @ ws"
  obtain r k' where "tiny_nft ?args (snd m) = (r, k')" by fastforce
  then show "case machine_nft ?args m of
      (NftExit True out err, m') \<Rightarrow> (\<exists>h. h \<notin> nr_handle ` set (machine_rules m (t, c)) \<and>
        machine_rules m' = (machine_rules m)((t, c) := machine_rules m (t, c) @ [\<lparr>nr_handle = h, nr_words = ws\<rparr>]))
    | (_, m') \<Rightarrow> machine_rules m' = machine_rules m"
    using tiny_adds [unfolded nft_adds_def, THEN spec [of _ t], THEN spec [of _ c], THEN spec [of _ ws], THEN spec [of _ "snd m"]]
    by (simp add: machine_nft_def machine_rules_def split: nft_output.splits bool.splits)
qed

lemma machine_deletes: "nft_deletes machine_rules machine_nft"
  unfolding nft_deletes_def
proof (intro allI)
  fix t c h and m :: "string \<times> ruleset"
  let ?args = "[''delete'', ''rule'', ''inet'', t, c, ''handle'', show_nat h]"
  obtain r k' where "tiny_nft ?args (snd m) = (r, k')" by fastforce
  then show "case machine_nft ?args m of
      (NftExit True out err, m') \<Rightarrow> machine_rules m' = (machine_rules m)((t, c) := filter (\<lambda>r. nr_handle r \<noteq> h) (machine_rules m (t, c)))
    | (_, m') \<Rightarrow> machine_rules m' = machine_rules m"
    using tiny_deletes [unfolded nft_deletes_def, THEN spec [of _ t], THEN spec [of _ c], THEN spec [of _ h], THEN spec [of _ "snd m"]]
    by (simp add: machine_nft_def machine_rules_def split: nft_output.splits bool.splits)
qed

lemma machine_flushes: "nft_flushes machine_rules machine_nft"
  unfolding nft_flushes_def
proof (intro allI)
  fix t c and m :: "string \<times> ruleset"
  let ?args = "[''flush'', ''chain'', ''inet'', t, c]"
  obtain r k' where "tiny_nft ?args (snd m) = (r, k')" by fastforce
  then show "case machine_nft ?args m of
      (NftExit True out err, m') \<Rightarrow> machine_rules m' = (machine_rules m)((t, c) := [])
    | (_, m') \<Rightarrow> machine_rules m' = machine_rules m"
    using tiny_flushes [unfolded nft_flushes_def, THEN spec [of _ t], THEN spec [of _ c], THEN spec [of _ "snd m"]]
    by (simp add: machine_nft_def machine_rules_def split: nft_output.splits bool.splits)
qed

lemma machine_contract: "nft_contract machine_rules machine_nft"
  unfolding nft_contract_def
proof (intro conjI allI)
  show "nft_lists machine_rules machine_nft"
    using tiny_lists unfolding nft_lists_def machine_nft_def machine_rules_def by simp
  show "nft_creates machine_rules machine_nft"
    using tiny_creates unfolding nft_creates_def machine_nft_def machine_rules_def by simp
qed (simp_all add: machine_rules_def tiny_rules_ok machine_adds machine_deletes machine_flushes)

lemma machine_lists_run: "nft_lists_run machine_nft"
  by (simp add: nft_lists_run_def machine_nft_def tiny_nft_def)

lemma machine_sysctl_contract: "sysctl_contract machine_rules machine_nft machine_sysctl"
  by (simp add: sysctl_contract_def machine_rules_def machine_nft_def machine_sysctl_def)

definition sample_gateway :: GatewayConfig where
  "sample_gateway = \<lparr>gc_wan_interface = ''eth1'', gc_lan_interface = ''eth0'', gc_lan_subnet = ''192.168.3.0/24''\<rparr>"

definition gateway_backend :: NftablesBackend where
  "gateway_backend = \<lparr>nb_table_name = ''balansir'', nb_chain_name = ''forward''\<rparr>"

definition idle_gateway :: "(string \<times> ruleset) gateway_state" where
  "idle_gateway = \<lparr>gw_applied = None, gw_kernel = (''0'' @ line_feed, \<lambda>_. [])\<rparr>"

lemma machine_obliges: "nft_obliges (\<lambda>_. True) machine_nft"
  by (simp add: nft_obliges_def machine_nft_def tiny_nft_def Let_def)

lemma sample_valid: "validate_gateway sample_gateway = Inr ()"
  by code_simp

subsection \<open>What the gateway promises\<close>


lemma sample_applied:
  "\<exists>res s'. gateway_apply machine_nft machine_sysctl gateway_backend sample_gateway idle_gateway = Some (Inr res, s') \<and>
     gr_ok res \<and> gw_applied s' = Some sample_gateway"
  by (rule gateway_apply_succeeds [OF machine_contract machine_lists_run machine_obliges _ sample_valid])
     (auto simp: machine_sysctl_def)


lemma words_of_all:
  assumes "other_rules b rs = other_rules b rs0" and "in_place b rs0 (rev (datapath config)) rs"
  shows "map nr_words (rs tc) =
    (case List.find (\<lambda>(c, specs). tc = (nb_table_name b, c)) (datapath config) of
       Some (c, specs) \<Rightarrow> map nr_words (other_rules b rs0 tc) @ map render_spec specs
     | None \<Rightarrow> map nr_words (other_rules b rs0 tc))"
proof (cases "tc \<in> {(nb_table_name b, ''forward''), (nb_table_name b, ''postrouting''), (nb_table_name b, ''input'')}")
  case True
  then show ?thesis using assms(2) by (auto simp: in_place_def datapath_def)
next
  case False
  then have "owner b tc = None" by (simp add: owner_def)
  then have "rs tc = other_rules b rs0 tc" using assms(1) [THEN fun_cong, of tc] by (simp add: other_rules_def)
  then show ?thesis using False by (auto simp: datapath_def)
qed

text \<open>Applying a configuration again changes the rules of no chain.\<close>

lemma gateway_apply_idempotent:
  assumes "nft_contract rules nft" and "nft_lists_run nft" and "sysctl_contract rules nft sc"
    and "gateway_apply nft sc b config s = Some (Inr res1, s1)" and "gateway_apply nft sc b config s1 = Some (Inr res2, s2)"
  shows "map nr_words (rules (gw_kernel s2) tc) = map nr_words (rules (gw_kernel s1) tc)"
proof -
  note app = gateway_apply_runs [OF assms(1-3), of b config, unfolded runs_def]
  have 1: "other_rules b (rules (gw_kernel s1)) = other_rules b (rules (gw_kernel s))"
      "in_place b (rules (gw_kernel s)) (rev (datapath config)) (rules (gw_kernel s1))" using app [of s] assms(4) by auto
  have 2: "other_rules b (rules (gw_kernel s2)) = other_rules b (rules (gw_kernel s1))"
      "in_place b (rules (gw_kernel s1)) (rev (datapath config)) (rules (gw_kernel s2))" using app [of s1] assms(5) by auto
  show ?thesis using words_of_all [OF 1, of tc] words_of_all [OF 2, of tc] 1(1) by (simp split: option.split)
qed


text \<open>A kernel with a rule of the gateway before a rule of someone else.\<close>

definition masqueraded_gateway :: "(string \<times> ruleset) gateway_state" where
  "masqueraded_gateway =
     \<lparr>gw_applied = Some sample_gateway,
      gw_kernel = (''1'' @ line_feed, (\<lambda>_. [])((''balansir'', ''postrouting'') :=
        [\<lparr>nr_handle = 4, nr_words = [''masquerade'', ''comment'', quoted GATEWAY_NAT_TAG]\<rparr>,
         \<lparr>nr_handle = 7, nr_words = [''accept'', ''comment'', quoted ''operator'']\<rparr>]))\<rparr>"

lemma sample_removes:
  "map_option (isl \<circ> fst) (gateway_remove machine_nft machine_sysctl gateway_backend masqueraded_gateway) = Some False"
  "map nr_handle (machine_rules (gw_kernel masqueraded_gateway) (''balansir'', ''postrouting'')) = [4, 7]"
  "map nr_handle (other_rules gateway_backend (machine_rules (gw_kernel masqueraded_gateway)) (''balansir'', ''postrouting'')) = [7]"
  by code_simp+


end
