(* ===== verification/Spec2Isabelle.thy ===== *)
theory Spec2Isabelle
  imports Reconciler VpnPool B4Engine OtaSystem PathDecision HostObserver DnsForward ExecRules GatewaySpec
begin

text \<open>
  BalanSir is a home gateway. A daemon without privileges holds the desired state of the appliance (policy
  rules, DNS, path MTUs, gateway topology) and drives a privileged executor, which alone touches the kernel
  through \<open>nft\<close>, \<open>ip\<close> and files under \<open>/proc\<close>. Beside them run a DPI-bypass engine on a netfilter queue
  (\<open>balansir-b4\<close>), a pool of VPN profiles (\<open>balansir-vpn\<close>), a health tracker (\<open>balansir-health\<close>) and an
  over-the-air installer with two firmware slots (\<open>balansir-ota\<close>). Paths below are relative to
  \<open>src/crates/\<close>; definitions carry the names of the sources, with a prefix or suffix where HOL has the name.

  \<^bold>\<open>Conventions.\<close> \<open>u8\<close> to \<open>u64\<close> are words of that width, \<open>i64\<close> is an integer with its wrap-around written
  out, \<open>usize\<close> is a natural number, \<open>f64\<close> is the rounding of IEEE 754 on the rationals (\<open>F64\<close>). A string
  is the list of its bytes. A \<open>Result\<close> is a sum with the error on the left. A panic is \<open>None\<close> of an outer
  option, and so is a loop that does not return; the forwarder distinguishes the two (\<open>task_run\<close>). A map is a
  HOL map, or an association list where its order shows. The clock, random bytes, sockets, files, external
  programs and third-party crates (TOML, postcard, SHA-256) are parameters; what is assumed of them is a named
  predicate, satisfied by an instance in the witness of each theorem that assumes it.

  \<^bold>\<open>Groundwork.\<close> \<open>Prelude\<close> (integers, iterators, maps), \<open>Text\<close>, \<open>Parse\<close> and \<open>Addr\<close> (strings, numbers
  and IP addresses as text, as the standard library reads and prints them), \<open>Bytes\<close> (buffers whose accesses
  panic out of range), \<open>F64\<close>, \<open>Disk\<close> (files and partitions whose steps succeed, fail or lose power).

  \<^bold>\<open>Interfaces.\<close> What one part may rely on of another is a locale, interpreted on the model of the provider:
  \<open>planner\<close>, \<open>snapshot_store\<close>, \<open>plan_executor\<close>, \<open>domain_registry\<close>, \<open>mtu_executor\<close>, \<open>packet_edit\<close>,
  \<open>stream_classifier\<close>, \<open>ranking\<close>.

  \<^bold>\<open>Control plane.\<close> \<open>Types\<close> is \<open>balansir-common/src/types.rs\<close>; \<open>Plan\<close> is \<open>plan.rs\<close>, \<open>diff.rs\<close> and
  \<open>snapshot.rs\<close> there: executing a plan turns the actual rules into the desired ones. \<open>Control\<close> and
  \<open>Coordinator\<close> are \<open>balansir-control\<close>: one reconciliation cycle with its lock, events, snapshot and rollback.
  \<open>Policy\<close>,
  \<open>Adapters\<close> and \<open>Reconciler\<close> are \<open>balansir-daemon/src/policy\<close> and \<open>reconciliation\<close>: from authored policy
  over resolved domains to executor requests, reconcile, reload, inventory import. Shown: with a faithful
  executor a successful cycle makes the kernel enforce the compiled policy, a failed one restores the earlier
  state, a reload is atomic on the daemon's side, the calls follow the documented order, the compiler agrees with
  its specification.

  \<^bold>\<open>Executor.\<close> \<open>Nft\<close> is \<open>balansir-executor/src/nftables.rs\<close> over the program \<open>nft\<close>, of which
  \<open>nft_contract\<close> states what listing, adding, deleting, flushing and creating do to the rules of a chain;
  \<open>NftInstance\<close> is an instance. \<open>ExecRules\<close> is the rule executor, the interception rules and the port mappings
  of \<open>service.rs\<close>: after any commands each policy has at most one rule, and the answers tell the truth about
  it; a restart breaks this. \<open>Gateway\<close> and \<open>GatewaySpec\<close> are the two \<open>gateway.rs\<close>: applying and removing
  the datapath returns, leaves all other rules alone and puts exactly its own rules in place; its removal loop
  has no bound in the source and is shown to end because every round deletes a tagged rule. \<open>MtuControl\<close> is
  \<open>path_mtu.rs\<close> with the daemon's \<open>b4_engine/controller.rs\<close> and \<open>b4_manager.rs\<close>: applied path MTUs are the
  intended ones.

  \<^bold>\<open>DNS.\<close> \<open>DnsWire\<close> is \<open>balansir-daemon/src/dns_plane.rs\<close>: no message makes it panic, and a well-formed
  answer is recorded so that the name resolves to it. \<open>DnsForward\<close> is \<open>dns.rs\<close>: every reply is an answer to
  the query it replies to, blocked names are not asked for, upstreams fail over, and the SOCKS5 relay panics.

  \<^bold>\<open>Adaptation.\<close> \<open>PathHealth\<close> is \<open>balansir-health\<close> (hysteresis); \<open>Adapt\<close> and \<open>HostObserver\<close> are
  \<open>b4_engine/\<close> (\<open>observe\<close>, \<open>policy\<close>, \<open>config\<close>, \<open>classify\<close>, \<open>state\<close>, \<open>host\<close>): decisions stay within the policy of
  the flow and MTUs between 1280 and 1480; \<open>PathDecision\<close> is \<open>path_decision.rs\<close>. \<open>VpnPool\<close> is
  \<open>balansir-vpn/src/profile.rs\<close> and \<open>pool.rs\<close>: selection takes the best usable profile, failed ones cool down.

  \<^bold>\<open>DPI bypass.\<close> \<open>B4Packet\<close>, \<open>B4Checksum\<close>, \<open>B4Options\<close>, \<open>B4Fragment\<close>, \<open>B4Tls\<close> (\<open>packet.rs\<close>),
  \<open>B4Reassembly\<close>, \<open>B4Geosite\<close>, \<open>B4Sets\<close> (\<open>set.rs\<close>, \<open>strategies.rs\<close>, \<open>config.rs\<close>), \<open>B4Apply\<close>, \<open>B4Queue\<close>
  (\<open>nfqueue.rs\<close>, \<open>nfq.rs\<close>) and \<open>B4Engine\<close> (\<open>engine.rs\<close>) are \<open>balansir-b4/src\<close>. Shown: checksums against RFC
  1071, options and fragments against the bytes they mean, the server name is found in every well-formed
  ClientHello however it is segmented, buffers are bounded, each queued packet gets one verdict, and exactly when
  the engine panics.

  \<^bold>\<open>Installer.\<close> \<open>Ota\<close> and \<open>OtaSystem\<close> are \<open>balansir-ota\<close>: slots, boot metadata, verified installation, and
  the commands in any order with power lost at any step; the running slot is not overwritten and the machine
  always boots, unless a confirmation comes before the reboot.

  \<^bold>\<open>Bounds.\<close> Loops are recursion with a measure; endless loops of tasks are modelled by their step or round and
  properties hold after any number of them. The one fuel is that of the geosite includes, the number of readable
  files plus two, with a theorem that it suffices.

  \<^bold>\<open>Not modelled.\<close> The dispatch of messages in \<open>service.rs\<close>, the framing of \<open>ipc.rs\<close> and the client of the
  executor: they rest on the byte format of the postcard crate, and the reconciler and the executor are proved
  against typed requests instead. Traffic shaping, interfaces, multipath, tailscale and wireless of the executor
  run \<open>tc\<close>, \<open>ip\<close>, \<open>tailscale\<close> and \<open>iw\<close> and mostly read what these print, which no document fixes. Xray and the
  VPN manager generate JSON and supervise processes. The importer of profiles rests on the base64 and URL crates.
  Discovery and probes measure the network. The HTTP interface, the command line, start-up, the image tool, the
  desktop shell and the tests pass values on or run other programs. Concurrency of tasks is not modelled:
  handlers are taken to run one at a time.
\<close>

end
